(* ===== verification/Go_Prelude.thy ===== *)
theory Go_Prelude
  imports Main "HOL-Library.Char_ord" "HOL-Library.List_Lexorder" "HOL-Library.Product_Lexorder"
begin

section \<open>Shared vocabulary of the development\<close>

text \<open>
  The Go conventions every component uses. A Go call that returns \<open>(value, error)\<close> is a value
  of \<open>'e + 'a\<close>: \<open>Inl\<close> carries the error, \<open>Inr\<close> the value. A pointer that may be nil is an
  \<open>option\<close>, a \<open>map\<close> is a partial function, a set written \<open>map[string]struct{}\<close> is a \<open>set\<close>. Go
  strings are byte strings, so \<open>string\<close> (a list of characters in the range 0 to 255) is exact and
  \<open>length\<close> is Go's \<open>len\<close>. The three collections below gather the equations that drive the
  component proofs; the decimal codec at the end is \<open>strconv.FormatInt\<close> and \<open>strconv.ParseInt\<close>
  on natural numbers, which run logs use for cursors and call records for deadlines.
\<close>

named_theorems go_defs \<open>definitions of straight-line operations, unfolded by the component proofs\<close>
named_theorems go_frame \<open>fields and keys an operation leaves alone\<close>
named_theorems go_inv \<open>invariant preservation, one rule per operation\<close>

type_synonym ('e, 'a) result = "'e + 'a"

subsection \<open>Results\<close>

abbreviation is_ok :: "('e, 'a) result \<Rightarrow> bool" where
  "is_ok r \<equiv> \<not> isl r"

lemma result_cases [case_names err ok]:
  assumes "\<And>e. r = Inl e \<Longrightarrow> P" and "\<And>a. r = Inr a \<Longrightarrow> P"
  shows P
  using assms by (cases r) auto

lemma guard_eq_Inr: "(if c then Inl x else r) = Inr a \<longleftrightarrow> \<not> c \<and> r = Inr a"
  by simp

lemma case_result_eq_Inr:
  "(case r of Inl e \<Rightarrow> Inl (f e) | Inr b \<Rightarrow> g b) = Inr a \<longleftrightarrow> (\<exists>b. r = Inr b \<and> g b = Inr a)"
  by (cases r) simp_all

text \<open>A loop that maps every element and stops at the first error.\<close>

fun traverse :: "('a \<Rightarrow> ('e, 'b) result) \<Rightarrow> 'a list \<Rightarrow> ('e, 'b list) result" where
  "traverse f [] = Inr []"
| "traverse f (x # xs) =
     (case f x of
        Inl e \<Rightarrow> Inl e
      | Inr y \<Rightarrow> (case traverse f xs of Inl e \<Rightarrow> Inl e | Inr ys \<Rightarrow> Inr (y # ys)))"

lemma traverse_eq_Inr: "traverse f xs = Inr ys \<longleftrightarrow> list_all2 (\<lambda>x y. f x = Inr y) xs ys"
proof (induction xs arbitrary: ys)
  case (Cons x xs)
  then show ?case by (cases ys) (auto simp: case_result_eq_Inr split: sum.split)
qed auto

lemma traverse_pure: "(\<And>x. x \<in> set xs \<Longrightarrow> f x = Inr (g x)) \<Longrightarrow> traverse f xs = Inr (map g xs)"
  by (induction xs) simp_all

lemma traverse_total: "(\<And>x. x \<in> set xs \<Longrightarrow> \<exists>y. f x = Inr y) \<Longrightarrow> \<exists>ys. traverse f xs = Inr ys"
proof (induction xs)
  case (Cons x xs)
  from Cons.prems [of x] Cons.IH Cons.prems show ?case by fastforce
qed simp

subsection \<open>Lists\<close>

lemma card_set_eq_length_iff: "card (set xs) = length xs \<longleftrightarrow> distinct xs"
  using card_distinct distinct_card by blast

lemma card_set_filter_nonempty:
  "card (set (filter (\<lambda>x. x \<noteq> []) xs)) = length xs \<longleftrightarrow> distinct xs \<and> [] \<notin> set xs"
proof
  assume a: "card (set (filter (\<lambda>x. x \<noteq> []) xs)) = length xs"
  have "length (filter (\<lambda>x. x \<noteq> []) xs) \<ge> length xs"
    using a card_length [of "filter (\<lambda>x. x \<noteq> []) xs"] by simp
  then have len: "length (filter (\<lambda>x. x \<noteq> []) xs) = length xs"
    using length_filter_le [of "\<lambda>x. x \<noteq> []" xs] by simp
  have all: "[] \<notin> set xs"
  proof
    assume "[] \<in> set xs"
    then have "length (filter (\<lambda>x. x \<noteq> []) xs) < length xs"
      using length_filter_less [of "[]" xs "\<lambda>x. x \<noteq> []"] by simp
    with len show False by simp
  qed
  then have "filter (\<lambda>x. x \<noteq> []) xs = xs" by (auto simp: filter_id_conv)
  with a have "distinct xs" by (simp add: card_set_eq_length_iff)
  with all show "distinct xs \<and> [] \<notin> set xs" by auto
next
  assume b: "distinct xs \<and> [] \<notin> set xs"
  then have "filter (\<lambda>x. x \<noteq> []) xs = xs" by (auto simp: filter_id_conv)
  with b show "card (set (filter (\<lambda>x. x \<noteq> []) xs)) = length xs"
    by (simp add: distinct_card)
qed

lemma takeWhile_dropWhile_head:
  "dropWhile P xs = y # ys \<Longrightarrow> \<not> P y"
  by (induction xs) (auto split: if_splits)

lemma takeWhile_group:
  assumes "\<forall>x \<in> set g. P x" and "\<And>y ys. r = y # ys \<Longrightarrow> \<not> P y"
  shows "takeWhile P (g @ r) = g \<and> dropWhile P (g @ r) = r"
  using assms
proof (induction g)
  case Nil
  then show ?case by (cases r) auto
next
  case (Cons a g)
  then show ?case by auto
qed

lemma map_of_filter_values:
  "distinct (map fst al) \<Longrightarrow>
   map_of (filter (\<lambda>(k, v). P v) al) k = (case map_of al k of None \<Rightarrow> None | Some v \<Rightarrow> if P v then Some v else None)"
proof (induction al)
  case (Cons kv al)
  have "map_of (filter (\<lambda>(k, v). P v) al) (fst kv) = None"
    using Cons.prems by (auto simp: map_of_eq_None_iff)
  with Cons show ?case by (cases kv) (auto split: option.splits)
qed simp

lemma distinct_map_fst_filter: "distinct (map fst al) \<Longrightarrow> distinct (map fst (filter P al))"
  by (induction al) auto

subsection \<open>Package strings\<close>

fun strings_join :: "string list \<Rightarrow> string \<Rightarrow> string" where
  "strings_join [] sep = []"
| "strings_join [s] sep = s"
| "strings_join (s # t # ss) sep = s @ sep @ strings_join (t # ss) sep"

fun strings_contains :: "string \<Rightarrow> string \<Rightarrow> bool" where
  "strings_contains [] sub \<longleftrightarrow> sub = []"
| "strings_contains (c # cs) sub \<longleftrightarrow> take (length sub) (c # cs) = sub \<or> strings_contains cs sub"

text \<open>
  \<open>strings.TrimSpace\<close> removes the runes of \<open>unicode.IsSpace\<close> from both ends; \<open>space_runes\<close> lists
  their UTF-8 encodings.
\<close>

definition space_runes :: "string list" where
  "space_runes = map (map char_of)
     ([[9], [10], [11], [12], [13], [32], [194, 133], [194, 160], [225, 154, 128]] @
      map (\<lambda>b. [226, 128, b]) [128, 129, 130, 131, 132, 133, 134, 135, 136, 137, 138, 168, 169, 175] @
      [[226, 129, 159], [227, 128, 128 :: nat]])"

function strip_runes :: "string list \<Rightarrow> string \<Rightarrow> string" where
  "strip_runes rs s =
     (case find (\<lambda>r. r \<noteq> [] \<and> take (length r) s = r) rs of
        None \<Rightarrow> s
      | Some r \<Rightarrow> strip_runes rs (drop (length r) s))"
  by pat_completeness auto
termination
proof (relation "measure (\<lambda>(rs, s). length s)", goal_cases)
  case (2 rs s r)
  then have "r \<noteq> []" "take (length r) s = r" by (auto simp: find_Some_iff)
  then show ?case by (cases s) auto
qed simp

declare strip_runes.simps [simp del]

definition trim_space :: "string \<Rightarrow> string" where
  "trim_space s = rev (strip_runes (map rev space_runes) (rev (strip_runes space_runes s)))"

lemma strip_runes_none:
  assumes "\<forall>r \<in> set rs. r = [] \<or> (of_char (hd r) :: nat) \<noteq> of_char c"
  shows "strip_runes rs (c # s) = c # s"
proof -
  have "find (\<lambda>r. r \<noteq> [] \<and> take (length r) (c # s) = r) rs = None"
    using assms by (auto simp: find_None_iff neq_Nil_conv)
  then show ?thesis by (subst strip_runes.simps) simp
qed

lemma trim_space_Nil [simp]: "trim_space [] = []"
  by (simp add: trim_space_def strip_runes.simps space_runes_def)

text \<open>Texts that start and end with ASCII letters or brackets are trimmed.\<close>

lemma trim_space_id:
  assumes "\<forall>r \<in> set space_runes. r = [] \<or> (of_char (hd r) :: nat) \<noteq> of_char (hd s)"
    "\<forall>r \<in> set space_runes. r = [] \<or> (of_char (last r) :: nat) \<noteq> of_char (last s)"
  shows "trim_space s = s"
proof (cases s)
  case (Cons c t)
  obtain d u where rev: "rev s = d # u" using Cons by (cases "rev s") auto
  then have "last s = d" by (metis hd_rev list.sel(1))
  have "strip_runes space_runes s = s" unfolding Cons
    by (rule strip_runes_none) (use assms(1) Cons in simp)
  moreover have "strip_runes (map rev space_runes) (rev s) = rev s" unfolding rev
    by (rule strip_runes_none) (use assms(2) \<open>last s = d\<close> in \<open>simp add: hd_rev\<close>)
  ultimately show ?thesis by (simp add: trim_space_def)
qed simp

subsection \<open>Decimal numerals\<close>

definition digit_char :: "nat \<Rightarrow> char" where
  "digit_char d = char_of (48 + d)"

definition is_digit :: "char \<Rightarrow> bool" where
  "is_digit c \<longleftrightarrow> 48 \<le> (of_char c :: nat) \<and> (of_char c :: nat) \<le> 57"

fun dec :: "nat \<Rightarrow> string" where
  "dec n = (if n < 10 then [digit_char n] else dec (n div 10) @ [digit_char (n mod 10)])"

declare dec.simps [simp del]

fun undec_from :: "nat \<Rightarrow> string \<Rightarrow> nat option" where
  "undec_from acc [] = Some acc"
| "undec_from acc (c # cs) =
     (if is_digit c then undec_from (10 * acc + (of_char c - 48)) cs else None)"

definition undec :: "string \<Rightarrow> nat option" where
  "undec s = (if s = [] then None else undec_from 0 s)"

lemma of_char_digit [simp]: "d < 10 \<Longrightarrow> (of_char (digit_char d) :: nat) = 48 + d"
  by (simp add: digit_char_def)

lemma is_digit_digit [simp]: "d < 10 \<Longrightarrow> is_digit (digit_char d)"
  by (simp add: is_digit_def)

lemma undec_from_append:
  "undec_from acc (xs @ ys) =
     (case undec_from acc xs of None \<Rightarrow> None | Some a \<Rightarrow> undec_from a ys)"
  by (induction acc xs rule: undec_from.induct) auto

lemma dec_not_Nil [simp]: "dec n \<noteq> []" "[] \<noteq> dec n"
  by (subst dec.simps, simp)+

lemma undec_from_dec: "undec_from 0 (dec n) = Some n"
proof (induction n rule: dec.induct)
  case (1 n)
  show ?case
  proof (cases "n < 10")
    case True
    then show ?thesis by (simp add: dec.simps [of n])
  next
    case False
    with 1 show ?thesis
      by (simp add: dec.simps [of n] undec_from_append)
  qed
qed

lemma undec_dec [simp]: "undec (dec n) = Some n"
  by (simp add: undec_def undec_from_dec)

lemma dec_inject [simp]: "dec m = dec n \<longleftrightarrow> m = n"
  by (metis option.inject undec_dec)

lemma undec_Nil [simp]: "undec [] = None"
  by (simp add: undec_def)

lemma dec_all_digits: "\<forall>c \<in> set (dec n). is_digit c"
proof (induction n rule: dec.induct)
  case (1 n)
  then show ?case by (cases "n < 10") (simp_all add: dec.simps [of n])
qed

lemma dec_no_leading_zero: "hd (dec n) = digit_char 0 \<Longrightarrow> length (dec n) = 1"
proof (induction n rule: dec.induct)
  case (1 n)
  show ?case
  proof (cases "n < 10")
    case True
    then show ?thesis by (simp add: dec.simps [of n])
  next
    case False
    then have hd: "hd (dec n) = hd (dec (n div 10))"
      by (simp add: dec.simps [of n])
    with 1 False have "length (dec (n div 10)) = 1" by simp
    moreover have "dec (n div 10) \<noteq> [digit_char 0]"
    proof
      assume "dec (n div 10) = [digit_char 0]"
      then have "undec (dec (n div 10)) = Some 0" by (simp add: undec_def)
      then have "n div 10 = 0" by simp
      with False show False by simp
    qed
    ultimately have False using hd 1(2)
      by (cases "dec (n div 10)") auto
    then show ?thesis ..
  qed
qed

definition show_int :: "int \<Rightarrow> string" where
  "show_int i = (if i < 0 then CHR ''-'' # dec (nat (- i)) else dec (nat i))"

subsection \<open>Machine integers and slices\<close>

text \<open>
  \<open>int\<close> and \<open>int64\<close> are 64-bit two's complement. Where a sum of caller-supplied values can leave
  the range, the model wraps it. \<open>strconv.ParseInt\<close> in base 10 accepts an optional sign and refuses
  values outside the range. A slice expression \<open>xs[i:j]\<close> on a slice without spare capacity panics,
  here \<open>None\<close>, unless \<open>0 \<le> i \<le> j \<le> len(xs)\<close>.
\<close>

definition wrap64 :: "int \<Rightarrow> int" where
  "wrap64 x = (x + 2 ^ 63) mod 2 ^ 64 - 2 ^ 63"

definition int64_range :: "int \<Rightarrow> bool" where
  "int64_range x \<longleftrightarrow> - (2 ^ 63) \<le> x \<and> x < 2 ^ 63"

lemma wrap64_id [simp]: "int64_range x \<Longrightarrow> wrap64 x = x"
  by (simp add: wrap64_def int64_range_def)

definition parse_int64 :: "string \<Rightarrow> int option" where
  "parse_int64 s =
     (let (neg, ds) = (case s of
            [] \<Rightarrow> (False, [])
          | c # cs \<Rightarrow> if c = CHR ''-'' then (True, cs) else if c = CHR ''+'' then (False, cs) else (False, s))
      in case undec ds of
           None \<Rightarrow> None
         | Some n \<Rightarrow>
             if neg then (if int n \<le> 2 ^ 63 then Some (- int n) else None)
             else (if int n < 2 ^ 63 then Some (int n) else None))"

lemma parse_int64_dec: "int n < 2 ^ 63 \<Longrightarrow> parse_int64 (dec n) = Some (int n)"
proof -
  assume n: "int n < 2 ^ 63"
  obtain c cs where d: "dec n = c # cs" by (cases "dec n") auto
  then have "is_digit c" using dec_all_digits [of n] by simp
  then have "c \<noteq> CHR ''-''" "c \<noteq> CHR ''+''" by (auto simp: is_digit_def)
  with n d undec_dec [of n] show ?thesis by (simp add: parse_int64_def)
qed

definition go_slice :: "'a list \<Rightarrow> int \<Rightarrow> int \<Rightarrow> 'a list option" where
  "go_slice xs i j =
     (if 0 \<le> i \<and> i \<le> j \<and> j \<le> int (length xs)
      then Some (take (nat j - nat i) (drop (nat i) xs)) else None)"

subsection \<open>Sequences of operations\<close>

text \<open>
  A component whose exported methods each hold its mutex (or run as one Redis script) is driven by a
  sequence of atomic operations. \<open>run_ops\<close> executes such a sequence and \<open>legal_ops\<close> says that every
  operation was called in a state its contract allows. The two locales are the contracts the
  components discharge: an invariant every legal operation keeps, and a fact that no legal operation
  revokes. Their lemmas lift both to sequences, for every component at once.
\<close>

fun run_ops :: "('op \<Rightarrow> 's \<Rightarrow> 's) \<Rightarrow> 'op list \<Rightarrow> 's \<Rightarrow> 's" where
  "run_ops exec [] s = s"
| "run_ops exec (op # ops) s = run_ops exec ops (exec op s)"

fun legal_ops :: "('op \<Rightarrow> 's \<Rightarrow> 's) \<Rightarrow> ('op \<Rightarrow> 's \<Rightarrow> bool) \<Rightarrow> 'op list \<Rightarrow> 's \<Rightarrow> bool" where
  "legal_ops exec legal [] s \<longleftrightarrow> True"
| "legal_ops exec legal (op # ops) s \<longleftrightarrow> legal op s \<and> legal_ops exec legal ops (exec op s)"

lemma legal_ops_static:
  "(\<And>op s. op \<in> set ops \<Longrightarrow> legal op s) \<Longrightarrow> legal_ops exec legal ops s"
  by (induction ops arbitrary: s) simp_all

lemma run_ops_append: "run_ops exec (xs @ ys) s = run_ops exec ys (run_ops exec xs s)"
  by (induction xs arbitrary: s) simp_all

lemma legal_ops_append:
  "legal_ops exec legal (xs @ ys) s \<longleftrightarrow>
   legal_ops exec legal xs s \<and> legal_ops exec legal ys (run_ops exec xs s)"
  by (induction xs arbitrary: s) simp_all

lemma legal_ops_weaken:
  "(\<And>op s. legal op s \<Longrightarrow> legal' op s) \<Longrightarrow> legal_ops exec legal ops s \<Longrightarrow> legal_ops exec legal' ops s"
  by (induction ops arbitrary: s) simp_all

locale kept_invariant =
  fixes exec :: "'op \<Rightarrow> 's \<Rightarrow> 's" and legal :: "'op \<Rightarrow> 's \<Rightarrow> bool" and inv :: "'s \<Rightarrow> bool"
  assumes step_keeps: "inv s \<Longrightarrow> legal op s \<Longrightarrow> inv (exec op s)"
begin

lemma ops_keep: "inv s \<Longrightarrow> legal_ops exec legal ops s \<Longrightarrow> inv (run_ops exec ops s)"
  by (induction ops arbitrary: s) (simp_all add: step_keeps)

end

locale stable_fact = kept_invariant +
  fixes fact :: "'k \<Rightarrow> 's \<Rightarrow> bool" and spares :: "'k \<Rightarrow> 'op \<Rightarrow> 's \<Rightarrow> bool"
  assumes step_stable: "inv s \<Longrightarrow> legal op s \<Longrightarrow> spares k op s \<Longrightarrow> fact k s \<Longrightarrow> fact k (exec op s)"
begin

lemma ops_stable:
  "inv s \<Longrightarrow> legal_ops exec (\<lambda>op s. legal op s \<and> spares k op s) ops s \<Longrightarrow> fact k s \<Longrightarrow>
   fact k (run_ops exec ops s)"
  by (induction ops arbitrary: s) (simp_all add: step_keeps step_stable)

end

end
