(* ===== verification/Model_Messages.thy ===== *)
theory Model_Messages
  imports Go_Prelude
begin

section \<open>Provider messages\<close>

text \<open>
  The message model of \<open>runtime/agent/model\<close>: \<open>model.go\<close> declares roles, content parts and
  messages, \<open>clone.go\<close> copies them across ownership boundaries. A \<open>Part\<close> is an interface value,
  so the datatype has one constructor per concrete part type and \<open>NilPart\<close> for the nil interface.
  A transcript is a \<open>[]*Message\<close>: a list of \<open>message option\<close>. Values of type \<open>any\<close> are trees of
  \<open>gvalue\<close>, with one constructor per group of \<open>reflect\<close> kinds \<open>cloneMetadataValue\<close> distinguishes
  and \<open>GNumber\<close> for the string type \<open>json.Number\<close>.
  The model is value based: a copy equals its source, and what the lemmas show is which inputs are
  accepted and that nothing is lost.
\<close>

subsection \<open>Data\<close>

datatype conversation_role =
  RoleSystem | RoleUser | RoleAssistant | RoleOther string

fun role_name :: "conversation_role \<Rightarrow> string" where
  "role_name RoleSystem = ''system''"
| "role_name RoleUser = ''user''"
| "role_name RoleAssistant = ''assistant''"
| "role_name (RoleOther s) = s"

datatype gvalue =
    GNil
  | GBool bool
  | GInt int
  | GString string
  | GNumber string
  | GFloat int int
  | GNonFinite
  | GNilSlice
  | GSlice "gvalue list"
  | GArray "gvalue list"
  | GNilMap
  | GMap "(string \<times> gvalue) list"
  | GBadKeyMap
  | GOpaque string

record document_part =
  doc_name :: string
  doc_format :: string
  doc_bytes :: string
  doc_text :: string
  doc_chunks :: "string list"
  doc_uri :: string
  doc_context :: string
  doc_cite :: bool

record span =
  span_document_index :: int
  span_start :: int
  span_end :: int

record citation_location =
  loc_char :: "span option"
  loc_chunk :: "span option"
  loc_page :: "span option"

record citation =
  cit_title :: string
  cit_source :: string
  cit_location :: citation_location
  cit_source_content :: "string list"

record thinking_part =
  th_text :: string
  th_signature :: string
  th_redacted :: string
  th_index :: int
  th_final :: bool

record tool_use_part =
  tu_id :: string
  tu_name :: string
  tu_input :: string
  tu_thought_signature :: string

record tool_result_part =
  tr_tool_use_id :: string
  tr_content :: gvalue
  tr_is_error :: bool

datatype part =
    TextPart string
  | ImagePart string string
  | DocumentPart document_part
  | CitationsPart string "citation list"
  | ThinkingPart thinking_part
  | ToolUsePart tool_use_part
  | ToolResultPart tool_result_part
  | CacheCheckpointPart
  | NilPart

record message =
  m_role :: conversation_role
  m_parts :: "part list"
  m_meta :: "(string \<times> gvalue) list option"

type_synonym transcript = "message option list"

datatype clone_error =
    MapKeyNotString
  | NotFiniteNumber
  | NotJSONCompatible string
  | PartIsNil
  | MessageIsNil
  | InToolResult string clone_error
  | InMetadata string clone_error
  | InPart nat clone_error
  | InMessage nat clone_error

subsection \<open>Cloning\<close>

fun cloneMetadataValue :: "gvalue \<Rightarrow> (clone_error, gvalue) result"
  and cloneValues :: "gvalue list \<Rightarrow> (clone_error, gvalue list) result"
  and cloneEntries :: "(string \<times> gvalue) list \<Rightarrow> (clone_error, (string \<times> gvalue) list) result"
where
  "cloneMetadataValue GNil = Inr GNil"
| "cloneMetadataValue (GBool b) = Inr (GBool b)"
| "cloneMetadataValue (GInt i) = Inr (GInt i)"
| "cloneMetadataValue (GString s) = Inr (GString s)"
| "cloneMetadataValue (GNumber s) = Inr (GNumber s)"
| "cloneMetadataValue (GFloat m e) = Inr (GFloat m e)"
| "cloneMetadataValue GNonFinite = Inl NotFiniteNumber"
| "cloneMetadataValue GNilSlice = Inr GNilSlice"
| "cloneMetadataValue (GSlice vs) =
     (case cloneValues vs of Inl e \<Rightarrow> Inl e | Inr ws \<Rightarrow> Inr (GSlice ws))"
| "cloneMetadataValue (GArray vs) =
     (case cloneValues vs of Inl e \<Rightarrow> Inl e | Inr ws \<Rightarrow> Inr (GArray ws))"
| "cloneMetadataValue GNilMap = Inr GNilMap"
| "cloneMetadataValue (GMap kvs) =
     (case cloneEntries kvs of Inl e \<Rightarrow> Inl e | Inr ws \<Rightarrow> Inr (GMap ws))"
| "cloneMetadataValue GBadKeyMap = Inl MapKeyNotString"
| "cloneMetadataValue (GOpaque kind) = Inl (NotJSONCompatible kind)"
| "cloneValues [] = Inr []"
| "cloneValues (v # vs) =
     (case cloneMetadataValue v of
        Inl e \<Rightarrow> Inl e
      | Inr w \<Rightarrow> (case cloneValues vs of Inl e \<Rightarrow> Inl e | Inr ws \<Rightarrow> Inr (w # ws)))"
| "cloneEntries [] = Inr []"
| "cloneEntries ((k, v) # kvs) =
     (case cloneMetadataValue v of
        Inl e \<Rightarrow> Inl e
      | Inr w \<Rightarrow> (case cloneEntries kvs of Inl e \<Rightarrow> Inl e | Inr ws \<Rightarrow> Inr ((k, w) # ws)))"

fun cloneMetadata :: "(string \<times> gvalue) list \<Rightarrow> (clone_error, (string \<times> gvalue) list) result" where
  "cloneMetadata [] = Inr []"
| "cloneMetadata ((k, v) # kvs) =
     (case cloneMetadataValue v of
        Inl e \<Rightarrow> Inl (InMetadata k e)
      | Inr w \<Rightarrow> (case cloneMetadata kvs of Inl e \<Rightarrow> Inl e | Inr ws \<Rightarrow> Inr ((k, w) # ws)))"

definition cloneCitationLocation :: "citation_location \<Rightarrow> citation_location" where
  "cloneCitationLocation l =
     l\<lparr>loc_char := (case loc_char l of None \<Rightarrow> None | Some v \<Rightarrow> Some v),
       loc_chunk := (case loc_chunk l of None \<Rightarrow> None | Some v \<Rightarrow> Some v),
       loc_page := (case loc_page l of None \<Rightarrow> None | Some v \<Rightarrow> Some v)\<rparr>"

fun clonePart :: "part \<Rightarrow> (clone_error, part) result" where
  "clonePart (TextPart t) = Inr (TextPart t)"
| "clonePart (ImagePart f b) = Inr (ImagePart f b)"
| "clonePart (DocumentPart d) = Inr (DocumentPart d)"
| "clonePart (CitationsPart t cs) =
     Inr (CitationsPart t (map (\<lambda>c. c\<lparr>cit_location := cloneCitationLocation (cit_location c)\<rparr>) cs))"
| "clonePart (ThinkingPart th) = Inr (ThinkingPart th)"
| "clonePart (ToolUsePart u) = Inr (ToolUsePart u)"
| "clonePart (ToolResultPart r) =
     (case cloneMetadataValue (tr_content r) of
        Inl e \<Rightarrow> Inl (InToolResult (tr_tool_use_id r) e)
      | Inr v \<Rightarrow> Inr (ToolResultPart (r\<lparr>tr_content := v\<rparr>)))"
| "clonePart CacheCheckpointPart = Inr CacheCheckpointPart"
| "clonePart NilPart = Inl PartIsNil"

fun cloneParts :: "nat \<Rightarrow> part list \<Rightarrow> (clone_error, part list) result" where
  "cloneParts i [] = Inr []"
| "cloneParts i (p # ps) =
     (case clonePart p of
        Inl e \<Rightarrow> Inl (InPart i e)
      | Inr q \<Rightarrow> (case cloneParts (Suc i) ps of Inl e \<Rightarrow> Inl e | Inr qs \<Rightarrow> Inr (q # qs)))"

definition cloneMessage :: "message \<Rightarrow> (clone_error, message) result" where
  "cloneMessage m =
     (case cloneParts 0 (m_parts m) of
        Inl e \<Rightarrow> Inl e
      | Inr ps \<Rightarrow>
          (case m_meta m of
             None \<Rightarrow> Inr (m\<lparr>m_parts := ps\<rparr>)
           | Some kvs \<Rightarrow>
               (case cloneMetadata kvs of
                  Inl e \<Rightarrow> Inl e
                | Inr kvs' \<Rightarrow> Inr (m\<lparr>m_parts := ps, m_meta := Some kvs'\<rparr>))))"

fun cloneMessagesFrom :: "nat \<Rightarrow> transcript \<Rightarrow> (clone_error, transcript) result" where
  "cloneMessagesFrom i [] = Inr []"
| "cloneMessagesFrom i (None # ms) = Inl (InMessage i MessageIsNil)"
| "cloneMessagesFrom i (Some m # ms) =
     (case cloneMessage m of
        Inl e \<Rightarrow> Inl (InMessage i e)
      | Inr c \<Rightarrow>
          (case cloneMessagesFrom (Suc i) ms of Inl e \<Rightarrow> Inl e | Inr cs \<Rightarrow> Inr (Some c # cs)))"

definition CloneMessages :: "transcript \<Rightarrow> (clone_error, transcript) result" where
  "CloneMessages ms = cloneMessagesFrom 0 ms"

subsection \<open>What can be cloned\<close>

text \<open>
  \<open>json_value\<close> is the contract the comment on \<open>CloneResponse\<close> states: JSON-compatible scalars,
  slices, arrays and string-keyed maps, all the way down.
\<close>

fun json_value :: "gvalue \<Rightarrow> bool" where
  "json_value (GSlice vs) \<longleftrightarrow> (\<forall>v \<in> set vs. json_value v)"
| "json_value (GArray vs) \<longleftrightarrow> (\<forall>v \<in> set vs. json_value v)"
| "json_value (GMap kvs) \<longleftrightarrow> (\<forall>kv \<in> set kvs. json_value (snd kv))"
| "json_value GNonFinite \<longleftrightarrow> False"
| "json_value GBadKeyMap \<longleftrightarrow> False"
| "json_value (GOpaque k) \<longleftrightarrow> False"
| "json_value v \<longleftrightarrow> True"

fun json_part :: "part \<Rightarrow> bool" where
  "json_part (ToolResultPart r) \<longleftrightarrow> json_value (tr_content r)"
| "json_part NilPart \<longleftrightarrow> False"
| "json_part p \<longleftrightarrow> True"

definition json_message :: "message \<Rightarrow> bool" where
  "json_message m \<longleftrightarrow> list_all json_part (m_parts m) \<and>
     (case m_meta m of None \<Rightarrow> True | Some kvs \<Rightarrow> list_all (\<lambda>kv. json_value (snd kv)) kvs)"

definition json_transcript :: "transcript \<Rightarrow> bool" where
  "json_transcript ms \<longleftrightarrow> list_all (\<lambda>m. case m of None \<Rightarrow> False | Some m \<Rightarrow> json_message m) ms"

lemma clone_values_spec:
  shows "if json_value v then cloneMetadataValue v = Inr v else isl (cloneMetadataValue v)"
    and "if list_all json_value vs then cloneValues vs = Inr vs else isl (cloneValues vs)"
    and "if list_all (\<lambda>kv. json_value (snd kv)) kvs then cloneEntries kvs = Inr kvs
         else isl (cloneEntries kvs)"
  by (induction v and vs and kvs rule: cloneMetadataValue_cloneValues_cloneEntries.induct)
     (auto simp: list_all_iff split: if_splits sum.splits)

lemma cloneMetadata_spec:
  "if list_all (\<lambda>kv. json_value (snd kv)) kvs then cloneMetadata kvs = Inr kvs
   else isl (cloneMetadata kvs)"
proof (induction kvs rule: cloneMetadata.induct)
  case 1
  then show ?case by simp
next
  case (2 k v kvs)
  then show ?case using clone_values_spec(1) [of v] by (auto split: if_splits sum.splits)
qed

lemma cloneCitationLocation_id [simp]: "cloneCitationLocation l = l"
  by (cases l) (simp add: cloneCitationLocation_def split: option.splits)

lemma clonePart_spec: "if json_part p then clonePart p = Inr p else isl (clonePart p)"
proof (cases p)
  case (ToolResultPart r)
  then show ?thesis using clone_values_spec(1) [of "tr_content r"]
    by (auto split: if_splits sum.splits)
qed simp_all

lemma cloneParts_spec:
  "if list_all json_part ps then cloneParts i ps = Inr ps else isl (cloneParts i ps)"
proof (induction i ps rule: cloneParts.induct)
  case 1
  then show ?case by simp
next
  case (2 i p ps)
  then show ?case using clonePart_spec [of p] by (auto split: if_splits sum.splits)
qed

lemma cloneMessage_spec:
  "if json_message m then cloneMessage m = Inr m else isl (cloneMessage m)"
  using cloneParts_spec [of "m_parts m" 0] cloneMetadata_spec [of "the (m_meta m)"]
  by (auto simp: cloneMessage_def json_message_def split: if_splits sum.splits option.splits)

lemma cloneMessagesFrom_spec:
  "if json_transcript ms then cloneMessagesFrom i ms = Inr ms else isl (cloneMessagesFrom i ms)"
proof (induction i ms rule: cloneMessagesFrom.induct)
  case (3 i m ms)
  then show ?case using cloneMessage_spec [of m]
    by (auto simp: json_transcript_def split: if_splits sum.splits)
qed (simp_all add: json_transcript_def)

lemma CloneMessages_ok_iff: "is_ok (CloneMessages ms) \<longleftrightarrow> json_transcript ms"
  using cloneMessagesFrom_spec [of ms 0] by (auto simp: CloneMessages_def split: if_splits)

lemma CloneMessages_id: "CloneMessages ms = Inr out \<Longrightarrow> out = ms"
  using cloneMessagesFrom_spec [of ms 0] by (auto simp: CloneMessages_def split: if_splits)

end
