(* ===== verification/Transcript.thy ===== *)
theory Transcript
  imports Model_Messages
begin

section \<open>Transcript validation\<close>

text \<open>
  \<open>runtime/agent/transcript/validation.go\<close>: the tool-loop contract the runtime checks before it
  resumes planning, and the extra constraint of the Bedrock adapter. \<open>ValidatePlannerTranscript\<close>
  walks an index over the messages; the model walks the suffix at that index and keeps the index
  for the errors. The loops over \<open>useIDs\<close> and \<open>resultIDs\<close> range over Go maps, whose order is
  unspecified, so their errors carry the message index and not the identifier that was met first.

  \<open>well_formed\<close> is the declarative contract (one rule per shape the comment describes), and
  \<open>validate_iff_well_formed\<close> says that the loop decides exactly that contract. The lemmas on
  insertion at the end are what the reminder injection relies on.
\<close>

datatype transcript_error =
    NilMessage nat
  | ResultWithoutUse nat conversation_role
  | UseNotFollowed nat nat
  | UseIDsInvalid nat nat
  | ResultsMissing nat
  | ResultCountMismatch nat nat nat
  | ResultIDsInvalid nat
  | ResultIDMissing nat
  | ResultIDUnmatched nat

subsection \<open>Tool identifiers of a message\<close>

fun toolUseIDs :: "part list \<Rightarrow> nat \<times> string set" where
  "toolUseIDs [] = (0, {})"
| "toolUseIDs (ToolUsePart u # ps) =
     (let (n, ids) = toolUseIDs ps
      in (Suc n, if tu_id u = [] then ids else insert (tu_id u) ids))"
| "toolUseIDs (_ # ps) = toolUseIDs ps"

fun toolResultIDs :: "part list \<Rightarrow> nat \<times> string set" where
  "toolResultIDs [] = (0, {})"
| "toolResultIDs (ToolResultPart r # ps) =
     (let (n, ids) = toolResultIDs ps
      in (Suc n, if tr_tool_use_id r \<noteq> [] then insert (tr_tool_use_id r) ids else ids))"
| "toolResultIDs (_ # ps) = toolResultIDs ps"

definition assistant_message :: "message option \<Rightarrow> bool" where
  "assistant_message m = (case m of None \<Rightarrow> False | Some m \<Rightarrow> m_role m = RoleAssistant)"

definition group_parts :: "transcript \<Rightarrow> part list" where
  "group_parts g = concat (map (\<lambda>m. case m of None \<Rightarrow> [] | Some m \<Rightarrow> m_parts m) g)"

subsection \<open>The validator\<close>

definition check_results :: "nat \<Rightarrow> nat \<Rightarrow> string set \<Rightarrow> message \<Rightarrow> transcript_error option" where
  "check_results nextIndex useCount useIDs next =
     (let (resultCount, resultIDs) = toolResultIDs (m_parts next)
      in if resultCount = 0 then Some (ResultsMissing nextIndex)
         else if resultCount \<noteq> useCount
         then Some (ResultCountMismatch nextIndex useCount resultCount)
         else if card resultIDs \<noteq> resultCount then Some (ResultIDsInvalid nextIndex)
         else if \<not> useIDs \<subseteq> resultIDs then Some (ResultIDMissing nextIndex)
         else if \<not> resultIDs \<subseteq> useIDs then Some (ResultIDUnmatched nextIndex)
         else None)"

function validate_from :: "nat \<Rightarrow> transcript \<Rightarrow> transcript_error option" where
  "validate_from i [] = None"
| "validate_from i (None # rest) = Some (NilMessage i)"
| "validate_from i (Some msg # rest) =
     (if m_role msg \<noteq> RoleAssistant then
        (if fst (toolResultIDs (m_parts msg)) > 0
         then Some (ResultWithoutUse i (m_role msg))
         else validate_from (Suc i) rest)
      else
        (let g = takeWhile assistant_message (Some msg # rest);
             after = dropWhile assistant_message (Some msg # rest);
             groupEnd = i + length g;
             (useCount, useIDs) = toolUseIDs (group_parts g)
         in if useCount = 0 then validate_from groupEnd after
            else case after of
                   [] \<Rightarrow> Some (UseNotFollowed i groupEnd)
                 | None # _ \<Rightarrow> Some (UseNotFollowed i groupEnd)
                 | Some next # after' \<Rightarrow>
                     (if m_role next \<noteq> RoleUser then Some (UseNotFollowed i groupEnd)
                      else if card useIDs \<noteq> useCount then Some (UseIDsInvalid i groupEnd)
                      else case check_results groupEnd useCount useIDs next of
                             Some e \<Rightarrow> Some e
                           | None \<Rightarrow> validate_from (Suc groupEnd) after')))"
  by pat_completeness auto
termination
proof (relation "measure (\<lambda>(i, ms). length ms)", goal_cases)
  case (3 i msg rest x y z xa ya)
  then show ?case by (simp add: assistant_message_def) (meson le_imp_less_Suc length_dropWhile_le)
next
  case (4 i msg rest g after groupEnd p useCount useIDs m after' nxt)
  then have "length (dropWhile assistant_message rest) = Suc (length after')"
    by (auto simp: assistant_message_def dest: arg_cong [where f = length])
  moreover have "length (dropWhile assistant_message rest) \<le> length rest"
    by (rule length_dropWhile_le)
  ultimately show ?case by simp
qed simp_all

declare validate_from.simps(3) [simp del]

definition ValidatePlannerTranscript :: "transcript \<Rightarrow> transcript_error option" where
  "ValidatePlannerTranscript messages = validate_from 0 messages"

subsection \<open>Bedrock representability\<close>

definition is_tool_use :: "part \<Rightarrow> bool" where
  "is_tool_use p = (case p of ToolUsePart _ \<Rightarrow> True | _ \<Rightarrow> False)"

definition messageHasToolUse :: "message option \<Rightarrow> bool" where
  "messageHasToolUse m = (case m of None \<Rightarrow> False | Some m \<Rightarrow> list_ex is_tool_use (m_parts m))"

fun part_type_name :: "part \<Rightarrow> string" where
  "part_type_name (ThinkingPart _) = ''thinking''"
| "part_type_name (TextPart _) = ''text''"
| "part_type_name (CitationsPart _ _) = ''citations''"
| "part_type_name (ToolUsePart _) = ''tool_use''"
| "part_type_name (ToolResultPart _) = ''tool_result''"
| "part_type_name (ImagePart _ _) = ''model.ImagePart''"
| "part_type_name (DocumentPart _) = ''model.DocumentPart''"
| "part_type_name CacheCheckpointPart = ''model.CacheCheckpointPart''"
| "part_type_name NilPart = ''<nil>''"

definition summarizeParts :: "part list \<Rightarrow> string" where
  "summarizeParts ps = ''['' @ strings_join (map part_type_name ps) '', '' @ '']''"

datatype bedrock_error =
    BedrockEmptyMessage nat
  | BedrockToolUseWithoutThinking nat string

fun bedrock_from :: "nat \<Rightarrow> transcript \<Rightarrow> bedrock_error option" where
  "bedrock_from i [] = None"
| "bedrock_from i (msg # rest) =
     (if \<not> assistant_message msg \<or> \<not> messageHasToolUse msg then bedrock_from (Suc i) rest
      else case m_parts (the msg) of
             [] \<Rightarrow> Some (BedrockEmptyMessage i)
           | ThinkingPart _ # _ \<Rightarrow> bedrock_from (Suc i) rest
           | ps \<Rightarrow> Some (BedrockToolUseWithoutThinking i (summarizeParts ps)))"

definition ValidateBedrock :: "transcript \<Rightarrow> bool \<Rightarrow> bedrock_error option" where
  "ValidateBedrock messages thinkingEnabled =
     (if \<not> thinkingEnabled then None else bedrock_from 0 messages)"

subsection \<open>The contract, declaratively\<close>

fun use_ids :: "part list \<Rightarrow> string list" where
  "use_ids [] = []"
| "use_ids (ToolUsePart u # ps) = tu_id u # use_ids ps"
| "use_ids (_ # ps) = use_ids ps"

fun result_ids :: "part list \<Rightarrow> string list" where
  "result_ids [] = []"
| "result_ids (ToolResultPart r # ps) = tr_tool_use_id r # result_ids ps"
| "result_ids (_ # ps) = result_ids ps"

lemma toolUseIDs_eq:
  "toolUseIDs ps = (length (use_ids ps), set (filter (\<lambda>x. x \<noteq> []) (use_ids ps)))"
  by (induction ps rule: toolUseIDs.induct) auto

lemma toolResultIDs_eq:
  "toolResultIDs ps = (length (result_ids ps), set (filter (\<lambda>x. x \<noteq> []) (result_ids ps)))"
  by (induction ps rule: toolResultIDs.induct) auto

lemma use_ids_append [simp]: "use_ids (xs @ ys) = use_ids xs @ use_ids ys"
  by (induction xs rule: use_ids.induct) auto

lemma result_ids_append [simp]: "result_ids (xs @ ys) = result_ids xs @ result_ids ys"
  by (induction xs rule: result_ids.induct) auto

text \<open>
  A transcript is well formed when it is a sequence of non-assistant messages without tool
  results, of assistant responses that call no tool, and of exchanges: a maximal run of assistant
  messages whose tool calls have distinct non-empty identifiers, followed by one user message that
  answers each of them exactly once.
\<close>

inductive well_formed :: "transcript \<Rightarrow> bool" where
  wf_end: "well_formed []"
| wf_other: "m_role m \<noteq> RoleAssistant \<Longrightarrow> result_ids (m_parts m) = [] \<Longrightarrow> well_formed rest \<Longrightarrow>
     well_formed (Some m # rest)"
| wf_quiet: "g \<noteq> [] \<Longrightarrow> list_all assistant_message g \<Longrightarrow> use_ids (group_parts g) = [] \<Longrightarrow>
     rest = [] \<or> \<not> assistant_message (hd rest) \<Longrightarrow> well_formed rest \<Longrightarrow> well_formed (g @ rest)"
| wf_exchange: "g \<noteq> [] \<Longrightarrow> list_all assistant_message g \<Longrightarrow> use_ids (group_parts g) \<noteq> [] \<Longrightarrow>
     distinct (use_ids (group_parts g)) \<Longrightarrow> [] \<notin> set (use_ids (group_parts g)) \<Longrightarrow>
     m_role u = RoleUser \<Longrightarrow> distinct (result_ids (m_parts u)) \<Longrightarrow>
     set (result_ids (m_parts u)) = set (use_ids (group_parts g)) \<Longrightarrow> well_formed rest \<Longrightarrow>
     well_formed (g @ Some u # rest)"

lemma assistant_message_Some [simp]:
  "assistant_message (Some m) \<longleftrightarrow> m_role m = RoleAssistant"
  "\<not> assistant_message None"
  by (simp_all add: assistant_message_def)

lemma check_results_None_iff:
  assumes "uses \<noteq> []" "distinct uses" "[] \<notin> set uses"
  shows "check_results j (length uses) (set (filter (\<lambda>x. x \<noteq> []) uses)) u = None \<longleftrightarrow>
         distinct (result_ids (m_parts u)) \<and> set (result_ids (m_parts u)) = set uses"
proof -
  let ?rs = "result_ids (m_parts u)"
  have uses: "filter (\<lambda>x. x \<noteq> []) uses = uses"
    using assms(3) by (auto simp: filter_id_conv)
  have ids: "card (set (filter (\<lambda>x. x \<noteq> []) ?rs)) = length ?rs \<longleftrightarrow>
             distinct ?rs \<and> [] \<notin> set ?rs"
    by (rule card_set_filter_nonempty)
  show ?thesis
  proof
    assume "check_results j (length uses) (set (filter (\<lambda>x. x \<noteq> []) uses)) u = None"
    then have "card (set (filter (\<lambda>x. x \<noteq> []) ?rs)) = length ?rs"
      and sub: "set uses = set (filter (\<lambda>x. x \<noteq> []) ?rs)"
      by (auto simp: check_results_def toolResultIDs_eq uses split: if_splits)
    with ids have "distinct ?rs" "filter (\<lambda>x. x \<noteq> []) ?rs = ?rs"
      by (auto simp: filter_id_conv)
    with sub show "distinct ?rs \<and> set ?rs = set uses" by simp
  next
    assume a: "distinct ?rs \<and> set ?rs = set uses"
    then have len: "length ?rs = length uses"
      using assms(2) by (metis distinct_card)
    from a assms(3) have rs: "filter (\<lambda>x. x \<noteq> []) ?rs = ?rs"
      by (metis (mono_tags, lifting) filter_True)
    have "card (set ?rs) = length ?rs" using a distinct_card by blast
    then show "check_results j (length uses) (set (filter (\<lambda>x. x \<noteq> []) uses)) u = None"
      using a len assms(1) unfolding check_results_def toolResultIDs_eq Let_def prod.case uses rs
      by simp
  qed
qed

lemma split_at_group:
  assumes "list_all assistant_message g" "rest = [] \<or> \<not> assistant_message (hd rest)"
  shows "takeWhile assistant_message (g @ rest) = g"
    and "dropWhile assistant_message (g @ rest) = rest"
proof -
  have "\<not> assistant_message y" if "rest = y # ys" for y ys
    using assms(2) that by auto
  then have "takeWhile assistant_message (g @ rest) = g \<and> dropWhile assistant_message (g @ rest) = rest"
    using assms(1) by (intro takeWhile_group) (auto simp: list_all_iff)
  then show "takeWhile assistant_message (g @ rest) = g"
    and "dropWhile assistant_message (g @ rest) = rest" by auto
qed

text \<open>One step of the loop on an assistant group, once the group is split off.\<close>

lemma validate_from_group:
  assumes "g \<noteq> []" "list_all assistant_message g" "rest = [] \<or> \<not> assistant_message (hd rest)"
  shows "validate_from i (g @ rest) =
     (if use_ids (group_parts g) = [] then validate_from (i + length g) rest
      else case rest of
             [] \<Rightarrow> Some (UseNotFollowed i (i + length g))
           | None # _ \<Rightarrow> Some (UseNotFollowed i (i + length g))
           | Some u # rest' \<Rightarrow>
               (if m_role u \<noteq> RoleUser then Some (UseNotFollowed i (i + length g))
                else if \<not> (distinct (use_ids (group_parts g)) \<and> [] \<notin> set (use_ids (group_parts g)))
                then Some (UseIDsInvalid i (i + length g))
                else case check_results (i + length g) (length (use_ids (group_parts g)))
                            (set (filter (\<lambda>x. x \<noteq> []) (use_ids (group_parts g)))) u of
                       Some e \<Rightarrow> Some e
                     | None \<Rightarrow> validate_from (Suc (i + length g)) rest'))"
proof -
  obtain m g' where g: "g = Some m # g'" "m_role m = RoleAssistant"
    using assms(1,2) by (cases g) (auto simp: assistant_message_def split: option.splits)
  have tw: "takeWhile assistant_message (Some m # g' @ rest) = g"
    and dw: "dropWhile assistant_message (Some m # g' @ rest) = rest"
    using split_at_group [OF assms(2,3)] g(1) by auto
  have "validate_from i (g @ rest) = validate_from i (Some m # (g' @ rest))" by (simp add: g(1))
  also have "\<dots> = (if use_ids (group_parts g) = [] then validate_from (i + length g) rest
      else case rest of
             [] \<Rightarrow> Some (UseNotFollowed i (i + length g))
           | None # _ \<Rightarrow> Some (UseNotFollowed i (i + length g))
           | Some u # rest' \<Rightarrow>
               (if m_role u \<noteq> RoleUser then Some (UseNotFollowed i (i + length g))
                else if \<not> (distinct (use_ids (group_parts g)) \<and> [] \<notin> set (use_ids (group_parts g)))
                then Some (UseIDsInvalid i (i + length g))
                else case check_results (i + length g) (length (use_ids (group_parts g)))
                            (set (filter (\<lambda>x. x \<noteq> []) (use_ids (group_parts g)))) u of
                       Some e \<Rightarrow> Some e
                     | None \<Rightarrow> validate_from (Suc (i + length g)) rest'))"
    unfolding validate_from.simps(3) tw dw toolUseIDs_eq Let_def prod.case card_set_filter_nonempty
    by (simp add: g(2))
  finally show ?thesis .
qed

lemma well_formed_validates: "well_formed ms \<Longrightarrow> validate_from i ms = None"
proof (induction arbitrary: i rule: well_formed.induct)
  case (wf_other m rest)
  then show ?case by (simp add: validate_from.simps(3) toolResultIDs_eq)
next
  case (wf_quiet g rest)
  then show ?case by (simp add: validate_from_group)
next
  case (wf_exchange g u rest)
  then have "check_results (i + length g) (length (use_ids (group_parts g)))
      (set (filter (\<lambda>x. x \<noteq> []) (use_ids (group_parts g)))) u = None"
    using check_results_None_iff [of "use_ids (group_parts g)" "i + length g" u] by blast
  with wf_exchange show ?case
    by (simp add: validate_from_group del: set_filter)
qed simp

lemma validated_group:
  assumes "g \<noteq> []" "list_all assistant_message g" "rest = [] \<or> \<not> assistant_message (hd rest)"
    and v: "validate_from i (g @ rest) = None"
    and IH: "\<And>j ms. length ms \<le> length rest \<Longrightarrow> validate_from j ms = None \<Longrightarrow> well_formed ms"
  shows "well_formed (g @ rest)"
proof (cases "use_ids (group_parts g) = []")
  case True
  with v assms(1-3) have "validate_from (i + length g) rest = None"
    by (simp add: validate_from_group)
  then have "well_formed rest" using IH by simp
  then show ?thesis using True assms(1-3) by (intro wf_quiet)
next
  case False
  let ?uses = "use_ids (group_parts g)"
  obtain u rest' where r: "rest = Some u # rest'" and u: "m_role u = RoleUser"
    and d: "distinct ?uses" "[] \<notin> set ?uses"
    and chk: "check_results (i + length g) (length ?uses) (set (filter (\<lambda>x. x \<noteq> []) ?uses)) u = None"
    and tl: "validate_from (Suc (i + length g)) rest' = None"
    using v False assms(1-3)
    by (auto simp: validate_from_group split: list.splits option.splits if_splits)
  from chk have "distinct (result_ids (m_parts u)) \<and> set (result_ids (m_parts u)) = set ?uses"
    using check_results_None_iff [OF False d] by simp
  moreover have "well_formed rest'" using IH tl r by simp
  ultimately show ?thesis using r u d False assms(1,2) by (auto intro: wf_exchange)
qed

lemma validates_well_formed: "validate_from i ms = None \<Longrightarrow> well_formed ms"
proof (induction ms arbitrary: i rule: length_induct)
  case (1 ms)
  then have IH: "well_formed xs" if "length xs < length ms" "validate_from j xs = None" for j xs
    using that by blast
  show ?case
  proof (cases ms)
    case Nil
    then show ?thesis by (simp add: wf_end)
  next
    case (Cons x rest)
    with 1 obtain m where x: "x = Some m" by (cases x) auto
    show ?thesis
    proof (cases "m_role m = RoleAssistant")
      case False
      with 1(2) Cons x have "result_ids (m_parts m) = []" "validate_from (Suc i) rest = None"
        by (auto simp: validate_from.simps(3) toolResultIDs_eq split: if_splits)
      then show ?thesis using IH False Cons x by (auto intro: wf_other)
    next
      case True
      let ?g = "takeWhile assistant_message ms" and ?r = "dropWhile assistant_message ms"
      have g: "?g \<noteq> []" using Cons x True by simp
      have "length ?g + length ?r = length ms" by (metis length_append takeWhile_dropWhile_id)
      with g have lt: "length ?r < length ms" by (cases ?g) auto
      have "well_formed (?g @ ?r)"
      proof (rule validated_group)
        show "list_all assistant_message ?g" by (auto simp: list_all_iff dest: set_takeWhileD)
        show "?r = [] \<or> \<not> assistant_message (hd ?r)" using hd_dropWhile by blast
        show "validate_from i (?g @ ?r) = None" using 1(2) by simp
      qed (use g IH lt in auto)
      then show ?thesis by simp
    qed
  qed
qed

lemma validate_iff_well_formed: "ValidatePlannerTranscript ms = None \<longleftrightarrow> well_formed ms"
  using well_formed_validates validates_well_formed
  by (auto simp: ValidatePlannerTranscript_def)

subsection \<open>Inserting a system message\<close>

text \<open>
  A message without tool results that no assistant wrote can be inserted next to a user message
  without breaking an exchange: before it when it answers no call, after it in every case.
\<close>

abbreviation plain :: "message \<Rightarrow> bool" where
  "plain m \<equiv> m_role m \<noteq> RoleAssistant \<and> result_ids (m_parts m) = []"

lemma group_prefix:
  assumes "g @ r = xs @ Some u # ys" "list_all assistant_message g" "m_role u \<noteq> RoleAssistant"
  obtains xs' where "xs = g @ xs'" "r = xs' @ Some u # ys"
proof -
  from assms(1) consider zs where "xs = g @ zs" "r = zs @ Some u # ys"
    | zs where "g = xs @ zs" "zs @ r = Some u # ys"
    by (auto simp: append_eq_append_conv2)
  then show ?thesis
  proof cases
    case 1
    then show ?thesis by (rule that)
  next
    case (2 zs)
    with assms(2,3) have "zs = []" by (cases zs) (auto simp: list_all_iff)
    with 2 show ?thesis using that [of "[]"] by simp
  qed
qed

lemma hd_insert_plain:
  "xs @ Some u # ys = [] \<or> \<not> assistant_message (hd (xs @ Some u # ys)) \<Longrightarrow>
   m_role s \<noteq> RoleAssistant \<Longrightarrow>
   xs @ Some s # zs = [] \<or> \<not> assistant_message (hd (xs @ Some s # zs))"
  by (cases xs) auto

lemma well_formed_insert_before:
  assumes "well_formed (xs @ Some u # ys)" "plain u" "plain s"
  shows "well_formed (xs @ Some s # Some u # ys)"
  using assms(1)
proof (induction "xs @ Some u # ys" arbitrary: xs rule: well_formed.induct)
  case wf_end
  then show ?case by simp
next
  case (wf_other m rest)
  show ?case
  proof (cases xs)
    case Nil
    with wf_other have "well_formed (Some u # ys)"
      by (metis append_Nil list.inject well_formed.wf_other)
    then show ?thesis using Nil assms(3) by (auto intro: well_formed.wf_other)
  next
    case (Cons x xs')
    with wf_other have "x = Some m" "rest = xs' @ Some u # ys" by auto
    then show ?thesis using wf_other Cons by (auto intro: well_formed.wf_other)
  qed
next
  case (wf_quiet g rest)
  with assms(2) obtain xs' where x: "xs = g @ xs'" "rest = xs' @ Some u # ys"
    by (blast elim: group_prefix)
  then have "well_formed (xs' @ Some s # Some u # ys)" using wf_quiet by simp
  moreover have "xs' @ Some s # Some u # ys = [] \<or>
      \<not> assistant_message (hd (xs' @ Some s # Some u # ys))"
    using wf_quiet(4) x assms(3) hd_insert_plain by blast
  ultimately have "well_formed (g @ xs' @ Some s # Some u # ys)"
    using wf_quiet(1,2,3) by (blast intro: well_formed.wf_quiet)
  then show ?case using x by simp
next
  case (wf_exchange g v rest)
  with assms(2) obtain xs' where x: "xs = g @ xs'" "Some v # rest = xs' @ Some u # ys"
    by (blast elim: group_prefix)
  with wf_exchange assms(2) obtain xs'' where x': "xs' = Some v # xs''" "rest = xs'' @ Some u # ys"
    by (cases xs') auto
  then have "well_formed (xs'' @ Some s # Some u # ys)" using wf_exchange by simp
  then have "well_formed (g @ Some v # xs'' @ Some s # Some u # ys)"
    using wf_exchange(1-8) by (blast intro: well_formed.wf_exchange)
  then show ?case using x x' by simp
qed

lemma well_formed_insert_after:
  assumes "well_formed (xs @ Some u # ys)" "m_role u \<noteq> RoleAssistant" "plain s"
  shows "well_formed (xs @ Some u # Some s # ys)"
  using assms(1)
proof (induction "xs @ Some u # ys" arbitrary: xs rule: well_formed.induct)
  case wf_end
  then show ?case by simp
next
  case (wf_other m rest)
  show ?case
  proof (cases xs)
    case Nil
    with wf_other assms(3) have "well_formed (Some s # ys)"
      by (auto intro: well_formed.wf_other)
    with Nil wf_other show ?thesis by (auto intro: well_formed.wf_other)
  next
    case (Cons x xs')
    with wf_other have "x = Some m" "rest = xs' @ Some u # ys" by auto
    then show ?thesis using wf_other Cons by (auto intro: well_formed.wf_other)
  qed
next
  case (wf_quiet g rest)
  with assms(2) obtain xs' where x: "xs = g @ xs'" "rest = xs' @ Some u # ys"
    by (blast elim: group_prefix)
  then have "well_formed (xs' @ Some u # Some s # ys)" using wf_quiet by simp
  moreover have "xs' @ Some u # Some s # ys = [] \<or>
      \<not> assistant_message (hd (xs' @ Some u # Some s # ys))"
    using wf_quiet(4) x assms(2) hd_insert_plain by blast
  ultimately have "well_formed (g @ xs' @ Some u # Some s # ys)"
    using wf_quiet(1,2,3) by (blast intro: well_formed.wf_quiet)
  then show ?case using x by simp
next
  case (wf_exchange g v rest)
  with assms(2) obtain xs' where x: "xs = g @ xs'" "Some v # rest = xs' @ Some u # ys"
    by (blast elim: group_prefix)
  show ?case
  proof (cases xs')
    case Nil
    with x wf_exchange have v: "v = u" "rest = ys" by auto
    have "well_formed (Some s # rest)" using wf_exchange assms(3) by (auto intro: well_formed.wf_other)
    then have "well_formed (g @ Some v # Some s # rest)"
      using wf_exchange(1-8) by (blast intro: well_formed.wf_exchange)
    then show ?thesis using x Nil v by simp
  next
    case (Cons y xs'')
    with x have x': "y = Some v" "rest = xs'' @ Some u # ys" by auto
    then have "well_formed (xs'' @ Some u # Some s # ys)" using wf_exchange by simp
    then have "well_formed (g @ Some v # xs'' @ Some u # Some s # ys)"
      using wf_exchange(1-8) by (blast intro: well_formed.wf_exchange)
    then show ?thesis using x x' Cons by simp
  qed
qed

lemma well_formed_snoc:
  assumes "well_formed xs" "plain s"
  shows "well_formed (xs @ [Some s])"
  using assms(1)
proof (induction rule: well_formed.induct)
  case wf_end
  then show ?case using assms(2) by (auto intro: well_formed.intros)
next
  case (wf_other m rest)
  then show ?case by (auto intro: well_formed.wf_other)
next
  case (wf_quiet g rest)
  then have "rest @ [Some s] = [] \<or> \<not> assistant_message (hd (rest @ [Some s]))"
    using assms(2) by (auto simp: hd_append)
  then have "well_formed (g @ rest @ [Some s])"
    using wf_quiet(1-3) wf_quiet.IH by (blast intro: well_formed.wf_quiet)
  then show ?case by simp
next
  case (wf_exchange g u rest)
  then have "well_formed (g @ Some u # rest @ [Some s])"
    using wf_exchange(1-8) by (blast intro: well_formed.wf_exchange)
  then show ?case by simp
qed

lemma well_formed_swap_head:
  assumes "well_formed (Some m # rest)" "plain m" "plain m'"
  shows "well_formed (Some m' # rest)"
proof -
  from assms(1) have "well_formed rest"
  proof (cases rule: well_formed.cases)
    case wf_other
    then show ?thesis by simp
  next
    case (wf_quiet g rest'')
    with assms(2) show ?thesis by (cases g) auto
  next
    case (wf_exchange g u rest'')
    with assms(2) show ?thesis by (cases g) auto
  qed
  with assms(3) show ?thesis by (auto intro: well_formed.wf_other)
qed

lemma well_formed_no_None: "well_formed ms \<Longrightarrow> None \<notin> set ms"
  by (induction rule: well_formed.induct) (auto simp: list_all_iff)

end
