(* ===== verification/Reminder.thy ===== *)
theory Reminder
  imports Transcript "HOL-Library.AList" "HOL-Library.Multiset"
begin

section \<open>Run-scoped reminders\<close>

text \<open>
  \<open>runtime/agent/reminder\<close>: \<open>reminder.go\<close> declares the data, \<open>engine.go\<close> keeps the per-run
  counters and decides what each planner turn emits, \<open>inject.go\<close> puts the emitted reminders into
  the transcript. Every exported method of \<open>Engine\<close> holds the engine's mutex for its whole body, so
  each is one atomic operation on the state. \<open>rs.reminders\<close> is a Go map the engine iterates: it is
  an association list, whose order stands for the unspecified iteration order, and
  \<open>Snapshot_order_independent\<close> shows that the order does not reach the caller. Counters are Go
  \<open>int\<close>s that grow by one per turn and are kept unbounded.
\<close>

subsection \<open>Data\<close>

type_synonym tier = int

definition TierSafety :: tier where "TierSafety = 0"
definition TierGuidance :: tier where "TierGuidance = 1"

datatype attachment_kind = AttachmentRunStart | AttachmentUserTurn | AttachmentOther string

record attachment =
  att_kind :: attachment_kind
  att_tool :: string

record reminder =
  r_id :: string
  r_text :: string
  r_priority :: tier
  r_attachment :: attachment
  r_max_per_run :: int
  r_min_turns_between :: int

record reminder_state =
  st_reminder :: reminder
  st_emitted :: int
  st_last_turn :: int

record run_state =
  rs_reminders :: "(string \<times> reminder_state) list"
  rs_turn_seq :: int

type_synonym engine = "string \<rightharpoonup> run_state"

definition NewEngine :: engine where
  "NewEngine = Map.empty"

subsection \<open>Engine operations\<close>

definition ensureRunLocked :: "engine \<Rightarrow> string \<Rightarrow> run_state" where
  "ensureRunLocked e runID =
     (case e runID of Some rs \<Rightarrow> rs | None \<Rightarrow> \<lparr>rs_reminders = [], rs_turn_seq = 0\<rparr>)"

definition AddReminder :: "engine \<Rightarrow> string \<Rightarrow> reminder \<Rightarrow> engine" where
  "AddReminder e runID r =
     (if runID = [] \<or> r_id r = [] \<or> r_text r = [] then e
      else
        (let rs = ensureRunLocked e runID;
             st = (case map_of (rs_reminders rs) (r_id r) of
                     Some st \<Rightarrow> st\<lparr>st_reminder := r\<rparr>
                   | None \<Rightarrow> \<lparr>st_reminder = r, st_emitted = 0, st_last_turn = 0\<rparr>)
         in e(runID \<mapsto> rs\<lparr>rs_reminders := AList.update (r_id r) st (rs_reminders rs)\<rparr>)))"

definition RemoveReminder :: "engine \<Rightarrow> string \<Rightarrow> string \<Rightarrow> engine" where
  "RemoveReminder e runID rid =
     (if runID = [] \<or> rid = [] then e
      else case e runID of
             None \<Rightarrow> e
           | Some rs \<Rightarrow> e(runID \<mapsto> rs\<lparr>rs_reminders := AList.delete rid (rs_reminders rs)\<rparr>))"

definition shouldEmit :: "reminder_state \<Rightarrow> int \<Rightarrow> bool" where
  "shouldEmit st turn =
     (let r = st_reminder st
      in if r_max_per_run r > 0 \<and> st_emitted st \<ge> r_max_per_run r \<and> r_priority r \<noteq> TierSafety
         then False
         else if r_min_turns_between r > 0 \<and> st_last_turn st > 0 \<and>
                 turn - st_last_turn st \<ge> 0 \<and> turn - st_last_turn st < r_min_turns_between r
         then False
         else True)"

definition emit :: "int \<Rightarrow> reminder_state \<Rightarrow> reminder_state" where
  "emit turn st =
     (if shouldEmit st turn
      then st\<lparr>st_emitted := st_emitted st + 1, st_last_turn := turn\<rparr> else st)"

definition Snapshot :: "engine \<Rightarrow> string \<Rightarrow> engine \<times> reminder list" where
  "Snapshot e runID =
     (if runID = [] then (e, [])
      else case e runID of
             None \<Rightarrow> (e, [])
           | Some rs \<Rightarrow>
               if rs_reminders rs = [] then (e, [])
               else
                 (let turn = rs_turn_seq rs + 1;
                      out = map (st_reminder \<circ> snd)
                              (filter (\<lambda>kv. shouldEmit (snd kv) turn) (rs_reminders rs));
                      rs' = rs\<lparr>rs_turn_seq := turn,
                               rs_reminders := map (\<lambda>kv. (fst kv, emit turn (snd kv))) (rs_reminders rs)\<rparr>
                  in (e(runID \<mapsto> rs'), sort_key (\<lambda>r. (r_priority r, r_id r)) out)))"

definition ClearRun :: "engine \<Rightarrow> string \<Rightarrow> engine" where
  "ClearRun e runID = (if runID = [] then e else e(runID := None))"

subsection \<open>Injection\<close>

definition formatReminderText :: "reminder \<Rightarrow> string" where
  "formatReminderText r =
     (let t = trim_space (r_text r)
      in if t = [] then []
         else if strings_contains t ''<system-reminder>'' then t
         else ''<system-reminder>'' @ t @ ''</system-reminder>'')"

fun combineTextFrom :: "string \<Rightarrow> reminder list \<Rightarrow> string" where
  "combineTextFrom out [] = out"
| "combineTextFrom out (r # rs) =
     (let t = formatReminderText r
      in if t = [] then combineTextFrom out rs
         else if out = [] then combineTextFrom t rs
         else combineTextFrom (out @ ''\<newline>\<newline>'' @ t) rs)"

definition combineText :: "reminder list \<Rightarrow> string" where
  "combineText rems = combineTextFrom [] rems"

definition system_message :: "string \<Rightarrow> message" where
  "system_message text = \<lparr>m_role = RoleSystem, m_parts = [TextPart text], m_meta = None\<rparr>"

definition injectAtRunStart :: "transcript \<Rightarrow> reminder list \<Rightarrow> transcript" where
  "injectAtRunStart msgs rems =
     (if rems = [] then msgs
      else
        (let text = combineText rems
         in if text = [] then msgs
            else case msgs of
                   Some m # rest \<Rightarrow>
                     (if m_role m = RoleSystem
                      then Some (m\<lparr>m_parts := TextPart text # m_parts m\<rparr>) # rest
                      else Some (system_message text) # msgs)
                 | _ \<Rightarrow> Some (system_message text) # msgs))"

definition is_user :: "message option \<Rightarrow> bool" where
  "is_user m = (case m of None \<Rightarrow> False | Some m \<Rightarrow> m_role m = RoleUser)"

definition is_tool_result :: "part \<Rightarrow> bool" where
  "is_tool_result p = (case p of ToolResultPart _ \<Rightarrow> True | _ \<Rightarrow> False)"

definition messageHasToolResult :: "message option \<Rightarrow> bool" where
  "messageHasToolResult m =
     (case m of None \<Rightarrow> False
      | Some m \<Rightarrow> m_role m = RoleUser \<and> list_ex is_tool_result (m_parts m))"

fun last_user :: "transcript \<Rightarrow> nat option" where
  "last_user [] = None"
| "last_user (m # ms) =
     (case last_user ms of
        Some i \<Rightarrow> Some (Suc i)
      | None \<Rightarrow> (if is_user m then Some 0 else None))"

definition injectBeforeLastUser :: "transcript \<Rightarrow> reminder list \<Rightarrow> transcript" where
  "injectBeforeLastUser msgs rems =
     (if rems = [] then msgs
      else
        (let text = combineText rems
         in if text = [] then msgs
            else case last_user msgs of
                   None \<Rightarrow> msgs @ [Some (system_message text)]
                 | Some lastUser \<Rightarrow>
                     (let insertAt = (if messageHasToolResult (msgs ! lastUser)
                                      then lastUser + 1 else lastUser)
                      in take insertAt msgs @ Some (system_message text) # drop insertAt msgs)))"

definition InjectMessages :: "transcript \<Rightarrow> reminder list \<Rightarrow> (clone_error, transcript) result" where
  "InjectMessages messages rems =
     (case CloneMessages messages of
        Inl err \<Rightarrow> Inl err
      | Inr out \<Rightarrow>
          if rems = [] \<or> out = [] then Inr out
          else
            (let runStart = filter (\<lambda>r. att_kind (r_attachment r) = AttachmentRunStart) rems;
                 perTurn = filter (\<lambda>r. att_kind (r_attachment r) \<noteq> AttachmentRunStart) rems;
                 out1 = (if runStart = [] then out else injectAtRunStart out runStart);
                 out2 = (if perTurn = [] then out1 else injectBeforeLastUser out1 perTurn)
             in Inr out2))"

subsection \<open>Engine invariant\<close>

text \<open>
  Every stored reminder sits under its own identifier, once, and was last emitted no later than the
  current turn.
\<close>

definition run_ok :: "run_state \<Rightarrow> bool" where
  "run_ok rs \<longleftrightarrow> distinct (map fst (rs_reminders rs)) \<and> rs_turn_seq rs \<ge> 0 \<and>
     (\<forall>(k, st) \<in> set (rs_reminders rs).
        r_id (st_reminder st) = k \<and> 0 \<le> st_last_turn st \<and> st_last_turn st \<le> rs_turn_seq rs)"

definition engine_ok :: "engine \<Rightarrow> bool" where
  "engine_ok e \<longleftrightarrow> (\<forall>runID rs. e runID = Some rs \<longrightarrow> run_ok rs)"

definition state_of :: "engine \<Rightarrow> string \<Rightarrow> string \<Rightarrow> reminder_state option" where
  "state_of e runID rid =
     (case e runID of None \<Rightarrow> None | Some rs \<Rightarrow> map_of (rs_reminders rs) rid)"

definition turn_of :: "engine \<Rightarrow> string \<Rightarrow> int" where
  "turn_of e runID = (case e runID of None \<Rightarrow> 0 | Some rs \<Rightarrow> rs_turn_seq rs)"

lemma run_ok_empty: "run_ok \<lparr>rs_reminders = [], rs_turn_seq = 0\<rparr>"
  by (simp add: run_ok_def)

lemma engine_okD: "engine_ok e \<Longrightarrow> e runID = Some rs \<Longrightarrow> run_ok rs"
  by (simp add: engine_ok_def)

lemma ensureRunLocked_ok: "engine_ok e \<Longrightarrow> run_ok (ensureRunLocked e runID)"
  by (auto simp: ensureRunLocked_def run_ok_empty dest: engine_okD split: option.splits)

lemma run_ok_entry:
  "run_ok rs \<Longrightarrow> map_of (rs_reminders rs) k = Some st \<Longrightarrow>
   r_id (st_reminder st) = k \<and> 0 \<le> st_last_turn st \<and> st_last_turn st \<le> rs_turn_seq rs"
  using map_of_SomeD by (fastforce simp: run_ok_def)

lemma set_AList_update: "set (AList.update k v al) \<subseteq> insert (k, v) (set al)"
  by (induction al) auto

lemma set_AList_delete: "set (AList.delete k al) \<subseteq> set al"
  by (auto simp: AList.delete_eq)

lemma run_ok_update:
  assumes "run_ok rs" "r_id (st_reminder st) = k" "0 \<le> st_last_turn st"
    and "st_last_turn st \<le> rs_turn_seq rs"
  shows "run_ok (rs\<lparr>rs_reminders := AList.update k st (rs_reminders rs)\<rparr>)"
proof -
  have "distinct (map fst (AList.update k st (rs_reminders rs)))"
    using assms(1) by (intro distinct_update) (simp add: run_ok_def)
  then show ?thesis
    using assms set_AList_update [of k st "rs_reminders rs"] by (fastforce simp: run_ok_def)
qed

lemma AddReminder_ok [go_inv]: "engine_ok e \<Longrightarrow> engine_ok (AddReminder e runID r)"
proof -
  assume ok: "engine_ok e"
  let ?rs = "ensureRunLocked e runID"
  have rs: "run_ok ?rs" using ok by (rule ensureRunLocked_ok)
  have "run_ok (?rs\<lparr>rs_reminders := AList.update (r_id r)
          (case map_of (rs_reminders ?rs) (r_id r) of
             Some st \<Rightarrow> st\<lparr>st_reminder := r\<rparr>
           | None \<Rightarrow> \<lparr>st_reminder = r, st_emitted = 0, st_last_turn = 0\<rparr>) (rs_reminders ?rs)\<rparr>)"
    using rs by (intro run_ok_update) (auto simp: run_ok_def split: option.splits dest!: map_of_SomeD)
  with ok show ?thesis by (auto simp: AddReminder_def engine_ok_def Let_def)
qed

lemma RemoveReminder_ok [go_inv]: "engine_ok e \<Longrightarrow> engine_ok (RemoveReminder e runID rid)"
  using set_AList_delete
  by (fastforce simp: RemoveReminder_def engine_ok_def run_ok_def distinct_delete
      split: option.splits)

lemma emit_simps [simp]:
  "st_reminder (emit t st) = st_reminder st"
  "0 \<le> st_last_turn st \<Longrightarrow> 0 \<le> t \<Longrightarrow> 0 \<le> st_last_turn (emit t st)"
  "st_last_turn st \<le> t \<Longrightarrow> st_last_turn (emit t st) \<le> t"
  by (auto simp: emit_def)

lemma Snapshot_ok [go_inv]: "engine_ok e \<Longrightarrow> engine_ok (fst (Snapshot e runID))"
proof (cases "e runID")
  case (Some rs)
  assume ok: "engine_ok e"
  with Some have "run_ok rs" by (rule engine_okD [rotated])
  then have "run_ok (rs\<lparr>rs_turn_seq := rs_turn_seq rs + 1,
      rs_reminders := map (\<lambda>kv. (fst kv, emit (rs_turn_seq rs + 1) (snd kv))) (rs_reminders rs)\<rparr>)"
    by (fastforce simp: run_ok_def comp_def)
  with ok Some show ?thesis by (auto simp: Snapshot_def engine_ok_def Let_def)
qed (simp add: Snapshot_def)

lemma ClearRun_ok [go_inv]: "engine_ok e \<Longrightarrow> engine_ok (ClearRun e runID)"
  by (auto simp: ClearRun_def engine_ok_def)

lemma NewEngine_ok: "engine_ok NewEngine"
  by (simp add: NewEngine_def engine_ok_def)

subsection \<open>What a snapshot emits\<close>

lemma map_of_map_snd:
  "map_of (map (\<lambda>kv. (fst kv, f (snd kv))) al) k = map_option f (map_of al k)"
  by (induction al) auto

lemma state_of_Snapshot:
  "state_of (fst (Snapshot e runID)) runID' rid =
     (if runID' = runID \<and> runID \<noteq> [] then map_option (emit (turn_of e runID + 1)) (state_of e runID rid)
      else state_of e runID' rid)"
  by (auto simp: state_of_def turn_of_def Snapshot_def Let_def map_of_map_snd split: option.splits)

lemma set_Snapshot:
  assumes "e runID = Some rs" "runID \<noteq> []"
  shows "set (snd (Snapshot e runID)) =
    st_reminder ` {st. \<exists>k. (k, st) \<in> set (rs_reminders rs) \<and> shouldEmit st (rs_turn_seq rs + 1)}"
proof -
  have "set (snd (Snapshot e runID)) =
      set (map (st_reminder \<circ> snd)
        (filter (\<lambda>kv. shouldEmit (snd kv) (rs_turn_seq rs + 1)) (rs_reminders rs)))"
    using assms by (simp add: Snapshot_def Let_def)
  also have "\<dots> = st_reminder ` {st. \<exists>k. (k, st) \<in> set (rs_reminders rs) \<and>
      shouldEmit st (rs_turn_seq rs + 1)}"
    by force
  finally show ?thesis .
qed

lemma Snapshot_emits_iff:
  assumes "engine_ok e" "runID \<noteq> []"
  shows "r \<in> set (snd (Snapshot e runID)) \<longleftrightarrow>
    (\<exists>st. state_of e runID (r_id r) = Some st \<and> st_reminder st = r \<and>
          shouldEmit st (turn_of e runID + 1))"
proof (cases "e runID")
  case None
  then show ?thesis by (simp add: Snapshot_def state_of_def assms)
next
  case (Some rs)
  then have ok: "run_ok rs" using assms(1) by (rule engine_okD [rotated])
  then have "map_of (rs_reminders rs) k = Some st \<longleftrightarrow> (k, st) \<in> set (rs_reminders rs)" for k st
    by (auto simp: run_ok_def)
  moreover have "(k, st) \<in> set (rs_reminders rs) \<Longrightarrow> k = r_id (st_reminder st)" for k st
    using ok by (auto simp: run_ok_def)
  ultimately show ?thesis
    unfolding set_Snapshot [of e runID, OF Some assms(2)] by (auto simp: state_of_def turn_of_def Some)
qed

lemma Snapshot_id_iff:
  assumes "engine_ok e" "runID \<noteq> []"
  shows "rid \<in> r_id ` set (snd (Snapshot e runID)) \<longleftrightarrow>
    (\<exists>st. state_of e runID rid = Some st \<and> shouldEmit st (turn_of e runID + 1))"
proof -
  have "r_id (st_reminder st) = rid" if "state_of e runID rid = Some st" for st
    using that assms run_ok_entry
    by (auto simp: state_of_def split: option.splits dest!: engine_okD)
  then show ?thesis using Snapshot_emits_iff [OF assms] by (auto simp: image_iff)
qed

lemma Snapshot_sorted:
  "sorted (map (\<lambda>r. (r_priority r, r_id r)) (snd (Snapshot e runID)))"
  by (auto simp: Snapshot_def Let_def split: option.splits)

lemma Snapshot_distinct:
  assumes "engine_ok e"
  shows "distinct (map r_id (snd (Snapshot e runID)))"
proof (cases "e runID")
  case (Some rs)
  then have ok: "run_ok rs" using assms by (rule engine_okD [rotated])
  let ?out = "map (st_reminder \<circ> snd)
    (filter (\<lambda>kv. shouldEmit (snd kv) (rs_turn_seq rs + 1)) (rs_reminders rs))"
  have "map r_id ?out = map fst (filter (\<lambda>kv. shouldEmit (snd kv) (rs_turn_seq rs + 1)) (rs_reminders rs))"
    using ok by (auto simp: run_ok_def)
  then have "distinct (map r_id ?out)"
    using ok by (simp only: run_ok_def distinct_map_filter)
  then have "distinct (map r_id (sort_key (\<lambda>r. (r_priority r, r_id r)) ?out))"
    using mset_eq_imp_distinct_iff [of "map r_id (sort_key (\<lambda>r. (r_priority r, r_id r)) ?out)" "map r_id ?out"]
    by (simp del: map_map)
  then show ?thesis using Some by (auto simp: Snapshot_def Let_def)
qed (simp add: Snapshot_def)

subsection \<open>Sequences of engine operations\<close>

datatype reminder_op =
    OpAdd string reminder
  | OpRemove string string
  | OpSnapshot string
  | OpClear string

fun reminder_step :: "engine \<Rightarrow> reminder_op \<Rightarrow> engine \<times> reminder list" where
  "reminder_step e (OpAdd runID r) = (AddReminder e runID r, [])"
| "reminder_step e (OpRemove runID rid) = (RemoveReminder e runID rid, [])"
| "reminder_step e (OpSnapshot runID) = Snapshot e runID"
| "reminder_step e (OpClear runID) = (ClearRun e runID, [])"

text \<open>How often a sequence of operations emits reminder \<open>rid\<close> to run \<open>runID\<close>.\<close>

fun emissions :: "string \<Rightarrow> string \<Rightarrow> engine \<Rightarrow> reminder_op list \<Rightarrow> int" where
  "emissions runID rid e [] = 0"
| "emissions runID rid e (op # ops) =
     (let (e', out) = reminder_step e op
      in (if op = OpSnapshot runID \<and> rid \<in> r_id ` set out then 1 else 0) + emissions runID rid e' ops)"

text \<open>Operations that keep the counter of \<open>(runID, rid)\<close> and configure it with cap \<open>k\<close>.\<close>

fun capped_op :: "string \<Rightarrow> string \<Rightarrow> int \<Rightarrow> reminder_op \<Rightarrow> bool" where
  "capped_op runID rid k (OpAdd runID' r) \<longleftrightarrow>
     (runID' = runID \<and> r_id r = rid \<longrightarrow> r_max_per_run r = k \<and> r_priority r \<noteq> TierSafety)"
| "capped_op runID rid k (OpRemove runID' rid') \<longleftrightarrow> \<not> (runID' = runID \<and> rid' = rid)"
| "capped_op runID rid k (OpSnapshot runID') \<longleftrightarrow> True"
| "capped_op runID rid k (OpClear runID') \<longleftrightarrow> runID' \<noteq> runID"

definition emitted_of :: "engine \<Rightarrow> string \<Rightarrow> string \<Rightarrow> int" where
  "emitted_of e runID rid = (case state_of e runID rid of None \<Rightarrow> 0 | Some st \<Rightarrow> st_emitted st)"

definition cap_ok :: "engine \<Rightarrow> string \<Rightarrow> string \<Rightarrow> int \<Rightarrow> bool" where
  "cap_ok e runID rid k \<longleftrightarrow>
     (case state_of e runID rid of
        None \<Rightarrow> True
      | Some st \<Rightarrow> r_max_per_run (st_reminder st) = k \<and> r_priority (st_reminder st) \<noteq> TierSafety \<and>
          st_emitted st \<le> k)"

lemma reminder_step_ok: "engine_ok e \<Longrightarrow> engine_ok (fst (reminder_step e op))"
  by (cases op) (simp_all add: go_inv)

lemma state_of_Add:
  "state_of (AddReminder e runID r) runID' rid =
     (if runID \<noteq> [] \<and> r_id r \<noteq> [] \<and> r_text r \<noteq> [] \<and> runID' = runID \<and> rid = r_id r
      then Some (case state_of e runID rid of
                   Some st \<Rightarrow> st\<lparr>st_reminder := r\<rparr>
                 | None \<Rightarrow> \<lparr>st_reminder = r, st_emitted = 0, st_last_turn = 0\<rparr>)
      else state_of e runID' rid)"
  by (auto simp: state_of_def AddReminder_def ensureRunLocked_def Let_def update_conv'
      split: option.splits)

lemma state_of_Remove:
  "state_of (RemoveReminder e runID rid) runID' rid' =
     (if runID \<noteq> [] \<and> rid \<noteq> [] \<and> runID' = runID \<and> rid' = rid then None else state_of e runID' rid')"
  by (auto simp: state_of_def RemoveReminder_def delete_conv' split: option.splits)

lemma state_of_Clear:
  "state_of (ClearRun e runID) runID' rid =
     (if runID \<noteq> [] \<and> runID' = runID then None else state_of e runID' rid)"
  by (auto simp: state_of_def ClearRun_def)

lemma emitted_of_step:
  assumes "engine_ok e" "runID \<noteq> []" "capped_op runID rid k op"
  shows "emitted_of (fst (reminder_step e op)) runID rid =
    emitted_of e runID rid +
      (if op = OpSnapshot runID \<and> rid \<in> r_id ` set (snd (reminder_step e op)) then 1 else 0)"
proof (cases op)
  case (OpSnapshot runID')
  show ?thesis
  proof (cases "runID' = runID")
    case True
    then show ?thesis
      using Snapshot_id_iff [OF assms(1,2), of rid] OpSnapshot assms(2)
      by (auto simp: emitted_of_def state_of_Snapshot emit_def split: option.splits)
  next
    case False
    then show ?thesis using OpSnapshot by (simp add: emitted_of_def state_of_Snapshot)
  qed
qed (use assms in \<open>auto simp: emitted_of_def state_of_Add state_of_Remove state_of_Clear
       split: option.splits\<close>)

lemma cap_ok_step:
  assumes "engine_ok e" "runID \<noteq> []" "capped_op runID rid k op" "0 < k" "cap_ok e runID rid k"
  shows "cap_ok (fst (reminder_step e op)) runID rid k"
proof (cases op)
  case (OpSnapshot runID')
  then show ?thesis using assms
    by (auto simp: cap_ok_def state_of_Snapshot emit_def shouldEmit_def Let_def
        split: option.splits if_splits)
qed (use assms in \<open>auto simp: cap_ok_def state_of_Add state_of_Remove state_of_Clear
       split: option.splits\<close>)

lemma emissions_bounded:
  assumes "engine_ok e" "runID \<noteq> []" "0 < k" "list_all (capped_op runID rid k) ops"
    and "cap_ok e runID rid k"
  shows "emitted_of e runID rid + emissions runID rid e ops \<le> k"
  using assms
proof (induction ops arbitrary: e)
  case Nil
  then show ?case by (auto simp: emitted_of_def cap_ok_def split: option.splits)
next
  case (Cons op ops)
  obtain e' out where s: "reminder_step e op = (e', out)" by fastforce
  have "engine_ok e'" using reminder_step_ok [OF Cons.prems(1), of op] s by simp
  moreover have "cap_ok e' runID rid k"
    using cap_ok_step [of e runID rid k op] Cons.prems s by simp
  ultimately have "emitted_of e' runID rid + emissions runID rid e' ops \<le> k"
    using Cons by simp
  moreover have "emitted_of e' runID rid = emitted_of e runID rid +
      (if op = OpSnapshot runID \<and> rid \<in> r_id ` set out then 1 else 0)"
    using emitted_of_step [of e runID rid k op] Cons.prems s by simp
  ultimately show ?case using s by simp
qed

text \<open>
  Property C1. A reminder below the safety tier (safety reminders are not capped) that is always registered
  with the same positive per-run cap \<open>k\<close> reaches the planner at most \<open>k\<close> times in a run, whatever the
  interleaving of registrations, repeated ones included, snapshots, removals of other reminders and clearings
  of other runs. Removing the reminder itself or clearing its run discards the counter, and is excluded.
\<close>

theorem reminder_cap_respected:
  assumes "runID \<noteq> []" "0 < k" "list_all (capped_op runID rid k) ops"
  shows "emissions runID rid NewEngine ops \<le> k"
proof -
  have "emitted_of NewEngine runID rid + emissions runID rid NewEngine ops \<le> k"
    using assms NewEngine_ok
    by (intro emissions_bounded) (auto simp: cap_ok_def state_of_def NewEngine_def)
  then show ?thesis by (simp add: emitted_of_def state_of_def NewEngine_def)
qed

theorem reminder_cap_respected_witness:
  "emissions ''r'' ''x'' NewEngine
     [OpAdd ''r'' \<lparr>r_id = ''x'', r_text = ''t'', r_priority = TierGuidance,
        r_attachment = \<lparr>att_kind = AttachmentUserTurn, att_tool = []\<rparr>,
        r_max_per_run = 1, r_min_turns_between = 0\<rparr>, OpSnapshot ''r'', OpSnapshot ''r''] \<le> 1"
  by (rule reminder_cap_respected) (simp_all add: TierSafety_def TierGuidance_def)

text \<open>
  The order in which the engine's map is iterated never reaches the caller: two engines
  that store the same reminders for a run emit the same list.
\<close>

theorem Snapshot_order_independent:
  assumes "engine_ok e" "engine_ok e'" "e runID = Some rs" "e' runID = Some rs'"
    and "mset (rs_reminders rs') = mset (rs_reminders rs)" "rs_turn_seq rs' = rs_turn_seq rs"
  shows "snd (Snapshot e' runID) = snd (Snapshot e runID)"
proof (cases "runID = []")
  case False
  have "set (rs_reminders rs') = set (rs_reminders rs)"
    using assms(5) by (metis set_mset_mset)
  then have "set (snd (Snapshot e' runID)) = set (snd (Snapshot e runID))"
    unfolding set_Snapshot [of e runID, OF assms(3) False]
      set_Snapshot [of e' runID, OF assms(4) False] by (simp add: assms(6))
  moreover have "distinct (map (\<lambda>r. (r_priority r, r_id r)) (snd (Snapshot d runID)))"
    if "engine_ok d" for d
    using Snapshot_distinct [OF that, of runID] by (auto simp: distinct_map inj_on_def)
  moreover have "inj_on r_id (set (snd (Snapshot e runID)))"
    using Snapshot_distinct [OF assms(1), of runID] by (simp add: distinct_map)
  ultimately show ?thesis
    using assms(1,2)
    by (intro map_sorted_distinct_set_unique [where f = "\<lambda>r. (r_priority r, r_id r)"] Snapshot_sorted)
       (auto simp: inj_on_def)
qed (simp add: Snapshot_def)


theorem Snapshot_order_independent_witness:
  "let g = \<lambda>i p. \<lparr>r_id = i, r_text = ''t'', r_priority = p,
        r_attachment = \<lparr>att_kind = AttachmentUserTurn, att_tool = []\<rparr>,
        r_max_per_run = 0, r_min_turns_between = 0\<rparr>;
       e = AddReminder (AddReminder NewEngine ''r'' (g ''a'' 1)) ''r'' (g ''b'' 0);
       e' = AddReminder (AddReminder NewEngine ''r'' (g ''b'' 0)) ''r'' (g ''a'' 1)
   in snd (Snapshot e' ''r'') = snd (Snapshot e ''r'') \<and>
      map r_id (snd (Snapshot e ''r'')) = [''b'', ''a'']"
proof -
  let ?g = "\<lambda>i p. \<lparr>r_id = i, r_text = ''t'', r_priority = p,
        r_attachment = \<lparr>att_kind = AttachmentUserTurn, att_tool = []\<rparr>,
        r_max_per_run = 0, r_min_turns_between = 0\<rparr>"
  let ?e = "AddReminder (AddReminder NewEngine ''r'' (?g ''a'' 1)) ''r'' (?g ''b'' 0)"
  let ?e' = "AddReminder (AddReminder NewEngine ''r'' (?g ''b'' 0)) ''r'' (?g ''a'' 1)"
  have "snd (Snapshot ?e' ''r'') = snd (Snapshot ?e ''r'')"
    by (rule Snapshot_order_independent [of ?e ?e' "''r''" "the (?e ''r'')" "the (?e' ''r'')"])
       (simp_all add: go_inv NewEngine_ok, simp_all add: AddReminder_def NewEngine_def ensureRunLocked_def)
  then show ?thesis
    by (simp add: AddReminder_def NewEngine_def ensureRunLocked_def Snapshot_def shouldEmit_def Let_def)
qed

text \<open>
  Two emissions of one reminder in a run are at least \<open>MinTurnsBetween\<close> planner turns
  apart, and a safety reminder is withheld only by that spacing, never by its per-run cap.
\<close>

theorem Snapshot_spacing:
  assumes "engine_ok e" "runID \<noteq> []" "state_of e runID rid = Some st"
  shows "(st_reminder st \<in> set (snd (Snapshot e runID)) \<longrightarrow> 0 < st_last_turn st \<longrightarrow>
            st_last_turn st + r_min_turns_between (st_reminder st) \<le> turn_of e runID + 1) \<and>
         (r_priority (st_reminder st) = TierSafety \<longrightarrow>
            st_reminder st \<in> set (snd (Snapshot e runID)) \<or>
            0 < st_last_turn st \<and>
            turn_of e runID + 1 < st_last_turn st + r_min_turns_between (st_reminder st))"
proof -
  have "r_id (st_reminder st) = rid \<and> 0 \<le> st_last_turn st \<and> st_last_turn st \<le> turn_of e runID"
    using assms run_ok_entry
    by (auto simp: state_of_def turn_of_def split: option.splits dest!: engine_okD)
  moreover from this have "st_reminder st \<in> set (snd (Snapshot e runID)) \<longleftrightarrow>
      shouldEmit st (turn_of e runID + 1)"
    using Snapshot_emits_iff [OF assms(1,2), of "st_reminder st"] assms(3) by auto
  ultimately show ?thesis by (auto simp: shouldEmit_def Let_def split: if_splits)
qed

theorem Snapshot_spacing_witness:
  "let r = \<lparr>r_id = ''x'', r_text = ''t'', r_priority = TierSafety,
        r_attachment = \<lparr>att_kind = AttachmentUserTurn, att_tool = []\<rparr>,
        r_max_per_run = 1, r_min_turns_between = 3\<rparr>;
       e = fst (Snapshot (AddReminder NewEngine ''r'' r) ''r'')
   in r \<in> set (snd (Snapshot e ''r'')) \<or> turn_of e ''r'' + 1 < 1 + 3"
proof -
  let ?r = "\<lparr>r_id = ''x'', r_text = ''t'', r_priority = TierSafety,
        r_attachment = \<lparr>att_kind = AttachmentUserTurn, att_tool = []\<rparr>,
        r_max_per_run = 1, r_min_turns_between = 3\<rparr>"
  let ?e = "fst (Snapshot (AddReminder NewEngine ''r'' ?r) ''r'')"
  have "engine_ok ?e" by (simp add: go_inv NewEngine_ok)
  moreover have "state_of ?e ''r'' ''x'' =
      Some \<lparr>st_reminder = ?r, st_emitted = 1, st_last_turn = 1\<rparr>"
    by (simp add: state_of_def AddReminder_def NewEngine_def ensureRunLocked_def Snapshot_def
        shouldEmit_def emit_def Let_def)
  ultimately show ?thesis
    using Snapshot_spacing [of ?e "''r''" "''x''"] by simp
qed

subsection \<open>Injection keeps the tool loop intact\<close>

lemma system_message_plain [simp]: "plain (system_message t)"
  by (simp add: system_message_def)

lemma injectAtRunStart_well_formed:
  assumes "well_formed msgs"
  shows "well_formed (injectAtRunStart msgs rems)"
proof -
  let ?s = "system_message (combineText rems)"
  have front: "well_formed (Some ?s # msgs)"
    using assms by (intro wf_other) (simp_all add: system_message_def)
  have "well_formed (Some (m\<lparr>m_parts := TextPart t # m_parts m\<rparr>) # rest)"
    if "msgs = Some m # rest" "m_role m = RoleSystem" for m rest t
  proof -
    have "result_ids (m_parts m) = []"
      using assms that validate_from.simps(3) [of 0 m rest] well_formed_validates [of msgs 0]
      by (auto simp: toolResultIDs_eq split: if_splits)
    then show ?thesis
      using assms that by (auto intro!: well_formed_swap_head [of m])
  qed
  with front assms show ?thesis
    by (auto simp: injectAtRunStart_def Let_def split: list.splits option.splits)
qed

lemma last_user_Some:
  "last_user ms = Some i \<Longrightarrow> i < length ms \<and> is_user (ms ! i)"
  by (induction ms arbitrary: i) (auto split: option.splits if_splits)

lemma no_tool_result_iff:
  "\<not> messageHasToolResult (Some u) \<Longrightarrow> m_role u = RoleUser \<Longrightarrow> result_ids (m_parts u) = []"
proof -
  have "list_ex is_tool_result ps \<longleftrightarrow> result_ids ps \<noteq> []" for ps
    by (induction ps rule: result_ids.induct) (auto simp: is_tool_result_def)
  then show "\<not> messageHasToolResult (Some u) \<Longrightarrow> m_role u = RoleUser \<Longrightarrow> result_ids (m_parts u) = []"
    by (simp add: messageHasToolResult_def)
qed

lemma injectBeforeLastUser_well_formed:
  assumes "well_formed msgs"
  shows "well_formed (injectBeforeLastUser msgs rems)"
proof (cases "last_user msgs")
  case None
  with assms show ?thesis
    by (auto simp: injectBeforeLastUser_def Let_def intro: well_formed_snoc)
next
  case (Some i)
  let ?s = "system_message (combineText rems)"
  from last_user_Some [OF Some] obtain u where u: "msgs ! i = Some u" "m_role u = RoleUser"
    by (auto simp: is_user_def split: option.splits)
  have split: "msgs = take i msgs @ Some u # drop (Suc i) msgs"
    using last_user_Some [OF Some] u(1) by (metis id_take_nth_drop)
  then have wf: "well_formed (take i msgs @ Some u # drop (Suc i) msgs)" using assms by simp
  have after: "well_formed (take i msgs @ Some u # Some ?s # drop (Suc i) msgs)"
    using wf u(2) by (intro well_formed_insert_after) auto
  have before: "well_formed (take i msgs @ Some ?s # Some u # drop (Suc i) msgs)"
    if "\<not> messageHasToolResult (Some u)"
    using wf u(2) no_tool_result_iff [OF that u(2)] by (intro well_formed_insert_before) auto
  have "take (Suc i) msgs = take i msgs @ [Some u]" "drop i msgs = Some u # drop (Suc i) msgs"
    using last_user_Some [OF Some] u(1) by (simp_all add: take_Suc_conv_app_nth Cons_nth_drop_Suc [symmetric])
  then show ?thesis
    using after before assms Some u(1) by (auto simp: injectBeforeLastUser_def Let_def)
qed

text \<open>
  Property C2. Injecting reminders never breaks the tool-loop contract: a transcript the runtime's
  validator accepts is still accepted after injection, whatever reminders are injected and whether
  its last user message is a question or a set of tool results.
\<close>

theorem InjectMessages_keeps_transcript_valid:
  assumes "ValidatePlannerTranscript msgs = None" "InjectMessages msgs rems = Inr out"
  shows "ValidatePlannerTranscript out = None"
proof -
  obtain c where c: "CloneMessages msgs = Inr c"
    using assms(2) by (cases "CloneMessages msgs") (auto simp: InjectMessages_def)
  then have "well_formed c" using CloneMessages_id assms(1) validate_iff_well_formed by blast
  with assms(2) c have "well_formed out"
    by (auto simp: InjectMessages_def Let_def split: if_splits
        intro!: injectAtRunStart_well_formed injectBeforeLastUser_well_formed)
  then show ?thesis by (simp add: validate_iff_well_formed)
qed

theorem InjectMessages_keeps_transcript_valid_witness:
  "let use = \<lparr>tu_id = ''t1'', tu_name = ''search'', tu_input = ''{}'', tu_thought_signature = []\<rparr>;
       res = \<lparr>tr_tool_use_id = ''t1'', tr_content = GString ''ok'', tr_is_error = False\<rparr>;
       msgs = [Some \<lparr>m_role = RoleUser, m_parts = [TextPart ''q''], m_meta = None\<rparr>,
               Some \<lparr>m_role = RoleAssistant, m_parts = [ToolUsePart use], m_meta = None\<rparr>,
               Some \<lparr>m_role = RoleUser, m_parts = [ToolResultPart res], m_meta = None\<rparr>];
       rems = [\<lparr>r_id = ''x'', r_text = ''t'', r_priority = TierGuidance,
                r_attachment = \<lparr>att_kind = AttachmentUserTurn, att_tool = []\<rparr>,
                r_max_per_run = 0, r_min_turns_between = 0\<rparr>]
   in ValidatePlannerTranscript msgs = None \<and>
      ValidatePlannerTranscript (projr (InjectMessages msgs rems)) = None"
proof -
  let ?use = "\<lparr>tu_id = ''t1'', tu_name = ''search'', tu_input = ''{}'', tu_thought_signature = []\<rparr>"
  let ?res = "\<lparr>tr_tool_use_id = ''t1'', tr_content = GString ''ok'', tr_is_error = False\<rparr>"
  let ?msgs = "[Some \<lparr>m_role = RoleUser, m_parts = [TextPart ''q''], m_meta = None\<rparr>,
               Some \<lparr>m_role = RoleAssistant, m_parts = [ToolUsePart ?use], m_meta = None\<rparr>,
               Some \<lparr>m_role = RoleUser, m_parts = [ToolResultPart ?res], m_meta = None\<rparr>]"
  let ?rems = "[\<lparr>r_id = ''x'', r_text = ''t'', r_priority = TierGuidance,
                r_attachment = \<lparr>att_kind = AttachmentUserTurn, att_tool = []\<rparr>,
                r_max_per_run = 0, r_min_turns_between = 0\<rparr>]"
  have v: "ValidatePlannerTranscript ?msgs = None"
    by (simp add: ValidatePlannerTranscript_def validate_from.simps(3) group_parts_def
        check_results_def Let_def)
  have "CloneMessages ?msgs = Inr ?msgs"
    by (simp add: CloneMessages_def cloneMessage_def)
  then obtain out where "InjectMessages ?msgs ?rems = Inr out"
    by (auto simp: InjectMessages_def Let_def)
  with v InjectMessages_keeps_transcript_valid [OF v] show ?thesis
    unfolding Let_def by (metis sum.sel(2))
qed

end
