(* ===== verification/History.thy ===== *)
theory History
  imports Reminder "HOL-Library.Sublist"
begin

section \<open>History policies\<close>

text \<open>
  \<open>runtime/agent/runtime/history.go\<close>: \<open>KeepRecentTurns\<close> and \<open>Compress\<close> bound the transcript
  before each planner call. \<open>parseTurns\<close> splits the history into logical turns; a turn is the list
  of its (non-nil) messages. The language model and its token counter are code outside the
  repository: they are the arguments \<open>complete\<close> and \<open>count\<close>, functions of the request's messages
  that may fail. The tool catalog of a request is fixed during one policy call, so it is part of
  those functions. \<open>summarize\<close> stands for \<open>fmt.Sprintf\<close> with the configured summary prompt.
  Reading \<open>m.Role\<close> through a nil message pointer panics in Go: the model returns
  \<open>NilDereference\<close>.
\<close>

subsection \<open>Turns\<close>

type_synonym turn = "message list"

definition isToolResultOnly :: "message \<Rightarrow> bool" where
  "isToolResultOnly m \<longleftrightarrow>
     m_role m = RoleUser \<and> m_parts m \<noteq> [] \<and> list_all is_tool_result (m_parts m)"

definition starts_turn :: "bool \<Rightarrow> message \<Rightarrow> bool" where
  "starts_turn hasAssistant m \<longleftrightarrow>
     (m_role m = RoleUser \<and> \<not> isToolResultOnly m) \<or> (m_role m = RoleAssistant \<and> hasAssistant)"

definition next_has_assistant :: "bool \<Rightarrow> message \<Rightarrow> bool" where
  "next_has_assistant hasAssistant m =
     (if starts_turn hasAssistant m then m_role m = RoleAssistant
      else if m_role m = RoleAssistant then True else hasAssistant)"

fun parse_from :: "turn list \<Rightarrow> turn \<Rightarrow> bool \<Rightarrow> transcript \<Rightarrow> turn list" where
  "parse_from turns current hasAssistant [] =
     (if current \<noteq> [] then turns @ [current] else turns)"
| "parse_from turns current hasAssistant (None # ms) = parse_from turns current hasAssistant ms"
| "parse_from turns current hasAssistant (Some m # ms) =
     (if starts_turn hasAssistant m
      then parse_from (if current \<noteq> [] then turns @ [current] else turns) [m]
             (next_has_assistant hasAssistant m) ms
      else parse_from turns (current @ [m]) (next_has_assistant hasAssistant m) ms)"

definition parseTurns :: "transcript \<Rightarrow> turn list" where
  "parseTurns msgs = parse_from [] [] False msgs"

definition flattenTurns :: "turn list \<Rightarrow> transcript" where
  "flattenTurns turns = map Some (concat turns)"

subsection \<open>Keeping recent turns\<close>

datatype history_error =
    NilDereference
  | ModelRequired
  | TriggerRequired
  | RetentionRequired
  | MustBePositive string
  | KeepNotLessThanTrigger
  | TokenCounterRequired
  | CountFailed string
  | ExactCountRequired
  | OverheadExceeds int int
  | NewestTurnExceeds int int int
  | CompleteFailed string
  | EmptySummary

fun system_end :: "transcript \<Rightarrow> nat option" where
  "system_end [] = Some 0"
| "system_end (None # ms) = None"
| "system_end (Some m # ms) =
     (if m_role m \<noteq> RoleSystem then Some 0 else map_option Suc (system_end ms))"

definition KeepRecentTurns :: "int \<Rightarrow> transcript \<Rightarrow> (history_error, transcript) result" where
  "KeepRecentTurns n msgs =
     (if n \<le> 0 \<or> msgs = [] then Inr msgs
      else case system_end msgs of
             None \<Rightarrow> Inl NilDereference
           | Some systemEnd \<Rightarrow>
               if systemEnd \<ge> length msgs then Inr msgs
               else
                 (let turns = parseTurns (drop systemEnd msgs)
                  in if int (length turns) \<le> n then Inr msgs
                     else
                       (let keepTurns = drop (length turns - nat n) turns
                        in Inr (take systemEnd msgs @ flattenTurns keepTurns))))"

subsection \<open>Compression\<close>

record compression_config =
  CompressAtTurns :: int
  CompressAtMaxInputTokens :: int
  KeepMaxTurns :: int
  KeepMaxInputTokens :: int

record token_count =
  tc_input_tokens :: int
  tc_exact :: bool

record history_env =
  he_client :: "(string \<Rightarrow> string + message list option) option"
  he_counter :: "(transcript \<Rightarrow> string + token_count) option"
  he_summary_role :: conversation_role
  he_summarize :: "string \<Rightarrow> string"

definition config_Validate :: "compression_config \<Rightarrow> history_error option" where
  "config_Validate cfg =
     (if CompressAtTurns cfg \<le> 0 \<and> CompressAtMaxInputTokens cfg \<le> 0 then Some TriggerRequired
      else if KeepMaxTurns cfg \<le> 0 \<and> KeepMaxInputTokens cfg \<le> 0 then Some RetentionRequired
      else if CompressAtTurns cfg < 0 then Some (MustBePositive ''CompressAtTurns'')
      else if CompressAtMaxInputTokens cfg < 0 then Some (MustBePositive ''CompressAtMaxInputTokens'')
      else if KeepMaxTurns cfg < 0 then Some (MustBePositive ''KeepMaxTurns'')
      else if KeepMaxInputTokens cfg < 0 then Some (MustBePositive ''KeepMaxInputTokens'')
      else if CompressAtTurns cfg > 0 \<and> KeepMaxTurns cfg \<ge> CompressAtTurns cfg
      then Some KeepNotLessThanTrigger
      else None)"

definition countMessages :: "history_env \<Rightarrow> transcript \<Rightarrow> (history_error, int) result" where
  "countMessages env msgs =
     (case he_counter env of
        None \<Rightarrow> Inl TokenCounterRequired
      | Some counter \<Rightarrow>
          (case counter msgs of
             Inl e \<Rightarrow> Inl (CountFailed e)
           | Inr c \<Rightarrow> if \<not> tc_exact c then Inl ExactCountRequired else Inr (tc_input_tokens c)))"

definition shouldCompress ::
  "compression_config \<Rightarrow> history_env \<Rightarrow> transcript \<Rightarrow> nat \<Rightarrow> (history_error, bool) result" where
  "shouldCompress cfg env msgs turnCount =
     (if CompressAtTurns cfg > 0 \<and> int turnCount \<ge> CompressAtTurns cfg then Inr True
      else if CompressAtMaxInputTokens cfg \<le> 0 then Inr False
      else case countMessages env msgs of
             Inl e \<Rightarrow> Inl e
           | Inr tokens \<Rightarrow> Inr (tokens > CompressAtMaxInputTokens cfg))"

definition requestShape :: "transcript \<Rightarrow> turn list \<Rightarrow> transcript" where
  "requestShape system turns = system @ flattenTurns turns"

definition newest_tokens ::
  "compression_config \<Rightarrow> history_env \<Rightarrow> transcript \<Rightarrow> turn list \<Rightarrow> (history_error, int) result" where
  "newest_tokens cfg env system turns =
     (if KeepMaxInputTokens cfg > 0 then
        (case countMessages env (requestShape system (drop (length turns - 1) turns)) of
           Inl e \<Rightarrow> Inl e
         | Inr newestTokens \<Rightarrow>
             if CompressAtMaxInputTokens cfg > 0 \<and> newestTokens > CompressAtMaxInputTokens cfg
             then (case countMessages env (requestShape system []) of
                     Inl e \<Rightarrow> Inl e
                   | Inr overhead \<Rightarrow>
                       if overhead > CompressAtMaxInputTokens cfg
                       then Inl (OverheadExceeds overhead (CompressAtMaxInputTokens cfg))
                       else Inl (NewestTurnExceeds newestTokens (CompressAtMaxInputTokens cfg) overhead))
             else Inr newestTokens)
      else Inr 0)"

text \<open>The loop \<open>for i := len(turns)-2; i >= 0; i--\<close>; the last argument is \<open>i + 1\<close>.\<close>

fun tail_loop ::
  "compression_config \<Rightarrow> history_env \<Rightarrow> transcript \<Rightarrow> turn list \<Rightarrow> int \<Rightarrow> nat \<Rightarrow> nat \<Rightarrow>
   (history_error, nat) result" where
  "tail_loop cfg env system turns newestTokens keepStart 0 = Inr keepStart"
| "tail_loop cfg env system turns newestTokens keepStart (Suc i) =
     (if KeepMaxTurns cfg > 0 \<and> int (length turns) - int i > KeepMaxTurns cfg then Inr keepStart
      else if KeepMaxInputTokens cfg > 0 then
        (case countMessages env (requestShape system (drop i turns)) of
           Inl e \<Rightarrow> Inl e
         | Inr tokens \<Rightarrow>
             if tokens - newestTokens > KeepMaxInputTokens cfg then Inr keepStart
             else tail_loop cfg env system turns newestTokens i i)
      else tail_loop cfg env system turns newestTokens i i)"

definition exactTailStart ::
  "compression_config \<Rightarrow> history_env \<Rightarrow> transcript \<Rightarrow> turn list \<Rightarrow> (history_error, nat) result" where
  "exactTailStart cfg env system turns =
     (if turns = [] then Inr 0
      else case newest_tokens cfg env system turns of
             Inl e \<Rightarrow> Inl e
           | Inr newestTokens \<Rightarrow>
               tail_loop cfg env system turns newestTokens (length turns - 1) (length turns - 1))"

fun format_part :: "part \<Rightarrow> string" where
  "format_part (TextPart t) = t"
| "format_part (ToolUsePart u) = ''[Tool Call: '' @ tu_name u @ '']''"
| "format_part (ToolResultPart r) = ''[Tool Result]''"
| "format_part _ = []"

definition formatMessage :: "message \<Rightarrow> string" where
  "formatMessage m = role_name (m_role m) @ '': '' @ concat (map format_part (m_parts m))"

fun text_of :: "part \<Rightarrow> string" where
  "text_of (TextPart t) = t"
| "text_of _ = []"

definition extractResponseText :: "message list option \<Rightarrow> string" where
  "extractResponseText resp =
     (case resp of
        None \<Rightarrow> []
      | Some content \<Rightarrow> trim_space (concat (map (\<lambda>m. concat (map text_of (m_parts m))) content)))"

definition summary_message :: "history_env \<Rightarrow> string \<Rightarrow> message" where
  "summary_message env summaryText =
     \<lparr>m_role = he_summary_role env,
      m_parts = [TextPart (''[Conversation Summary]\<newline>'' @ summaryText)],
      m_meta = Some [(''goa_ai_history'', GString ''summary'')]\<rparr>"

definition compress_turns ::
  "history_env \<Rightarrow> (string \<Rightarrow> string + message list option) \<Rightarrow> transcript \<Rightarrow> turn list \<Rightarrow> nat \<Rightarrow>
   (history_error, transcript) result" where
  "compress_turns env complete system turns keepStart =
     (let conversation = concat (map (\<lambda>m. formatMessage m @ ''\<newline>'') (concat (take keepStart turns)))
      in case complete (he_summarize env conversation) of
           Inl e \<Rightarrow> Inl (CompleteFailed e)
         | Inr resp \<Rightarrow>
             (let summaryText = extractResponseText resp
              in if summaryText = [] then Inl EmptySummary
                 else Inr (system @ Some (summary_message env summaryText) #
                           flattenTurns (drop keepStart turns))))"

definition Compress ::
  "history_env \<Rightarrow> compression_config \<Rightarrow> transcript \<Rightarrow> (history_error, transcript) result" where
  "Compress env cfg msgs =
     (case he_client env of
        None \<Rightarrow> Inl ModelRequired
      | Some complete \<Rightarrow>
          if msgs = [] then Inr msgs
          else case config_Validate cfg of
                 Some e \<Rightarrow> Inl e
               | None \<Rightarrow>
                   (case system_end msgs of
                      None \<Rightarrow> Inl NilDereference
                    | Some systemEnd \<Rightarrow>
                        if systemEnd \<ge> length msgs then Inr msgs
                        else
                          (let system = take systemEnd msgs;
                               turns = parseTurns (drop systemEnd msgs)
                           in case shouldCompress cfg env msgs (length turns) of
                                Inl e \<Rightarrow> Inl e
                              | Inr False \<Rightarrow> Inr msgs
                              | Inr True \<Rightarrow>
                                  (case exactTailStart cfg env system turns of
                                     Inl e \<Rightarrow> Inl e
                                   | Inr keepStart \<Rightarrow>
                                       if keepStart = 0 then Inr msgs
                                       else compress_turns env complete system turns keepStart))))"

subsection \<open>Turns partition the history\<close>

definition non_nil :: "transcript \<Rightarrow> message list" where
  "non_nil msgs = map the (filter (\<lambda>m. m \<noteq> None) msgs)"

lemma non_nil_simps [simp]:
  "non_nil [] = []" "non_nil (None # ms) = non_nil ms" "non_nil (Some m # ms) = m # non_nil ms"
  by (simp_all add: non_nil_def)

lemma non_nil_map_Some [simp]: "non_nil (map Some ms) = ms"
  by (induction ms) simp_all

lemma concat_parse_from:
  "concat (parse_from turns current h ms) = concat turns @ current @ non_nil ms"
  by (induction turns current h ms rule: parse_from.induct) auto

lemma concat_parseTurns: "concat (parseTurns ms) = non_nil ms"
  by (simp add: parseTurns_def concat_parse_from)

lemma parse_from_non_nil: "parse_from turns current h ms = parse_from turns current h (map Some (non_nil ms))"
  by (induction turns current h ms rule: parse_from.induct) auto

lemma parse_from_prefix:
  "parse_from (ts @ us) current h ms = ts @ parse_from us current h ms"
  by (induction us current h ms rule: parse_from.induct) auto

lemma parse_from_turns: "parse_from ts current h ms = ts @ parse_from [] current h ms"
  using parse_from_prefix [of ts "[]"] by simp

definition turn_start :: "message \<Rightarrow> bool" where
  "turn_start m \<longleftrightarrow> (m_role m = RoleUser \<and> \<not> isToolResultOnly m) \<or> m_role m = RoleAssistant"

lemma parseTurns_Cons:
  "parseTurns (Some m # ms) = parse_from [] [m] (m_role m = RoleAssistant) ms"
  by (auto simp: parseTurns_def starts_turn_def next_has_assistant_def)

lemma parse_from_started:
  assumes "starts_turn h m" "current \<noteq> []"
  shows "parse_from [] current h (Some m # ms) = current # parseTurns (Some m # ms)"
proof -
  have "parse_from [] current h (Some m # ms) =
      parse_from [current] [m] (m_role m = RoleAssistant) ms"
    using assms by (simp add: next_has_assistant_def)
  also have "\<dots> = current # parse_from [] [m] (m_role m = RoleAssistant) ms"
    using parse_from_turns [of "[current]"] by simp
  finally show ?thesis by (simp add: parseTurns_Cons)
qed

lemma later_turns_reparse:
  assumes "drop k (parse_from [] current h (map Some xs)) = us" "us \<noteq> []" "current \<noteq> []" "0 < k"
  shows "\<exists>pre m post. xs = pre @ m # post \<and> turn_start m \<and> us = parseTurns (map Some (m # post))"
  using assms
proof (induction xs arbitrary: current h k)
  case Nil
  then show ?case by (cases k) auto
next
  case (Cons x xs)
  show ?case
  proof (cases "starts_turn h x")
    case True
    then have eq: "parse_from [] current h (map Some (x # xs)) =
        current # parse_from [] [x] (m_role x = RoleAssistant) (map Some xs)"
      unfolding list.map parse_from_started [OF True Cons.prems(3)] parseTurns_Cons by simp
    show ?thesis
    proof (cases "k = 1")
      case True
      then have "us = parseTurns (map Some (x # xs))"
        using Cons.prems(1) eq by (simp add: parseTurns_Cons)
      moreover have "turn_start x"
        using \<open>starts_turn h x\<close> by (auto simp: starts_turn_def turn_start_def)
      ultimately show ?thesis by blast
    next
      case False
      then obtain j where k: "k = Suc j" "0 < j" using Cons.prems(4) by (cases k) auto
      then have "drop j (parse_from [] [x] (m_role x = RoleAssistant) (map Some xs)) = us"
        using Cons.prems(1) eq by simp
      then obtain pre m post where "xs = pre @ m # post" "turn_start m"
          "us = parseTurns (map Some (m # post))"
        using Cons.IH [of j "[x]"] k(2) Cons.prems(2) by blast
      then show ?thesis by (metis append_Cons)
    qed
  next
    case False
    then have "drop k (parse_from [] (current @ [x]) (next_has_assistant h x) (map Some xs)) = us"
      using Cons.prems(1) by simp
    then obtain pre m post where "xs = pre @ m # post" "turn_start m"
        "us = parseTurns (map Some (m # post))"
      using Cons.IH [of k "current @ [x]"] Cons.prems(2,4) by blast
    then show ?thesis by (metis append_Cons)
  qed
qed

lemma drop_turns_reparse:
  assumes "drop k (parseTurns ms) = us" "us \<noteq> []" "0 < k"
  obtains pre m post where "non_nil ms = pre @ m # post" "turn_start m"
    "us = parseTurns (map Some (m # post))" "concat us = m # post"
proof -
  have eq: "parseTurns ms = parseTurns (map Some (non_nil ms))"
    by (simp only: parseTurns_def parse_from_non_nil [of "[]" "[]" False ms])
  obtain x xs where x: "non_nil ms = x # xs"
    using assms eq by (cases "non_nil ms") (auto simp: parseTurns_def)
  have "drop k (parse_from [] [x] (m_role x = RoleAssistant) (map Some xs)) = us"
    using assms(1) eq x by (simp add: parseTurns_Cons)
  from later_turns_reparse [OF this assms(2) _ assms(3)] obtain pre m post where
    *: "xs = pre @ m # post" "turn_start m" "us = parseTurns (map Some (m # post))"
    by auto
  have "concat us = m # post" using *(3) concat_parseTurns [of "map Some (m # post)"] by simp
  with * x show ?thesis using that [of "x # pre"] by simp
qed

lemma system_end_prefix:
  "system_end msgs = Some k \<Longrightarrow> k \<le> length msgs \<and>
   (\<forall>m \<in> set (take k msgs). \<exists>s. m = Some s \<and> m_role s = RoleSystem)"
proof (induction msgs arbitrary: k rule: system_end.induct)
  case (3 m ms)
  then show ?case by (cases k) (auto split: if_splits)
qed auto

lemma KeepRecentTurns_cases:
  assumes "KeepRecentTurns n msgs = Inr out" "0 < n" "system_end msgs = Some k"
  obtains "out = msgs" "length (parseTurns (drop k msgs)) \<le> nat n"
  | pre m post where "k < length msgs" "non_nil (drop k msgs) = pre @ m # post" "turn_start m"
      "out = take k msgs @ map Some (m # post)" "length (parseTurns (map Some (m # post))) = nat n"
proof (cases "msgs = [] \<or> length msgs \<le> k \<or> length (parseTurns (drop k msgs)) \<le> nat n")
  case True
  then have "out = msgs" "length (parseTurns (drop k msgs)) \<le> nat n"
    using assms by (auto simp: KeepRecentTurns_def Let_def parseTurns_def split: if_splits)
  then show ?thesis by (rule that(1))
next
  case False
  let ?turns = "parseTurns (drop k msgs)" and ?us = "drop (length (parseTurns (drop k msgs)) - nat n)
    (parseTurns (drop k msgs))"
  have len: "length ?us = nat n" using False by simp
  with assms(2) have "?us \<noteq> []" by (metis length_0_conv nat_0_iff not_less)
  moreover have "0 < length ?turns - nat n" using False by simp
  ultimately obtain pre m post where
    *: "non_nil (drop k msgs) = pre @ m # post" "turn_start m" "?us = parseTurns (map Some (m # post))"
       "concat ?us = m # post"
    using drop_turns_reparse [of _ "drop k msgs", OF refl] by metis
  have "\<not> int (length ?turns) \<le> n" using False assms(2) by linarith
  then have "out = take k msgs @ flattenTurns ?us"
    using assms False by (auto simp: KeepRecentTurns_def Let_def)
  then have "out = take k msgs @ map Some (m # post)" using *(4) by (simp add: flattenTurns_def)
  with * len False show ?thesis using that(2) [of pre m post] by simp
qed

text \<open>
  \<open>KeepRecentTurns n\<close> keeps every leading system message, keeps at most \<open>n\<close> turns, and
  what it keeps of the history is a suffix of it: nothing is reordered and no turn is split.
\<close>

theorem KeepRecentTurns_bounded:
  assumes "KeepRecentTurns n msgs = Inr out" "0 < n" "system_end msgs = Some k"
  shows "take k out = take k msgs \<and> length (parseTurns (drop k out)) \<le> nat n \<and>
         suffix (non_nil (drop k out)) (non_nil (drop k msgs))"
  using assms
proof (cases rule: KeepRecentTurns_cases)
  case 1
  then show ?thesis by simp
next
  case (2 pre m post)
  then have "take k out = take k msgs" "drop k out = map Some (m # post)" by simp_all
  with 2 show ?thesis by (simp add: suffix_def)
qed


theorem KeepRecentTurns_bounded_witness:
  "let u = \<lambda>t. Some \<lparr>m_role = RoleUser, m_parts = [TextPart t], m_meta = None\<rparr>;
       s = Some \<lparr>m_role = RoleSystem, m_parts = [TextPart ''s''], m_meta = None\<rparr>;
       out = [s, u ''b'']
   in KeepRecentTurns 1 [s, u ''a'', u ''b''] = Inr out \<and> take 1 out = [s] \<and>
      length (parseTurns (drop 1 out)) \<le> 1"
proof -
  let ?u = "\<lambda>t. Some \<lparr>m_role = RoleUser, m_parts = [TextPart t], m_meta = None\<rparr>"
  let ?s = "Some \<lparr>m_role = RoleSystem, m_parts = [TextPart ''s''], m_meta = None\<rparr>"
  let ?out = "[?s, ?u ''b'']"
  have k: "KeepRecentTurns 1 [?s, ?u ''a'', ?u ''b''] = Inr ?out"
    by (simp add: KeepRecentTurns_def parseTurns_def starts_turn_def isToolResultOnly_def
        next_has_assistant_def is_tool_result_def flattenTurns_def)
  moreover have "system_end [?s, ?u ''a'', ?u ''b''] = Some 1" by simp
  ultimately show ?thesis
    using KeepRecentTurns_bounded [OF k] by simp
qed

subsection \<open>Tool integrity of the kept turns\<close>

lemma group_split:
  assumes "g @ r = xs @ Some m # ys" "list_all assistant_message g"
  obtains xs' where "xs = g @ xs'" "r = xs' @ Some m # ys"
  | zs where "g = xs @ Some m # zs" "ys = zs @ r" "m_role m = RoleAssistant"
proof -
  from assms(1) consider zs where "xs = g @ zs" "r = zs @ Some m # ys"
    | zs where "g = xs @ zs" "zs @ r = Some m # ys"
    by (auto simp: append_eq_append_conv2)
  then show ?thesis
  proof cases
    case 1
    then show ?thesis by (rule that(1))
  next
    case (2 zs)
    show ?thesis
    proof (cases zs)
      case Nil
      with 2 show ?thesis using that(1) [of "[]"] by simp
    next
      case (Cons z zs')
      with 2 assms(2) show ?thesis using that(2) [of zs'] by (auto simp: list_all_iff)
    qed
  qed
qed

lemma well_formed_suffix:
  assumes "well_formed (xs @ Some m # ys)"
    and "plain m \<or> m_role m = RoleAssistant \<and> (xs = [] \<or> \<not> assistant_message (last xs))"
  shows "well_formed (Some m # ys)"
  using assms
proof (induction "xs @ Some m # ys" arbitrary: xs rule: well_formed.induct)
  case wf_end
  then show ?case by simp
next
  case (wf_other m' rest)
  show ?case
  proof (cases xs)
    case Nil
    with wf_other show ?thesis by (auto intro: well_formed.wf_other)
  next
    case (Cons x xs')
    with wf_other(5) have r: "rest = xs' @ Some m # ys" by simp
    have "plain m \<or> m_role m = RoleAssistant \<and> (xs' = [] \<or> \<not> assistant_message (last xs'))"
      using wf_other(6) Cons by auto
    then show ?thesis by (rule wf_other(4) [OF r])
  qed
next
  case (wf_quiet g rest)
  from wf_quiet(7) wf_quiet(2) show ?case
  proof (cases rule: group_split)
    case (1 xs')
    have "plain m \<or> m_role m = RoleAssistant \<and> (xs' = [] \<or> \<not> assistant_message (last xs'))"
      using wf_quiet(8) 1 by auto
    then show ?thesis by (rule wf_quiet(6) [OF 1(2)])
  next
    case (2 zs)
    then have "xs = []" using wf_quiet(2,8) by (auto simp: list_all_iff)
    moreover have "well_formed (g @ rest)"
      using wf_quiet(1-5) by (rule well_formed.wf_quiet)
    ultimately show ?thesis using wf_quiet(7) by simp
  qed
next
  case (wf_exchange g u rest)
  from wf_exchange(11) wf_exchange(2) show ?case
  proof (cases rule: group_split)
    case (1 xs')
    show ?thesis
    proof (cases xs')
      case Nil
      with 1 wf_exchange show ?thesis by auto
    next
      case (Cons x xs'')
      with 1 have r: "rest = xs'' @ Some m # ys" by simp
      have "plain m \<or> m_role m = RoleAssistant \<and> (xs'' = [] \<or> \<not> assistant_message (last xs''))"
        using wf_exchange(12) 1 Cons by auto
      then show ?thesis by (rule wf_exchange(10) [OF r])
    qed
  next
    case (2 zs)
    then have "xs = []" using wf_exchange(2,12) by (auto simp: list_all_iff)
    moreover have "well_formed (g @ Some u # rest)"
      using wf_exchange(1-9) by (rule well_formed.wf_exchange)
    ultimately show ?thesis using wf_exchange(11) by simp
  qed
qed

text \<open>
  The two shapes of history whose turns \<open>parseTurns\<close> delimits correctly: no assistant response is
  spread over adjacent messages, and a user message that answers tool calls carries nothing else.
\<close>

fun single_responses :: "transcript \<Rightarrow> bool" where
  "single_responses (x # y # ms) \<longleftrightarrow>
     \<not> (assistant_message x \<and> assistant_message y) \<and> single_responses (y # ms)"
| "single_responses _ \<longleftrightarrow> True"

definition answers_only :: "transcript \<Rightarrow> bool" where
  "answers_only ms \<longleftrightarrow>
     (\<forall>m. Some m \<in> set ms \<longrightarrow> result_ids (m_parts m) \<noteq> [] \<longrightarrow> isToolResultOnly m)"

lemma single_responses_last:
  "single_responses (xs @ y # ys) \<Longrightarrow> assistant_message y \<Longrightarrow>
   xs = [] \<or> \<not> assistant_message (last xs)"
proof (induction xs)
  case (Cons x xs)
  then show ?case by (cases xs) auto
qed simp

lemma non_nil_id: "None \<notin> set ms \<Longrightarrow> map Some (non_nil ms) = ms"
proof (induction ms)
  case (Cons m ms)
  then show ?case by (cases m) auto
qed simp

lemma well_formed_system_prefix:
  assumes "well_formed (pre @ rest)" "\<forall>m \<in> set pre. \<exists>s. m = Some s \<and> m_role s = RoleSystem"
    and "well_formed rest'"
  shows "well_formed (pre @ rest')"
  using assms(1,2)
proof (induction pre)
  case Nil
  then show ?case using assms(3) by simp
next
  case (Cons x pre)
  then obtain s where s: "x = Some s" "m_role s = RoleSystem" by auto
  have "well_formed (Some s # pre @ rest)" using Cons.prems(1) s by simp
  then have v: "validate_from 0 (Some s # pre @ rest) = None" by (rule well_formed_validates)
  then have "result_ids (m_parts s) = []" "validate_from 1 (pre @ rest) = None"
    using s(2) by (auto simp: validate_from.simps(3) toolResultIDs_eq split: if_splits)
  then have "well_formed (pre @ rest')"
    using Cons validates_well_formed by (meson list.set_intros(2))
  with s \<open>result_ids (m_parts s) = []\<close> show ?case by (auto intro: well_formed.wf_other)
qed

lemma well_formed_tail:
  assumes "well_formed msgs" "single_responses msgs" "answers_only msgs"
    and "system_end msgs = Some k" "non_nil (drop k msgs) = pre @ m # post" "turn_start m"
    and mid: "well_formed (map Some (m # post)) \<Longrightarrow> well_formed (mid @ map Some (m # post))"
  shows "well_formed (take k msgs @ mid @ map Some (m # post))"
proof -
  have nn: "None \<notin> set msgs" using assms(1) by (rule well_formed_no_None)
  then have "None \<notin> set (drop k msgs)" by (meson in_set_dropD)
  then have d: "drop k msgs = map Some pre @ Some m # map Some post"
    using non_nil_id [of "drop k msgs"] assms(5) by simp
  then have split: "msgs = (take k msgs @ map Some pre) @ Some m # map Some post"
    by (metis append_assoc append_take_drop_id)
  have "Some m \<in> set msgs" by (subst split) simp
  then have "plain m \<or> m_role m = RoleAssistant \<and> (take k msgs @ map Some pre = [] \<or>
      \<not> assistant_message (last (take k msgs @ map Some pre)))"
    using assms(3,6) single_responses_last [of "take k msgs @ map Some pre" "Some m" "map Some post"]
      assms(2) split
    by (auto simp: turn_start_def answers_only_def)
  then have "well_formed (Some m # map Some post)"
    using well_formed_suffix split assms(1) by metis
  then have "well_formed (mid @ map Some (m # post))" using mid by simp
  then show ?thesis
    using well_formed_system_prefix [of "take k msgs" "drop k msgs"] system_end_prefix [OF assms(4)]
      assms(1) by simp
qed

text \<open>
  Property C3. When every assistant response is one message and tool answers stand alone, trimming a
  valid transcript to its recent turns gives a valid transcript: no tool result is orphaned and no
  tool call left unanswered.
\<close>

theorem KeepRecentTurns_keeps_tool_integrity:
  assumes "ValidatePlannerTranscript msgs = None" "single_responses msgs" "answers_only msgs"
    and "KeepRecentTurns n msgs = Inr out"
  shows "ValidatePlannerTranscript out = None"
proof (cases "0 < n \<and> msgs \<noteq> []")
  case False
  with assms show ?thesis by (auto simp: KeepRecentTurns_def)
next
  case True
  have wf: "well_formed msgs" using assms(1) by (simp add: validate_iff_well_formed)
  obtain k where k: "system_end msgs = Some k"
    using assms(4) True by (cases "system_end msgs") (auto simp: KeepRecentTurns_def)
  have "0 < n" using True by simp
  from assms(4) this k have "well_formed out"
  proof (cases rule: KeepRecentTurns_cases)
    case (2 pre m post)
    then show ?thesis
      using well_formed_tail [OF wf assms(2,3) k, of pre m post "[]"] by simp
  qed (use True wf in auto)
  then show ?thesis by (simp add: validate_iff_well_formed)
qed

definition example_use :: "string \<Rightarrow> part" where
  "example_use i = ToolUsePart \<lparr>tu_id = i, tu_name = ''search'', tu_input = ''{}'', tu_thought_signature = []\<rparr>"

definition example_result :: "string \<Rightarrow> part" where
  "example_result i = ToolResultPart \<lparr>tr_tool_use_id = i, tr_content = GString ''ok'', tr_is_error = False\<rparr>"

definition example_message :: "conversation_role \<Rightarrow> part list \<Rightarrow> message option" where
  "example_message r ps = Some \<lparr>m_role = r, m_parts = ps, m_meta = None\<rparr>"

lemmas history_eval =
  ValidatePlannerTranscript_def validate_from.simps(3) group_parts_def check_results_def Let_def
  KeepRecentTurns_def parseTurns_def starts_turn_def isToolResultOnly_def next_has_assistant_def
  is_tool_result_def flattenTurns_def example_use_def example_result_def example_message_def

theorem KeepRecentTurns_keeps_tool_integrity_witness:
  "let msgs = [example_message RoleUser [TextPart ''a''], example_message RoleUser [TextPart ''b''],
               example_message RoleAssistant [example_use ''t''],
               example_message RoleUser [example_result ''t'']]
   in \<exists>out. KeepRecentTurns 1 msgs = Inr out \<and> length out = 3 \<and> ValidatePlannerTranscript out = None"
proof -
  let ?msgs = "[example_message RoleUser [TextPart ''a''], example_message RoleUser [TextPart ''b''],
               example_message RoleAssistant [example_use ''t''],
               example_message RoleUser [example_result ''t'']]"
  have v: "ValidatePlannerTranscript ?msgs = None" by (simp add: history_eval)
  moreover have "single_responses ?msgs" "answers_only ?msgs"
    by (simp_all add: answers_only_def history_eval)
  moreover have k: "KeepRecentTurns 1 ?msgs = Inr (tl ?msgs)" by (simp add: history_eval)
  ultimately have "ValidatePlannerTranscript (tl ?msgs) = None"
    by (rule KeepRecentTurns_keeps_tool_integrity)
  with k show ?thesis by simp
qed

text \<open>
  Outside those shapes the guarantee fails although the policy's contract promises it:
  a valid transcript whose assistant response is spread over two messages, or whose tool answer
  also carries text, is cut in the middle of an exchange and the kept part is rejected.
\<close>

theorem KeepRecentTurns_can_split_exchange:
  "let split = [example_message RoleUser [TextPart ''q''], example_message RoleAssistant [example_use ''t''],
                example_message RoleAssistant [example_use ''u''],
                example_message RoleUser [example_result ''t'', example_result ''u'']];
       mixed = [example_message RoleUser [TextPart ''q''], example_message RoleAssistant [example_use ''t''],
                example_message RoleUser [example_result ''t'', TextPart ''and now?'']]
   in ValidatePlannerTranscript split = None \<and> ValidatePlannerTranscript mixed = None \<and>
      map_sum id ValidatePlannerTranscript (KeepRecentTurns 1 split) =
        Inr (Some (ResultCountMismatch 1 1 2)) \<and>
      map_sum id ValidatePlannerTranscript (KeepRecentTurns 1 mixed) =
        Inr (Some (ResultWithoutUse 0 RoleUser))"
  by (simp add: history_eval)

subsection \<open>Compression\<close>

lemma tail_loop_bounds:
  assumes "tail_loop cfg env system turns newest keepStart i = Inr ks" "i \<le> keepStart"
    and "keepStart < length turns"
    and "KeepMaxTurns cfg > 0 \<Longrightarrow> int (length turns) - int keepStart \<le> KeepMaxTurns cfg"
    and "KeepMaxInputTokens cfg > 0 \<Longrightarrow>
      \<exists>t. countMessages env (requestShape system (drop keepStart turns)) = Inr t \<and>
          t - newest \<le> KeepMaxInputTokens cfg"
  shows "ks < length turns \<and>
    (KeepMaxTurns cfg > 0 \<longrightarrow> int (length turns) - int ks \<le> KeepMaxTurns cfg) \<and>
    (KeepMaxInputTokens cfg > 0 \<longrightarrow>
      (\<exists>t. countMessages env (requestShape system (drop ks turns)) = Inr t \<and>
          t - newest \<le> KeepMaxInputTokens cfg))"
  using assms
proof (induction cfg env system turns newest keepStart i rule: tail_loop.induct)
  case (1 cfg env system turns newest keepStart)
  then show ?case by simp
next
  case (2 cfg env system turns newest keepStart i)
  show ?case
  proof (cases "KeepMaxTurns cfg > 0 \<and> int (length turns) - int i > KeepMaxTurns cfg")
    case True
    then show ?thesis using "2.prems" by simp
  next
    case turns: False
    show ?thesis
    proof (cases "KeepMaxInputTokens cfg > 0")
      case False
      then have "tail_loop cfg env system turns newest i i = Inr ks"
        using turns "2.prems"(1) by (auto split: if_splits)
      then show ?thesis using turns False "2.IH"(2) "2.prems"(2,3) by auto
    next
      case True
      with turns "2.prems"(1) obtain t where t: "countMessages env (requestShape system (drop i turns)) = Inr t"
        by (auto split: sum.splits)
      show ?thesis
      proof (cases "t - newest > KeepMaxInputTokens cfg")
        case True
        then show ?thesis
          using t turns \<open>0 < KeepMaxInputTokens cfg\<close> "2.prems" by (auto split: if_splits)
      next
        case False
        then have "tail_loop cfg env system turns newest i i = Inr ks"
          using t turns \<open>0 < KeepMaxInputTokens cfg\<close> "2.prems"(1) by (auto split: if_splits)
        then show ?thesis
          using turns \<open>0 < KeepMaxInputTokens cfg\<close> t False "2.IH"(1) "2.prems"(2,3) by auto
      qed
    qed
  qed
qed


definition tail_within ::
  "compression_config \<Rightarrow> history_env \<Rightarrow> transcript \<Rightarrow> turn list \<Rightarrow> nat \<Rightarrow> bool" where
  "tail_within cfg env system turns ks \<longleftrightarrow>
     ks < length turns \<and>
     (KeepMaxTurns cfg > 0 \<longrightarrow> int (length turns) - int ks \<le> KeepMaxTurns cfg) \<and>
     (KeepMaxInputTokens cfg > 0 \<longrightarrow>
       (\<exists>t n. countMessages env (requestShape system (drop ks turns)) = Inr t \<and>
              countMessages env (requestShape system (drop (length turns - 1) turns)) = Inr n \<and>
              t - n \<le> KeepMaxInputTokens cfg))"

lemma newest_tokens_ok:
  "newest_tokens cfg env system turns = Inr n \<Longrightarrow> KeepMaxInputTokens cfg > 0 \<Longrightarrow>
   countMessages env (requestShape system (drop (length turns - 1) turns)) = Inr n"
  by (auto simp: newest_tokens_def split: sum.splits if_splits)

lemma exactTailStart_within:
  assumes "exactTailStart cfg env system turns = Inr ks" "turns \<noteq> []"
  shows "tail_within cfg env system turns ks"
proof -
  let ?l = "length turns - 1"
  obtain n where n: "newest_tokens cfg env system turns = Inr n"
    "tail_loop cfg env system turns n ?l ?l = Inr ks"
    using assms by (auto simp: exactTailStart_def split: sum.splits)
  have "ks < length turns \<and>
    (KeepMaxTurns cfg > 0 \<longrightarrow> int (length turns) - int ks \<le> KeepMaxTurns cfg) \<and>
    (KeepMaxInputTokens cfg > 0 \<longrightarrow>
      (\<exists>t. countMessages env (requestShape system (drop ks turns)) = Inr t \<and>
          t - n \<le> KeepMaxInputTokens cfg))"
    using n(2)
  proof (rule tail_loop_bounds)
    show "?l < length turns" using assms(2) by (cases turns) auto
    show "int (length turns) - int ?l \<le> KeepMaxTurns cfg" if "KeepMaxTurns cfg > 0"
      using that assms(2) by (cases turns) auto
    show "\<exists>t. countMessages env (requestShape system (drop ?l turns)) = Inr t \<and>
        t - n \<le> KeepMaxInputTokens cfg" if "KeepMaxInputTokens cfg > 0"
      using that newest_tokens_ok [OF n(1)] by auto
  qed simp
  then show ?thesis
    using newest_tokens_ok [OF n(1)] by (auto simp: tail_within_def)
qed

lemma Compress_cases:
  assumes "Compress env cfg msgs = Inr out" "out \<noteq> msgs"
  obtains k ks summary where "system_end msgs = Some k" "0 < ks"
    "shouldCompress cfg env msgs (length (parseTurns (drop k msgs))) = Inr True"
    "exactTailStart cfg env (take k msgs) (parseTurns (drop k msgs)) = Inr ks" "summary \<noteq> []"
    "out = take k msgs @ Some (summary_message env summary) # flattenTurns (drop ks (parseTurns (drop k msgs)))"
  using assms
  by (auto simp: Compress_def compress_turns_def Let_def split: option.splits if_splits sum.splits bool.splits)

lemma Compress_validated: "Compress env cfg msgs = Inr out \<Longrightarrow> out \<noteq> msgs \<Longrightarrow> config_Validate cfg = None"
  by (auto simp: Compress_def split: option.splits if_splits)

text \<open>
  Property C4. When \<open>Compress\<close> rewrites the history, the result is the leading system messages, one
  summary, and a non-empty tail of whole turns taken unchanged from the history; at least one turn
  was summarized, and the tail respects \<open>KeepMaxTurns\<close> and the provider-counted
  \<open>KeepMaxInputTokens\<close> budget for the turns that join the newest one.
\<close>

theorem Compress_tail_within_budgets:
  assumes "Compress env cfg msgs = Inr out" "out \<noteq> msgs" "system_end msgs = Some k"
  shows "\<exists>ks summary. 0 < ks \<and> summary \<noteq> [] \<and>
    out = take k msgs @ Some (summary_message env summary) #
          flattenTurns (drop ks (parseTurns (drop k msgs))) \<and>
    tail_within cfg env (take k msgs) (parseTurns (drop k msgs)) ks"
  using assms(1,2)
proof (cases rule: Compress_cases)
  case (1 k' ks summary)
  then have "k' = k" using assms(3) by simp
  have "ks = 0" if "parseTurns (drop k msgs) = []"
    using that 1(4) \<open>k' = k\<close> by (simp add: exactTailStart_def)
  then have "parseTurns (drop k msgs) \<noteq> []" using 1(2) by auto
  then show ?thesis using 1 \<open>k' = k\<close> exactTailStart_within by blast
qed

definition example_env :: history_env where
  "example_env =
     \<lparr>he_client = Some (\<lambda>prompt. Inr (Some [\<lparr>m_role = RoleAssistant, m_parts = [TextPart prompt], m_meta = None\<rparr>])),
      he_counter = Some (\<lambda>msgs. Inr \<lparr>tc_input_tokens = int (length msgs), tc_exact = True\<rparr>),
      he_summary_role = RoleSystem,
      he_summarize = (\<lambda>c. ''sum'')\<rparr>"

definition example_config :: compression_config where
  "example_config = \<lparr>CompressAtTurns = 3, CompressAtMaxInputTokens = 0, KeepMaxTurns = 2, KeepMaxInputTokens = 5\<rparr>"

lemma trim_space_example: "trim_space ''sum'' = ''sum''"
  by (rule trim_space_id) (simp_all add: space_runes_def)

lemmas compress_eval =
  history_eval Compress_def example_env_def example_config_def config_Validate_def shouldCompress_def
  exactTailStart_def newest_tokens_def countMessages_def requestShape_def compress_turns_def
  extractResponseText_def trim_space_example

definition example_history :: transcript where
  "example_history =
     [example_message RoleSystem [TextPart ''s''], example_message RoleUser [TextPart ''a''],
      example_message RoleUser [TextPart ''b''], example_message RoleUser [TextPart ''c'']]"

definition example_compressed :: transcript where
  "example_compressed =
     [example_message RoleSystem [TextPart ''s''], Some (summary_message example_env ''sum''),
      example_message RoleUser [TextPart ''b''], example_message RoleUser [TextPart ''c'']]"

lemma Compress_example: "Compress example_env example_config example_history = Inr example_compressed"
  "example_compressed \<noteq> example_history" "system_end example_history = Some 1"
  by (simp_all add: compress_eval example_history_def example_compressed_def summary_message_def numeral_2_eq_2)

theorem Compress_tail_within_budgets_witness:
  "\<exists>ks summary. 0 < ks \<and> summary \<noteq> [] \<and>
    example_compressed = take 1 example_history @ Some (summary_message example_env summary) #
      flattenTurns (drop ks (parseTurns (drop 1 example_history))) \<and>
    tail_within example_config example_env (take 1 example_history) (parseTurns (drop 1 example_history)) ks"
  by (rule Compress_tail_within_budgets [OF Compress_example])

text \<open>
  Property C5. When every response with tool calls is a single message, every message that answers tool calls
  carries nothing else, and the summary role is not assistant, compressing a valid transcript gives a valid
  transcript.
\<close>

theorem Compress_keeps_tool_integrity:
  assumes "ValidatePlannerTranscript msgs = None" "single_responses msgs" "answers_only msgs"
    and "he_summary_role env \<noteq> RoleAssistant" "Compress env cfg msgs = Inr out"
  shows "ValidatePlannerTranscript out = None"
proof (cases "out = msgs")
  case False
  have wf: "well_formed msgs" using assms(1) by (simp add: validate_iff_well_formed)
  from assms(5) False show ?thesis
  proof (cases rule: Compress_cases)
    case (1 k ks summary)
    let ?turns = "parseTurns (drop k msgs)"
    have "?turns \<noteq> []" using 1(2,4) by (auto simp: exactTailStart_def)
    then have "ks < length ?turns" using exactTailStart_within [OF 1(4)] by (simp add: tail_within_def)
    then have "drop ks ?turns \<noteq> []" by simp
    from drop_turns_reparse [OF refl this 1(2)] obtain pre m post where
      *: "non_nil (drop k msgs) = pre @ m # post" "turn_start m" "concat (drop ks ?turns) = m # post"
      by metis
    have "well_formed (take k msgs @ [Some (summary_message env summary)] @ map Some (m # post))"
      using wf assms(2,3) 1(1) *(1,2)
    proof (rule well_formed_tail)
      assume "well_formed (map Some (m # post))"
      then show "well_formed ([Some (summary_message env summary)] @ map Some (m # post))"
        using assms(4) by (auto intro!: well_formed.wf_other simp: summary_message_def)
    qed
    then show ?thesis using 1(6) *(3) by (simp add: validate_iff_well_formed flattenTurns_def)
  qed
qed (use assms(1) in simp)

theorem Compress_keeps_tool_integrity_witness:
  "ValidatePlannerTranscript example_compressed = None"
  by (rule Compress_keeps_tool_integrity [OF _ _ _ _ Compress_example(1)])
    (simp_all add: example_history_def answers_only_def history_eval example_env_def)

lemma system_end_append:
  "\<forall>m \<in> set pre. \<exists>s. m = Some s \<and> m_role s = RoleSystem \<Longrightarrow>
   system_end (pre @ ms) = map_option ((+) (length pre)) (system_end ms)"
  by (induction pre) (cases "system_end ms"; auto)+

text \<open>
  With a system summary and turn budgets only, one compression is enough: applying the
  policy to its own result changes nothing, so a planner loop does not summarize its summaries.
\<close>

theorem Compress_stable:
  assumes "Compress env cfg msgs = Inr out" "he_summary_role env = RoleSystem"
    and "KeepMaxTurns cfg > 0" "CompressAtTurns cfg > 0" "CompressAtMaxInputTokens cfg = 0"
  shows "Compress env cfg out = Inr out"
proof (cases "out = msgs")
  case True
  with assms(1) show ?thesis by simp
next
  case False
  note valid = Compress_validated [OF assms(1) False]
  from assms(1) False show ?thesis
  proof (cases rule: Compress_cases)
    case (1 k ks summary)
    let ?turns = "parseTurns (drop k msgs)"
    have "?turns \<noteq> []" using 1(2,4) by (auto simp: exactTailStart_def)
    then have w: "tail_within cfg env (take k msgs) ?turns ks" by (rule exactTailStart_within [OF 1(4)])
    then have "drop ks ?turns \<noteq> []" by (simp add: tail_within_def)
    from drop_turns_reparse [OF refl this 1(2)] obtain pre m post where
      *: "turn_start m" "drop ks ?turns = parseTurns (map Some (m # post))"
         "concat (drop ks ?turns) = m # post"
      by metis
    let ?sys = "take k msgs @ [Some (summary_message env summary)]"
    have out: "out = ?sys @ map Some (m # post)" using 1(6) *(3) by (simp add: flattenTurns_def)
    have "\<forall>x \<in> set ?sys. \<exists>s. x = Some s \<and> m_role s = RoleSystem"
      using system_end_prefix [OF 1(1)] assms(2) by (auto simp: summary_message_def)
    moreover have "system_end (map Some (m # post)) = Some 0"
      using *(1) by (auto simp: turn_start_def)
    ultimately have se: "system_end out = Some (length ?sys)"
      unfolding out by (simp only: system_end_append option.map add_0_right)
    have "int (length (parseTurns (map Some (m # post)))) \<le> KeepMaxTurns cfg"
      using w assms(3) *(2) [symmetric] by (simp add: tail_within_def of_nat_diff)
    moreover have "KeepMaxTurns cfg < CompressAtTurns cfg"
      using valid assms(4) by (auto simp: config_Validate_def split: if_splits)
    ultimately have "shouldCompress cfg env out (length (parseTurns (map Some (m # post)))) = Inr False"
      using assms(5) by (simp add: shouldCompress_def)
    moreover have "drop (length ?sys) out = map Some (m # post)" by (simp add: out)
    moreover obtain f where "he_client env = Some f"
      using assms(1) by (cases "he_client env") (auto simp: Compress_def)
    ultimately show ?thesis
      using valid by (simp add: Compress_def se Let_def split: option.splits)
  qed
qed

theorem Compress_stable_witness:
  "Compress example_env example_config example_compressed = Inr example_compressed"
  by (rule Compress_stable [OF Compress_example(1)]) (simp_all add: example_env_def example_config_def)

text \<open>
  With the summary role set to user the same budgets do not settle: the summary counts as a
  turn of its own, so the very next call summarizes again although no message was added.
\<close>

theorem Compress_user_summary_retriggers:
  "let once_only = \<lambda>prompt. if prompt = ''user: a\<newline>''
         then Inr (Some [\<lparr>m_role = RoleAssistant, m_parts = [TextPart ''sum''], m_meta = None\<rparr>])
         else Inl ''model called again'';
       env = example_env\<lparr>he_client := Some once_only, he_summary_role := RoleUser, he_summarize := id\<rparr>
   in \<exists>once. Compress env example_config example_history = Inr once \<and>
        Compress env example_config once = Inl (CompleteFailed ''model called again'')"
  by (simp add: compress_eval example_history_def summary_message_def formatMessage_def
      numeral_2_eq_2 numeral_3_eq_3)

end
