(* ===== verification/Session_Store.thy ===== *)
theory Session_Store
  imports Model_Messages "HOL-Library.AList"
begin

section \<open>Session store\<close>

text \<open>
  \<open>runtime/agent/session\<close>: \<open>session.go\<close> declares sessions, run metadata, suspensions and the
  \<open>Store\<close> contract; \<open>inmem/store.go\<close> is the store; \<open>prompt_refs.go\<close> walks the run graph through
  the contract. Every method holds the store's lock for its whole body and is one atomic operation
  on the record \<open>store\<close>. The map of runs is iterated, so it is an association list whose order
  stands for Go's unspecified iteration order; the other maps are only looked up. Instants are
  integers with 0 for the zero \<open>time.Time\<close>, conversion to UTC does not change the instant, and
  \<open>time.Now\<close> is the argument \<open>now\<close>. The \<open>clone\<close> helpers copy values to prevent aliasing between
  caller and store; the model has values only, so they disappear.
\<close>

subsection \<open>Data\<close>

datatype session_status = StatusActive | StatusEnded

datatype run_status =
    RunStatusPending | RunStatusRunning | RunStatusPaused | RunStatusSuspended
  | RunStatusCompleted | RunStatusFailed | RunStatusCanceled | RunStatusOther string

record session =
  s_id :: string
  s_status :: session_status
  s_created_at :: int
  s_ended_at :: "int option"

record prompt_ref =
  pr_id :: string
  pr_version :: string

record run_meta =
  rm_agent_id :: string
  rm_run_id :: string
  rm_session_id :: string
  rm_status :: run_status
  rm_started_at :: int
  rm_updated_at :: int
  rm_labels :: "(string \<times> string) list"
  rm_prompt_refs :: "prompt_ref list"
  rm_child_run_ids :: "string list"
  rm_metadata :: "(string \<times> gvalue) list"

record run_suspension =
  su_id :: string
  su_data :: string

datatype session_error =
    SessionIDRequired
  | CreatedAtRequired
  | EndedAtRequired
  | RunIDRequired
  | AgentIDRequired
  | StartedAtImmutable
  | SuspensionFieldsRequired
  | ErrSessionNotFound
  | ErrSessionEnded
  | ErrRunNotFound
  | ErrRunSuspensionNotFound
  | ErrRunSuspensionConflict
  | ErrParentRunIDRequired
  | ErrChildRunIDRequired
  | ErrChildAgentIDRequired
  | ErrChildSessionIDRequired
  | ErrChildStatusRequired
  | ErrRunSessionMismatch
  | LoadRunFailed string session_error
  | EmptyChildRunID string

record store =
  sessions :: "string \<rightharpoonup> session"
  runs :: "(string \<times> run_meta) list"
  suspensions :: "string \<rightharpoonup> run_suspension"

definition New :: store where
  "New = \<lparr>sessions = Map.empty, runs = [], suspensions = Map.empty\<rparr>"

subsection \<open>Sessions\<close>

definition CreateSession :: "string \<Rightarrow> int \<Rightarrow> store \<Rightarrow> store \<times> (session_error, session) result" where
  "CreateSession sessionID createdAt s =
     (if sessionID = [] then (s, Inl SessionIDRequired)
      else if createdAt = 0 then (s, Inl CreatedAtRequired)
      else case sessions s sessionID of
             Some existing \<Rightarrow>
               if s_status existing = StatusEnded then (s, Inl ErrSessionEnded)
               else (s, Inr existing)
           | None \<Rightarrow>
               (let out = \<lparr>s_id = sessionID, s_status = StatusActive, s_created_at = createdAt,
                           s_ended_at = None\<rparr>
                in (s\<lparr>sessions := (sessions s)(sessionID \<mapsto> out)\<rparr>, Inr out)))"

definition LoadSession :: "store \<Rightarrow> string \<Rightarrow> (session_error, session) result" where
  "LoadSession s sessionID =
     (if sessionID = [] then Inl SessionIDRequired
      else case sessions s sessionID of None \<Rightarrow> Inl ErrSessionNotFound | Some existing \<Rightarrow> Inr existing)"

definition EndSession :: "string \<Rightarrow> int \<Rightarrow> store \<Rightarrow> store \<times> (session_error, session) result" where
  "EndSession sessionID endedAt s =
     (if sessionID = [] then (s, Inl SessionIDRequired)
      else if endedAt = 0 then (s, Inl EndedAtRequired)
      else case sessions s sessionID of
             None \<Rightarrow> (s, Inl ErrSessionNotFound)
           | Some existing \<Rightarrow>
               if s_status existing = StatusEnded then (s, Inr existing)
               else
                 (let out = existing\<lparr>s_status := StatusEnded, s_ended_at := Some endedAt\<rparr>
                  in (s\<lparr>sessions := (sessions s)(sessionID \<mapsto> out)\<rparr>, Inr out)))"

definition PurgeSession :: "string \<Rightarrow> store \<Rightarrow> store \<times> (session_error, unit) result" where
  "PurgeSession sessionID s =
     (if sessionID = [] then (s, Inl SessionIDRequired)
      else
        (let owned = filter (\<lambda>(runID, run). rm_session_id run = sessionID) (runs s)
         in (s\<lparr>sessions := (sessions s)(sessionID := None),
               runs := filter (\<lambda>(runID, run). rm_session_id run \<noteq> sessionID) (runs s),
               suspensions := (suspensions s) |` (- set (map fst owned))\<rparr>, Inr ())))"

subsection \<open>Runs\<close>

definition UpsertRun :: "int \<Rightarrow> run_meta \<Rightarrow> store \<Rightarrow> store \<times> (session_error, unit) result" where
  "UpsertRun now run s =
     (if rm_run_id run = [] then (s, Inl RunIDRequired)
      else if rm_agent_id run = [] then (s, Inl AgentIDRequired)
      else if rm_session_id run = [] then (s, Inl SessionIDRequired)
      else
        (let started =
           (case map_of (runs s) (rm_run_id run) of
              Some existing \<Rightarrow>
                if rm_started_at existing \<noteq> 0
                then (if rm_started_at run = 0 then Inr (rm_started_at existing)
                      else if rm_started_at run \<noteq> rm_started_at existing then Inl StartedAtImmutable
                      else Inr (rm_started_at run))
                else if rm_started_at run = 0 then Inr now else Inr (rm_started_at run)
            | None \<Rightarrow> if rm_started_at run = 0 then Inr now else Inr (rm_started_at run))
         in case started of
              Inl e \<Rightarrow> (s, Inl e)
            | Inr at \<Rightarrow>
                (s\<lparr>runs := AList.update (rm_run_id run)
                     (run\<lparr>rm_started_at := at, rm_updated_at := now\<rparr>) (runs s)\<rparr>, Inr ())))"

definition ValidateChildRunLink :: "string \<Rightarrow> run_meta \<Rightarrow> session_error option" where
  "ValidateChildRunLink parentRunID child =
     (if parentRunID = [] then Some ErrParentRunIDRequired
      else if rm_run_id child = [] then Some ErrChildRunIDRequired
      else if rm_agent_id child = [] then Some ErrChildAgentIDRequired
      else if rm_session_id child = [] then Some ErrChildSessionIDRequired
      else if rm_status child = RunStatusOther [] then Some ErrChildStatusRequired
      else None)"

definition appendUniqueRunID :: "string list \<Rightarrow> string \<Rightarrow> string list" where
  "appendUniqueRunID runIDs runID = (if runID \<in> set runIDs then runIDs else runIDs @ [runID])"

definition LinkChildRun :: "int \<Rightarrow> string \<Rightarrow> run_meta \<Rightarrow> store \<Rightarrow> store \<times> (session_error, unit) result" where
  "LinkChildRun now parentRunID child s =
     (case ValidateChildRunLink parentRunID child of
        Some e \<Rightarrow> (s, Inl e)
      | None \<Rightarrow>
          (case map_of (runs s) parentRunID of
             None \<Rightarrow> (s, Inl ErrRunNotFound)
           | Some parent \<Rightarrow>
               if rm_session_id parent \<noteq> rm_session_id child then (s, Inl ErrRunSessionMismatch)
               else
                 (let stored =
                    (case map_of (runs s) (rm_run_id child) of
                       Some existingChild \<Rightarrow>
                         if rm_session_id existingChild \<noteq> rm_session_id parent then None
                         else Some (existingChild\<lparr>rm_updated_at := now\<rparr>)
                     | None \<Rightarrow>
                         Some (child\<lparr>rm_started_at := (if rm_started_at child = 0 then now
                                                     else rm_started_at child),
                                     rm_updated_at := now\<rparr>))
                  in case stored of
                       None \<Rightarrow> (s, Inl ErrRunSessionMismatch)
                     | Some childRun \<Rightarrow>
                         (let runs1 = AList.update (rm_run_id child) childRun (runs s);
                              parent1 = parent\<lparr>rm_updated_at := now,
                                rm_child_run_ids := appendUniqueRunID (rm_child_run_ids parent)
                                                      (rm_run_id child)\<rparr>
                          in (s\<lparr>runs := AList.update parentRunID parent1 runs1\<rparr>, Inr ())))))"

definition LoadRun :: "store \<Rightarrow> string \<Rightarrow> (session_error, run_meta) result" where
  "LoadRun s runID =
     (if runID = [] then Inl RunIDRequired
      else case map_of (runs s) runID of None \<Rightarrow> Inl ErrRunNotFound | Some run \<Rightarrow> Inr run)"

definition SaveRunSuspension ::
  "string \<Rightarrow> run_suspension \<Rightarrow> store \<Rightarrow> store \<times> (session_error, unit) result" where
  "SaveRunSuspension runID suspension s =
     (if runID = [] \<or> su_id suspension = [] \<or> su_data suspension = []
      then (s, Inl SuspensionFieldsRequired)
      else case map_of (runs s) runID of
             None \<Rightarrow> (s, Inl ErrRunNotFound)
           | Some run \<Rightarrow>
               (case suspensions s runID of
                  Some existing \<Rightarrow>
                    if su_id existing = su_id suspension \<and> su_data existing = su_data suspension
                    then (s, Inr ())
                    else (s, Inl ErrRunSuspensionConflict)
                | None \<Rightarrow>
                    (s\<lparr>suspensions := (suspensions s)(runID \<mapsto> suspension)\<rparr>, Inr ())))"

definition LoadRunSuspension :: "store \<Rightarrow> string \<Rightarrow> (session_error, run_suspension) result" where
  "LoadRunSuspension s runID =
     (if runID = [] then Inl RunIDRequired
      else case map_of (runs s) runID of
             None \<Rightarrow> Inl ErrRunNotFound
           | Some run \<Rightarrow>
               (case suspensions s runID of
                  None \<Rightarrow> Inl ErrRunSuspensionNotFound
                | Some suspension \<Rightarrow> Inr suspension))"

definition ListRunsBySession ::
  "store \<Rightarrow> string \<Rightarrow> run_status list \<Rightarrow> (session_error, run_meta list) result" where
  "ListRunsBySession s sessionID statuses =
     (if sessionID = [] then Inl SessionIDRequired
      else Inr (filter (\<lambda>run. rm_session_id run = sessionID \<and>
                              (statuses \<noteq> [] \<longrightarrow> rm_status run \<in> set statuses))
                  (map snd (runs s))))"

subsection \<open>Prompt references of a run and its descendants\<close>

fun collect_refs :: "prompt_ref list \<Rightarrow> prompt_ref list \<Rightarrow> prompt_ref list" where
  "collect_refs refs [] = refs"
| "collect_refs refs (r # rs) = collect_refs (if r \<in> set refs then refs else refs @ [r]) rs"

fun enqueue_children ::
  "string \<Rightarrow> string list \<Rightarrow> string list \<Rightarrow> string list \<Rightarrow> (session_error, string list \<times> string list) result" where
  "enqueue_children current queue seenRuns [] = Inr (queue, seenRuns)"
| "enqueue_children current queue seenRuns (c # cs) =
     (if c = [] then Inl (EmptyChildRunID current)
      else if c \<in> set seenRuns then enqueue_children current queue seenRuns cs
      else enqueue_children current (queue @ [c]) (c # seenRuns) cs)"

text \<open>
  The loop may follow an unbounded graph when the store keeps producing runs, so it is a partial
  function: \<open>None\<close> means that it never returns. A prompt reference is its key \<open>(id, version)\<close>, so
  \<open>seenRefs\<close> and \<open>refs\<close> hold the same keys and one list serves for both.
\<close>

partial_function (option) resolve_loop ::
  "(string \<Rightarrow> (session_error, run_meta) result) \<Rightarrow> string \<Rightarrow> string list \<Rightarrow> string list \<Rightarrow>
   prompt_ref list \<Rightarrow> (session_error, prompt_ref list) result option" where
  "resolve_loop load runID queue seenRuns refs =
     (case queue of
        [] \<Rightarrow> Some (Inr refs)
      | current # queue' \<Rightarrow>
          (case load current of
             Inl e \<Rightarrow>
               Some (if e = ErrRunNotFound \<and> current = runID then Inl ErrRunNotFound
                     else Inl (LoadRunFailed current e))
           | Inr run \<Rightarrow>
               (let refs' = collect_refs refs (rm_prompt_refs run)
                in case enqueue_children current queue' seenRuns (rm_child_run_ids run) of
                     Inl e \<Rightarrow> Some (Inl e)
                   | Inr (queue'', seenRuns') \<Rightarrow> resolve_loop load runID queue'' seenRuns' refs')))"

definition ResolvePromptRefs ::
  "(string \<Rightarrow> (session_error, run_meta) result) \<Rightarrow> string \<Rightarrow>
   (session_error, prompt_ref list) result option" where
  "ResolvePromptRefs load runID =
     (if runID = [] then Some (Inl RunIDRequired)
      else resolve_loop load runID [runID] [runID] [])"


subsection \<open>Operations as steps\<close>

datatype store_op =
    OpCreateSession string int
  | OpEndSession string int
  | OpPurgeSession string
  | OpUpsertRun int run_meta
  | OpLinkChildRun int string run_meta
  | OpSaveRunSuspension string run_suspension

fun exec_op :: "store_op \<Rightarrow> store \<Rightarrow> store" where
  "exec_op (OpCreateSession sid t) s = fst (CreateSession sid t s)"
| "exec_op (OpEndSession sid t) s = fst (EndSession sid t s)"
| "exec_op (OpPurgeSession sid) s = fst (PurgeSession sid s)"
| "exec_op (OpUpsertRun now run) s = fst (UpsertRun now run s)"
| "exec_op (OpLinkChildRun now parent child) s = fst (LinkChildRun now parent child s)"
| "exec_op (OpSaveRunSuspension r su) s = fst (SaveRunSuspension r su s)"

text \<open>The effect of each operation on the run map, read as a function.\<close>

abbreviation run_of :: "store \<Rightarrow> string \<rightharpoonup> run_meta" where
  "run_of s \<equiv> map_of (runs s)"

lemma CreateSession_frame [go_frame]:
  "runs (fst (CreateSession sid t s)) = runs s"
  "suspensions (fst (CreateSession sid t s)) = suspensions s"
  by (simp_all add: CreateSession_def Let_def split: option.split)

lemma EndSession_frame [go_frame]:
  "runs (fst (EndSession sid t s)) = runs s"
  "suspensions (fst (EndSession sid t s)) = suspensions s"
  by (simp_all add: EndSession_def Let_def split: option.split)

lemma SaveRunSuspension_frame [go_frame]:
  "runs (fst (SaveRunSuspension r su s)) = runs s"
  "sessions (fst (SaveRunSuspension r su s)) = sessions s"
  by (simp_all add: SaveRunSuspension_def split: option.split)

lemma UpsertRun_frame [go_frame]:
  "sessions (fst (UpsertRun now run s)) = sessions s"
  "suspensions (fst (UpsertRun now run s)) = suspensions s"
  by (simp_all add: UpsertRun_def Let_def split: option.split sum.split)

lemma LinkChildRun_frame [go_frame]:
  "sessions (fst (LinkChildRun now p c s)) = sessions s"
  "suspensions (fst (LinkChildRun now p c s)) = suspensions s"
  by (simp_all add: LinkChildRun_def Let_def split: option.split)

lemma UpsertRun_cases:
  obtains (refused) e where "UpsertRun now run s = (s, Inl e)"
  | (stored) at where "UpsertRun now run s =
        (s\<lparr>runs := AList.update (rm_run_id run) (run\<lparr>rm_started_at := at, rm_updated_at := now\<rparr>) (runs s)\<rparr>, Inr ())"
      "rm_run_id run \<noteq> []" "rm_agent_id run \<noteq> []" "rm_session_id run \<noteq> []"
      "at = (if rm_started_at run = 0 then now else rm_started_at run) \<or>
       (\<exists>old. run_of s (rm_run_id run) = Some old \<and> at = rm_started_at old)"
      "\<And>old. run_of s (rm_run_id run) = Some old \<Longrightarrow> rm_started_at old \<noteq> 0 \<Longrightarrow> at = rm_started_at old"
proof (cases "snd (UpsertRun now run s)")
  case (Inl e)
  then have "UpsertRun now run s = (s, Inl e)"
    by (auto simp: UpsertRun_def Let_def split: option.splits if_splits sum.splits)
  then show ?thesis by (rule refused)
next
  case (Inr u)
  then have ids: "rm_run_id run \<noteq> []" "rm_agent_id run \<noteq> []" "rm_session_id run \<noteq> []"
    by (auto simp: UpsertRun_def split: if_splits)
  show ?thesis
  proof (cases "run_of s (rm_run_id run)")
    case None
    with ids stored [of "if rm_started_at run = 0 then now else rm_started_at run"] show ?thesis
      by (auto simp: UpsertRun_def)
  next
    case (Some old)
    with Inr ids stored [of "if rm_started_at old \<noteq> 0 then rm_started_at old
                             else if rm_started_at run = 0 then now else rm_started_at run"]
    show ?thesis by (auto simp: UpsertRun_def split: if_splits)
  qed
qed

lemma LinkChildRun_cases:
  obtains (refused) e where "LinkChildRun now parentRunID child s = (s, Inl e)"
  | (linked) parent childRun where "run_of s parentRunID = Some parent" "parentRunID \<noteq> []"
      "rm_run_id child \<noteq> []" "rm_session_id child = rm_session_id parent" "rm_session_id child \<noteq> []"
      "childRun = (case run_of s (rm_run_id child) of
         Some existing \<Rightarrow> existing\<lparr>rm_updated_at := now\<rparr>
       | None \<Rightarrow> child\<lparr>rm_started_at := (if rm_started_at child = 0 then now else rm_started_at child),
                       rm_updated_at := now\<rparr>)"
      "rm_session_id childRun = rm_session_id parent"
      "LinkChildRun now parentRunID child s =
        (s\<lparr>runs := AList.update parentRunID
             (parent\<lparr>rm_updated_at := now,
                rm_child_run_ids := appendUniqueRunID (rm_child_run_ids parent) (rm_run_id child)\<rparr>)
             (AList.update (rm_run_id child) childRun (runs s))\<rparr>, Inr ())"
proof (cases "snd (LinkChildRun now parentRunID child s)")
  case (Inl e)
  then have "LinkChildRun now parentRunID child s = (s, Inl e)"
    by (auto simp: LinkChildRun_def Let_def split: option.splits if_splits)
  then show ?thesis by (rule refused)
next
  case (Inr u)
  then have v: "ValidateChildRunLink parentRunID child = None"
    by (auto simp: LinkChildRun_def split: option.splits)
  with Inr obtain parent where p: "run_of s parentRunID = Some parent"
      "rm_session_id child = rm_session_id parent"
    by (auto simp: LinkChildRun_def split: option.splits if_splits)
  from v have ids: "parentRunID \<noteq> []" "rm_run_id child \<noteq> []" "rm_session_id child \<noteq> []"
    by (auto simp: ValidateChildRunLink_def split: if_splits)
  let ?stored = "case run_of s (rm_run_id child) of
         Some existing \<Rightarrow> existing\<lparr>rm_updated_at := now\<rparr>
       | None \<Rightarrow> child\<lparr>rm_started_at := (if rm_started_at child = 0 then now else rm_started_at child),
                       rm_updated_at := now\<rparr>"
  have same: "rm_session_id ?stored = rm_session_id parent"
    using Inr v p by (auto simp: LinkChildRun_def Let_def split: option.splits if_splits)
  have "LinkChildRun now parentRunID child s =
        (s\<lparr>runs := AList.update parentRunID
             (parent\<lparr>rm_updated_at := now,
                rm_child_run_ids := appendUniqueRunID (rm_child_run_ids parent) (rm_run_id child)\<rparr>)
             (AList.update (rm_run_id child) ?stored (runs s))\<rparr>, Inr ())"
    using v p same by (auto simp: LinkChildRun_def Let_def split: option.split)
  with p ids same show ?thesis by (intro linked [OF _ _ _ _ _ refl])
qed

text \<open>The well-formedness invariant of the store.\<close>

definition store_ok :: "store \<Rightarrow> bool" where
  "store_ok s \<longleftrightarrow>
     distinct (map fst (runs s)) \<and>
     (\<forall>k m. run_of s k = Some m \<longrightarrow> k \<noteq> [] \<and> rm_run_id m = k \<and> rm_session_id m \<noteq> []) \<and>
     dom (suspensions s) \<subseteq> dom (run_of s) \<and>
     (\<forall>k x. sessions s k = Some x \<longrightarrow> k \<noteq> [] \<and> s_id x = k \<and> (s_status x = StatusEnded \<longleftrightarrow> s_ended_at x \<noteq> None))"

lemma run_of_PurgeSession:
  "distinct (map fst (runs s)) \<Longrightarrow>
   run_of (fst (PurgeSession sid s)) r =
     (case run_of s r of None \<Rightarrow> None
      | Some m \<Rightarrow> if sid \<noteq> [] \<and> rm_session_id m = sid then None else Some m)"
  by (simp add: PurgeSession_def Let_def map_of_filter_values split: option.split)

lemma suspensions_PurgeSession:
  assumes "distinct (map fst (runs s))" "sid \<noteq> []"
  shows "suspensions (fst (PurgeSession sid s)) r =
     (if \<exists>m. run_of s r = Some m \<and> rm_session_id m = sid then None else suspensions s r)"
proof -
  have "r \<in> set (map fst (filter (\<lambda>(runID, run). rm_session_id run = sid) (runs s))) \<longleftrightarrow>
        run_of (s\<lparr>runs := filter (\<lambda>(runID, run). rm_session_id run = sid) (runs s)\<rparr>) r \<noteq> None"
    by (auto simp: map_of_eq_None_iff)
  also have "\<dots> \<longleftrightarrow> (\<exists>m. run_of s r = Some m \<and> rm_session_id m = sid)"
    using assms(1) by (cases "run_of s r") (simp_all add: map_of_filter_values)
  finally show ?thesis
    using assms(2) by (auto simp: PurgeSession_def Let_def restrict_map_def)
qed

lemma store_ok_New: "store_ok New"
  by (simp add: store_ok_def New_def)

lemma store_ok_CreateSession [go_inv]: "store_ok s \<Longrightarrow> store_ok (fst (CreateSession sid t s))"
  by (auto simp: store_ok_def CreateSession_def Let_def split: option.splits)

lemma store_ok_EndSession [go_inv]: "store_ok s \<Longrightarrow> store_ok (fst (EndSession sid t s))"
  by (auto simp: store_ok_def EndSession_def Let_def split: option.splits)

lemma store_ok_PurgeSession [go_inv]:
  assumes "store_ok s" shows "store_ok (fst (PurgeSession sid s))"
proof (cases "sid = []")
  case True
  with assms show ?thesis by (simp add: PurgeSession_def)
next
  case False
  have d: "distinct (map fst (runs s))" using assms by (simp add: store_ok_def)
  have "dom (suspensions (fst (PurgeSession sid s))) \<subseteq> dom (run_of (fst (PurgeSession sid s)))"
    using assms False
    by (fastforce simp: store_ok_def run_of_PurgeSession suspensions_PurgeSession dom_def split: option.splits if_splits)
  moreover have "distinct (map fst (runs (fst (PurgeSession sid s))))"
    using d False by (simp add: PurgeSession_def Let_def distinct_map_fst_filter)
  moreover have "sessions (fst (PurgeSession sid s)) = (sessions s)(sid := None)"
    using False by (simp add: PurgeSession_def Let_def)
  moreover have "k \<noteq> [] \<and> rm_run_id m = k \<and> rm_session_id m \<noteq> []"
    if "run_of (fst (PurgeSession sid s)) k = Some m" for k m
    using that assms by (auto simp: store_ok_def run_of_PurgeSession split: option.splits if_splits)
  ultimately show ?thesis
    using assms by (simp add: store_ok_def)
qed

lemma store_ok_put:
  assumes "store_ok s" "rm_run_id m = k" "k \<noteq> []" "rm_session_id m \<noteq> []"
  shows "store_ok (s\<lparr>runs := AList.update k m (runs s)\<rparr>)"
  using assms by (auto simp: store_ok_def update_conv' distinct_update)

lemma store_ok_UpsertRun [go_inv]:
  assumes "store_ok s" shows "store_ok (fst (UpsertRun now run s))"
proof (cases rule: UpsertRun_cases [of now run s])
  case (stored at)
  show ?thesis unfolding stored(1) fst_conv using stored(2-4) by (intro store_ok_put [OF assms]) simp_all
qed (use assms in simp)

lemma store_ok_LinkChildRun [go_inv]:
  assumes "store_ok s" shows "store_ok (fst (LinkChildRun now p child s))"
proof (cases rule: LinkChildRun_cases [where now = now and parentRunID = p and child = child and s = s])
  case (linked parent childRun)
  have p: "rm_run_id parent = p" "rm_session_id parent \<noteq> []"
    using linked(1) assms by (simp_all add: store_ok_def)
  have "rm_run_id childRun = rm_run_id child"
    using linked(6) assms by (auto simp: store_ok_def split: option.splits)
  then have "store_ok (s\<lparr>runs := AList.update (rm_run_id child) childRun (runs s)\<rparr>)"
    using linked(3,7) p(2) by (intro store_ok_put [OF assms]) simp_all
  from store_ok_put [OF this, of
      "parent\<lparr>rm_updated_at := now,
         rm_child_run_ids := appendUniqueRunID (rm_child_run_ids parent) (rm_run_id child)\<rparr>" p]
  show ?thesis using linked(2,8) p by simp
qed (use assms in simp)

lemma store_ok_SaveRunSuspension [go_inv]: "store_ok s \<Longrightarrow> store_ok (fst (SaveRunSuspension r su s))"
  by (auto simp: store_ok_def SaveRunSuspension_def split: option.splits)

lemma store_ok_exec: "store_ok s \<Longrightarrow> store_ok (exec_op op s)"
  by (cases op) (simp_all add: go_inv)


interpretation store_inv: kept_invariant exec_op "\<lambda>_ _. True" store_ok
  by unfold_locales (rule store_ok_exec)

subsection \<open>Ended sessions\<close>

definition ended_as :: "string \<times> session \<Rightarrow> store \<Rightarrow> bool" where
  "ended_as k s \<longleftrightarrow> sessions s (fst k) = Some (snd k) \<and> s_status (snd k) = StatusEnded"

definition keeps_session :: "string \<times> session \<Rightarrow> store_op \<Rightarrow> store \<Rightarrow> bool" where
  "keeps_session k op s \<longleftrightarrow> op \<noteq> OpPurgeSession (fst k)"

lemma ended_as_exec:
  "keeps_session k op s \<Longrightarrow> ended_as k s \<Longrightarrow> ended_as k (exec_op op s)"
  by (cases op)
    (auto simp: ended_as_def keeps_session_def go_frame CreateSession_def EndSession_def
        PurgeSession_def Let_def split: option.split)

interpretation ended: stable_fact exec_op "\<lambda>_ _. True" "\<lambda>_. True" ended_as keeps_session
  by unfold_locales (simp_all add: ended_as_exec)

text \<open>
  Property C6. Ending a session is final: whatever operations follow, as long as that session is not
  purged, loading it returns the state \<open>EndSession\<close> returned, ending it again changes nothing, and
  \<open>CreateSession\<close> refuses to reopen it.
\<close>

theorem ended_session_is_terminal:
  assumes "EndSession sid at s = (s', Inr x)" "OpPurgeSession sid \<notin> set ops"
  shows "s_status x = StatusEnded \<and>
    LoadSession (run_ops exec_op ops s') sid = Inr x \<and>
    (\<forall>t. snd (CreateSession sid t (run_ops exec_op ops s')) \<in> {Inl CreatedAtRequired, Inl ErrSessionEnded}) \<and>
    (\<forall>t \<noteq> 0. EndSession sid t (run_ops exec_op ops s') = (run_ops exec_op ops s', Inr x))"
proof -
  have sid: "sid \<noteq> []" and e: "ended_as (sid, x) s'"
    using assms(1)
    by (auto simp: EndSession_def ended_as_def Let_def split: if_splits option.splits)
  have "legal_ops exec_op (\<lambda>op s. True \<and> keeps_session (sid, x) op s) ops s'"
    using assms(2) by (intro legal_ops_static) (auto simp: keeps_session_def)
  then have "ended_as (sid, x) (run_ops exec_op ops s')"
    using ended.ops_stable e by blast
  then show ?thesis
    using sid by (simp add: ended_as_def LoadSession_def CreateSession_def EndSession_def)
qed

theorem ended_session_is_terminal_witness:
  "let s = fst (CreateSession ''s'' 1 New); (s', r) = EndSession ''s'' 5 s;
       ops = [OpCreateSession ''s'' 7, OpEndSession ''s'' 9, OpPurgeSession ''t'']
   in \<exists>x. r = Inr x \<and> s_ended_at x = Some 5 \<and> LoadSession (run_ops exec_op ops s') ''s'' = Inr x"
proof -
  let ?s = "fst (CreateSession ''s'' 1 New)"
  let ?x = "\<lparr>s_id = ''s'', s_status = StatusEnded, s_created_at = 1, s_ended_at = Some 5\<rparr>"
  let ?ops = "[OpCreateSession ''s'' 7, OpEndSession ''s'' 9, OpPurgeSession ''t'']"
  have e: "EndSession ''s'' 5 ?s = (fst (EndSession ''s'' 5 ?s), Inr ?x)"
    by (simp add: EndSession_def CreateSession_def New_def Let_def)
  moreover have "OpPurgeSession ''s'' \<notin> set ?ops" by simp
  ultimately have "LoadSession (run_ops exec_op ?ops (fst (EndSession ''s'' 5 ?s))) ''s'' = Inr ?x"
    using ended_session_is_terminal [OF e] by blast
  moreover have "snd (EndSession ''s'' 5 ?s) = Inr ?x" by (subst e) simp
  ultimately show ?thesis unfolding Let_def case_prod_unfold by simp
qed

subsection \<open>Runs keep their start time and their suspension\<close>

definition keeps_run :: "string \<Rightarrow> store_op \<Rightarrow> store \<Rightarrow> bool" where
  "keeps_run r op s \<longleftrightarrow> (\<forall>m. run_of s r = Some m \<longrightarrow> op \<noteq> OpPurgeSession (rm_session_id m))"

definition started_as :: "string \<times> int \<Rightarrow> store \<Rightarrow> bool" where
  "started_as k s \<longleftrightarrow> (\<exists>m. run_of s (fst k) = Some m \<and> rm_started_at m = snd k \<and> snd k \<noteq> 0)"

lemma started_as_exec:
  assumes "store_ok s" "keeps_run (fst k) op s" "started_as k s"
  shows "started_as k (exec_op op s)"
proof -
  obtain m where m: "run_of s (fst k) = Some m" "rm_started_at m = snd k" "snd k \<noteq> 0"
    using assms(3) by (auto simp: started_as_def)
  show ?thesis
  proof (cases op)
    case (OpPurgeSession sid)
    then have "rm_session_id m \<noteq> sid" using assms(2) m(1) by (auto simp: keeps_run_def)
    with m assms(1) OpPurgeSession show ?thesis
      by (simp add: started_as_def run_of_PurgeSession store_ok_def)
  next
    case (OpUpsertRun now run)
    show ?thesis
    proof (cases rule: UpsertRun_cases [of now run s])
      case (stored at)
      then have "rm_run_id run = fst k \<Longrightarrow> at = snd k" using m by simp
      with stored(1) m OpUpsertRun show ?thesis by (simp add: started_as_def update_conv')
    qed (use assms(3) OpUpsertRun in simp)
  next
    case (OpLinkChildRun now p child)
    show ?thesis
    proof (cases rule: LinkChildRun_cases [where now = now and parentRunID = p and child = child and s = s])
      case (linked parent childRun)
      have "rm_run_id child = fst k \<Longrightarrow> rm_started_at childRun = snd k"
        using linked(6) m by simp
      with linked m OpLinkChildRun show ?thesis by (auto simp: started_as_def update_conv')
    qed (use assms(3) OpLinkChildRun in simp)
  qed (use assms(3) in \<open>simp_all add: started_as_def go_frame\<close>)
qed

interpretation started: stable_fact exec_op "\<lambda>_ _. True" store_ok started_as "\<lambda>k. keeps_run (fst k)"
  by unfold_locales (simp add: started_as_exec)

definition suspended_as :: "string \<times> run_suspension \<Rightarrow> store \<Rightarrow> bool" where
  "suspended_as k s \<longleftrightarrow> LoadRunSuspension s (fst k) = Inr (snd k)"

lemma suspended_as_iff:
  "suspended_as k s \<longleftrightarrow>
   fst k \<noteq> [] \<and> run_of s (fst k) \<noteq> None \<and> suspensions s (fst k) = Some (snd k)"
  by (auto simp: suspended_as_def LoadRunSuspension_def split: option.splits)

lemma run_kept:
  assumes "store_ok s" "keeps_run r op s" "run_of s r \<noteq> None"
  shows "run_of (exec_op op s) r \<noteq> None"
proof (cases op)
  case (OpPurgeSession sid)
  with assms show ?thesis
    by (auto simp: keeps_run_def run_of_PurgeSession store_ok_def split: option.splits)
next
  case (OpUpsertRun now run)
  show ?thesis
    by (cases rule: UpsertRun_cases [of now run s]) (use assms(3) OpUpsertRun in \<open>simp_all add: update_conv'\<close>)
next
  case (OpLinkChildRun now p child)
  show ?thesis
    by (cases rule: LinkChildRun_cases [where now = now and parentRunID = p and child = child and s = s])
      (use assms(3) OpLinkChildRun in \<open>simp_all add: update_conv'\<close>)
qed (use assms(3) in \<open>simp_all add: go_frame\<close>)

lemma suspended_as_exec:
  assumes "store_ok s" "keeps_run (fst k) op s" "suspended_as k s"
  shows "suspended_as k (exec_op op s)"
proof -
  have a: "fst k \<noteq> []" "run_of s (fst k) \<noteq> None" "suspensions s (fst k) = Some (snd k)"
    using assms(3) by (simp_all add: suspended_as_iff)
  have "suspensions (exec_op op s) (fst k) = Some (snd k)"
  proof (cases op)
    case (OpPurgeSession sid)
    with assms(1,2) a show ?thesis
      by (cases "sid = []")
        (auto simp: keeps_run_def suspensions_PurgeSession store_ok_def PurgeSession_def [of "[]"])
  next
    case (OpSaveRunSuspension r su)
    with a show ?thesis by (auto simp: SaveRunSuspension_def split: option.splits)
  qed (use a(3) in \<open>simp_all add: go_frame\<close>)
  with a run_kept [OF assms(1,2)] show ?thesis by (simp add: suspended_as_iff)
qed

interpretation suspended: stable_fact exec_op "\<lambda>_ _. True" store_ok suspended_as "\<lambda>k. keeps_run (fst k)"
  by unfold_locales (simp add: suspended_as_exec)


text \<open>
  Property C7. A run's suspension is written once: after \<open>SaveRunSuspension\<close> succeeds, every later
  load returns exactly the stored identifier and bytes, and any other value is refused with
  \<open>ErrRunSuspensionConflict\<close>, until the session that owns the run is purged.
\<close>

theorem run_suspension_is_write_once:
  assumes "store_ok s" "SaveRunSuspension r su s = (s', Inr ())"
    and "legal_ops exec_op (\<lambda>op s. True \<and> keeps_run r op s) ops s'"
  shows "LoadRunSuspension (run_ops exec_op ops s') r = Inr su \<and>
    (\<forall>su'. su_id su' \<noteq> [] \<and> su_data su' \<noteq> [] \<longrightarrow>
       SaveRunSuspension r su' (run_ops exec_op ops s') =
         (run_ops exec_op ops s', if su' = su then Inr () else Inl ErrRunSuspensionConflict))"
proof -
  have "store_ok s'" using store_ok_SaveRunSuspension [OF assms(1), of r su] assms(2) by simp
  moreover have "suspended_as (r, su) s'"
    using assms(2)
    by (auto simp: suspended_as_iff SaveRunSuspension_def split: if_splits option.splits)
  ultimately have "suspended_as (r, su) (run_ops exec_op ops s')"
    using suspended.ops_stable assms(3) by simp
  then have "r \<noteq> []" "run_of (run_ops exec_op ops s') r \<noteq> None"
      "suspensions (run_ops exec_op ops s') r = Some su"
    by (simp_all add: suspended_as_iff)
  then show ?thesis
    by (auto simp: LoadRunSuspension_def SaveRunSuspension_def split: option.splits)
qed

definition example_run :: "string \<Rightarrow> string \<Rightarrow> run_meta" where
  "example_run r sid =
     \<lparr>rm_agent_id = ''a'', rm_run_id = r, rm_session_id = sid, rm_status = RunStatusRunning,
      rm_started_at = 0, rm_updated_at = 0, rm_labels = [], rm_prompt_refs = [\<lparr>pr_id = ''p'' @ r, pr_version = ''1''\<rparr>],
      rm_child_run_ids = [], rm_metadata = []\<rparr>"

definition example_store :: store where
  "example_store = fst (UpsertRun 10 (example_run ''r'' ''s'') New)"

lemma example_store_ok: "store_ok example_store"
  by (simp add: example_store_def store_ok_UpsertRun store_ok_New)

lemmas store_eval = example_store_def example_run_def New_def UpsertRun_def SaveRunSuspension_def
  LoadRunSuspension_def LoadRun_def PurgeSession_def Let_def

theorem run_suspension_is_write_once_witness:
  "let su = \<lparr>su_id = ''c1'', su_data = ''{}''\<rparr>; (s', res) = SaveRunSuspension ''r'' su example_store;
       ops = [OpPurgeSession ''t'', OpSaveRunSuspension ''r'' \<lparr>su_id = ''c2'', su_data = ''[]''\<rparr>]
   in LoadRunSuspension (run_ops exec_op ops s') ''r'' = Inr su"
proof -
  let ?su = "\<lparr>su_id = ''c1'', su_data = ''{}''\<rparr>"
  let ?s = "fst (SaveRunSuspension ''r'' ?su example_store)"
  let ?ops = "[OpPurgeSession ''t'', OpSaveRunSuspension ''r'' \<lparr>su_id = ''c2'', su_data = ''[]''\<rparr>]"
  have "SaveRunSuspension ''r'' ?su example_store = (?s, Inr ())"
    by (simp add: store_eval)
  moreover have "legal_ops exec_op (\<lambda>op s. True \<and> keeps_run ''r'' op s) ?ops ?s"
    by (simp add: keeps_run_def store_eval)
  ultimately have "LoadRunSuspension (run_ops exec_op ?ops ?s) ''r'' = Inr ?su"
    using run_suspension_is_write_once [OF example_store_ok] by blast
  then show ?thesis unfolding Let_def case_prod_unfold by simp
qed

text \<open>
  The start time of a run never changes: through any sequence of upserts, links and
  suspensions the run keeps it, and an upsert that carries another start time is refused.
\<close>

theorem run_started_at_is_immutable:
  assumes "store_ok s" "LoadRun s r = Inr m" "rm_started_at m \<noteq> 0"
    and "legal_ops exec_op (\<lambda>op s. True \<and> keeps_run r op s) ops s"
  shows "\<exists>m'. LoadRun (run_ops exec_op ops s) r = Inr m' \<and> rm_started_at m' = rm_started_at m \<and>
    (\<forall>now run. rm_run_id run = r \<longrightarrow> rm_agent_id run \<noteq> [] \<longrightarrow> rm_session_id run \<noteq> [] \<longrightarrow>
       rm_started_at run \<notin> {0, rm_started_at m} \<longrightarrow>
       UpsertRun now run (run_ops exec_op ops s) = (run_ops exec_op ops s, Inl StartedAtImmutable))"
proof -
  have "r \<noteq> []" "started_as (r, rm_started_at m) s"
    using assms(2,3) by (auto simp: LoadRun_def started_as_def split: if_splits option.splits)
  with assms have "started_as (r, rm_started_at m) (run_ops exec_op ops s)"
    using started.ops_stable by simp
  then obtain m' where "run_of (run_ops exec_op ops s) r = Some m'" "rm_started_at m' = rm_started_at m"
    by (auto simp: started_as_def)
  with \<open>r \<noteq> []\<close> assms(3) show ?thesis by (auto simp: LoadRun_def UpsertRun_def)
qed

theorem run_started_at_is_immutable_witness:
  "\<exists>m'. LoadRun (run_ops exec_op [OpUpsertRun 20 (example_run ''r'' ''s'')] example_store) ''r'' = Inr m' \<and>
     rm_started_at m' = 10"
proof -
  let ?m = "(example_run ''r'' ''s'')\<lparr>rm_started_at := 10, rm_updated_at := 10\<rparr>"
  have "LoadRun example_store ''r'' = Inr ?m" by (simp add: store_eval)
  moreover have "legal_ops exec_op (\<lambda>op s. True \<and> keeps_run ''r'' op s)
      [OpUpsertRun 20 (example_run ''r'' ''s'')] example_store"
    by (simp add: keeps_run_def)
  ultimately show ?thesis
    using run_started_at_is_immutable [OF example_store_ok, of "''r''" ?m "[OpUpsertRun 20 (example_run ''r'' ''s'')]"]
    by (auto simp: example_run_def)
qed

text \<open>
  \<open>PurgeSession\<close> removes the session, every run it owns and their suspensions, and
  touches nothing else.
\<close>

theorem PurgeSession_removes_exactly_owned:
  assumes "store_ok s" "sid \<noteq> []"
  defines "s' \<equiv> fst (PurgeSession sid s)"
  shows "LoadSession s' sid = Inl ErrSessionNotFound \<and>
    (\<forall>other. other \<noteq> sid \<longrightarrow> LoadSession s' other = LoadSession s other) \<and>
    ListRunsBySession s' sid statuses = Inr [] \<and>
    (\<forall>r m. LoadRun s r = Inr m \<longrightarrow>
       (if rm_session_id m = sid
        then LoadRun s' r = Inl ErrRunNotFound \<and> suspensions s' r = None
        else LoadRun s' r = Inr m \<and> LoadRunSuspension s' r = LoadRunSuspension s r))"
proof -
  have d: "distinct (map fst (runs s))" using assms(1) by (simp add: store_ok_def)
  have "sessions s' = (sessions s)(sid := None)"
    "runs s' = filter (\<lambda>(r, m). rm_session_id m \<noteq> sid) (runs s)"
    using assms(2) by (simp_all add: s'_def PurgeSession_def Let_def)
  moreover have "if rm_session_id m = sid
        then LoadRun s' r = Inl ErrRunNotFound \<and> suspensions s' r = None
        else LoadRun s' r = Inr m \<and> LoadRunSuspension s' r = LoadRunSuspension s r"
    if "LoadRun s r = Inr m" for r m
  proof -
    have "r \<noteq> []" "run_of s r = Some m"
      using that by (auto simp: LoadRun_def split: if_splits option.splits)
    then show ?thesis
      using run_of_PurgeSession [OF d, of sid r] suspensions_PurgeSession [OF d assms(2), of r] assms(2)
      by (auto simp: s'_def LoadRun_def LoadRunSuspension_def)
  qed
  ultimately show ?thesis
    using assms(2) by (auto simp: LoadSession_def ListRunsBySession_def filter_empty_conv)
qed

theorem PurgeSession_removes_exactly_owned_witness:
  "LoadRun (fst (PurgeSession ''s'' example_store)) ''r'' = Inl ErrRunNotFound \<and>
   ListRunsBySession (fst (PurgeSession ''s'' example_store)) ''s'' [] = Inr []"
proof -
  have "LoadRun example_store ''r'' =
      Inr ((example_run ''r'' ''s'')\<lparr>rm_started_at := 10, rm_updated_at := 10\<rparr>)"
    by (simp add: store_eval)
  then show ?thesis
    using PurgeSession_removes_exactly_owned [OF example_store_ok, of "''s''" "[]"]
    by (auto simp: example_run_def)
qed


subsection \<open>The run graph\<close>

text \<open>
  Child links stay within a session and always point at a stored run. \<open>UpsertRun\<close> replaces a whole
  record, links included, so it keeps this only when the caller keeps the run in its session and
  carries links that are already good; \<open>LinkChildRun\<close> adds a link and is safe whenever the record
  it may insert brings no link of its own to an absent run.
\<close>

definition good_children :: "store \<Rightarrow> string \<Rightarrow> run_meta \<Rightarrow> bool" where
  "good_children s self m \<longleftrightarrow>
     (\<forall>c \<in> set (rm_child_run_ids m). c = self \<or>
        (\<exists>m'. run_of s c = Some m' \<and> rm_session_id m' = rm_session_id m))"

definition links_ok :: "store \<Rightarrow> bool" where
  "links_ok s \<longleftrightarrow> store_ok s \<and> (\<forall>r m. run_of s r = Some m \<longrightarrow> good_children s r m)"

fun links_kept_by :: "store_op \<Rightarrow> store \<Rightarrow> bool" where
  "links_kept_by (OpUpsertRun now run) s \<longleftrightarrow>
     good_children s (rm_run_id run) run \<and>
     (\<forall>old. run_of s (rm_run_id run) = Some old \<longrightarrow> rm_session_id old = rm_session_id run)"
| "links_kept_by (OpLinkChildRun now parent child) s \<longleftrightarrow>
     run_of s (rm_run_id child) = None \<longrightarrow> good_children s (rm_run_id child) child"
| "links_kept_by op s \<longleftrightarrow> True"

lemma links_ok_put:
  assumes "links_ok s" "rm_run_id m = k" "k \<noteq> []" "rm_session_id m \<noteq> []" "good_children s k m"
    and "\<And>old. run_of s k = Some old \<Longrightarrow> rm_session_id old = rm_session_id m"
  shows "links_ok (s\<lparr>runs := AList.update k m (runs s)\<rparr>)"
proof -
  have "store_ok (s\<lparr>runs := AList.update k m (runs s)\<rparr>)"
    using assms(1-4) by (auto simp: links_ok_def intro: store_ok_put)
  moreover have "good_children (s\<lparr>runs := AList.update k m (runs s)\<rparr>) r x"
    if "run_of (s\<lparr>runs := AList.update k m (runs s)\<rparr>) r = Some x" for r x
  proof (cases "r = k")
    case True
    with that assms(5) show ?thesis by (auto simp: good_children_def update_conv')
  next
    case False
    with that have "run_of s r = Some x" by (simp add: update_conv')
    with assms(1) have "good_children s r x" by (simp add: links_ok_def)
    then show ?thesis using assms(6) by (fastforce simp: good_children_def update_conv')
  qed
  ultimately show ?thesis by (simp add: links_ok_def)
qed

lemma links_ok_frame: "links_ok s \<Longrightarrow> store_ok s' \<Longrightarrow> runs s' = runs s \<Longrightarrow> links_ok s'"
  by (simp add: links_ok_def good_children_def)

lemma links_ok_PurgeSession:
  assumes "links_ok s" shows "links_ok (fst (PurgeSession sid s))"
proof -
  have d: "distinct (map fst (runs s))" using assms by (simp add: links_ok_def store_ok_def)
  have "good_children (fst (PurgeSession sid s)) r m"
    if "run_of (fst (PurgeSession sid s)) r = Some m" for r m
  proof -
    from that have "run_of s r = Some m" "sid \<noteq> [] \<longrightarrow> rm_session_id m \<noteq> sid"
      by (auto simp: run_of_PurgeSession [OF d] split: option.splits if_splits)
    moreover from this(1) have "good_children s r m" using assms by (simp add: links_ok_def)
    ultimately have *: "sid \<noteq> [] \<longrightarrow> rm_session_id m \<noteq> sid" "good_children s r m" by simp_all
    show ?thesis unfolding good_children_def
    proof
      fix c assume "c \<in> set (rm_child_run_ids m)"
      with *(2) consider "c = r" | m' where "run_of s c = Some m'" "rm_session_id m' = rm_session_id m"
        by (auto simp: good_children_def)
      then show "c = r \<or> (\<exists>m'. run_of (fst (PurgeSession sid s)) c = Some m' \<and> rm_session_id m' = rm_session_id m)"
        by cases (use *(1) in \<open>auto simp: run_of_PurgeSession [OF d]\<close>)
    qed
  qed
  with assms show ?thesis by (simp add: links_ok_def store_ok_PurgeSession)
qed

lemma links_ok_LinkChildRun:
  assumes "links_ok s" "links_kept_by (OpLinkChildRun now p child) s"
  shows "links_ok (fst (LinkChildRun now p child s))"
proof (cases rule: LinkChildRun_cases [where now = now and parentRunID = p and child = child and s = s])
  case (linked parent childRun)
  let ?c = "rm_run_id child" and ?s1 = "s\<lparr>runs := AList.update (rm_run_id child) childRun (runs s)\<rparr>"
  let ?parent = "parent\<lparr>rm_updated_at := now,
    rm_child_run_ids := appendUniqueRunID (rm_child_run_ids parent) (rm_run_id child)\<rparr>"
  have p: "rm_run_id parent = p" "rm_session_id parent \<noteq> []" "good_children s p parent"
    using linked(1) assms(1) by (simp_all add: links_ok_def store_ok_def)
  have c: "rm_run_id childRun = ?c"
    using linked(6) assms(1) by (auto simp: links_ok_def store_ok_def split: option.splits)
  have g: "good_children s ?c childRun"
    using linked(6) assms by (auto simp: links_ok_def good_children_def split: option.splits)
  have same: "rm_session_id old = rm_session_id childRun" if "run_of s ?c = Some old" for old
    using linked(6) that by simp
  have l1: "links_ok ?s1"
    using linked(3,7) p(2) g same by (intro links_ok_put [OF assms(1) c]) simp_all
  have "good_children ?s1 p ?parent"
    using p(3) linked(7) same by (auto simp: good_children_def appendUniqueRunID_def update_conv')
  moreover have "rm_session_id old = rm_session_id ?parent" if "run_of ?s1 p = Some old" for old
    using that linked(1,7) by (auto simp: update_conv' split: if_splits)
  ultimately have "links_ok (?s1\<lparr>runs := AList.update p ?parent (runs ?s1)\<rparr>)"
    using p(1,2) linked(2) by (intro links_ok_put [OF l1]) simp_all
  then show ?thesis using linked(8) by simp
qed (use assms in simp)

lemma links_ok_UpsertRun:
  assumes "links_ok s" "links_kept_by (OpUpsertRun now run) s"
  shows "links_ok (fst (UpsertRun now run s))"
proof (cases rule: UpsertRun_cases [of now run s])
  case (stored at)
  have "links_ok (s\<lparr>runs := AList.update (rm_run_id run) (run\<lparr>rm_started_at := at, rm_updated_at := now\<rparr>) (runs s)\<rparr>)"
    using assms stored(2,4) by (intro links_ok_put) (simp_all add: good_children_def)
  with stored(1) show ?thesis by simp
qed (use assms in simp)

lemma links_ok_unlinked:
  assumes "links_ok s"
  shows "links_ok (fst (CreateSession sid t s))" "links_ok (fst (EndSession sid t s))"
    "links_ok (fst (SaveRunSuspension r su s))"
  using links_ok_frame [OF assms] assms by (simp_all add: links_ok_def go_inv go_frame)

lemma links_ok_New: "links_ok New"
  using store_ok_New by (simp add: links_ok_def) (simp add: New_def)

lemma links_ok_exec: "links_ok s \<Longrightarrow> links_kept_by op s \<Longrightarrow> links_ok (exec_op op s)"
  by (cases op)
    (simp_all only: exec_op.simps links_ok_unlinked links_ok_PurgeSession links_ok_UpsertRun links_ok_LinkChildRun)

interpretation links: kept_invariant exec_op links_kept_by links_ok
  by unfold_locales (rule links_ok_exec)

text \<open>
  Over any sequence of operations whose upserts respect the run graph, a linked child
  always has a stored run record, in the same session as its parent.
\<close>

theorem linked_children_are_stored:
  assumes "legal_ops exec_op links_kept_by ops New"
    and "LoadRun (run_ops exec_op ops New) r = Inr m" "c \<in> set (rm_child_run_ids m)"
  shows "\<exists>m'. LoadRun (run_ops exec_op ops New) c = Inr m' \<and> rm_session_id m' = rm_session_id m"
proof -
  have l: "links_ok (run_ops exec_op ops New)" using links_ok_New assms(1) by (rule links.ops_keep)
  have r: "run_of (run_ops exec_op ops New) r = Some m"
    using assms(2) by (auto simp: LoadRun_def split: if_splits option.splits)
  then have "c = r \<or> (\<exists>m'. run_of (run_ops exec_op ops New) c = Some m' \<and> rm_session_id m' = rm_session_id m)"
    using l assms(3) by (auto simp: links_ok_def good_children_def)
  then obtain m' where m': "run_of (run_ops exec_op ops New) c = Some m'" "rm_session_id m' = rm_session_id m"
    using r by auto
  moreover have "c \<noteq> []" using l m'(1) by (auto simp: links_ok_def store_ok_def)
  ultimately show ?thesis by (auto simp: LoadRun_def)
qed

definition example_links :: "store_op list" where
  "example_links =
     [OpUpsertRun 10 (example_run ''r'' ''s''), OpLinkChildRun 11 ''r'' (example_run ''c'' ''s''),
      OpLinkChildRun 12 ''c'' (example_run ''d'' ''s''), OpLinkChildRun 13 ''d'' (example_run ''r'' ''s'')]"

lemmas link_eval = store_eval example_links_def LinkChildRun_def ValidateChildRunLink_def
  appendUniqueRunID_def good_children_def

theorem linked_children_are_stored_witness:
  "\<exists>m'. LoadRun (run_ops exec_op example_links New) ''c'' = Inr m' \<and> rm_session_id m' = ''s''"
proof -
  have "legal_ops exec_op links_kept_by example_links New" by (simp add: link_eval)
  moreover obtain m where "LoadRun (run_ops exec_op example_links New) ''r'' = Inr m"
      "rm_child_run_ids m = [''c'']" "rm_session_id m = ''s''"
    by (simp add: link_eval)
  ultimately show ?thesis using linked_children_are_stored by fastforce
qed


subsection \<open>Resolving prompt references\<close>

inductive descends :: "(string \<Rightarrow> (session_error, run_meta) result) \<Rightarrow> string \<Rightarrow> string \<Rightarrow> bool"
  for load r where
  self: "descends load r r"
| child: "descends load r x \<Longrightarrow> load x = Inr m \<Longrightarrow> c \<in> set (rm_child_run_ids m) \<Longrightarrow> descends load r c"

lemma collect_refs_set: "set (collect_refs refs rs) = set refs \<union> set rs"
  by (induction refs rs rule: collect_refs.induct) auto

lemma collect_refs_distinct: "distinct refs \<Longrightarrow> distinct (collect_refs refs rs)"
  by (induction refs rs rule: collect_refs.induct) auto

lemma enqueue_children_ok:
  assumes "enqueue_children cur q seen cs = Inr (q', seen')" "distinct q" "set q \<subseteq> set seen"
  shows "distinct q' \<and> set q' \<subseteq> set seen' \<and> set seen' = set seen \<union> set cs \<and>
         set seen' - set q' = set seen - set q"
  using assms
proof (induction cur q seen cs rule: enqueue_children.induct)
  case (2 cur q seen c cs)
  show ?case
  proof (cases "c \<in> set seen")
    case True
    then show ?thesis using 2 by (auto split: if_splits)
  next
    case False
    with 2 have IH: "distinct q' \<and> set q' \<subseteq> set seen' \<and> set seen' = set (c # seen) \<union> set cs \<and>
        set seen' - set q' = set (c # seen) - set (q @ [c])"
      by (auto split: if_splits)
    moreover have "set (c # seen) - set (q @ [c]) = set seen - set q" using False by auto
    ultimately show ?thesis by auto
  qed
qed auto

lemma enqueue_children_total: "[] \<notin> set cs \<Longrightarrow> \<exists>q' seen'. enqueue_children cur q seen cs = Inr (q', seen')"
  by (induction cur q seen cs rule: enqueue_children.induct) auto

text \<open>What the loop maintains: \<open>seen - queue\<close> are the runs already visited.\<close>

definition walk_inv ::
  "(string \<Rightarrow> (session_error, run_meta) result) \<Rightarrow> string \<Rightarrow> string list \<Rightarrow> string list \<Rightarrow> prompt_ref list \<Rightarrow> bool" where
  "walk_inv load root q seen refs \<longleftrightarrow>
     distinct q \<and> set q \<subseteq> set seen \<and> root \<in> set seen \<and> distinct refs \<and>
     (\<forall>r \<in> set seen. descends load root r \<and> is_ok (load r)) \<and>
     (\<forall>r \<in> set seen - set q. \<forall>m. load r = Inr m \<longrightarrow> set (rm_child_run_ids m) \<subseteq> set seen) \<and>
     set refs = (\<Union>r \<in> set seen - set q. \<Union>m \<in> {m. load r = Inr m}. set (rm_prompt_refs m))"

text \<open>
  The part of the \<open>Store\<close> contract the walk relies on. A store holds finitely many runs, which is
  enough for the walk to return; when links only lead to stored runs it returns the references.
\<close>

locale run_reader =
  fixes load :: "'s \<Rightarrow> string \<Rightarrow> (session_error, run_meta) result" and invar :: "'s \<Rightarrow> bool"
  assumes finite_runs: "invar s \<Longrightarrow> finite {r. is_ok (load s r)}"
begin

lemma pending_decreases:
  assumes "invar s" "load s cur = Inr m" "distinct (cur # q)" "set (cur # q) \<subseteq> set seen"
    and "enqueue_children cur q seen cs = Inr (q', seen')"
  shows "card ({r. is_ok (load s r)} - (set seen' - set q')) < card ({r. is_ok (load s r)} - (set seen - set (cur # q)))"
proof (rule psubset_card_mono)
  show "finite ({r. is_ok (load s r)} - (set seen - set (cur # q)))"
    using finite_runs [OF assms(1)] by simp
  have "set seen' - set q' = set seen - set q"
    using enqueue_children_ok [OF assms(5)] assms(3,4) by auto
  then show "{r. is_ok (load s r)} - (set seen' - set q') \<subset> {r. is_ok (load s r)} - (set seen - set (cur # q))"
    using assms(2-4) by auto
qed

lemma resolve_loop_returns:
  assumes "invar s" "distinct q" "set q \<subseteq> set seen"
  shows "\<exists>y. resolve_loop (load s) root q seen refs = Some y"
  using assms(2,3)
proof (induction "card ({r. is_ok (load s r)} - (set seen - set q))" arbitrary: q seen refs rule: less_induct)
  case less
  show ?case
  proof (cases q)
    case Nil
    then show ?thesis by (simp add: resolve_loop.simps)
  next
    case (Cons cur q')
    show ?thesis
    proof (cases "load s cur")
      case (Inl e)
      with Cons show ?thesis by (simp add: resolve_loop.simps)
    next
      case (Inr m)
      show ?thesis
      proof (cases "enqueue_children cur q' seen (rm_child_run_ids m)")
        case (Inl e)
        with Cons Inr show ?thesis by (simp add: resolve_loop.simps)
      next
        case (Inr qs)
        obtain q'' seen'' where qs: "qs = (q'', seen'')" by (cases qs)
        have e: "enqueue_children cur q' seen (rm_child_run_ids m) = Inr (q'', seen'')" using Inr qs by simp
        note ok = enqueue_children_ok [OF e]
        have "\<exists>y. resolve_loop (load s) root q'' seen'' (collect_refs refs (rm_prompt_refs m)) = Some y"
          using pending_decreases [OF assms(1) \<open>load s cur = Inr m\<close> _ _ e] less.prems Cons ok
          by (intro less.hyps) auto
        then show ?thesis using Cons e \<open>load s cur = Inr m\<close> by (simp add: resolve_loop.simps)
      qed
    qed
  qed
qed

lemma resolve_returns: "invar s \<Longrightarrow> \<exists>y. ResolvePromptRefs (load s) r = Some y"
  by (simp add: ResolvePromptRefs_def resolve_loop_returns)

end

locale linked_run_reader = run_reader +
  assumes linked: "invar s \<Longrightarrow> load s r = Inr m \<Longrightarrow> c \<in> set (rm_child_run_ids m) \<Longrightarrow> c \<noteq> [] \<and> is_ok (load s c)"
begin

lemma walk_step:
  assumes "invar s" "walk_inv (load s) root (cur # q) seen refs" "load s cur = Inr m"
  obtains q' seen' where "enqueue_children cur q seen (rm_child_run_ids m) = Inr (q', seen')"
    "walk_inv (load s) root q' seen' (collect_refs refs (rm_prompt_refs m))"
proof -
  have w: "distinct (cur # q)" "set (cur # q) \<subseteq> set seen" "root \<in> set seen" "distinct refs"
    "\<And>r. r \<in> set seen \<Longrightarrow> descends (load s) root r \<and> is_ok (load s r)"
    "\<And>r m. r \<in> set seen - set (cur # q) \<Longrightarrow> load s r = Inr m \<Longrightarrow> set (rm_child_run_ids m) \<subseteq> set seen"
    "set refs = (\<Union>r \<in> set seen - set (cur # q). \<Union>m \<in> {m. load s r = Inr m}. set (rm_prompt_refs m))"
    using assms(2) unfolding walk_inv_def by blast+
  have kids: "c \<noteq> [] \<and> is_ok (load s c) \<and> descends (load s) root c" if "c \<in> set (rm_child_run_ids m)" for c
    using linked [OF assms(1,3) that] descends.child [of "load s" root cur m c] assms(3) that w(2,5)
    by auto
  then obtain q' seen' where e: "enqueue_children cur q seen (rm_child_run_ids m) = Inr (q', seen')"
    using enqueue_children_total by metis
  have ok: "distinct q'" "set q' \<subseteq> set seen'" "set seen' = set seen \<union> set (rm_child_run_ids m)"
    "set seen' - set q' = insert cur (set seen - set (cur # q))"
    using enqueue_children_ok [OF e] w(1,2) by auto
  have "walk_inv (load s) root q' seen' (collect_refs refs (rm_prompt_refs m))"
    unfolding walk_inv_def ok(4)
  proof (intro conjI)
    show "\<forall>r \<in> set seen'. descends (load s) root r \<and> is_ok (load s r)"
      using kids w(5) ok(3) by auto
    show "\<forall>r \<in> insert cur (set seen - set (cur # q)). \<forall>m. load s r = Inr m \<longrightarrow> set (rm_child_run_ids m) \<subseteq> set seen'"
      using w(6) ok(3) assms(3) by fastforce
    show "set (collect_refs refs (rm_prompt_refs m)) =
        (\<Union>r \<in> insert cur (set seen - set (cur # q)). \<Union>m \<in> {m. load s r = Inr m}. set (rm_prompt_refs m))"
      using w(7) assms(3) by (simp add: collect_refs_set Un_commute)
  qed (use ok w(3,4) collect_refs_distinct in auto)
  with e show ?thesis by (rule that)
qed

lemma walk_result:
  assumes "invar s" "walk_inv (load s) root q seen refs"
  shows "\<exists>out. resolve_loop (load s) root q seen refs = Some (Inr out) \<and> distinct out \<and>
    set out = (\<Union>r \<in> {r. descends (load s) root r}. \<Union>m \<in> {m. load s r = Inr m}. set (rm_prompt_refs m))"
  using assms(2)
proof (induction "card ({r. is_ok (load s r)} - (set seen - set q))" arbitrary: q seen refs rule: less_induct)
  case less
  show ?case
  proof (cases q)
    case Nil
    have closed: "root \<in> set seen"
      "\<And>r m. r \<in> set seen \<Longrightarrow> load s r = Inr m \<Longrightarrow> set (rm_child_run_ids m) \<subseteq> set seen"
      using less.prems Nil by (simp_all add: walk_inv_def)
    have "r \<in> set seen" if "descends (load s) root r" for r
      using that
    proof induction
      case (child x m c)
      then show ?case using closed(2) [of x m] by auto
    qed (rule closed(1))
    then have "{r. descends (load s) root r} = set seen - set q"
      using less.prems Nil by (auto simp: walk_inv_def)
    then show ?thesis using less.prems Nil by (simp add: resolve_loop.simps walk_inv_def)
  next
    case (Cons cur q')
    obtain m where m: "load s cur = Inr m"
      using less.prems Cons by (cases "load s cur") (auto simp: walk_inv_def)
    from less.prems Cons have "walk_inv (load s) root (cur # q') seen refs" by simp
    from walk_step [OF assms(1) this m] obtain q'' seen'' where
      e: "enqueue_children cur q' seen (rm_child_run_ids m) = Inr (q'', seen'')" and
      w: "walk_inv (load s) root q'' seen'' (collect_refs refs (rm_prompt_refs m))" .
    have "card ({r. is_ok (load s r)} - (set seen'' - set q'')) < card ({r. is_ok (load s r)} - (set seen - set q))"
      using pending_decreases [OF assms(1) m _ _ e] less.prems Cons by (simp add: walk_inv_def)
    from less.hyps [OF this w] show ?thesis using Cons m e by (simp add: resolve_loop.simps)
  qed
qed

lemma resolve_result:
  assumes "invar s" "load s root = Inr m" "root \<noteq> []"
  shows "\<exists>out. ResolvePromptRefs (load s) root = Some (Inr out) \<and> distinct out \<and>
    set out = (\<Union>r \<in> {r. descends (load s) root r}. \<Union>m \<in> {m. load s r = Inr m}. set (rm_prompt_refs m))"
proof -
  have "walk_inv (load s) root [root] [root] []"
    using assms(2) by (auto simp: walk_inv_def descends.self)
  from walk_result [OF assms(1) this] show ?thesis using assms(3) by (simp add: ResolvePromptRefs_def)
qed

end

lemma LoadRun_ok_iff: "is_ok (LoadRun s r) \<longleftrightarrow> r \<noteq> [] \<and> run_of s r \<noteq> None"
  by (auto simp: LoadRun_def split: option.splits)

interpretation inmem_reader: run_reader LoadRun "\<lambda>_. True"
proof
  fix s
  show "finite {r. is_ok (LoadRun s r)}"
    by (rule finite_subset [of _ "dom (run_of s)"]) (auto simp: LoadRun_ok_iff finite_dom_map_of)
qed

interpretation inmem_links: linked_run_reader LoadRun links_ok
proof
  fix s
  show "finite {r. is_ok (LoadRun s r)}" by (rule inmem_reader.finite_runs) simp
next
  fix s r m c
  assume a: "links_ok s" "LoadRun s r = Inr m" "c \<in> set (rm_child_run_ids m)"
  then have r: "run_of s r = Some m" by (auto simp: LoadRun_def split: if_splits option.splits)
  then have "c = r \<or> run_of s c \<noteq> None" using a by (auto simp: links_ok_def good_children_def)
  then obtain m' where "run_of s c = Some m'" using r by auto
  moreover from this a(1) have "c \<noteq> []" by (auto simp: links_ok_def store_ok_def)
  ultimately show "c \<noteq> [] \<and> is_ok (LoadRun s c)" by (simp add: LoadRun_ok_iff)
qed

text \<open>
  Property C8. Prompt attribution always returns, whatever cycles the run graph has, because the
  store holds finitely many runs and each is visited once.
\<close>

theorem ResolvePromptRefs_terminates: "\<exists>y. ResolvePromptRefs (LoadRun s) r = Some y"
  by (rule inmem_reader.resolve_returns) simp

text \<open>
  Property C9. On a store in which every link of a run leads to a stored run of the same session (\<open>links_ok\<close>,
  kept by every operation but an upsert against the graph), prompt attribution of a stored run succeeds and
  returns, without duplicates, exactly the references rendered by the run and its descendants.
\<close>

theorem ResolvePromptRefs_complete:
  assumes "links_ok s" "LoadRun s root = Inr m"
  shows "\<exists>out. ResolvePromptRefs (LoadRun s) root = Some (Inr out) \<and> distinct out \<and>
    set out = {ref. \<exists>r m. descends (LoadRun s) root r \<and> LoadRun s r = Inr m \<and> ref \<in> set (rm_prompt_refs m)}"
proof -
  have "root \<noteq> []" using assms(2) by (auto simp: LoadRun_def)
  from inmem_links.resolve_result [OF assms this] show ?thesis
    by (simp add: set_eq_iff)
qed

theorem ResolvePromptRefs_complete_witness:
  "let s = run_ops exec_op example_links New
   in \<exists>out. ResolvePromptRefs (LoadRun s) ''r'' = Some (Inr out) \<and> \<lparr>pr_id = ''pd'', pr_version = ''1''\<rparr> \<in> set out"
proof -
  let ?s = "run_ops exec_op example_links New"
  have "legal_ops exec_op links_kept_by example_links New" by (simp add: link_eval)
  then have "links_ok ?s" by (rule links.ops_keep [OF links_ok_New])
  moreover obtain m where r: "LoadRun ?s ''r'' = Inr m" "''c'' \<in> set (rm_child_run_ids m)"
    by (simp add: link_eval)
  moreover obtain m2 where c: "LoadRun ?s ''c'' = Inr m2" "''d'' \<in> set (rm_child_run_ids m2)"
    by (simp add: link_eval)
  moreover obtain m3 where d: "LoadRun ?s ''d'' = Inr m3" "\<lparr>pr_id = ''pd'', pr_version = ''1''\<rparr> \<in> set (rm_prompt_refs m3)"
    by (simp add: link_eval)
  moreover have "descends (LoadRun ?s) ''r'' ''d''"
    using descends.child [of "LoadRun ?s" _ _ _ "''d''", OF descends.child [of "LoadRun ?s" _ _ _ "''c''", OF descends.self]] r c
    by blast
  ultimately show ?thesis using ResolvePromptRefs_complete unfolding Let_def by blast
qed

text \<open>
  The guarantee needs the upserts to respect the graph: moving a linked child to
  another session with \<open>UpsertRun\<close> and purging that session leaves the parent with a link to no
  run, and attribution of the parent then fails.
\<close>

theorem UpsertRun_can_orphan_child:
  "let ops = [OpUpsertRun 10 (example_run ''r'' ''s''), OpLinkChildRun 11 ''r'' (example_run ''c'' ''s''),
              OpUpsertRun 12 (example_run ''c'' ''t''), OpPurgeSession ''t''];
       s = run_ops exec_op ops New
   in (\<exists>m. LoadRun s ''r'' = Inr m \<and> rm_child_run_ids m = [''c'']) \<and>
      LoadRun s ''c'' = Inl ErrRunNotFound \<and>
      ResolvePromptRefs (LoadRun s) ''r'' = Some (Inl (LoadRunFailed ''c'' ErrRunNotFound))"
  by (simp add: link_eval ResolvePromptRefs_def resolve_loop.simps)

end
