(* ===== verification/Run_Log.thy ===== *)
theory Run_Log
  imports Model_Messages
begin

section \<open>Run log\<close>

text \<open>
  \<open>runtime/agent/runlog\<close>: \<open>runlog.go\<close> declares events, pages and the append-only contract,
  \<open>inmem/inmem.go\<close> implements it. Every method holds the mutex for its body. Go maps with a useful
  zero value for missing keys are total functions (\<open>0\<close> or the empty slice). Stored events are
  private copies that no method changes, so pointers to them are the values. \<open>Append\<close> also writes
  the identifier it returns into the caller's event. The per-run sequence number is unbounded: it
  grows by one per stored event. Limits and cursors come from the caller and are kept at 64 bits.
\<close>

subsection \<open>Data\<close>

record event =
  ev_id :: string
  ev_key :: string
  ev_run_id :: string
  ev_agent_id :: string
  ev_session_id :: string
  ev_turn_id :: string
  ev_type :: string
  ev_payload :: string
  ev_timestamp :: int

record append_result =
  ar_id :: string
  ar_inserted :: bool

record page =
  pg_events :: "event list"
  pg_next_cursor :: string

datatype runlog_error =
    EventRequired
  | RunIDMissing
  | EventKeyMissing
  | EventKeyConflict string
  | LimitNotPositive
  | InvalidCursor string
  | SessionIDMissing
  | SlicePanic

record log_store =
  nextSeq :: "string \<Rightarrow> nat"
  events :: "string \<Rightarrow> event list"
  eventsByKey :: "string \<Rightarrow> string \<rightharpoonup> event"
  sessionEvents :: "string \<Rightarrow> event list"

definition NewLog :: log_store where
  "NewLog = \<lparr>nextSeq = (\<lambda>_. 0), events = (\<lambda>_. []), eventsByKey = (\<lambda>_. Map.empty), sessionEvents = (\<lambda>_. [])\<rparr>"

subsection \<open>Operations\<close>

definition sameEventBody :: "event \<Rightarrow> event \<Rightarrow> bool" where
  "sameEventBody existing candidate \<longleftrightarrow>
     ev_key existing = ev_key candidate \<and> ev_run_id existing = ev_run_id candidate \<and>
     ev_agent_id existing = ev_agent_id candidate \<and> ev_session_id existing = ev_session_id candidate \<and>
     ev_turn_id existing = ev_turn_id candidate \<and> ev_type existing = ev_type candidate \<and>
     ev_payload existing = ev_payload candidate"

definition Append :: "event option \<Rightarrow> log_store \<Rightarrow> log_store \<times> (runlog_error, append_result) result" where
  "Append ev s =
     (case ev of
        None \<Rightarrow> (s, Inl EventRequired)
      | Some e \<Rightarrow>
          if ev_run_id e = [] then (s, Inl RunIDMissing)
          else if ev_key e = [] then (s, Inl EventKeyMissing)
          else
            (case eventsByKey s (ev_run_id e) (ev_key e) of
               Some existing \<Rightarrow>
                 if \<not> sameEventBody existing e then (s, Inl (EventKeyConflict (ev_key e)))
                 else (s, Inr \<lparr>ar_id = ev_id existing, ar_inserted = False\<rparr>)
             | None \<Rightarrow>
                 (let run = ev_run_id e; seq = nextSeq s run + 1; stored = e\<lparr>ev_id := dec seq\<rparr>
                  in (s\<lparr>nextSeq := (nextSeq s)(run := seq),
                        events := (events s)(run := events s run @ [stored]),
                        eventsByKey := (eventsByKey s)(run := (eventsByKey s run)(ev_key e \<mapsto> stored)),
                        sessionEvents :=
                          (if ev_session_id e \<noteq> []
                           then (sessionEvents s)(ev_session_id e := sessionEvents s (ev_session_id e) @ [stored])
                           else sessionEvents s)\<rparr>,
                      Inr \<lparr>ar_id = ev_id stored, ar_inserted = True\<rparr>))))"

definition ListEvents :: "log_store \<Rightarrow> string \<Rightarrow> string \<Rightarrow> int \<Rightarrow> (runlog_error, page) result" where
  "ListEvents s runID cursor limit =
     (if runID = [] then Inl RunIDMissing
      else if limit \<le> 0 then Inl LimitNotPositive
      else
        (case (if cursor = [] then Some 0 else parse_int64 cursor) of
           None \<Rightarrow> Inl (InvalidCursor cursor)
         | Some after \<Rightarrow>
             (let all = events s runID
              in if all = [] then Inr \<lparr>pg_events = [], pg_next_cursor = []\<rparr>
                 else if after > 0 \<and> after \<ge> int (length all)
                 then Inr \<lparr>pg_events = [], pg_next_cursor = []\<rparr>
                 else
                   (let start = (if after > 0 then after else 0);
                        end0 = wrap64 (start + limit);
                        end1 = (if end0 > int (length all) then int (length all) else end0)
                    in case go_slice all start end1 of
                         None \<Rightarrow> Inl SlicePanic
                       | Some evs \<Rightarrow>
                           Inr \<lparr>pg_events = evs,
                                pg_next_cursor = (if end1 < int (length all) then ev_id (last evs) else [])\<rparr>))))"

definition ListSession :: "log_store \<Rightarrow> string \<Rightarrow> string \<Rightarrow> int \<Rightarrow> (runlog_error, page) result" where
  "ListSession s sessionID cursor limit =
     (if sessionID = [] then Inl SessionIDMissing
      else if limit \<le> 0 then Inl LimitNotPositive
      else
        (case (if cursor = [] then Some 0 else parse_int64 cursor) of
           None \<Rightarrow> Inl (InvalidCursor cursor)
         | Some start \<Rightarrow>
             (let all = sessionEvents s sessionID
              in if start \<ge> int (length all) then Inr \<lparr>pg_events = [], pg_next_cursor = []\<rparr>
                 else
                   (let end1 = min (wrap64 (start + limit)) (int (length all))
                    in case go_slice all start end1 of
                         None \<Rightarrow> Inl SlicePanic
                       | Some evs \<Rightarrow>
                           Inr \<lparr>pg_events = evs,
                                pg_next_cursor = (if end1 < int (length all) then dec (nat end1) else [])\<rparr>))))"

subsection \<open>The log invariant\<close>

text \<open>
  Events of a run carry the numbers 1 to n, keys are unique within a run and indexed, and the session
  view interleaves the runs of the session without reordering any of them.
\<close>

definition log_ok :: "log_store \<Rightarrow> bool" where
  "log_ok s \<longleftrightarrow>
     (\<forall>r. nextSeq s r = length (events s r)) \<and>
     (\<forall>r. map ev_id (events s r) = map (\<lambda>i. dec (Suc i)) [0..<length (events s r)]) \<and>
     (\<forall>r. distinct (map ev_key (events s r))) \<and>
     (\<forall>r k e. eventsByKey s r k = Some e \<longleftrightarrow> e \<in> set (events s r) \<and> ev_key e = k) \<and>
     (\<forall>r. \<forall>e \<in> set (events s r). ev_run_id e = r) \<and>
     (\<forall>r sid. sid \<noteq> [] \<longrightarrow>
        filter (\<lambda>e. ev_run_id e = r) (sessionEvents s sid) = filter (\<lambda>e. ev_session_id e = sid) (events s r))"

definition exec_append :: "event option \<Rightarrow> log_store \<Rightarrow> log_store" where
  "exec_append ev s = fst (Append ev s)"

lemma Append_cases:
  obtains (unchanged) "fst (Append ev s) = s"
  | (inserted) e seq where "ev = Some e" "ev_run_id e \<noteq> []" "ev_key e \<noteq> []"
      "eventsByKey s (ev_run_id e) (ev_key e) = None"
      "Append ev s =
         (s\<lparr>nextSeq := (nextSeq s)(ev_run_id e := seq),
            events := (events s)(ev_run_id e := events s (ev_run_id e) @ [e\<lparr>ev_id := dec seq\<rparr>]),
            eventsByKey := (eventsByKey s)(ev_run_id e :=
              (eventsByKey s (ev_run_id e))(ev_key e \<mapsto> e\<lparr>ev_id := dec seq\<rparr>)),
            sessionEvents := (if ev_session_id e \<noteq> []
              then (sessionEvents s)(ev_session_id e := sessionEvents s (ev_session_id e) @ [e\<lparr>ev_id := dec seq\<rparr>])
              else sessionEvents s)\<rparr>,
          Inr \<lparr>ar_id = dec seq, ar_inserted = True\<rparr>)"
      "seq = nextSeq s (ev_run_id e) + 1"
proof (cases "\<exists>e. ev = Some e \<and> ev_run_id e \<noteq> [] \<and> ev_key e \<noteq> [] \<and>
    eventsByKey s (ev_run_id e) (ev_key e) = None")
  case True
  then obtain e where "ev = Some e" "ev_run_id e \<noteq> []" "ev_key e \<noteq> []"
    "eventsByKey s (ev_run_id e) (ev_key e) = None" by blast
  then show ?thesis by (intro inserted [of e "nextSeq s (ev_run_id e) + 1"]) (simp_all add: Append_def Let_def)
next
  case False
  then have "fst (Append ev s) = s" by (auto simp: Append_def split: option.split)
  then show ?thesis by (rule unchanged)
qed

lemma log_ok_New: "log_ok NewLog"
  by (simp add: log_ok_def NewLog_def)

lemma log_ok_Append:
  assumes "log_ok s" shows "log_ok (fst (Append ev s))"
proof (cases rule: Append_cases [of ev s])
  case (inserted e seq)
  let ?r = "ev_run_id e" and ?e = "e\<lparr>ev_id := dec seq\<rparr>"
  have "ev_key e \<notin> ev_key ` set (events s ?r)"
  proof
    assume "ev_key e \<in> ev_key ` set (events s ?r)"
    then obtain x where "x \<in> set (events s ?r)" "ev_key x = ev_key e" by force
    then have "eventsByKey s ?r (ev_key e) = Some x" using assms by (auto simp: log_ok_def)
    with inserted(4) show False by simp
  qed
  moreover have "seq = Suc (length (events s ?r))" using assms inserted(6) by (simp add: log_ok_def)
  ultimately show ?thesis
    using assms unfolding log_ok_def inserted(5) fst_conv
    by (auto simp: image_iff)
qed (use assms in simp)

interpretation log_inv: kept_invariant exec_append "\<lambda>_ _. True" log_ok
  by unfold_locales (simp add: exec_append_def log_ok_Append)


subsection \<open>Appending is idempotent\<close>

definition logged :: "event \<Rightarrow> log_store \<Rightarrow> bool" where
  "logged e s \<longleftrightarrow> eventsByKey s (ev_run_id e) (ev_key e) = Some e \<and> ev_run_id e \<noteq> [] \<and> ev_key e \<noteq> []"

lemma logged_Append: "logged e s \<Longrightarrow> logged e (fst (Append ev s))"
  by (cases rule: Append_cases [of ev s]) (auto simp: logged_def)

interpretation logged: stable_fact exec_append "\<lambda>_ _. True" "\<lambda>_. True" logged "\<lambda>_ _ _. True"
  by unfold_locales (simp_all add: exec_append_def logged_Append)

text \<open>
  Property C10. \<open>Append\<close> is idempotent on \<open>(run_id, event_key)\<close>: once an event is stored under a key,
  then after any further appends a retry with the same body returns the first identifier with
  \<open>Inserted = false\<close>, an event with another body is refused as a conflict, and neither changes the
  log; the timestamp of the first append is the one kept.
\<close>

theorem Append_idempotent:
  fixes evs :: "event option list"
  assumes "Append (Some e) s = (s', Inr res)" "ar_inserted res"
    and "ev_run_id e' = ev_run_id e" "ev_key e' = ev_key e"
  defines "t \<equiv> run_ops exec_append evs s'"
  shows "Append (Some e') t =
      (t, if sameEventBody e e' then Inr \<lparr>ar_id = ar_id res, ar_inserted = False\<rparr>
          else Inl (EventKeyConflict (ev_key e))) \<and>
    eventsByKey t (ev_run_id e) (ev_key e) = Some (e\<lparr>ev_id := ar_id res\<rparr>)"
proof -
  have "logged (e\<lparr>ev_id := ar_id res\<rparr>) s'"
    using assms(1,2) by (auto simp: Append_def logged_def Let_def split: if_splits option.splits)
  then have "logged (e\<lparr>ev_id := ar_id res\<rparr>) t"
    unfolding t_def by (intro logged.ops_stable legal_ops_static) simp_all
  then show ?thesis
    using assms(3,4) by (auto simp: logged_def Append_def sameEventBody_def)
qed

definition example_event :: "string \<Rightarrow> event" where
  "example_event k = \<lparr>ev_id = [], ev_key = k, ev_run_id = ''r'', ev_agent_id = ''a'', ev_session_id = ''s'',
     ev_turn_id = [], ev_type = ''t'', ev_payload = ''{}'', ev_timestamp = 1\<rparr>"

theorem Append_idempotent_witness:
  "let (s', res) = Append (Some (example_event ''k'')) NewLog;
       t = run_ops exec_append [Some (example_event ''l'')] s'
   in Append (Some ((example_event ''k'')\<lparr>ev_timestamp := 9\<rparr>)) t =
        (t, Inr \<lparr>ar_id = ''1'', ar_inserted = False\<rparr>)"
proof -
  let ?e = "example_event ''k''" and ?res = "\<lparr>ar_id = dec 1, ar_inserted = True\<rparr>"
  have a: "Append (Some ?e) NewLog = (fst (Append (Some ?e) NewLog), Inr ?res)"
    by (simp add: Append_def NewLog_def example_event_def Let_def)
  have "dec 1 = ''1''" by code_simp
  with Append_idempotent [OF a, of "?e\<lparr>ev_timestamp := 9\<rparr>" "[Some (example_event ''l'')]"] show ?thesis
    unfolding Let_def case_prod_unfold by (simp add: example_event_def sameEventBody_def)
qed

subsection \<open>Paging\<close>

text \<open>
  The loop every consumer of the log runs: fetch a page, follow its cursor, stop at the empty cursor.
  It may not end for an arbitrary pager, so it is a partial function.
\<close>

partial_function (option) read_pages ::
  "(string \<Rightarrow> int \<Rightarrow> (runlog_error, page) result) \<Rightarrow> int \<Rightarrow> string \<Rightarrow> event list \<Rightarrow>
   (runlog_error, event list) result option" where
  "read_pages fetch limit cursor acc =
     (case fetch cursor limit of
        Inl e \<Rightarrow> Some (Inl e)
      | Inr p \<Rightarrow>
          if pg_next_cursor p = [] then Some (Inr (acc @ pg_events p))
          else read_pages fetch limit (pg_next_cursor p) (acc @ pg_events p))"

definition cursor_at :: "string \<Rightarrow> nat \<Rightarrow> bool" where
  "cursor_at c n \<longleftrightarrow> c = [] \<and> n = 0 \<or> c = dec n \<and> int n < 2 ^ 63"

definition page_of :: "event list \<Rightarrow> nat \<Rightarrow> int \<Rightarrow> page \<Rightarrow> bool" where
  "page_of all n limit p \<longleftrightarrow>
     pg_events p = take (nat limit) (drop n all) \<and>
     (if int n + limit < int (length all) then cursor_at (pg_next_cursor p) (n + nat limit) \<and> pg_next_cursor p \<noteq> []
      else pg_next_cursor p = [])"

locale pager =
  fixes fetch :: "'s \<Rightarrow> string \<Rightarrow> int \<Rightarrow> (runlog_error, page) result"
    and contents :: "'s \<Rightarrow> event list" and invar :: "'s \<Rightarrow> bool"
  assumes fetch_page: "invar s \<Longrightarrow> 0 < limit \<Longrightarrow> int (length (contents s)) + limit < 2 ^ 63 \<Longrightarrow>
    cursor_at c n \<Longrightarrow> n \<le> length (contents s) \<Longrightarrow> \<exists>p. fetch s c limit = Inr p \<and> page_of (contents s) n limit p"
begin

lemma read_pages_from:
  assumes "invar s" "0 < limit" "int (length (contents s)) + limit < 2 ^ 63"
    and "cursor_at c n" "n \<le> length (contents s)"
  shows "read_pages (fetch s) limit c acc = Some (Inr (acc @ drop n (contents s)))"
  using assms(4,5)
proof (induction "length (contents s) - n" arbitrary: c n acc rule: less_induct)
  case less
  obtain p where p: "fetch s c limit = Inr p" "page_of (contents s) n limit p"
    using fetch_page [OF assms(1-3) less.prems] by blast
  show ?case
  proof (cases "int n + limit < int (length (contents s))")
    case True
    let ?n = "n + nat limit"
    have "read_pages (fetch s) limit (pg_next_cursor p) (acc @ pg_events p) =
        Some (Inr ((acc @ pg_events p) @ drop ?n (contents s)))"
      using p(2) True assms(2) by (intro less.hyps) (auto simp: page_of_def)
    also have "(acc @ pg_events p) @ drop ?n (contents s) = acc @ drop n (contents s)"
      using p(2) append_take_drop_id [of "nat limit" "drop n (contents s)"]
      by (simp add: page_of_def add.commute)
    finally show ?thesis
      using p True by (subst read_pages.simps) (simp add: page_of_def)
  next
    case False
    with p less.prems(2) show ?thesis
      by (subst read_pages.simps) (simp add: page_of_def nat_le_iff)
  qed
qed

lemma read_pages_all:
  "invar s \<Longrightarrow> 0 < limit \<Longrightarrow> int (length (contents s)) + limit < 2 ^ 63 \<Longrightarrow>
   read_pages (fetch s) limit [] [] = Some (Inr (contents s))"
  using read_pages_from [of s limit "[]" 0 "[]"] by (simp add: cursor_at_def)

end

lemma cursor_at_parse:
  "cursor_at c n \<Longrightarrow> (if c = [] then Some 0 else parse_int64 c) = Some (int n)"
  by (auto simp: cursor_at_def parse_int64_dec)

lemma event_id_at:
  assumes "log_ok s" "i < length (events s r)"
  shows "ev_id (events s r ! i) = dec (Suc i)"
proof -
  have "map ev_id (events s r) ! i = dec (Suc i)"
    using assms by (simp only: log_ok_def) simp
  then show ?thesis using assms(2) by simp
qed


definition run_contents :: "log_store \<times> string \<Rightarrow> event list" where
  "run_contents k = events (fst k) (snd k)"

definition run_readable :: "log_store \<times> string \<Rightarrow> bool" where
  "run_readable k \<longleftrightarrow> log_ok (fst k) \<and> snd k \<noteq> []"

definition session_contents :: "log_store \<times> string \<Rightarrow> event list" where
  "session_contents k = sessionEvents (fst k) (snd k)"

lemma slice_page:
  assumes "n \<le> length all" "0 < limit"
  shows "go_slice all (int n) (min (int n + limit) (int (length all))) = Some (take (nat limit) (drop n all))"
proof (cases "int n + limit < int (length all)")
  case True
  then show ?thesis using assms by (simp add: go_slice_def nat_add_distrib)
next
  case False
  then show ?thesis using assms by (simp add: go_slice_def)
qed

lemma in_range:
  "0 < limit \<Longrightarrow> int len + limit < 2 ^ 63 \<Longrightarrow> n \<le> len \<Longrightarrow> wrap64 (int n + limit) = int n + limit"
  by (simp add: int64_range_def)

interpretation run_pager: pager "\<lambda>k. ListEvents (fst k) (snd k)" run_contents run_readable
proof
  fix k limit c n
  assume a: "run_readable k" "0 < limit" "int (length (run_contents k)) + limit < 2 ^ 63"
    "cursor_at c n" "n \<le> length (run_contents k)"
  obtain s r where k: "k = (s, r)" by (cases k)
  let ?all = "events s r"
  have r: "r \<noteq> []" "log_ok s" "n \<le> length ?all" using a k by (auto simp: run_readable_def run_contents_def)
  have w: "wrap64 (int n + limit) = int n + limit"
    using in_range [OF a(2,3,5)] .
  show "\<exists>p. ListEvents (fst k) (snd k) c limit = Inr p \<and> page_of (run_contents k) n limit p"
  proof (cases "n = length ?all")
    case True
    then show ?thesis
      using a(2) r cursor_at_parse [OF a(4)] k w
      by (cases "?all = []")
        (auto simp: ListEvents_def page_of_def run_contents_def Let_def go_slice_def)
  next
    case False
    then have n: "n < length ?all" using r(3) by simp
    let ?e = "min (int n + limit) (int (length ?all))" and ?evs = "take (nat limit) (drop n ?all)"
    have fetch: "ListEvents s r c limit =
        Inr \<lparr>pg_events = ?evs, pg_next_cursor = (if ?e < int (length ?all) then ev_id (last ?evs) else [])\<rparr>"
      using a(2) r(1) n w cursor_at_parse [OF a(4)] slice_page [OF r(3) a(2)]
      by (auto simp: ListEvents_def Let_def min_def split: if_splits)
    have "ev_id (last ?evs) = dec (n + nat limit)" if "int n + limit < int (length ?all)"
    proof -
      from that a(2) have "int (n + nat limit) < int (length ?all)" by simp
      then have len: "n + nat limit < length ?all" by (simp only: of_nat_less_iff)
      have "length ?evs = nat limit" "0 < nat limit" using that a(2) by auto
      then have "last ?evs = ?all ! (n + nat limit - 1)"
        by (simp add: last_conv_nth)
      moreover have "n + nat limit - 1 < length ?all" using len by simp
      ultimately show ?thesis using event_id_at [OF r(2)] \<open>0 < nat limit\<close> by simp
    qed
    then show ?thesis
      using fetch k a(2,3) by (auto simp: page_of_def run_contents_def cursor_at_def min_def nat_add_distrib)
  qed
qed

interpretation session_pager: pager "\<lambda>k. ListSession (fst k) (snd k)" session_contents "\<lambda>k. snd k \<noteq> []"
proof
  fix k :: "log_store \<times> string" and limit c n
  assume a: "snd k \<noteq> []" "0 < limit" "int (length (session_contents k)) + limit < 2 ^ 63"
    "cursor_at c n" "n \<le> length (session_contents k)"
  obtain s sid where k: "k = (s, sid)" by (cases k)
  let ?all = "sessionEvents s sid" and ?evs = "take (nat limit) (drop n (sessionEvents s sid))"
  have n: "n \<le> length ?all" using a(5) k by (simp add: session_contents_def)
  have w: "wrap64 (int n + limit) = int n + limit" using in_range [OF a(2,3,5)] .
  have "ListSession s sid c limit =
      Inr \<lparr>pg_events = ?evs,
           pg_next_cursor = (if int n + limit < int (length ?all) then dec (n + nat limit) else [])\<rparr>"
  proof (cases "n = length ?all")
    case True
    then show ?thesis
      using a(1,2) k cursor_at_parse [OF a(4)] by (simp add: ListSession_def Let_def)
  next
    case False
    then show ?thesis
      using a(1,2) n k w cursor_at_parse [OF a(4)] slice_page [OF n a(2)]
      by (simp add: ListSession_def Let_def nat_add_distrib)
  qed
  then show "\<exists>p. ListSession (fst k) (snd k) c limit = Inr p \<and> page_of (session_contents k) n limit p"
    using k a(2,3) by (auto simp: page_of_def session_contents_def cursor_at_def)
qed

text \<open>
  Property C11. Following the cursors of \<open>List\<close> from the start, with any positive page size, ends and
  yields every event of the run exactly once and in append order.
\<close>

theorem List_pages_whole_run:
  assumes "log_ok s" "r \<noteq> []" "0 < limit" "int (length (events s r)) + limit < 2 ^ 63"
  shows "read_pages (ListEvents s r) limit [] [] = Some (Inr (events s r))"
  using run_pager.read_pages_all [of "(s, r)" limit] assms
  by (simp add: run_readable_def run_contents_def)

definition example_log :: log_store where
  "example_log = run_ops exec_append (map (\<lambda>k. Some (example_event [k])) ''abc'') NewLog"

lemma example_log_ok: "log_ok example_log"
  unfolding example_log_def
  by (rule log_inv.ops_keep [OF log_ok_New]) (rule legal_ops_static, simp)

lemmas log_eval = example_log_def exec_append_def Append_def NewLog_def example_event_def Let_def

theorem List_pages_whole_run_witness:
  "\<exists>evs. read_pages (ListEvents example_log ''r'') 2 [] [] = Some (Inr evs) \<and> map ev_key evs = [''a'', ''b'', ''c'']"
proof -
  have len: "map ev_key (events example_log ''r'') = [''a'', ''b'', ''c'']"
    by (simp add: log_eval)
  then have "length (map ev_key (events example_log ''r'')) = 3" by simp
  then have "length (events example_log ''r'') = 3" by simp
  then have "read_pages (ListEvents example_log ''r'') 2 [] [] = Some (Inr (events example_log ''r''))"
    by (intro List_pages_whole_run [OF example_log_ok]) simp_all
  with len show ?thesis by simp
qed

text \<open>
  The session view pages the same way, and it is the interleaving of its runs: for every
  run, what the session shows of it is what the run's own log has for that session, in order.
\<close>

theorem ListSession_pages_whole_session:
  assumes "log_ok s" "sid \<noteq> []" "0 < limit" "int (length (sessionEvents s sid)) + limit < 2 ^ 63"
  shows "\<exists>evs. read_pages (ListSession s sid) limit [] [] = Some (Inr evs) \<and>
    (\<forall>r. filter (\<lambda>e. ev_run_id e = r) evs = filter (\<lambda>e. ev_session_id e = sid) (events s r))"
  using session_pager.read_pages_all [of "(s, sid)" limit] assms
  by (simp add: session_contents_def log_ok_def)

theorem ListSession_pages_whole_session_witness:
  "\<exists>evs. read_pages (ListSession example_log ''s'') 2 [] [] = Some (Inr evs) \<and>
     filter (\<lambda>e. ev_run_id e = ''r'') evs = filter (\<lambda>e. ev_session_id e = ''s'') (events example_log ''r'')"
proof -
  have "length (sessionEvents example_log ''s'') = 3" by (simp add: log_eval)
  then have "int (length (sessionEvents example_log ''s'')) + 2 < 2 ^ 63" by simp
  from ListSession_pages_whole_session [OF example_log_ok _ _ this] show ?thesis by auto
qed

text \<open>
  Two inputs a caller can supply make the in-memory log panic: a page size near the
  largest \<open>int\<close> with a cursor past the first event (the sum wraps), and a negative session cursor,
  which \<open>List\<close> tolerates.
\<close>

theorem List_can_panic:
  "ListEvents example_log ''r'' ''1'' (2 ^ 63 - 1) = Inl SlicePanic \<and>
   ListSession example_log ''s'' ''1'' (2 ^ 63 - 1) = Inl SlicePanic \<and>
   ListSession example_log ''s'' ''-1'' 10 = Inl SlicePanic \<and>
   is_ok (ListEvents example_log ''r'' ''-1'' 10)"
proof -
  have "parse_int64 ''1'' = Some 1" "parse_int64 ''-1'' = Some (-1)" by code_simp+
  then show ?thesis
    by (simp add: ListEvents_def ListSession_def log_eval wrap64_def go_slice_def)
qed

end
