(* ===== verification/Registry_Catalog.thy ===== *)
theory Registry_Catalog
  imports Go_Prelude "HOL-Library.AList"
begin

section \<open>Toolset admission catalog\<close>

text \<open>
  \<open>registry/catalog.go\<close>: one Redis-backed map value per toolset owns its admission (schema, revision,
  token), its provider leases, its tombstones and its health epoch. Registry replicas change it only
  by exact compare-and-swap. Each method is a loop that reads the value, decides, and swaps; the model
  is the decision of one iteration, a value of \<open>cas\<close>: return, or swap an expected value for a new one
  and go on. A failed swap has no effect and restarts the loop, so the possible changes of the stored
  value, whatever the interleaving of replicas, are exactly the swaps of such iterations
  (\<open>catalog_step\<close>), and an undisturbed call is \<open>uncontended\<close>.

  A stored value is the JSON document of an entry or text that does not decode. Instants are
  nanoseconds since the epoch and read from Redis, durations are nanoseconds. Not under \<open>src/\<close> or not
  worth translating, and therefore parameters collected in \<open>catalog_env\<close>: SHA-256, the JSON text of
  the canonical schema document, UUID syntax, and RFC 3339 formatting. \<open>health_tracker.go\<close> and the
  validators of \<open>runtime/toolregistry/admission.go\<close> follow. The health epoch is a \<open>uint64\<close> that grows
  by at most two per membership change and is unbounded here. The callers of \<open>routableProviderCount\<close> pass a
  Redis time, so its case for the zero \<open>time.Time\<close> is left out.
\<close>

subsection \<open>Validators and encodings\<close>

definition WireProtocolVersion :: int where "WireProtocolVersion = 8"
definition MinProviderLeaseDuration :: int where "MinProviderLeaseDuration = 45 * 10 ^ 9"
definition MaxProviderLeaseDuration :: int where "MaxProviderLeaseDuration = 24 * 3600 * 10 ^ 9"

definition is_lower_hex :: "char \<Rightarrow> bool" where
  "is_lower_hex c \<longleftrightarrow> is_digit c \<or> (97 \<le> (of_char c :: nat) \<and> (of_char c :: nat) \<le> 102)"

definition is_alnum :: "char \<Rightarrow> bool" where
  "is_alnum c \<longleftrightarrow> is_digit c \<or> (65 \<le> (of_char c :: nat) \<and> (of_char c :: nat) \<le> 90) \<or>
                 (97 \<le> (of_char c :: nat) \<and> (of_char c :: nat) \<le> 122)"

definition ValidateWireProtocolVersion :: "int \<Rightarrow> bool" where
  "ValidateWireProtocolVersion version \<longleftrightarrow> version = WireProtocolVersion"

definition ValidateAdmissionRevision :: "string \<Rightarrow> bool" where
  "ValidateAdmissionRevision revision \<longleftrightarrow>
     (case revision of
        [] \<Rightarrow> False
      | c # cs \<Rightarrow> is_alnum c \<and> length cs \<le> 255 \<and>
                  list_all (\<lambda>d. is_alnum d \<or> d \<in> set ''._:/@+-'') cs)"

definition ValidateRegistrationToken :: "string \<Rightarrow> bool" where
  "ValidateRegistrationToken token \<longleftrightarrow> length token = 64 \<and> list_all is_lower_hex token"

definition hex_digit :: "nat \<Rightarrow> char" where
  "hex_digit d = (if d < 10 then digit_char d else char_of (87 + d))"

definition hex_encode :: "string \<Rightarrow> string" where
  "hex_encode bytes =
     concat (map (\<lambda>b. [hex_digit (of_char b div 16), hex_digit (of_char b mod 16)]) bytes)"

definition hex_value :: "char \<Rightarrow> nat option" where
  "hex_value c =
     (let n = of_char c :: nat
      in if 48 \<le> n \<and> n \<le> 57 then Some (n - 48)
         else if 97 \<le> n \<and> n \<le> 102 then Some (n - 87)
         else if 65 \<le> n \<and> n \<le> 70 then Some (n - 55)
         else None)"

fun hex_decode :: "string \<Rightarrow> string option" where
  "hex_decode [] = Some []"
| "hex_decode [c] = None"
| "hex_decode (c # d # cs) =
     (case (hex_value c, hex_value d, hex_decode cs) of
        (Some h, Some l, Some bytes) \<Rightarrow> Some (char_of (16 * h + l) # bytes)
      | _ \<Rightarrow> None)"

definition be32 :: "nat \<Rightarrow> string" where
  "be32 n = map char_of [n div 2 ^ 24 mod 256, n div 2 ^ 16 mod 256, n div 2 ^ 8 mod 256, n mod 256]"

subsection \<open>Data\<close>

record tool_schema =
  tl_name :: string
  tl_description :: "string option"
  tl_tags :: "string list"
  tl_payload_schema :: string
  tl_result_schema :: string
  tl_sidecar_schema :: string

record toolset =
  ts_name :: string
  ts_description :: "string option"
  ts_version :: "string option"
  ts_tags :: "string list"
  ts_tools :: "tool_schema list"
  ts_registered_at :: string

record provider_lease =
  pl_expires :: int
  pl_draining :: bool

datatype entry_state = EntryActive | EntryRetired | EntryOther string

record catalog_entry =
  e_state :: entry_state
  e_toolset :: "toolset option"
  e_fingerprint :: string
  e_revision :: string
  e_wire :: int
  e_token :: string
  e_registered_at :: string
  e_leases :: "(string \<times> provider_lease) list option"
  e_retired :: "string set option"
  e_epoch :: nat
  e_last_pong :: int

datatype persisted = Json catalog_entry | Undecodable string

record fingerprint_doc =
  fd_name :: string
  fd_description :: "string option"
  fd_version :: "string option"
  fd_tags :: "string list"
  fd_tools :: "tool_schema list"

record catalog_env =
  ce_sha256 :: "string \<Rightarrow> string"
  ce_json :: "fingerprint_doc \<Rightarrow> string"
  ce_uuid :: "string \<Rightarrow> bool"
  ce_format_time :: "int \<Rightarrow> string"
  ce_time_ok :: "string \<Rightarrow> bool"

datatype catalog_error =
    LeaseDurationOutOfRange
  | BadFingerprint
  | BadRevision
  | BadWireVersion
  | DeadlineOverflow
  | UnmarshalFailed
  | InvalidToolsetPayload
  | InvalidRegisteredAt
  | FingerprintMismatch
  | TokenMismatch
  | InvalidState
  | MissingLeaseMap
  | InvalidHealthEpoch
  | InvalidLastPong
  | InvalidLeaseKey
  | InvalidLeaseDeadline
  | MissingRetiredSet
  | InvalidRetiredToken
  | ActiveTokenRetired
  | RetiredTokenUnmarked
  | ErrAdmissionBlocked nat
  | ErrAdmissionRetired
  | ErrAdmissionConflict
  | ErrToolsetNotFound

text \<open>A nil Go map reads as the empty map.\<close>

definition leases :: "catalog_entry \<Rightarrow> (string \<times> provider_lease) list" where
  "leases e = (case e_leases e of None \<Rightarrow> [] | Some l \<Rightarrow> l)"

definition retired_tokens :: "catalog_entry \<Rightarrow> string set" where
  "retired_tokens e = (case e_retired e of None \<Rightarrow> {} | Some r \<Rightarrow> r)"

subsection \<open>Identity\<close>

definition toolsetSchemaFingerprint :: "catalog_env \<Rightarrow> toolset \<Rightarrow> string" where
  "toolsetSchemaFingerprint env ts =
     hex_encode (ce_sha256 env (ce_json env
       \<lparr>fd_name = ts_name ts, fd_description = ts_description ts, fd_version = ts_version ts,
        fd_tags = sort (ts_tags ts),
        fd_tools = sort_key tl_name (map (\<lambda>t. t\<lparr>tl_tags := sort (tl_tags t)\<rparr>) (ts_tools ts))\<rparr>))"

definition registrationTokenDomain :: string where
  "registrationTokenDomain = ''goa-ai/tool-registry-admission/v2'' @ [char_of (0 :: nat)]"

definition token_body :: "string \<Rightarrow> string \<Rightarrow> int \<Rightarrow> string" where
  "token_body schemaDigest revision version =
     registrationTokenDomain @ be32 (nat version) @ schemaDigest @ be32 (length revision) @ revision"

definition admissionRegistrationToken ::
  "catalog_env \<Rightarrow> string \<Rightarrow> string \<Rightarrow> int \<Rightarrow> (catalog_error, string) result" where
  "admissionRegistrationToken env fingerprint revision version =
     (case hex_decode fingerprint of
        None \<Rightarrow> Inl BadFingerprint
      | Some schemaDigest \<Rightarrow>
          if length schemaDigest \<noteq> 32 then Inl BadFingerprint
          else if \<not> ValidateAdmissionRevision revision then Inl BadRevision
          else if version < 0 \<or> version > 2 ^ 32 - 1 then Inl BadWireVersion
          else Inr (hex_encode (ce_sha256 env (token_body schemaDigest revision version))))"

definition providerLeaseKey :: "string \<Rightarrow> string \<Rightarrow> string" where
  "providerLeaseKey providerID incarnationID = providerID @ char_of (0 :: nat) # incarnationID"

definition parseProviderLeaseKey :: "catalog_env \<Rightarrow> string \<Rightarrow> (string \<times> string) option" where
  "parseProviderLeaseKey env key =
     (let providerID = takeWhile (\<lambda>c. c \<noteq> char_of (0 :: nat)) key;
          rest = dropWhile (\<lambda>c. c \<noteq> char_of (0 :: nat)) key
      in if rest = [] \<or> providerID = [] then None
         else if \<not> ce_uuid env (tl rest) then None
         else Some (providerID, tl rest))"

definition newCatalogEntry ::
  "catalog_env \<Rightarrow> toolset \<Rightarrow> string \<Rightarrow> string \<Rightarrow> string \<Rightarrow> string \<Rightarrow> provider_lease \<Rightarrow> int \<Rightarrow> string set \<Rightarrow> catalog_entry" where
  "newCatalogEntry env ts fingerprint revision token leaseKey lease now retired =
     \<lparr>e_state = EntryActive,
      e_toolset = Some (ts\<lparr>ts_registered_at := ce_format_time env now\<rparr>),
      e_fingerprint = fingerprint, e_revision = revision, e_wire = WireProtocolVersion,
      e_token = token, e_registered_at = ce_format_time env now,
      e_leases = Some [(leaseKey, lease)], e_retired = Some retired,
      e_epoch = 1, e_last_pong = 0\<rparr>"

definition parseCatalogEntry ::
  "catalog_env \<Rightarrow> string \<Rightarrow> persisted \<Rightarrow> (catalog_error, catalog_entry) result" where
  "parseCatalogEntry env name body =
     (case body of
        Undecodable s \<Rightarrow> Inl UnmarshalFailed
      | Json e \<Rightarrow>
          (case e_toolset e of
             None \<Rightarrow> Inl InvalidToolsetPayload
           | Some ts \<Rightarrow>
               if ts_name ts \<noteq> name then Inl InvalidToolsetPayload
               else if e_registered_at e = [] \<or> ts_registered_at ts \<noteq> e_registered_at e
               then Inl InvalidRegisteredAt
               else if \<not> ce_time_ok env (e_registered_at e) then Inl InvalidRegisteredAt
               else if \<not> ValidateAdmissionRevision (e_revision e) then Inl BadRevision
               else if \<not> ValidateWireProtocolVersion (e_wire e) then Inl BadWireVersion
               else if e_fingerprint e \<noteq> toolsetSchemaFingerprint env ts then Inl FingerprintMismatch
               else (case admissionRegistrationToken env (e_fingerprint e) (e_revision e) (e_wire e) of
                       Inl err \<Rightarrow> Inl err
                     | Inr token \<Rightarrow>
                         if e_token e \<noteq> token then Inl TokenMismatch
                         else if e_state e \<noteq> EntryActive \<and> e_state e \<noteq> EntryRetired then Inl InvalidState
                         else if e_leases e = None then Inl MissingLeaseMap
                         else if e_epoch e = 0 then Inl InvalidHealthEpoch
                         else if e_last_pong e < 0 then Inl InvalidLastPong
                         else if \<not> list_all (\<lambda>(k, l). parseProviderLeaseKey env k \<noteq> None) (leases e)
                         then Inl InvalidLeaseKey
                         else if \<not> list_all (\<lambda>(k, l). pl_expires l > 0) (leases e) then Inl InvalidLeaseDeadline
                         else if e_retired e = None then Inl MissingRetiredSet
                         else if \<not> (\<forall>t \<in> retired_tokens e. ValidateRegistrationToken t) then Inl InvalidRetiredToken
                         else if e_state e = EntryActive \<and> e_token e \<in> retired_tokens e then Inl ActiveTokenRetired
                         else if e_state e \<noteq> EntryActive \<and> e_token e \<notin> retired_tokens e then Inl RetiredTokenUnmarked
                         else Inr e)))"

subsection \<open>Leases\<close>

definition unix_milli :: "int \<Rightarrow> int" where
  "unix_milli t = t div 1000000"

definition nonDrainingProviderCount :: "catalog_entry \<Rightarrow> nat" where
  "nonDrainingProviderCount e = length (filter (\<lambda>(k, l). \<not> pl_draining l) (leases e))"

definition routableProviderCount :: "catalog_entry \<Rightarrow> int \<Rightarrow> nat" where
  "routableProviderCount e now =
     length (filter (\<lambda>(k, l). \<not> pl_draining l \<and> pl_expires l > unix_milli now) (leases e))"

definition bump_epoch :: "catalog_entry \<Rightarrow> catalog_entry" where
  "bump_epoch e = e\<lparr>e_epoch := e_epoch e + 1, e_last_pong := 0\<rparr>"

definition pruneExpiredProviderLeases :: "catalog_entry \<Rightarrow> int \<Rightarrow> catalog_entry \<times> bool" where
  "pruneExpiredProviderLeases e now =
     (let kept = filter (\<lambda>(k, l). pl_expires l > unix_milli now) (leases e);
          e' = e\<lparr>e_leases := map_option (\<lambda>_. kept) (e_leases e)\<rparr>;
          e'' = (if nonDrainingProviderCount e > 0 \<and> routableProviderCount e' now = 0
                 then bump_epoch e' else e')
      in (e'', length kept \<noteq> length (leases e)))"

subsection \<open>Transitions\<close>

datatype 'r cas = Return 'r | Swap "persisted option" persisted "'r cas"

definition lease_deadline_overflows :: "int \<Rightarrow> int \<Rightarrow> bool" where
  "lease_deadline_overflows now dur \<longleftrightarrow> unix_milli now > 2 ^ 63 - 1 - unix_milli dur"

definition Register ::
  "catalog_env \<Rightarrow> toolset \<Rightarrow> string \<Rightarrow> string \<Rightarrow> string \<Rightarrow> int \<Rightarrow> int \<Rightarrow> persisted option \<Rightarrow>
   (catalog_error, catalog_entry) result cas" where
  "Register env ts revision providerID incarnationID dur now cur =
     (if dur < MinProviderLeaseDuration \<or> dur > MaxProviderLeaseDuration
      then Return (Inl LeaseDurationOutOfRange)
      else
        (let fingerprint = toolsetSchemaFingerprint env ts
         in case admissionRegistrationToken env fingerprint revision WireProtocolVersion of
              Inl err \<Rightarrow> Return (Inl err)
            | Inr token \<Rightarrow>
                if lease_deadline_overflows now dur then Return (Inl DeadlineOverflow)
                else
                  (let key = providerLeaseKey providerID incarnationID;
                       lease = \<lparr>pl_expires = unix_milli (now + dur), pl_draining = False\<rparr>
                   in case cur of
                        None \<Rightarrow>
                          (let candidate = newCatalogEntry env ts fingerprint revision token key lease now {}
                           in Swap None (Json candidate) (Return (Inr candidate)))
                      | Some raw \<Rightarrow>
                          (case parseCatalogEntry env (ts_name ts) raw of
                             Inl err \<Rightarrow> Return (Inl err)
                           | Inr parsed \<Rightarrow>
                               (let (existing, pruned) = pruneExpiredProviderLeases parsed now
                                in if token \<in> retired_tokens existing then Return (Inl ErrAdmissionRetired)
                                   else if e_token existing = token then
                                     (let hadRoutable = routableProviderCount existing now > 0;
                                          renewed = existing\<lparr>e_leases := Some (AList.update key lease (leases existing))\<rparr>;
                                          new = (if \<not> hadRoutable then bump_epoch renewed else renewed)
                                      in Swap (Some raw) (Json new) (Return (Inr new)))
                                   else if leases existing \<noteq> [] then
                                     (let blocked = Return (Inl (ErrAdmissionBlocked (length (leases existing))))
                                      in if pruned then Swap (Some raw) (Json existing) blocked else blocked)
                                   else
                                     (let retired = insert (e_token existing) (retired_tokens existing);
                                          candidate = newCatalogEntry env ts fingerprint revision token key lease now retired
                                      in Swap (Some raw) (Json candidate) (Return (Inr candidate))))))))"

definition DrainProvider ::
  "catalog_env \<Rightarrow> string \<Rightarrow> string \<Rightarrow> string \<Rightarrow> string \<Rightarrow> int \<Rightarrow> int \<Rightarrow> persisted option \<Rightarrow>
   (catalog_error, unit) result cas" where
  "DrainProvider env name providerID incarnationID expectedToken dur now cur =
     (case cur of
        None \<Rightarrow> Return (Inr ())
      | Some raw \<Rightarrow>
          (case parseCatalogEntry env name raw of
             Inl err \<Rightarrow> Return (Inl err)
           | Inr entry \<Rightarrow>
               if e_token entry \<noteq> expectedToken then Return (Inr ())
               else
                 (let leaseKey = providerLeaseKey providerID incarnationID
                  in case map_of (leases entry) leaseKey of
                       None \<Rightarrow> Return (Inr ())
                     | Some lease \<Rightarrow>
                         if pl_expires lease \<le> unix_milli now
                         then Swap (Some raw) (Json (fst (pruneExpiredProviderLeases entry now))) (Return (Inr ()))
                         else if lease_deadline_overflows now dur then Return (Inl DeadlineOverflow)
                         else
                           (let hadRoutable = routableProviderCount entry now > 0;
                                lease' = \<lparr>pl_expires = max (pl_expires lease) (unix_milli (now + dur)), pl_draining = True\<rparr>;
                                entry' = entry\<lparr>e_leases := Some (AList.update leaseKey lease' (leases entry))\<rparr>;
                                new = (if hadRoutable \<and> routableProviderCount entry' now = 0
                                       then bump_epoch entry' else entry')
                            in Swap (Some raw) (Json new) (Return (Inr ()))))))"

definition ReleaseProvider ::
  "catalog_env \<Rightarrow> string \<Rightarrow> string \<Rightarrow> string \<Rightarrow> string \<Rightarrow> int \<Rightarrow> persisted option \<Rightarrow>
   (catalog_error, unit) result cas" where
  "ReleaseProvider env name providerID incarnationID expectedToken now cur =
     (case cur of
        None \<Rightarrow> Return (Inr ())
      | Some raw \<Rightarrow>
          (case parseCatalogEntry env name raw of
             Inl err \<Rightarrow> Return (Inl err)
           | Inr parsed \<Rightarrow>
               if e_token parsed \<noteq> expectedToken then Return (Inr ())
               else
                 (let leaseKey = providerLeaseKey providerID incarnationID;
                      (entry, pruned) = pruneExpiredProviderLeases parsed now
                  in case map_of (leases entry) leaseKey of
                       None \<Rightarrow> if \<not> pruned then Return (Inr ())
                               else Swap (Some raw) (Json entry) (Return (Inr ()))
                     | Some lease \<Rightarrow>
                         (let hadRoutable = routableProviderCount entry now > 0;
                              entry' = entry\<lparr>e_leases := Some (AList.delete leaseKey (leases entry))\<rparr>;
                              new = (if hadRoutable \<and> routableProviderCount entry' now = 0
                                     then bump_epoch entry' else entry')
                          in Swap (Some raw) (Json new) (Return (Inr ()))))))"

definition Retire ::
  "catalog_env \<Rightarrow> string \<Rightarrow> string \<Rightarrow> persisted option \<Rightarrow> (catalog_error, unit) result cas" where
  "Retire env name expectedToken cur =
     (case cur of
        None \<Rightarrow> Return (Inr ())
      | Some raw \<Rightarrow>
          (case parseCatalogEntry env name raw of
             Inl err \<Rightarrow> Return (Inl err)
           | Inr entry \<Rightarrow>
               if e_token entry \<noteq> expectedToken then Return (Inl ErrAdmissionConflict)
               else if e_state entry = EntryRetired then Return (Inr ())
               else Swap (Some raw)
                      (Json (entry\<lparr>e_state := EntryRetired,
                                   e_retired := Some (insert (e_token entry) (retired_tokens entry))\<rparr>))
                      (Return (Inr ()))))"

definition RecordPong ::
  "catalog_env \<Rightarrow> string \<Rightarrow> string \<Rightarrow> string \<Rightarrow> string \<Rightarrow> nat \<Rightarrow> int \<Rightarrow> persisted option \<Rightarrow>
   (catalog_error, unit) result cas" where
  "RecordPong env name providerID incarnationID token epoch now cur =
     (case cur of
        None \<Rightarrow> Return (Inr ())
      | Some raw \<Rightarrow>
          (case parseCatalogEntry env name raw of
             Inl err \<Rightarrow> Return (Inl err)
           | Inr parsed \<Rightarrow>
               (let (entry, pruned) = pruneExpiredProviderLeases parsed now;
                    base = (if pruned then Json entry else raw);
                    rest =
                      (if pruned \<and> leases entry = [] then Return (Inr ())
                       else if e_state entry \<noteq> EntryActive \<or> e_token entry \<noteq> token \<or> e_epoch entry \<noteq> epoch
                       then Return (Inr ())
                       else case map_of (leases entry) (providerLeaseKey providerID incarnationID) of
                              None \<Rightarrow> Return (Inr ())
                            | Some lease \<Rightarrow>
                                if pl_draining lease \<or> pl_expires lease \<le> unix_milli now then Return (Inr ())
                                else Swap (Some base) (Json (entry\<lparr>e_last_pong := max (e_last_pong entry) now\<rparr>))
                                       (Return (Inr ())))
                in if pruned then Swap (Some raw) (Json entry) rest else rest)))"

definition healthEntry ::
  "catalog_env \<Rightarrow> string \<Rightarrow> int \<Rightarrow> persisted option \<Rightarrow> (catalog_error, catalog_entry) result cas" where
  "healthEntry env name now cur =
     (case cur of
        None \<Rightarrow> Return (Inl ErrToolsetNotFound)
      | Some raw \<Rightarrow>
          (case parseCatalogEntry env name raw of
             Inl err \<Rightarrow> Return (Inl err)
           | Inr parsed \<Rightarrow>
               if e_state parsed \<noteq> EntryActive then Return (Inl ErrToolsetNotFound)
               else
                 (let (entry, pruned) = pruneExpiredProviderLeases parsed now
                  in if \<not> pruned then Return (Inr entry)
                     else Swap (Some raw) (Json entry) (Return (Inr entry)))))"


subsection \<open>Queries\<close>

definition ActiveRegistration ::
  "catalog_env \<Rightarrow> string \<Rightarrow> persisted option \<Rightarrow> (catalog_error, catalog_entry) result" where
  "ActiveRegistration env name cur =
     (case cur of
        None \<Rightarrow> Inl ErrToolsetNotFound
      | Some raw \<Rightarrow>
          (case parseCatalogEntry env name raw of
             Inl err \<Rightarrow> Inl err
           | Inr entry \<Rightarrow> if e_state entry \<noteq> EntryActive then Inl ErrToolsetNotFound else Inr entry))"

definition VerifyActiveToken ::
  "catalog_env \<Rightarrow> string \<Rightarrow> string \<Rightarrow> persisted option \<Rightarrow> (catalog_error, unit) result" where
  "VerifyActiveToken env name token cur =
     (case ActiveRegistration env name cur of
        Inl err \<Rightarrow> Inl err
      | Inr entry \<Rightarrow> if e_token entry \<noteq> token then Inl ErrToolsetNotFound else Inr ())"

definition ActiveProviderLease ::
  "catalog_env \<Rightarrow> string \<Rightarrow> string \<Rightarrow> string \<Rightarrow> string \<Rightarrow> int \<Rightarrow> persisted option \<Rightarrow> (catalog_error, bool) result" where
  "ActiveProviderLease env name providerID incarnationID token now cur =
     (case ActiveRegistration env name cur of
        Inl err \<Rightarrow> Inl err
      | Inr entry \<Rightarrow>
          if e_token entry \<noteq> token then Inl ErrToolsetNotFound
          else (case map_of (leases entry) (providerLeaseKey providerID incarnationID) of
                  None \<Rightarrow> Inr False
                | Some lease \<Rightarrow> Inr (pl_expires lease > unix_milli now)))"

definition HealthIdentity ::
  "catalog_env \<Rightarrow> string \<Rightarrow> int \<Rightarrow> persisted option \<Rightarrow> (catalog_error, string \<times> nat) result cas" where
  "HealthIdentity env name now cur =
     map_cas (\<lambda>res. case res of
                Inl err \<Rightarrow> Inl err
              | Inr entry \<Rightarrow> if routableProviderCount entry now = 0 then Inl ErrToolsetNotFound
                             else Inr (e_token entry, e_epoch entry))
       (healthEntry env name now cur)"

definition catalogMatchesTags :: "string list \<Rightarrow> string list \<Rightarrow> bool" where
  "catalogMatchesTags toolsetTags filterTags \<longleftrightarrow>
     filterTags = [] \<or> list_all (\<lambda>tag. tag \<in> set toolsetTags) filterTags"

subsection \<open>Health tracking\<close>

record toolset_health =
  th_healthy :: bool
  th_last_pong :: "int option"
  th_age :: int
  th_provider_count :: nat
  th_staleness_threshold :: int

definition deriveStalenessThreshold :: "int \<Rightarrow> int \<Rightarrow> int" where
  "deriveStalenessThreshold interval missed = (missed + 1) * interval"

definition Health ::
  "catalog_env \<Rightarrow> int \<Rightarrow> string \<Rightarrow> string \<Rightarrow> int \<Rightarrow> persisted option \<Rightarrow> (catalog_error, toolset_health) result cas" where
  "Health env stalenessThreshold name registrationToken now cur =
     map_cas (\<lambda>res. case res of
                Inl err \<Rightarrow> Inl err
              | Inr entry \<Rightarrow>
                  if e_token entry \<noteq> registrationToken then Inl ErrToolsetNotFound
                  else
                    (let count = routableProviderCount entry now;
                         lastPong = (if e_last_pong entry \<noteq> 0 then Some (e_last_pong entry) else None);
                         age = (if e_last_pong entry \<noteq> 0 then now - e_last_pong entry else 0)
                     in Inr \<lparr>th_healthy = (count > 0 \<and> lastPong \<noteq> None \<and> age \<le> stalenessThreshold),
                             th_last_pong = lastPong, th_age = age, th_provider_count = count,
                             th_staleness_threshold = stalenessThreshold\<rparr>))
       (healthEntry env name now cur)"

definition pingIdentity :: "string \<Rightarrow> nat \<Rightarrow> string" where
  "pingIdentity token epoch = token @ ''/'' @ dec epoch"

definition newPingID :: "string \<Rightarrow> nat \<Rightarrow> string \<Rightarrow> string" where
  "newPingID token epoch freshUUID = pingIdentity token epoch @ ''/'' @ freshUUID"

definition cut_slash :: "string \<Rightarrow> (string \<times> string) option" where
  "cut_slash s =
     (let rest = dropWhile (\<lambda>c. c \<noteq> CHR ''/'') s
      in if rest = [] then None else Some (takeWhile (\<lambda>c. c \<noteq> CHR ''/'') s, tl rest))"

definition parsePingID :: "catalog_env \<Rightarrow> string \<Rightarrow> (string \<times> nat) option" where
  "parsePingID env pingID =
     (case cut_slash pingID of
        None \<Rightarrow> None
      | Some (token, rest) \<Rightarrow>
          (case cut_slash rest of
             None \<Rightarrow> None
           | Some (epochText, uuidText) \<Rightarrow>
               if \<not> ValidateRegistrationToken token then None
               else (case undec epochText of
                       None \<Rightarrow> None
                     | Some epoch \<Rightarrow>
                         if epoch \<ge> 2 ^ 64 \<or> epoch = 0 then None
                         else if \<not> ce_uuid env uuidText then None
                         else Some (token, epoch))))"

text \<open>
  \<open>noteHealth\<close> keeps the last observation per toolset and reports whether it logs the warning.
\<close>

record health_notes =
  lastObservedHealthy :: "string \<rightharpoonup> bool"
  lastObservedPong :: "string \<Rightarrow> int"

definition noteHealth :: "string \<Rightarrow> toolset_health \<Rightarrow> health_notes \<Rightarrow> health_notes \<times> bool" where
  "noteHealth toolset health h =
     (let pong = (case th_last_pong health of None \<Rightarrow> 0 | Some p \<Rightarrow> p);
          warns = (lastObservedHealthy h toolset = Some True \<and> \<not> th_healthy health \<and>
                   lastObservedPong h toolset \<noteq> pong)
      in (h\<lparr>lastObservedHealthy := (lastObservedHealthy h)(toolset \<mapsto> th_healthy health),
            lastObservedPong := (lastObservedPong h)(toolset := pong)\<rparr>, warns))"

definition revFloorSlack :: int where "revFloorSlack = 2 ^ 20"

definition revisionPinScript :: "int \<Rightarrow> int \<Rightarrow> int \<times> bool" where
  "revisionPinScript target counter = (if counter < target then (target, True) else (counter, False))"

text \<open>
  \<open>ensureMapRevision\<close> reads the counter (\<open>seen\<close>), and unless it confirms the floor runs the pin
  script, which finds the counter as it is by then. The result is the counter, the new floor and
  whether a repair is logged.
\<close>

definition ensureMapRevision :: "int \<Rightarrow> int \<Rightarrow> int \<Rightarrow> int \<Rightarrow> int \<times> int \<times> bool" where
  "ensureMapRevision nowMilli revFloor seen counter =
     (if revFloor > 0 \<and> seen \<ge> revFloor then (counter, seen, False)
      else
        (let target = max nowMilli (revFloor + revFloorSlack);
             (final, raised) = revisionPinScript target counter
         in (final, final, raised \<and> revFloor \<noteq> 0)))"

subsection \<open>Every interleaving of the methods\<close>

fun uncontended :: "'r cas \<Rightarrow> persisted option \<Rightarrow> persisted option \<times> 'r" where
  "uncontended (Return r) s = (s, r)"
| "uncontended (Swap expected new k) s = uncontended k (Some new)"

fun swaps :: "'r cas \<Rightarrow> (persisted option \<times> persisted) set" where
  "swaps (Return r) = {}"
| "swaps (Swap expected new k) = insert (expected, new) (swaps k)"

lemma swaps_map_cas [simp]: "swaps (map_cas f p) = swaps p"
  by (induction p) simp_all

definition valid_provider :: "catalog_env \<Rightarrow> string \<Rightarrow> string \<Rightarrow> bool" where
  "valid_provider env providerID incarnationID \<longleftrightarrow>
     providerID \<noteq> [] \<and> char_of (0 :: nat) \<notin> set providerID \<and> ce_uuid env incarnationID"

text \<open>
  The requests the service lets through: the registration payload is checked against the design
  (\<open>registry/design/design.go\<close>) before the catalog sees it, and Redis time is not negative.
\<close>

inductive catalog_step :: "catalog_env \<Rightarrow> string \<Rightarrow> int \<Rightarrow> persisted option \<Rightarrow> persisted \<Rightarrow> bool"
  for env name now where
  register: "ts_name ts = name \<Longrightarrow> valid_provider env providerID incarnationID \<Longrightarrow>
    (old, new) \<in> swaps (Register env ts revision providerID incarnationID dur now cur) \<Longrightarrow>
    catalog_step env name now old new"
| drain: "dur \<ge> 0 \<Longrightarrow> (old, new) \<in> swaps (DrainProvider env name providerID incarnationID token dur now cur) \<Longrightarrow>
    catalog_step env name now old new"
| release: "(old, new) \<in> swaps (ReleaseProvider env name providerID incarnationID token now cur) \<Longrightarrow>
    catalog_step env name now old new"
| retire: "(old, new) \<in> swaps (Retire env name token cur) \<Longrightarrow> catalog_step env name now old new"
| pong: "(old, new) \<in> swaps (RecordPong env name providerID incarnationID token epoch now cur) \<Longrightarrow>
    catalog_step env name now old new"
| health: "(old, new) \<in> swaps (healthEntry env name now cur) \<Longrightarrow> catalog_step env name now old new"

inductive catalog_reach :: "catalog_env \<Rightarrow> string \<Rightarrow> persisted option \<Rightarrow> persisted option \<Rightarrow> bool"
  for env name start where
  here: "catalog_reach env name start start"
| more: "catalog_reach env name start old \<Longrightarrow> 0 \<le> now \<Longrightarrow> catalog_step env name now old new \<Longrightarrow>
    catalog_reach env name start (Some new)"


subsection \<open>What a valid entry is\<close>

definition good_env :: "catalog_env \<Rightarrow> bool" where
  "good_env env \<longleftrightarrow>
     (\<forall>x. length (ce_sha256 env x) = 32) \<and>
     (\<forall>t. ce_format_time env t \<noteq> [] \<and> ce_time_ok env (ce_format_time env t))"

definition valid_entry :: "catalog_env \<Rightarrow> string \<Rightarrow> catalog_entry \<Rightarrow> bool" where
  "valid_entry env name e \<longleftrightarrow> parseCatalogEntry env name (Json e) = Inr e"

definition identity_ok :: "catalog_env \<Rightarrow> string \<Rightarrow> catalog_entry \<Rightarrow> bool" where
  "identity_ok env name e \<longleftrightarrow>
     (\<exists>ts. e_toolset e = Some ts \<and> ts_name ts = name \<and> ts_registered_at ts = e_registered_at e \<and>
           e_fingerprint e = toolsetSchemaFingerprint env ts) \<and>
     e_registered_at e \<noteq> [] \<and> ce_time_ok env (e_registered_at e) \<and>
     ValidateAdmissionRevision (e_revision e) \<and> ValidateWireProtocolVersion (e_wire e) \<and>
     admissionRegistrationToken env (e_fingerprint e) (e_revision e) (e_wire e) = Inr (e_token e)"

definition leases_ok :: "catalog_env \<Rightarrow> catalog_entry \<Rightarrow> bool" where
  "leases_ok env e \<longleftrightarrow>
     e_leases e \<noteq> None \<and> (\<forall>(k, l) \<in> set (leases e). parseProviderLeaseKey env k \<noteq> None \<and> pl_expires l > 0)"

definition tombs_ok :: "catalog_entry \<Rightarrow> bool" where
  "tombs_ok e \<longleftrightarrow>
     e_retired e \<noteq> None \<and> (\<forall>t \<in> retired_tokens e. ValidateRegistrationToken t) \<and>
     (e_state e = EntryActive \<and> e_token e \<notin> retired_tokens e \<or>
      e_state e = EntryRetired \<and> e_token e \<in> retired_tokens e)"

lemma parse_identity: "parseCatalogEntry env name (Json x) = Inr e \<Longrightarrow> x = e"
  unfolding parseCatalogEntry_def persisted.case
  by (cases "e_toolset x") (simp_all only: option.case guard_eq_Inr case_result_eq_Inr, blast+)

lemma parse_Json: "parseCatalogEntry env name raw = Inr e \<Longrightarrow> raw = Json e \<and> valid_entry env name e"
  using parse_identity by (cases raw) (auto simp: valid_entry_def parseCatalogEntry_def [of _ _ "Undecodable _"])

lemma valid_entry_iff:
  "valid_entry env name e \<longleftrightarrow>
     identity_ok env name e \<and> leases_ok env e \<and> 0 < e_epoch e \<and> 0 \<le> e_last_pong e \<and> tombs_ok e"
proof (cases "e_toolset e")
  case None
  then show ?thesis by (simp add: valid_entry_def parseCatalogEntry_def identity_ok_def)
next
  case (Some ts)
  have "valid_entry env name e \<longleftrightarrow>
     ts_name ts = name \<and> \<not> (e_registered_at e = [] \<or> ts_registered_at ts \<noteq> e_registered_at e) \<and>
     ce_time_ok env (e_registered_at e) \<and> ValidateAdmissionRevision (e_revision e) \<and>
     ValidateWireProtocolVersion (e_wire e) \<and> e_fingerprint e = toolsetSchemaFingerprint env ts \<and>
     (\<exists>token. admissionRegistrationToken env (e_fingerprint e) (e_revision e) (e_wire e) = Inr token \<and>
        e_token e = token \<and> \<not> (e_state e \<noteq> EntryActive \<and> e_state e \<noteq> EntryRetired) \<and>
        e_leases e \<noteq> None \<and> e_epoch e \<noteq> 0 \<and> \<not> e_last_pong e < 0 \<and>
        list_all (\<lambda>(k, l). parseProviderLeaseKey env k \<noteq> None) (leases e) \<and>
        list_all (\<lambda>(k, l). pl_expires l > 0) (leases e) \<and> e_retired e \<noteq> None \<and>
        (\<forall>t \<in> retired_tokens e. ValidateRegistrationToken t) \<and>
        \<not> (e_state e = EntryActive \<and> e_token e \<in> retired_tokens e) \<and>
        \<not> (e_state e \<noteq> EntryActive \<and> e_token e \<notin> retired_tokens e))"
    unfolding valid_entry_def parseCatalogEntry_def persisted.case Some option.case
      guard_eq_Inr case_result_eq_Inr not_not
    by blast
  then show ?thesis
    unfolding identity_ok_def leases_ok_def tombs_ok_def list_all_iff Some by auto
qed

definition same_identity :: "catalog_entry \<Rightarrow> catalog_entry \<Rightarrow> bool" where
  "same_identity e e' \<longleftrightarrow>
     e_state e' = e_state e \<and> e_toolset e' = e_toolset e \<and> e_fingerprint e' = e_fingerprint e \<and>
     e_revision e' = e_revision e \<and> e_wire e' = e_wire e \<and> e_token e' = e_token e \<and>
     e_registered_at e' = e_registered_at e \<and> e_retired e' = e_retired e"

definition epoch_advance :: "catalog_entry \<Rightarrow> catalog_entry \<Rightarrow> bool" where
  "epoch_advance e e' \<longleftrightarrow>
     e_epoch e' = e_epoch e \<and> e_last_pong e' = e_last_pong e \<or>
     e_epoch e < e_epoch e' \<and> e_last_pong e' = 0"

lemma epoch_advance_trans: "epoch_advance a b \<Longrightarrow> epoch_advance b c \<Longrightarrow> epoch_advance a c"
  by (auto simp: epoch_advance_def)

lemma same_identity_trans: "same_identity a b \<Longrightarrow> same_identity b c \<Longrightarrow> same_identity a c"
  by (simp add: same_identity_def)

lemma valid_entry_change:
  assumes "valid_entry env name e" "same_identity e e'" "leases_ok env e'" "epoch_advance e e'"
  shows "valid_entry env name e'"
proof -
  have "0 < e_epoch e' \<and> 0 \<le> e_last_pong e'"
    using assms(1,4) by (auto simp: valid_entry_iff epoch_advance_def)
  moreover have "identity_ok env name e'" "tombs_ok e'"
    using assms(1,2) by (simp_all add: valid_entry_iff same_identity_def identity_ok_def tombs_ok_def retired_tokens_def)
  ultimately show ?thesis using assms(3) by (simp add: valid_entry_iff)
qed

text \<open>
  Abstract specification of the admission protocol for one toolset: what may happen to the record
  from one instant to the next, without saying which method does it.
\<close>

inductive admission_step :: "int \<Rightarrow> catalog_entry option \<Rightarrow> catalog_entry \<Rightarrow> bool" for now where
  admit: "e_state new = EntryActive \<Longrightarrow> retired_tokens new = {} \<Longrightarrow> e_epoch new = 1 \<Longrightarrow>
    e_last_pong new = 0 \<Longrightarrow> admission_step now None new"
| membership: "same_identity e new \<Longrightarrow> epoch_advance e new \<Longrightarrow>
    ((routableProviderCount e now > 0) \<noteq> (routableProviderCount new now > 0) \<longrightarrow> e_epoch e < e_epoch new) \<Longrightarrow>
    admission_step now (Some e) new"
| pong: "e_state e = EntryActive \<Longrightarrow> (k, l) \<in> set (leases e) \<Longrightarrow> \<not> pl_draining l \<Longrightarrow>
    pl_expires l > unix_milli now \<Longrightarrow> new = e\<lparr>e_last_pong := max (e_last_pong e) now\<rparr> \<Longrightarrow>
    admission_step now (Some e) new"
| retire: "new = e\<lparr>e_state := EntryRetired, e_retired := Some (insert (e_token e) (retired_tokens e))\<rparr> \<Longrightarrow>
    admission_step now (Some e) new"
| replace: "e_token new \<noteq> e_token e \<Longrightarrow> e_token new \<notin> retired_tokens e \<Longrightarrow>
    (\<forall>(k, l) \<in> set (leases e). pl_expires l \<le> unix_milli now) \<Longrightarrow>
    retired_tokens new = insert (e_token e) (retired_tokens e) \<Longrightarrow>
    e_state new = EntryActive \<Longrightarrow> e_epoch new = 1 \<Longrightarrow> e_last_pong new = 0 \<Longrightarrow>
    admission_step now (Some e) new"

inductive_cases admission_stepE: "admission_step now (Some e) new"

subsection \<open>The methods implement the specification\<close>

lemma leases_update [simp]: "leases (e\<lparr>e_leases := Some l\<rparr>) = l"
  by (simp add: leases_def)

lemma leases_bump [simp]: "leases (bump_epoch e) = leases e" "e_leases (bump_epoch e) = e_leases e"
  by (simp_all add: leases_def bump_epoch_def)

lemma routable_bump [simp]: "routableProviderCount (bump_epoch e) now = routableProviderCount e now"
  by (simp add: routableProviderCount_def)

lemma bump_epoch_facts:
  "same_identity e (bump_epoch e)" "epoch_advance e (bump_epoch e)" "e_epoch e < e_epoch (bump_epoch e)"
  by (simp_all add: same_identity_def epoch_advance_def bump_epoch_def)

lemma relet_facts:
  "same_identity e (e\<lparr>e_leases := l\<rparr>)" "epoch_advance e (e\<lparr>e_leases := l\<rparr>)" "e_epoch (e\<lparr>e_leases := l\<rparr>) = e_epoch e"
  by (simp_all add: same_identity_def epoch_advance_def)

lemma leases_prune:
  "leases (fst (pruneExpiredProviderLeases e now)) = filter (\<lambda>(k, l). pl_expires l > unix_milli now) (leases e)"
  by (cases "e_leases e") (auto simp: pruneExpiredProviderLeases_def Let_def bump_epoch_def leases_def)

lemma routable_prune:
  "routableProviderCount (fst (pruneExpiredProviderLeases e now)) now = routableProviderCount e now"
proof -
  have "filter (\<lambda>(k, l). \<not> pl_draining l \<and> unix_milli now < pl_expires l)
      (filter (\<lambda>(k, l). unix_milli now < pl_expires l) (leases e)) =
    filter (\<lambda>(k, l). \<not> pl_draining l \<and> unix_milli now < pl_expires l) (leases e)"
    by (auto simp: intro: filter_cong)
  then show ?thesis by (simp add: routableProviderCount_def leases_prune)
qed

lemma prune_facts:
  "same_identity e (fst (pruneExpiredProviderLeases e now))"
  "epoch_advance e (fst (pruneExpiredProviderLeases e now))"
  by (auto simp: pruneExpiredProviderLeases_def Let_def same_identity_def epoch_advance_def bump_epoch_def)

lemma prune_leases_ok: "leases_ok env e \<Longrightarrow> leases_ok env (fst (pruneExpiredProviderLeases e now))"
  unfolding leases_ok_def leases_prune
  by (auto simp: pruneExpiredProviderLeases_def Let_def)

lemma valid_prune: "valid_entry env name e \<Longrightarrow> valid_entry env name (fst (pruneExpiredProviderLeases e now))"
  by (rule valid_entry_change [OF _ prune_facts(1) _ prune_facts(2)])
    (simp_all add: prune_leases_ok valid_entry_iff)


lemma hex_digit_lower: "d < 16 \<Longrightarrow> is_lower_hex (hex_digit d)"
  by (cases "d < 10") (simp_all add: is_lower_hex_def hex_digit_def)

lemma hex_encode_length: "length (hex_encode xs) = 2 * length xs"
  by (induction xs) (simp_all add: hex_encode_def)

lemma hex_encode_lower: "list_all is_lower_hex (hex_encode xs)"
proof (induction xs)
  case (Cons x xs)
  have "(of_char x :: nat) < 16 * 16" using nat_of_char_less_256 [of x] by simp
  then have "(of_char x :: nat) div 16 < 16" by (rule less_mult_imp_div_less)
  then show ?case using Cons by (simp add: hex_encode_def hex_digit_lower)
qed (simp add: hex_encode_def)

lemma token_valid:
  assumes "good_env env" "admissionRegistrationToken env fp revision version = Inr token"
  shows "ValidateRegistrationToken token"
proof -
  obtain body where "token = hex_encode (ce_sha256 env body)"
    using assms(2) by (auto simp: admissionRegistrationToken_def split: option.splits if_splits)
  then show ?thesis
    using assms(1) by (simp add: ValidateRegistrationToken_def hex_encode_length hex_encode_lower good_env_def)
qed

lemma token_revision:
  "admissionRegistrationToken env fp revision version = Inr token \<Longrightarrow> ValidateAdmissionRevision revision"
  by (auto simp: admissionRegistrationToken_def split: option.splits if_splits)

lemma fingerprint_registered_at [simp]:
  "toolsetSchemaFingerprint env (ts\<lparr>ts_registered_at := r\<rparr>) = toolsetSchemaFingerprint env ts"
  by (simp add: toolsetSchemaFingerprint_def)

lemma lease_key_parses:
  "valid_provider env p i \<Longrightarrow> parseProviderLeaseKey env (providerLeaseKey p i) = Some (p, i)"
proof -
  assume v: "valid_provider env p i"
  then have *: "\<forall>c \<in> set p. c \<noteq> char_of (0 :: nat)" "p \<noteq> []" "ce_uuid env i" by (auto simp: valid_provider_def)
  show ?thesis
    using takeWhile_group [OF *(1), of "char_of (0 :: nat) # i"] *(2,3)
    by (simp add: parseProviderLeaseKey_def providerLeaseKey_def Let_def)
qed

lemma newCatalogEntry_valid:
  assumes "good_env env" "ts_name ts = name" "valid_provider env p i" "pl_expires lease > 0"
    and "admissionRegistrationToken env (toolsetSchemaFingerprint env ts) revision WireProtocolVersion = Inr token"
    and "\<forall>t \<in> retired. ValidateRegistrationToken t" "token \<notin> retired"
  shows "valid_entry env name
    (newCatalogEntry env ts (toolsetSchemaFingerprint env ts) revision token (providerLeaseKey p i) lease now retired)"
  unfolding valid_entry_iff
proof (intro conjI)
  show "identity_ok env name
      (newCatalogEntry env ts (toolsetSchemaFingerprint env ts) revision token (providerLeaseKey p i) lease now retired)"
    using assms(1,2,5) token_revision [OF assms(5)]
    by (simp add: identity_ok_def newCatalogEntry_def good_env_def ValidateWireProtocolVersion_def)
qed (use assms lease_key_parses [OF assms(3)] in
    \<open>simp_all add: leases_ok_def tombs_ok_def newCatalogEntry_def leases_def retired_tokens_def\<close>)

definition refines :: "catalog_env \<Rightarrow> string \<Rightarrow> int \<Rightarrow> persisted option \<times> persisted \<Rightarrow> bool" where
  "refines env name now w \<longleftrightarrow>
     (\<exists>new. snd w = Json new \<and> valid_entry env name new \<and>
        (fst w = None \<and> admission_step now None new \<or>
         (\<exists>e. fst w = Some (Json e) \<and> valid_entry env name e \<and> admission_step now (Some e) new)))"

lemma refines_membership:
  assumes "valid_entry env name e" "same_identity e new" "epoch_advance e new" "leases_ok env new"
    and "(routableProviderCount e now > 0) \<noteq> (routableProviderCount new now > 0) \<longrightarrow> e_epoch e < e_epoch new"
  shows "refines env name now (Some (Json e), Json new)"
  using assms admission_step.membership [OF assms(2,3,5)] valid_entry_change [OF assms(1,2,4,3)]
  by (simp add: refines_def)

lemma refines_prune:
  "valid_entry env name e \<Longrightarrow> refines env name now (Some (Json e), Json (fst (pruneExpiredProviderLeases e now)))"
  by (rule refines_membership [OF _ prune_facts])
    (simp_all add: routable_prune valid_entry_iff prune_leases_ok)

text \<open>Releting a pruned entry: the shape shared by renewal and release.\<close>

lemma refines_relet:
  assumes "valid_entry env name e" "e1 = fst (pruneExpiredProviderLeases e now)"
    and "e2 = e1\<lparr>e_leases := Some l\<rparr>" "leases_ok env e2"
    and "new = (if b then bump_epoch e2 else e2)"
    and "(routableProviderCount e1 now > 0) \<noteq> (routableProviderCount e2 now > 0) \<longrightarrow> b"
  shows "refines env name now (Some (Json e), Json new)"
proof (rule refines_membership [OF assms(1)])
  have "same_identity e e2" using same_identity_trans [OF prune_facts(1) relet_facts(1)] assms(2,3) by simp
  then show "same_identity e new"
    using same_identity_trans [OF _ bump_epoch_facts(1)] assms(5) by simp
  have ep: "epoch_advance e e2" using epoch_advance_trans [OF prune_facts(2) relet_facts(2)] assms(2,3) by simp
  then show "epoch_advance e new"
    using epoch_advance_trans [OF _ bump_epoch_facts(2)] assms(5) by simp
  show "leases_ok env new" using assms(4,5) by (simp add: leases_ok_def)
  have "e_epoch e \<le> e_epoch e2" using ep by (auto simp: epoch_advance_def)
  then have "b \<Longrightarrow> e_epoch e < e_epoch new" using assms(5) bump_epoch_facts(3) [of e2] by simp
  moreover have "routableProviderCount new now = routableProviderCount e2 now" using assms(5) by simp
  ultimately show "(routableProviderCount e now > 0) \<noteq> (routableProviderCount new now > 0) \<longrightarrow> e_epoch e < e_epoch new"
    using assms(2,6) routable_prune [of e now] by metis
qed


lemma set_update_subset: "set (AList.update k l al) \<subseteq> insert (k, l) (set al)"
  by (induction al) auto

lemma leases_ok_update:
  assumes "leases_ok env e" "parseProviderLeaseKey env k \<noteq> None" "pl_expires l > 0"
  shows "leases_ok env (e\<lparr>e_leases := Some (AList.update k l (leases e))\<rparr>)"
  using assms set_update_subset [of k l "leases e"] by (fastforce simp: leases_ok_def)

lemma filter_same_length: "length (filter P xs) = length xs \<Longrightarrow> filter P xs = xs"
proof (induction xs)
  case (Cons x xs)
  then show ?case by (cases "P x") (simp_all, metis Suc_n_not_le_n length_filter_le)
qed simp

lemma length_filter_filter_le: "length (filter P (filter Q xs)) \<le> length (filter P xs)"
  by (induction xs) auto

lemma prune_unchanged:
  assumes "\<not> snd (pruneExpiredProviderLeases e now)"
  shows "fst (pruneExpiredProviderLeases e now) = e"
proof -
  let ?live = "\<lambda>(k :: string, l). pl_expires l > unix_milli now"
  have f: "filter ?live (leases e) = leases e"
    using assms by (intro filter_same_length) (simp add: pruneExpiredProviderLeases_def Let_def)
  then have all: "\<forall>x \<in> set (leases e). ?live x" by (simp only: filter_id_conv)
  have "e\<lparr>e_leases := map_option (\<lambda>_. leases e) (e_leases e)\<rparr> = e"
    by (cases "e_leases e") (simp_all add: leases_def)
  moreover have "routableProviderCount e now = nonDrainingProviderCount e"
    unfolding routableProviderCount_def nonDrainingProviderCount_def
    using all by (intro arg_cong [of _ _ length] filter_cong) auto
  ultimately show ?thesis by (auto simp: pruneExpiredProviderLeases_def Let_def f)
qed

lemma leases_ok_delete: "leases_ok env e \<Longrightarrow> leases_ok env (e\<lparr>e_leases := Some (AList.delete k (leases e))\<rparr>)"
  by (auto simp: leases_ok_def AList.delete_eq)

lemma routable_after_update:
  "\<not> pl_draining l \<Longrightarrow> pl_expires l > unix_milli now \<Longrightarrow>
   routableProviderCount (e\<lparr>e_leases := Some (AList.update k l (leases e))\<rparr>) now > 0"
proof -
  assume a: "\<not> pl_draining l" "pl_expires l > unix_milli now"
  have "map_of (AList.update k l (leases e)) k = Some l" by (simp add: update_conv')
  then have "(k, l) \<in> set (AList.update k l (leases e))" by (rule map_of_SomeD)
  with a show ?thesis by (auto simp: routableProviderCount_def filter_empty_conv)
qed

lemma unix_milli_add:
  assumes "0 < d" shows "unix_milli now \<le> unix_milli (now + d)"
    and "1000000 \<le> d \<Longrightarrow> unix_milli now < unix_milli (now + d)"
proof -
  show "unix_milli now \<le> unix_milli (now + d)" using assms by (simp add: unix_milli_def zdiv_mono1)
  assume "1000000 \<le> d"
  then have "(now + 1000000) div 1000000 \<le> (now + d) div 1000000" by (simp add: zdiv_mono1)
  then show "unix_milli now < unix_milli (now + d)" by (simp add: unix_milli_def)
qed

lemma Retire_refines:
  assumes "w \<in> swaps (Retire env name token cur)" "good_env env"
  shows "refines env name now w"
proof -
  from assms(1) obtain raw e where e: "cur = Some raw" "parseCatalogEntry env name raw = Inr e" "e_state e \<noteq> EntryRetired"
      "w = (Some raw, Json (e\<lparr>e_state := EntryRetired, e_retired := Some (insert (e_token e) (retired_tokens e))\<rparr>))"
    by (auto simp: Retire_def split: option.splits sum.splits if_splits)
  from parse_Json [OF e(2)] have v: "raw = Json e" "valid_entry env name e" by simp_all
  let ?new = "e\<lparr>e_state := EntryRetired, e_retired := Some (insert (e_token e) (retired_tokens e))\<rparr>"
  have "identity_ok env name e" using v(2) by (simp add: valid_entry_iff)
  then have "ValidateRegistrationToken (e_token e)" using token_valid [OF assms(2)] by (auto simp: identity_ok_def)
  then have "tombs_ok ?new" using v(2) by (auto simp: valid_entry_iff tombs_ok_def retired_tokens_def)
  moreover have "identity_ok env name ?new" "leases_ok env ?new"
    using v(2) by (simp_all add: valid_entry_iff identity_ok_def leases_ok_def leases_def)
  ultimately have "valid_entry env name ?new" using v(2) by (simp add: valid_entry_iff)
  then show ?thesis using e(4) v admission_step.retire [OF refl, of now e] by (simp add: refines_def)
qed

lemma healthEntry_refines:
  assumes "w \<in> swaps (healthEntry env name now cur)"
  shows "refines env name now w"
proof -
  from assms obtain raw e where e: "parseCatalogEntry env name raw = Inr e"
      "w = (Some raw, Json (fst (pruneExpiredProviderLeases e now)))"
    by (auto simp: healthEntry_def Let_def case_prod_unfold split: option.splits sum.splits if_splits)
  with parse_Json [OF e(1)] refines_prune show ?thesis by simp
qed

lemma RecordPong_refines:
  assumes "w \<in> swaps (RecordPong env name p i token epoch now cur)" "0 \<le> now"
  shows "refines env name now w"
proof -
  from assms(1) obtain raw e where e: "cur = Some raw" "parseCatalogEntry env name raw = Inr e"
    by (auto simp: RecordPong_def split: option.splits sum.splits)
  from parse_Json [OF e(2)] have v: "raw = Json e" "valid_entry env name e" by simp_all
  let ?e = "fst (pruneExpiredProviderLeases e now)"
  let ?new = "?e\<lparr>e_last_pong := max (e_last_pong ?e) now\<rparr>"
  have "w = (Some raw, Json ?e) \<or> w = (Some (Json ?e), Json ?new) \<and> e_state ?e = EntryActive \<and>
      (\<exists>l. map_of (leases ?e) (providerLeaseKey p i) = Some l \<and> \<not> pl_draining l \<and> pl_expires l > unix_milli now)"
    using assms(1) e v(1) prune_unchanged [of e now]
    by (auto simp: RecordPong_def Let_def case_prod_unfold split: if_splits option.splits)
  then show ?thesis
  proof
    assume "w = (Some raw, Json ?e)"
    then show ?thesis using v refines_prune by simp
  next
    assume "w = (Some (Json ?e), Json ?new) \<and> e_state ?e = EntryActive \<and>
      (\<exists>l. map_of (leases ?e) (providerLeaseKey p i) = Some l \<and> \<not> pl_draining l \<and> pl_expires l > unix_milli now)"
    then obtain l where l: "w = (Some (Json ?e), Json ?new)" "e_state ?e = EntryActive"
        "(providerLeaseKey p i, l) \<in> set (leases ?e)" "\<not> pl_draining l" "pl_expires l > unix_milli now"
      by (auto dest: map_of_SomeD)
    have ve: "valid_entry env name ?e" using v(2) by (rule valid_prune)
    then have "valid_entry env name ?new"
      using assms(2) by (simp add: valid_entry_iff identity_ok_def leases_ok_def leases_def tombs_ok_def retired_tokens_def)
    then show ?thesis using admission_step.pong [OF l(2-5) refl] ve l(1) by (simp add: refines_def)
  qed
qed

lemma ReleaseProvider_refines:
  assumes "w \<in> swaps (ReleaseProvider env name p i token now cur)"
  shows "refines env name now w"
proof -
  from assms obtain raw e where e: "cur = Some raw" "parseCatalogEntry env name raw = Inr e"
    by (auto simp: ReleaseProvider_def split: option.splits sum.splits)
  from parse_Json [OF e(2)] have v: "raw = Json e" "valid_entry env name e" by simp_all
  let ?e = "fst (pruneExpiredProviderLeases e now)" and ?k = "providerLeaseKey p i"
  let ?e2 = "?e\<lparr>e_leases := Some (AList.delete ?k (leases ?e))\<rparr>"
  let ?b = "routableProviderCount ?e now > 0 \<and> routableProviderCount ?e2 now = 0"
  have "w = (Some raw, Json ?e) \<or> w = (Some raw, Json (if ?b then bump_epoch ?e2 else ?e2))"
    using assms e by (auto simp: ReleaseProvider_def Let_def case_prod_unfold split: if_splits option.splits)
  moreover have "refines env name now (Some (Json e), Json (if ?b then bump_epoch ?e2 else ?e2))"
  proof (rule refines_relet [OF v(2) refl refl _ refl])
    show "leases_ok env ?e2" using v(2) by (intro leases_ok_delete prune_leases_ok) (simp add: valid_entry_iff)
    have "routableProviderCount ?e2 now \<le> routableProviderCount ?e now"
      by (simp add: routableProviderCount_def AList.delete_eq length_filter_filter_le del: filter_filter)
    then show "(routableProviderCount ?e now > 0) \<noteq> (routableProviderCount ?e2 now > 0) \<longrightarrow> ?b" by auto
  qed
  ultimately show ?thesis using v refines_prune by auto
qed


lemma DrainProvider_refines:
  assumes "w \<in> swaps (DrainProvider env name p i token dur now cur)"
  shows "refines env name now w"
proof -
  let ?k = "providerLeaseKey p i"
  from assms obtain raw e lease where e: "cur = Some raw" "parseCatalogEntry env name raw = Inr e"
      "map_of (leases e) ?k = Some lease"
    by (auto simp: DrainProvider_def Let_def split: option.splits sum.splits if_splits)
  from parse_Json [OF e(2)] have v: "raw = Json e" "valid_entry env name e" by simp_all
  let ?l = "\<lparr>pl_expires = max (pl_expires lease) (unix_milli (now + dur)), pl_draining = True\<rparr>"
  let ?e2 = "e\<lparr>e_leases := Some (AList.update ?k ?l (leases e))\<rparr>"
  let ?b = "routableProviderCount e now > 0 \<and> routableProviderCount ?e2 now = 0"
  let ?new = "if ?b then bump_epoch ?e2 else ?e2"
  have "w = (Some raw, Json (fst (pruneExpiredProviderLeases e now))) \<or> w = (Some raw, Json ?new)"
    using assms e by (auto simp: DrainProvider_def Let_def split: if_splits)
  moreover have "refines env name now (Some (Json e), Json ?new)"
  proof (rule refines_membership [OF v(2)])
    have lo: "leases_ok env e" using v(2) by (simp add: valid_entry_iff)
    have "(?k, lease) \<in> set (leases e)" using e(3) by (rule map_of_SomeD)
    then have "parseProviderLeaseKey env ?k \<noteq> None" "pl_expires lease > 0"
      using lo by (auto simp: leases_ok_def)
    then have "leases_ok env ?e2" using lo by (intro leases_ok_update) auto
    then show "leases_ok env ?new" by (simp add: leases_ok_def)
    show "same_identity e ?new"
      using relet_facts(1) same_identity_trans [OF relet_facts(1) bump_epoch_facts(1)] by auto
    show "epoch_advance e ?new"
      using relet_facts(2) epoch_advance_trans [OF relet_facts(2) bump_epoch_facts(2)] by auto
    have sub: "routableProviderCount e now = 0 \<Longrightarrow> routableProviderCount ?e2 now = 0"
      using set_update_subset [of ?k ?l "leases e"]
      by (fastforce simp: routableProviderCount_def filter_empty_conv)
    have "?b \<Longrightarrow> e_epoch e < e_epoch ?new" by (simp add: bump_epoch_def)
    then show "(routableProviderCount e now > 0) \<noteq> (routableProviderCount ?new now > 0) \<longrightarrow> e_epoch e < e_epoch ?new"
      using sub by (cases "routableProviderCount e now = 0") (auto split: if_splits)
  qed
  ultimately show ?thesis using v refines_prune by auto
qed

lemma Register_refines:
  assumes "w \<in> swaps (Register env ts revision p i dur now cur)" "good_env env" "ts_name ts = name"
    and "valid_provider env p i" "0 \<le> now"
  shows "refines env name now w"
proof -
  let ?fp = "toolsetSchemaFingerprint env ts" and ?k = "providerLeaseKey p i"
  let ?lease = "\<lparr>pl_expires = unix_milli (now + dur), pl_draining = False\<rparr>"
  have dur: "dur \<ge> MinProviderLeaseDuration" using assms(1) by (auto simp: Register_def split: if_splits)
  then have "1000000 \<le> dur" by (simp add: MinProviderLeaseDuration_def)
  then have live: "unix_milli now < pl_expires ?lease" using unix_milli_add(2) [of dur now] by simp
  moreover have "0 \<le> unix_milli now" using assms(5) by (simp add: unix_milli_def)
  ultimately have pos: "pl_expires ?lease > 0" by simp
  obtain token where t: "admissionRegistrationToken env ?fp revision WireProtocolVersion = Inr token"
    using assms(1) by (auto simp: Register_def Let_def split: if_splits sum.splits)
  note fresh = newCatalogEntry_valid [OF assms(2,3,4) pos t]
  show ?thesis
  proof (cases cur)
    case None
    then have "w = (None, Json (newCatalogEntry env ts ?fp revision token ?k ?lease now {}))"
      using assms(1) t by (auto simp: Register_def Let_def split: if_splits)
    moreover have "admission_step now None (newCatalogEntry env ts ?fp revision token ?k ?lease now {})"
      by (rule admission_step.admit) (simp_all add: newCatalogEntry_def retired_tokens_def)
    ultimately show ?thesis using fresh [of "{}"] by (simp add: refines_def)
  next
    case (Some raw)
    obtain e where e: "parseCatalogEntry env name raw = Inr e"
      using assms(1,3) t Some by (auto simp: Register_def Let_def split: if_splits sum.splits)
    from parse_Json [OF e] have v: "raw = Json e" "valid_entry env name e" by simp_all
    let ?e = "fst (pruneExpiredProviderLeases e now)"
    let ?e2 = "?e\<lparr>e_leases := Some (AList.update ?k ?lease (leases ?e))\<rparr>"
    let ?renewed = "if \<not> routableProviderCount ?e now > 0 then bump_epoch ?e2 else ?e2"
    let ?new = "newCatalogEntry env ts ?fp revision token ?k ?lease now (insert (e_token ?e) (retired_tokens ?e))"
    have id: "e_token ?e = e_token e" "retired_tokens ?e = retired_tokens e"
      using prune_facts(1) [of e now] by (simp_all add: same_identity_def retired_tokens_def)
    have "w = (Some raw, Json ?renewed) \<or> w = (Some raw, Json ?e) \<or>
        w = (Some raw, Json ?new) \<and> token \<notin> retired_tokens ?e \<and> e_token ?e \<noteq> token \<and> leases ?e = []"
      using assms(1,3) t Some e
      by (auto simp: Register_def Let_def case_prod_unfold split: if_splits)
    then consider "w = (Some raw, Json ?renewed)" | "w = (Some raw, Json ?e)"
      | "w = (Some raw, Json ?new)" "token \<notin> retired_tokens e" "e_token e \<noteq> token" "leases ?e = []"
      unfolding id by blast
    then show ?thesis
    proof cases
      case 1
      have "refines env name now (Some (Json e), Json ?renewed)"
      proof (rule refines_relet [OF v(2) refl refl _ refl])
        show "leases_ok env ?e2"
          using v(2) pos lease_key_parses [OF assms(4)]
          by (intro leases_ok_update prune_leases_ok) (simp_all add: valid_entry_iff)
        show "(routableProviderCount ?e now > 0) \<noteq> (routableProviderCount ?e2 now > 0) \<longrightarrow> \<not> routableProviderCount ?e now > 0"
          using routable_after_update [of ?lease now ?k ?e] live by simp
      qed
      with 1 v show ?thesis by simp
    next
      case 2
      then show ?thesis using v refines_prune by simp
    next
      case 3
      have tombs: "\<forall>t \<in> insert (e_token e) (retired_tokens e). ValidateRegistrationToken t"
        using v(2) token_valid [OF assms(2)] by (auto simp: valid_entry_iff tombs_ok_def identity_ok_def)
      have "valid_entry env name ?new" using fresh [OF tombs] 3(2,3) unfolding id by simp
      moreover have "admission_step now (Some e) ?new"
      proof (rule admission_step.replace)
        show "\<forall>(k, l) \<in> set (leases e). pl_expires l \<le> unix_milli now"
          using 3(4) by (auto simp: leases_prune filter_empty_conv)
      qed (use 3(2,3) id in \<open>simp_all add: newCatalogEntry_def retired_tokens_def\<close>)
      ultimately show ?thesis using 3(1) v by (simp add: refines_def)
    qed
  qed
qed

lemma catalog_step_refines:
  assumes "catalog_step env name now old new" "good_env env" "0 \<le> now"
  shows "refines env name now (old, new)"
  using assms(1)
proof cases
  case (register ts p i revision dur cur)
  then show ?thesis using assms(2,3) by (intro Register_refines) auto
qed (use assms in \<open>blast intro: DrainProvider_refines ReleaseProvider_refines Retire_refines RecordPong_refines
      healthEntry_refines\<close>)+


subsection \<open>What the protocol guarantees\<close>

text \<open>
  Property C12. Whatever the registry replicas do concurrently, every value they store for a toolset
  passes the strict parser they all apply on reading: the catalog never wedges itself.
\<close>

theorem catalog_stays_parseable:
  assumes "good_env env" "catalog_reach env name None (Some raw)"
  shows "\<exists>e. raw = Json e \<and> parseCatalogEntry env name raw = Inr e"
proof -
  have "\<exists>e. v = Json e \<and> valid_entry env name e" if "catalog_reach env name None s" "s = Some v" for s v
    using that
  proof (induction arbitrary: v rule: catalog_reach.induct)
    case (more old now new)
    then show ?case using catalog_step_refines [OF more(3) assms(1) more(2)] by (auto simp: refines_def)
  qed simp
  then show ?thesis using assms(2) by (auto simp: valid_entry_def)
qed

definition example_catalog_env :: catalog_env where
  "example_catalog_env =
     \<lparr>ce_sha256 = (\<lambda>x. replicate 31 CHR ''a'' @ [last (CHR ''a'' # x)]), ce_json = (\<lambda>d. fd_name d),
      ce_uuid = (\<lambda>u. u \<noteq> []), ce_format_time = (\<lambda>t. ''t''), ce_time_ok = (\<lambda>t. True)\<rparr>"

definition example_toolset :: "string \<Rightarrow> toolset" where
  "example_toolset v = \<lparr>ts_name = ''data'', ts_description = None, ts_version = Some v, ts_tags = [], ts_tools = [],
     ts_registered_at = []\<rparr>"

lemma example_good_env: "good_env example_catalog_env"
  by (simp add: good_env_def example_catalog_env_def)


definition example_token :: "string \<Rightarrow> string" where
  "example_token revision = hex_encode (replicate 31 CHR ''a'' @ [last (CHR ''a'' # revision)])"

lemma hex_example [simp]: "hex_decode (hex_encode (replicate 31 CHR ''a'' @ [CHR ''a''])) = Some (replicate 32 CHR ''a'')"
  by code_simp

lemma example_identity:
  "toolsetSchemaFingerprint example_catalog_env (example_toolset v) = hex_encode (replicate 31 CHR ''a'' @ [CHR ''a''])"
  "ValidateAdmissionRevision revision \<Longrightarrow>
   admissionRegistrationToken example_catalog_env (hex_encode (replicate 31 CHR ''a'' @ [CHR ''a''])) revision WireProtocolVersion =
     Inr (example_token revision)"
  by (simp_all add: toolsetSchemaFingerprint_def example_catalog_env_def example_toolset_def
      admissionRegistrationToken_def WireProtocolVersion_def example_token_def token_body_def ValidateAdmissionRevision_def
      split: list.splits)

definition example_entry :: "int \<Rightarrow> catalog_entry" where
  "example_entry now =
     newCatalogEntry example_catalog_env (example_toolset ''1'')
       (hex_encode (replicate 31 CHR ''a'' @ [CHR ''a''])) ''r1'' (example_token ''r1'')
       (providerLeaseKey ''p'' ''u'') \<lparr>pl_expires = unix_milli (now + 60 * 10 ^ 9), pl_draining = False\<rparr> now {}"

lemma example_register:
  assumes "0 \<le> now" "now < 10 ^ 18"
  shows "Register example_catalog_env (example_toolset ''1'') ''r1'' ''p'' ''u'' (60 * 10 ^ 9) now None =
    Swap None (Json (example_entry now)) (Return (Inr (example_entry now)))"
proof -
  have "ValidateAdmissionRevision ''r1''" by code_simp
  moreover have "\<not> lease_deadline_overflows now (60 * 10 ^ 9)"
  proof -
    have "now div 1000000 \<le> 10 ^ 18 div 1000000" using assms(2) by (intro zdiv_mono1) simp_all
    then show ?thesis by (simp add: lease_deadline_overflows_def unix_milli_def)
  qed
  ultimately show ?thesis
    by (simp add: Register_def example_identity example_entry_def MinProviderLeaseDuration_def
        MaxProviderLeaseDuration_def Let_def)
qed

lemma example_step:
  assumes "0 \<le> now" "now < 10 ^ 18"
  shows "catalog_step example_catalog_env ''data'' now None (Json (example_entry now))"
proof (rule catalog_step.register)
  show "(None, Json (example_entry now)) \<in>
      swaps (Register example_catalog_env (example_toolset ''1'') ''r1'' ''p'' ''u'' (60 * 10 ^ 9) now None)"
    unfolding example_register [OF assms] by simp
qed (simp_all add: example_toolset_def valid_provider_def example_catalog_env_def char_of_def)

lemma example_reach:
  "0 \<le> now \<Longrightarrow> now < 10 ^ 18 \<Longrightarrow>
   catalog_reach example_catalog_env ''data'' None (Some (Json (example_entry now)))"
  by (rule catalog_reach.more [OF catalog_reach.here _ example_step])

theorem catalog_stays_parseable_witness:
  "\<exists>e. Json (example_entry 5) = Json e \<and>
     parseCatalogEntry example_catalog_env ''data'' (Json (example_entry 5)) = Inr e"
  by (rule catalog_stays_parseable [OF example_good_env]) (rule example_reach; simp)

lemma example_valid: "valid_entry example_catalog_env ''data'' (example_entry 5)"
  using example_step [of 5] catalog_step_refines [OF _ example_good_env] by (fastforce simp: refines_def)


lemma admission_step_tombs: "admission_step now (Some e) new \<Longrightarrow> retired_tokens e \<subseteq> retired_tokens new"
  by (erule admission_stepE) (auto simp: same_identity_def retired_tokens_def)

lemma tombs_along:
  assumes "good_env env" "catalog_reach env name (Some (Json e)) s" "valid_entry env name e"
  shows "\<exists>e'. s = Some (Json e') \<and> valid_entry env name e' \<and> retired_tokens e \<subseteq> retired_tokens e'"
  using assms(2)
proof induction
  case here
  then show ?case using assms(3) by simp
next
  case (more old now new)
  then obtain e' where e': "old = Some (Json e')" "retired_tokens e \<subseteq> retired_tokens e'" by blast
  from catalog_step_refines [OF more(3) assms(1) more(2)] e'(1)
  obtain e2 where "new = Json e2" "valid_entry env name e2" "admission_step now (Some e') e2"
    by (auto simp: refines_def)
  with e'(2) admission_step_tombs [of now e' e2] show ?case by auto
qed

text \<open>
  Property C13. Retirement is permanent: a token that once stands among the tombstones stays there
  through every later change, is never the token of an active admission again, and registering the
  admission it names is refused.
\<close>

theorem retired_tokens_are_permanent:
  assumes "good_env env" "valid_entry env name e" "t \<in> retired_tokens e"
    and "catalog_reach env name (Some (Json e)) (Some (Json e'))"
  shows "t \<in> retired_tokens e' \<and> \<not> (e_state e' = EntryActive \<and> e_token e' = t) \<and>
    (\<forall>ts revision p i dur now. ts_name ts = name \<and>
       admissionRegistrationToken env (toolsetSchemaFingerprint env ts) revision WireProtocolVersion = Inr t \<and>
       MinProviderLeaseDuration \<le> dur \<and> dur \<le> MaxProviderLeaseDuration \<and> \<not> lease_deadline_overflows now dur \<longrightarrow>
       Register env ts revision p i dur now (Some (Json e')) = Return (Inl ErrAdmissionRetired))"
proof -
  from tombs_along [OF assms(1,4,2)] have v: "valid_entry env name e'" "t \<in> retired_tokens e'"
    using assms(3) by auto
  then have p: "parseCatalogEntry env name (Json e') = Inr e'" by (simp add: valid_entry_def)
  have "retired_tokens (fst (pruneExpiredProviderLeases e' now)) = retired_tokens e'" for now
    using prune_facts(1) [of e' now] by (simp add: same_identity_def retired_tokens_def)
  with v p show ?thesis
    by (auto simp: Register_def Let_def case_prod_unfold valid_entry_iff tombs_ok_def)
qed

definition example_retired :: catalog_entry where
  "example_retired = (example_entry 5)\<lparr>e_state := EntryRetired, e_retired := Some {example_token ''r1''}\<rparr>"

lemma example_retire:
  "catalog_step example_catalog_env ''data'' 6 (Some (Json (example_entry 5))) (Json example_retired)"
proof (rule catalog_step.retire)
  show "(Some (Json (example_entry 5)), Json example_retired) \<in>
      swaps (Retire example_catalog_env ''data'' (example_token ''r1'') (Some (Json (example_entry 5))))"
    using example_valid
    by (simp add: Retire_def valid_entry_def example_retired_def)
      (simp add: example_entry_def newCatalogEntry_def retired_tokens_def)
qed

lemma example_retired_valid: "valid_entry example_catalog_env ''data'' example_retired"
  using catalog_step_refines [OF example_retire example_good_env] by (auto simp: refines_def)

theorem retired_tokens_are_permanent_witness:
  "Register example_catalog_env (example_toolset ''1'') ''r1'' ''q'' ''v'' (60 * 10 ^ 9) 7 (Some (Json example_retired)) =
     Return (Inl ErrAdmissionRetired)"
proof -
  have t: "example_token ''r1'' \<in> retired_tokens example_retired"
    by (simp add: example_retired_def retired_tokens_def)
  have r: "ValidateAdmissionRevision ''r1''" by code_simp
  have "ts_name (example_toolset ''1'') = ''data'' \<and>
      admissionRegistrationToken example_catalog_env (toolsetSchemaFingerprint example_catalog_env (example_toolset ''1''))
        ''r1'' WireProtocolVersion = Inr (example_token ''r1'') \<and>
      MinProviderLeaseDuration \<le> 60 * 10 ^ 9 \<and> 60 * 10 ^ 9 \<le> MaxProviderLeaseDuration \<and>
      \<not> lease_deadline_overflows 7 (60 * 10 ^ 9)"
    unfolding example_identity(1) example_identity(2) [OF r]
    by (simp add: example_toolset_def MinProviderLeaseDuration_def MaxProviderLeaseDuration_def
        lease_deadline_overflows_def unix_milli_def)
  then show ?thesis
    using retired_tokens_are_permanent [OF example_good_env example_retired_valid t catalog_reach.here] by blast
qed

text \<open>
  Property C14. A different admission takes over a toolset only after every provider lease of the
  current one has expired by Redis time; the old token becomes a tombstone in the same swap and the
  new token was never retired.
\<close>

theorem replacement_waits_for_leases:
  assumes "good_env env" "0 \<le> now" "catalog_step env name now (Some (Json e)) (Json e')"
    and "e_token e' \<noteq> e_token e"
  shows "(\<forall>(k, l) \<in> set (leases e). pl_expires l \<le> unix_milli now) \<and>
    retired_tokens e' = insert (e_token e) (retired_tokens e) \<and> e_token e' \<notin> retired_tokens e \<and>
    e_state e' = EntryActive"
proof -
  have "admission_step now (Some e) e'"
    using catalog_step_refines [OF assms(3,1,2)] by (auto simp: refines_def)
  then show ?thesis using assms(4) by cases (simp_all add: same_identity_def)
qed

theorem replacement_waits_for_leases_witness:
  "\<exists>e'. catalog_step example_catalog_env ''data'' 1000000000000000 (Some (Json (example_entry 5))) (Json e') \<and>
     (\<forall>(k, l) \<in> set (leases (example_entry 5)). pl_expires l \<le> unix_milli 1000000000000000) \<and>
     retired_tokens e' = {example_token ''r1''}"
proof -
  let ?ts = "example_toolset ''2''" and ?e = "example_entry 5"
  let ?new = "newCatalogEntry example_catalog_env ?ts (hex_encode (replicate 31 CHR ''a'' @ [CHR ''a''])) ''r2''
    (example_token ''r2'') (providerLeaseKey ''p'' ''u'')
    \<lparr>pl_expires = unix_milli (1000000000000000 + 60000000000), pl_draining = False\<rparr> 1000000000000000 {example_token ''r1''}"
  have tok: "example_token ''r2'' \<noteq> example_token ''r1''" by code_simp
  have r: "ValidateAdmissionRevision ''r2''" by code_simp
  have pr: "leases (fst (pruneExpiredProviderLeases ?e 1000000000000000)) = []"
    by (simp add: leases_prune) (simp add: example_entry_def newCatalogEntry_def leases_def unix_milli_def)
  have id: "e_token (fst (pruneExpiredProviderLeases ?e 1000000000000000)) = example_token ''r1''"
    "retired_tokens (fst (pruneExpiredProviderLeases ?e 1000000000000000)) = {}"
    using prune_facts(1) [of ?e 1000000000000000]
    by (simp_all add: same_identity_def retired_tokens_def example_entry_def newCatalogEntry_def)
  have nm [simp]: "ts_name ?ts = ''data''" by (simp add: example_toolset_def)
  have ov: "\<not> lease_deadline_overflows 1000000000000000 60000000000"
    by (simp add: lease_deadline_overflows_def unix_milli_def)
  have "(Some (Json ?e), Json ?new) \<in>
      swaps (Register example_catalog_env ?ts ''r2'' ''p'' ''u'' 60000000000 1000000000000000 (Some (Json ?e)))"
    using example_valid tok ov
    by (simp add: Register_def example_identity(1) example_identity(2) [OF r] Let_def case_prod_unfold pr id
        valid_entry_def MinProviderLeaseDuration_def MaxProviderLeaseDuration_def)
  then have st: "catalog_step example_catalog_env ''data'' 1000000000000000 (Some (Json ?e)) (Json ?new)"
    by (intro catalog_step.register [of ?ts _ _ "''p''" "''u''"])
      (simp_all add: example_toolset_def valid_provider_def example_catalog_env_def char_of_def)
  have "e_token ?new \<noteq> e_token ?e"
    using tok by (simp add: newCatalogEntry_def example_entry_def)
  from replacement_waits_for_leases [OF example_good_env _ st this] st show ?thesis
    by (auto simp: example_entry_def newCatalogEntry_def retired_tokens_def)
qed


text \<open>
  Property C15. Pongs are fenced: the recorded pong advances only by a \<open>RecordPong\<close> that carries the
  exact token and health epoch of the stored active admission, from an incarnation whose own lease is
  live and not draining, and then to the current Redis time; any other swap of \<open>RecordPong\<close> keeps the
  recorded pong or resets it to zero.
\<close>

theorem pong_is_fenced:
  assumes "(Some (Json e), Json e') \<in> swaps (RecordPong env name p i token epoch now cur)"
    and "e_last_pong e' \<notin> {0, e_last_pong e}"
  shows "e_state e = EntryActive \<and> e_token e = token \<and> e_epoch e = epoch \<and>
    (\<exists>l. map_of (leases e) (providerLeaseKey p i) = Some l \<and> \<not> pl_draining l \<and> pl_expires l > unix_milli now) \<and>
    e' = e\<lparr>e_last_pong := now\<rparr> \<and> e_last_pong e < now"
proof -
  from assms(1) obtain raw x where x: "cur = Some raw" "parseCatalogEntry env name raw = Inr x"
    by (auto simp: RecordPong_def split: option.splits sum.splits)
  from parse_Json [OF x(2)] have raw: "raw = Json x" by simp
  let ?x = "fst (pruneExpiredProviderLeases x now)"
  have "e = x \<and> e' = ?x \<or>
      e = ?x \<and> e' = ?x\<lparr>e_last_pong := max (e_last_pong ?x) now\<rparr> \<and> e_state ?x = EntryActive \<and>
      e_token ?x = token \<and> e_epoch ?x = epoch \<and>
      (\<exists>l. map_of (leases ?x) (providerLeaseKey p i) = Some l \<and> \<not> pl_draining l \<and> pl_expires l > unix_milli now)"
    using assms(1) x raw prune_unchanged [of x now]
    by (auto simp: RecordPong_def Let_def case_prod_unfold split: if_splits option.splits)
  moreover have "e_last_pong ?x \<in> {0, e_last_pong x}"
    using prune_facts(2) [of x now] by (auto simp: epoch_advance_def)
  ultimately show ?thesis using assms(2) by (auto simp: max_def split: if_splits)
qed

theorem pong_is_fenced_witness:
  "(Some (Json (example_entry 5)), Json ((example_entry 5)\<lparr>e_last_pong := 9\<rparr>)) \<in>
     swaps (RecordPong example_catalog_env ''data'' ''p'' ''u'' (example_token ''r1'') 1 9 (Some (Json (example_entry 5)))) \<and>
   e_epoch (example_entry 5) = 1"
proof -
  let ?e = "example_entry 5"
  have l: "leases ?e = [(providerLeaseKey ''p'' ''u'', \<lparr>pl_expires = unix_milli (5 + 60 * 10 ^ 9), pl_draining = False\<rparr>)]"
    and i: "e_state ?e = EntryActive" "e_token ?e = example_token ''r1''" "e_epoch ?e = 1" "e_last_pong ?e = 0"
    by (simp_all add: example_entry_def newCatalogEntry_def leases_def)
  have "\<not> snd (pruneExpiredProviderLeases ?e 9)"
    by (simp add: pruneExpiredProviderLeases_def Let_def l unix_milli_def)
  then have p: "pruneExpiredProviderLeases ?e 9 = (?e, False)"
    using prune_unchanged [of ?e 9] by (metis prod.collapse)
  have s: "(Some (Json ?e), Json (?e\<lparr>e_last_pong := 9\<rparr>)) \<in>
     swaps (RecordPong example_catalog_env ''data'' ''p'' ''u'' (example_token ''r1'') 1 9 (Some (Json ?e)))"
    using example_valid by (simp add: RecordPong_def valid_entry_def p i l unix_milli_def)
  have "e_last_pong (?e\<lparr>e_last_pong := 9\<rparr>) \<notin> {0, e_last_pong ?e}" using i(4) by simp
  from pong_is_fenced [OF s this] s show ?thesis by simp
qed

subsection \<open>Pings\<close>

lemma is_digit_not_slash: "is_digit c \<Longrightarrow> c \<noteq> CHR ''/''"
  by (auto simp: is_digit_def)

lemma lower_hex_not_slash: "is_lower_hex c \<Longrightarrow> c \<noteq> CHR ''/''"
  by (auto simp: is_lower_hex_def is_digit_def)

lemma cut_slash_append:
  assumes "CHR ''/'' \<notin> set a" shows "cut_slash (a @ CHR ''/'' # b) = Some (a, b)"
proof -
  have "takeWhile (\<lambda>c. c \<noteq> CHR ''/'') (a @ CHR ''/'' # b) = a \<and>
      dropWhile (\<lambda>c. c \<noteq> CHR ''/'') (a @ CHR ''/'' # b) = CHR ''/'' # b"
    using assms by (intro takeWhile_group) auto
  then show ?thesis by (simp add: cut_slash_def Let_def)
qed

lemma parse_new_ping:
  assumes "ValidateRegistrationToken token" "0 < epoch" "epoch < 2 ^ 64" "ce_uuid env u"
  shows "parsePingID env (newPingID token epoch u) = Some (token, epoch)"
proof -
  have "CHR ''/'' \<notin> set token"
    using assms(1) lower_hex_not_slash by (auto simp: ValidateRegistrationToken_def list_all_iff)
  moreover have "CHR ''/'' \<notin> set (dec epoch)" using dec_all_digits [of epoch] is_digit_not_slash by blast
  ultimately show ?thesis
    using assms by (simp add: parsePingID_def newPingID_def pingIdentity_def cut_slash_append)
qed

lemma prune_keeps_epoch:
  assumes "routableProviderCount e now > 0"
  shows "e_epoch (fst (pruneExpiredProviderLeases e now)) = e_epoch e"
    "e_last_pong (fst (pruneExpiredProviderLeases e now)) = e_last_pong e"
  using assms routable_prune [of e now]
  unfolding pruneExpiredProviderLeases_def Let_def by (auto split: if_splits)

lemma uncontended_healthEntry:
  assumes "valid_entry env name e" "e_state e = EntryActive"
  shows "uncontended (healthEntry env name now (Some (Json e))) (Some (Json e)) =
    (Some (Json (fst (pruneExpiredProviderLeases e now))), Inr (fst (pruneExpiredProviderLeases e now)))"
  using assms prune_unchanged [of e now]
  by (auto simp: healthEntry_def valid_entry_def Let_def case_prod_unfold)

lemma uncontended_map_cas: "uncontended (map_cas f p) s = map_prod id f (uncontended p s)"
  by (induction p arbitrary: s) simp_all


definition has_live_lease :: "catalog_entry \<Rightarrow> string \<Rightarrow> string \<Rightarrow> int \<Rightarrow> bool" where
  "has_live_lease e p i now \<longleftrightarrow>
     (\<exists>l. map_of (leases e) (providerLeaseKey p i) = Some l \<and> \<not> pl_draining l \<and> pl_expires l > unix_milli now)"

lemma live_lease_routable: "has_live_lease e p i now \<Longrightarrow> routableProviderCount e now > 0"
  by (auto simp: has_live_lease_def routableProviderCount_def filter_empty_conv dest!: map_of_SomeD)

lemma live_lease_prune:
  assumes "distinct (map fst (leases e))" "has_live_lease e p i now" "unix_milli t \<le> unix_milli now"
  shows "has_live_lease (fst (pruneExpiredProviderLeases e t)) p i now"
  using assms by (auto simp: has_live_lease_def leases_prune map_of_filter_values)

lemma uncontended_RecordPong:
  assumes "valid_entry env name e" "e_state e = EntryActive" "distinct (map fst (leases e))"
    and "has_live_lease e p i now"
  defines "e' \<equiv> fst (pruneExpiredProviderLeases e now)"
  shows "uncontended (RecordPong env name p i (e_token e) (e_epoch e) now (Some (Json e))) (Some (Json e)) =
    (Some (Json (e'\<lparr>e_last_pong := max (e_last_pong e) now\<rparr>)), Inr ())"
proof -
  have r: "routableProviderCount e now > 0" using assms(4) by (rule live_lease_routable)
  note keep = prune_keeps_epoch [OF r]
  have "e_state e' = EntryActive" "e_token e' = e_token e"
    using prune_facts(1) [of e now] assms(2) by (simp_all add: same_identity_def e'_def)
  moreover obtain l where "map_of (leases e') (providerLeaseKey p i) = Some l" "\<not> pl_draining l"
      "pl_expires l > unix_milli now"
    using live_lease_prune [OF assms(3,4), of now] by (auto simp: has_live_lease_def e'_def)
  moreover from this(1) have "leases e' \<noteq> []" by auto
  ultimately show ?thesis
    using assms(1) keep
    by (simp add: RecordPong_def valid_entry_def Let_def case_prod_unfold e'_def [symmetric])
qed

text \<open>
  One ping answered by one live provider makes a toolset healthy: with the token and
  epoch that \<open>HealthIdentity\<close> put into a ping, the answer of a provider with a live lease is accepted,
  and \<open>Health\<close> reports healthy for as long as that lease lives and the pong is no older than the
  staleness threshold.
\<close>

theorem answered_ping_makes_healthy:
  assumes env: "good_env env" "ce_uuid env u"
    and e: "valid_entry env name e" "e_state e = EntryActive" "distinct (map fst (leases e))" "e_epoch e < 2 ^ 64"
    and live: "has_live_lease e p i t2"
    and times: "0 < t1" "t1 \<le> t2" "t2 - t1 \<le> threshold"
  shows "\<exists>token epoch s.
    snd (uncontended (HealthIdentity env name t1 (Some (Json e))) (Some (Json e))) = Inr (token, epoch) \<and>
    parsePingID env (newPingID token epoch u) = Some (token, epoch) \<and>
    uncontended (RecordPong env name p i token epoch t1 (Some (Json e))) (Some (Json e)) = (s, Inr ()) \<and>
    (\<exists>h. snd (uncontended (Health env threshold name token t2 s) s) = Inr h \<and> th_healthy h)"
proof -
  have mono: "unix_milli t1 \<le> unix_milli t2" using times by (simp add: unix_milli_def zdiv_mono1)
  have live1: "has_live_lease e p i t1" using live mono by (fastforce simp: has_live_lease_def)
  let ?e1 = "fst (pruneExpiredProviderLeases e t1)"
  let ?e2 = "?e1\<lparr>e_last_pong := max (e_last_pong e) t1\<rparr>"
  have r1: "routableProviderCount e t1 > 0" using live1 by (rule live_lease_routable)
  have tok: "e_token ?e1 = e_token e" "e_state ?e1 = EntryActive"
    using prune_facts(1) [of e t1] e(2) by (simp_all add: same_identity_def)
  have "snd (uncontended (HealthIdentity env name t1 (Some (Json e))) (Some (Json e))) = Inr (e_token e, e_epoch e)"
    using r1 tok prune_keeps_epoch [OF r1]
    by (simp add: HealthIdentity_def uncontended_map_cas uncontended_healthEntry [OF e(1,2)] routable_prune)
  moreover have "parsePingID env (newPingID (e_token e) (e_epoch e) u) = Some (e_token e, e_epoch e)"
    using e(1,4) token_valid [OF env(1)] env(2) by (intro parse_new_ping) (auto simp: valid_entry_iff identity_ok_def)
  moreover have "uncontended (RecordPong env name p i (e_token e) (e_epoch e) t1 (Some (Json e))) (Some (Json e)) =
      (Some (Json ?e2), Inr ())"
    by (rule uncontended_RecordPong [OF e(1,2,3) live1])
  moreover have "\<exists>h. snd (uncontended (Health env threshold name (e_token e) t2 (Some (Json ?e2))) (Some (Json ?e2))) =
      Inr h \<and> th_healthy h"
  proof -
    have lt: "leases ?e2 = leases ?e1" by (simp add: leases_def)
    have live2: "has_live_lease ?e2 p i t2"
      using live_lease_prune [OF e(3) live mono] by (simp add: has_live_lease_def lt)
    have r2: "routableProviderCount ?e2 t2 > 0" using live2 by (rule live_lease_routable)
    have v2: "valid_entry env name ?e2" "e_state ?e2 = EntryActive"
      using valid_prune [OF e(1), of t1] times(1) tok(2)
      by (simp_all add: valid_entry_iff identity_ok_def leases_ok_def lt tombs_ok_def retired_tokens_def)
    have "e_token (fst (pruneExpiredProviderLeases ?e2 t2)) = e_token e"
      using prune_facts(1) [of ?e2 t2] tok(1) by (simp add: same_identity_def)
    moreover have "e_last_pong (fst (pruneExpiredProviderLeases ?e2 t2)) = max (e_last_pong e) t1"
      using prune_keeps_epoch(2) [OF r2] by simp
    moreover have "max (e_last_pong e) t1 \<noteq> 0" "t2 - max (e_last_pong e) t1 \<le> threshold"
      using times by (auto simp: max_def)
    ultimately show ?thesis
      using r2
      by (simp add: Health_def uncontended_map_cas uncontended_healthEntry [OF v2] routable_prune Let_def)
  qed
  ultimately show ?thesis by blast
qed

theorem answered_ping_makes_healthy_witness:
  "\<exists>token epoch s.
    snd (uncontended (HealthIdentity example_catalog_env ''data'' 7 (Some (Json (example_entry 5)))) (Some (Json (example_entry 5)))) = Inr (token, epoch) \<and>
    parsePingID example_catalog_env (newPingID token epoch ''u'') = Some (token, epoch) \<and>
    uncontended (RecordPong example_catalog_env ''data'' ''p'' ''u'' token epoch 7 (Some (Json (example_entry 5)))) (Some (Json (example_entry 5))) = (s, Inr ()) \<and>
    (\<exists>h. snd (uncontended (Health example_catalog_env 40 ''data'' token 9 s) s) = Inr h \<and> th_healthy h)"
proof (rule answered_ping_makes_healthy [OF example_good_env _ example_valid])
  show "has_live_lease (example_entry 5) ''p'' ''u'' 9"
    by (simp add: has_live_lease_def example_entry_def newCatalogEntry_def leases_def unix_milli_def)
qed (simp_all add: example_catalog_env_def example_entry_def newCatalogEntry_def leases_def)

text \<open>
  A provider that stops answering is never reported: \<open>noteHealth\<close> warns only when the
  recorded pong differs from the one of the previous observation, but a toolset that goes stale is
  observed with the same pong, so its healthy-to-unhealthy transition logs nothing.
\<close>

theorem noteHealth_silent_on_staleness:
  "let (notes1, w1) = noteHealth ts \<lparr>th_healthy = True, th_last_pong = Some p, th_age = a,
           th_provider_count = c, th_staleness_threshold = a\<rparr> notes;
       (notes2, w2) = noteHealth ts \<lparr>th_healthy = False, th_last_pong = Some p, th_age = a + d,
           th_provider_count = c, th_staleness_threshold = a\<rparr> notes1
   in \<not> w1 \<and> \<not> w2 \<and> lastObservedHealthy notes1 ts = Some True \<and> lastObservedHealthy notes2 ts = Some False"
  by (simp add: noteHealth_def Let_def)

text \<open>
  Revision repair: a pass never lowers the remembered floor when it starts from a
  non-negative one, and when Redis lost the map (the counter is below the floor, or there is no floor
  yet) the counter ends strictly above the old floor and at or above the wall clock, so no replica's
  local revision outranks it.
\<close>

theorem ensureMapRevision_repairs:
  assumes "0 \<le> revFloor" "ensureMapRevision nowMilli revFloor seen counter = (counter', floor', warned)"
  shows "revFloor \<le> floor' \<and>
    (seen < revFloor \<or> revFloor = 0 \<longrightarrow>
       floor' = counter' \<and> revFloor < counter' \<and> nowMilli \<le> counter' \<and> counter \<le> counter') \<and>
    (warned \<longrightarrow> 0 < revFloor \<and> seen < revFloor \<and> counter < counter')"
  using assms
  by (auto simp: ensureMapRevision_def revisionPinScript_def revFloorSlack_def Let_def split: if_splits)

theorem ensureMapRevision_repairs_witness:
  "ensureMapRevision 1000 2000 0 3 = (1050576, 1050576, True) \<and> 2000 < (1050576 :: int)"
proof -
  have e: "ensureMapRevision 1000 2000 0 3 = (1050576, 1050576, True)"
    by (simp add: ensureMapRevision_def revisionPinScript_def revFloorSlack_def)
  from ensureMapRevision_repairs [OF _ e] e show ?thesis by simp
qed

lemma be32_value:
  assumes "(n :: nat) < 2 ^ 32"
  shows "n = n div 2 ^ 24 mod 256 * 2 ^ 24 + n div 2 ^ 16 mod 256 * 2 ^ 16 + n div 2 ^ 8 mod 256 * 2 ^ 8 + n mod 256"
proof -
  have a: "n = n div 256 * 256 + n mod 256" by simp
  have b: "n div 256 = n div 65536 * 256 + n div 256 mod 256"
    using div_mult_mod_eq [of "n div 256" 256] by (simp add: div_mult2_eq [symmetric])
  have c: "n div 65536 = n div 16777216 * 256 + n div 65536 mod 256"
    using div_mult_mod_eq [of "n div 65536" 256] by (simp add: div_mult2_eq [symmetric])
  have d: "n div 16777216 mod 256 = n div 16777216"
    using assms by (intro mod_less) (simp add: div_less_iff_less_mult)
  have "n = ((n div 16777216 * 256 + n div 65536 mod 256) * 256 + n div 256 mod 256) * 256 + n mod 256"
    unfolding c [symmetric] b [symmetric] by (rule a)
  then show ?thesis using d by (simp add: algebra_simps)
qed

lemma be32_inject: "m < 2 ^ 32 \<Longrightarrow> n < 2 ^ 32 \<Longrightarrow> be32 m = be32 n \<Longrightarrow> m = n"
proof -
  assume m: "m < 2 ^ 32" and n: "n < 2 ^ 32" and "be32 m = be32 n"
  then have "m div 2 ^ 24 mod 256 = n div 2 ^ 24 mod 256" "m div 2 ^ 16 mod 256 = n div 2 ^ 16 mod 256"
    "m div 2 ^ 8 mod 256 = n div 2 ^ 8 mod 256" "m mod 256 = n mod 256"
    by (simp_all add: be32_def)
  then show "m = n" using be32_value [OF m] be32_value [OF n] by metis
qed

text \<open>
  The admission token is derived from an unambiguous text: two admissions hash the same
  bytes only if schema digest, deployment revision and wire version all agree.
\<close>

theorem token_body_inject:
  assumes "token_body d r v = token_body d' r' v'" "length d = length d'"
    and "length r < 2 ^ 32" "length r' < 2 ^ 32" "0 \<le> v" "v < 2 ^ 32" "0 \<le> v'" "v' < 2 ^ 32"
  shows "d = d' \<and> r = r' \<and> v = v'"
proof -
  have "be32 (nat v) = be32 (nat v')" "d = d'" "be32 (length r) = be32 (length r')" "r = r'"
    using assms(1,2) by (auto simp: token_body_def be32_def)
  moreover have "nat v < 2 ^ 32" "nat v' < 2 ^ 32" using assms(5-8) by (simp_all add: nat_less_iff)
  ultimately show ?thesis using be32_inject [of "nat v" "nat v'"] assms(5,7) by simp
qed

theorem token_body_inject_witness:
  "token_body ''d'' ''r1'' 8 = token_body ''d'' ''r1'' 8 \<and> ''r1'' = ''r1'' \<and> (8 :: int) = 8"
  using token_body_inject [of "''d''" "''r1''" 8 "''d''" "''r1''" 8] by simp

end
