(* ===== verification/Call_Record.thy ===== *)
theory Call_Record
  imports Registry_Catalog
begin

section \<open>Routed tool calls\<close>

text \<open>
  \<open>registry/call_decision.go\<close>, \<open>call_admission.go\<close> and \<open>bounded_publish.go\<close>: one expiring Redis hash
  per tool-use identity decides a routed call, and every change of it is one Lua script, which Redis
  runs atomically. Each script is one definition on \<open>call_state\<close>: the call's hash and expiry, its
  result stream, its entries in the settlement indexes, and the toolset's request stream. A hash is a
  map from \<open>field\<close> to text, with the two families of fields whose names contain an event identifier
  as constructors with an argument; \<open>HGET\<close> of a missing field or key is \<open>None\<close>.

  Redis supplies the time (\<open>now\<close>, milliseconds) and the identifier of an appended event (\<open>eid\<close>);
  they are arguments, as are SHA-1 and SHA-256, which the scripts and their Go callers compute. The
  catalog the scripts consult is the map of \<open>Registry_Catalog\<close>. Numbers the scripts store are decimal
  (Lua prints them exactly below \<open>10^14\<close>, which covers millisecond instants). \<open>XTRIM ... MINID ~\<close> may
  keep more than asked, so trimming is an argument. The result stream's \<open>MAXLEN =\<close> is exact.
\<close>

subsection \<open>Data\<close>

datatype field =
    F_decision | F_digest | F_tool_use_id | F_registration_token | F_execution_deadline
  | F_expires_at | F_published | F_overload | F_terminal | F_terminal_event_id | F_terminal_digest
  | F_terminal_payload | F_terminal_cause | F_outcome_unknown_payload | F_catalog_field
  | F_output_delta_count | F_overload_event_id | F_overload_retry_after_ms
  | F_dispatch_provider_token | F_dispatch_provider_lease | F_dispatch_request_event_id
  | F_dispatch_lease_expires | F_publication_event_id | F_kind | F_message
  | F_claim string | F_overload_request string

type_synonym call_hash = "field \<rightharpoonup> string"
type_synonym stream_ref = "nat \<times> nat"

definition show_ref :: "stream_ref \<Rightarrow> string" where
  "show_ref r = dec (fst r) @ ''-'' @ dec (snd r)"

record consumer_group =
  cg_last_delivered :: stream_ref
  cg_pending :: "stream_ref list"

record request_stream =
  rs_entries :: "(stream_ref \<times> string) list"
  rs_groups :: "consumer_group list"

record call_state =
  cs_hash :: "call_hash option"
  cs_expire :: "nat option"
  cs_results :: "(stream_ref \<times> string) list"
  cs_results_expire :: "nat option"
  cs_settlement :: "nat option"
  cs_lease_index :: "string \<rightharpoonup> nat"
  cs_membership :: "string option"
  cs_requests :: request_stream

type_synonym catalog_map = "string \<Rightarrow> persisted option"

datatype script_error =
    CallAdmissionChanged | ProviderLeaseChanged | CallClaimChanged | DispatchClaimChanged
  | TerminalConflict | OutcomeUnknownPayloadMissing | TerminalPayloadMissing | RoutingUnavailable
  | CallDecisionChanged | CallDecisionInvalid string | MembershipMissing | LuaError

definition ResultStreamMaxLen :: nat where "ResultStreamMaxLen = 512"
definition MaxToolOutputDeltaCount :: nat where "MaxToolOutputDeltaCount = 256"
definition ProviderOverloadRetryAfter :: nat where "ProviderOverloadRetryAfter = 250"
definition MaxProviderOverloadRetryAfter :: nat where "MaxProviderOverloadRetryAfter = 5000"

definition hget :: "call_state \<Rightarrow> field \<Rightarrow> string option" where
  "hget s f = (case cs_hash s of None \<Rightarrow> None | Some h \<Rightarrow> h f)"

definition hnum :: "call_state \<Rightarrow> field \<Rightarrow> nat option" where
  "hnum s f = Option.bind (hget s f) undec"

definition htext :: "call_state \<Rightarrow> field \<Rightarrow> string" where
  "htext s f = (case hget s f of None \<Rightarrow> [] | Some v \<Rightarrow> v)"

definition hset :: "(field \<times> string) list \<Rightarrow> call_state \<Rightarrow> call_state" where
  "hset fvs s = s\<lparr>cs_hash := Some ((case cs_hash s of None \<Rightarrow> Map.empty | Some h \<Rightarrow> h) ++ map_of (rev fvs))\<rparr>"

definition xadd_result :: "stream_ref \<Rightarrow> string \<Rightarrow> nat \<Rightarrow> call_state \<Rightarrow> call_state" where
  "xadd_result eid payload expires s =
     (let r = cs_results s @ [(eid, payload)]
      in s\<lparr>cs_results := drop (length r - ResultStreamMaxLen) r, cs_results_expire := Some expires\<rparr>)"

definition unindex :: "string \<Rightarrow> call_state \<Rightarrow> call_state" where
  "unindex leaseIndex s =
     s\<lparr>cs_settlement := None, cs_lease_index := (cs_lease_index s)(leaseIndex := None), cs_membership := None\<rparr>"

definition commit_terminal ::
  "stream_ref \<Rightarrow> string \<Rightarrow> string \<Rightarrow> string \<Rightarrow> nat \<Rightarrow> call_state \<Rightarrow> call_state" where
  "commit_terminal eid digest payload cause expires s =
     hset [(F_terminal, ''1''), (F_terminal_event_id, show_ref eid), (F_terminal_digest, digest),
           (F_terminal_payload, payload), (F_terminal_cause, cause)]
       (xadd_result eid payload expires s)"

subsection \<open>Validation of a retained record\<close>

definition canonical_uint :: "string option \<Rightarrow> nat option" where
  "canonical_uint raw =
     (case raw of
        None \<Rightarrow> None
      | Some t \<Rightarrow>
          if t = [] \<or> \<not> list_all is_digit t then None
          else if length t > 1 \<and> hd t = CHR ''0'' then None
          else case undec t of
                 None \<Rightarrow> None
               | Some v \<Rightarrow> if v > 9007199254740991 then None else Some v)"

definition canonical_stream_component :: "string \<Rightarrow> bool" where
  "canonical_stream_component t \<longleftrightarrow>
     t \<noteq> [] \<and> list_all is_digit t \<and> \<not> (length t > 1 \<and> hd t = CHR ''0'') \<and>
     \<not> (length t > 20 \<or> length t = 20 \<and> t > ''18446744073709551615'')"

definition split_ref :: "string \<Rightarrow> (string \<times> string) option" where
  "split_ref t =
     (let rest = dropWhile (\<lambda>c. c \<noteq> CHR ''-'') t
      in if rest = [] then None else Some (takeWhile (\<lambda>c. c \<noteq> CHR ''-'') t, tl rest))"

definition stream_id :: "string \<Rightarrow> bool" where
  "stream_id t \<longleftrightarrow>
     (case split_ref t of
        None \<Rightarrow> False
      | Some (ms, sq) \<Rightarrow> canonical_stream_component ms \<and> canonical_stream_component sq \<and>
                         \<not> (ms = ''0'' \<and> sq = ''0''))"

definition decimal_at_or_before :: "string \<Rightarrow> string \<Rightarrow> bool" where
  "decimal_at_or_before l r \<longleftrightarrow> (if length l \<noteq> length r then length l < length r else l \<le> r)"

definition stream_id_at_or_before :: "string \<Rightarrow> string \<Rightarrow> bool" where
  "stream_id_at_or_before l r \<longleftrightarrow>
     (case (split_ref l, split_ref r) of
        (Some (lm, ls), Some (rm, rs)) \<Rightarrow>
          if lm \<noteq> rm then decimal_at_or_before lm rm else decimal_at_or_before ls rs
      | _ \<Rightarrow> False)"

definition required_fields :: "field list" where
  "required_fields =
     [F_tool_use_id, F_registration_token, F_execution_deadline, F_expires_at, F_published, F_overload,
      F_terminal, F_terminal_event_id, F_terminal_digest, F_terminal_payload, F_terminal_cause,
      F_outcome_unknown_payload, F_catalog_field, F_output_delta_count, F_overload_event_id,
      F_overload_retry_after_ms, F_dispatch_provider_token, F_dispatch_provider_lease,
      F_dispatch_request_event_id]"

definition pttl :: "call_state \<Rightarrow> nat \<Rightarrow> int" where
  "pttl s now = (case cs_hash s of None \<Rightarrow> -2
     | Some h \<Rightarrow> (case cs_expire s of None \<Rightarrow> -1 | Some e \<Rightarrow> int e - int now))"

definition terminal_causes :: "string list" where
  "terminal_causes = [''provider'', ''execution_deadline'', ''stale_admission'', ''provider_lease_lost'',
     ''provider_lease_released'']"

definition publication_state_ok :: "call_state \<Rightarrow> bool" where
  "publication_state_ok s \<longleftrightarrow>
     (let pub = htext s F_publication_event_id
      in (htext s F_published = ''0'' \<longrightarrow> pub = []) \<and>
         (htext s F_published = ''1'' \<longrightarrow> pub \<noteq> [] \<and> stream_id pub \<and> hget s (F_claim pub) \<noteq> None))"

definition terminal_state_ok :: "call_state \<Rightarrow> bool" where
  "terminal_state_ok s \<longleftrightarrow>
     (htext s F_terminal = ''0'' \<longrightarrow>
        htext s F_terminal_event_id = [] \<and> htext s F_terminal_digest = [] \<and>
        htext s F_terminal_payload = [] \<and> htext s F_terminal_cause = []) \<and>
     (htext s F_terminal = ''1'' \<longrightarrow>
        htext s F_published = ''1'' \<and> htext s F_terminal_event_id \<noteq> [] \<and>
        stream_id (htext s F_terminal_event_id) \<and> htext s F_terminal_digest \<noteq> [] \<and>
        htext s F_terminal_payload \<noteq> [] \<and> htext s F_terminal_cause \<noteq> [])"

definition overload_state_ok :: "call_state \<Rightarrow> bool" where
  "overload_state_ok s \<longleftrightarrow>
     (let retryAfter = canonical_uint (hget s F_overload_retry_after_ms);
          ev = htext s F_overload_event_id; req = htext s F_overload
      in \<not> (ev = [] \<and> retryAfter \<noteq> Some 0) \<and>
         \<not> (ev \<noteq> [] \<and> (retryAfter = Some 0 \<or> \<not> stream_id ev)) \<and>
         \<not> (req \<noteq> [] \<and> (\<not> stream_id req \<or> ev = [] \<or> \<not> stream_id_at_or_before req ev)))"

definition dispatch_state_ok :: "call_state \<Rightarrow> bool" where
  "dispatch_state_ok s \<longleftrightarrow>
     (let token = htext s F_dispatch_provider_token; lease = htext s F_dispatch_provider_lease;
          req = htext s F_dispatch_request_event_id;
          expires = canonical_uint (hget s F_dispatch_lease_expires)
      in if token = [] then lease = [] \<and> req = [] \<and> htext s F_dispatch_lease_expires = []
         else token = htext s F_registration_token \<and> lease \<noteq> [] \<and> req \<noteq> [] \<and>
              req = htext s F_publication_event_id \<and> expires \<noteq> None \<and> expires \<noteq> Some 0)"

definition admitted_state_error :: "call_state \<Rightarrow> string \<Rightarrow> string \<Rightarrow> nat \<Rightarrow> string option" where
  "admitted_state_error s toolUseID catalogField now =
     (case find (\<lambda>f. hget s f = None) required_fields of
        Some f \<Rightarrow> Some ''missing admitted field''
      | None \<Rightarrow>
          if htext s F_tool_use_id \<noteq> toolUseID then Some ''tool-use identity''
          else if \<not> ValidateRegistrationToken (htext s F_registration_token) then Some ''registration token''
          else if (case (canonical_uint (hget s F_execution_deadline), canonical_uint (hget s F_expires_at)) of
                     (Some deadline, Some expires) \<Rightarrow> expires \<le> deadline | _ \<Rightarrow> True)
          then Some ''deadlines''
          else if pttl s now \<le> 0 then Some ''expiration''
          else if htext s F_published \<notin> {''0'', ''1''} \<or> htext s F_terminal \<notin> {''0'', ''1''} then Some ''state''
          else if \<not> publication_state_ok s then Some ''publication state''
          else if \<not> terminal_state_ok s then Some ''terminal state''
          else if htext s F_terminal = ''1'' \<and> htext s F_terminal_cause \<notin> set terminal_causes
          then Some ''terminal cause''
          else if htext s F_catalog_field \<noteq> catalogField then Some ''routing state''
          else if htext s F_outcome_unknown_payload = [] then Some ''outcome payload''
          else if (case (canonical_uint (hget s F_output_delta_count), canonical_uint (hget s F_overload_retry_after_ms)) of
                     (Some n, Some r) \<Rightarrow> n > MaxToolOutputDeltaCount \<or> r > MaxProviderOverloadRetryAfter | _ \<Rightarrow> True)
          then Some ''counter state''
          else if \<not> overload_state_ok s then Some ''overload state''
          else if htext s F_published = ''0'' \<and>
                  (htext s F_overload \<noteq> [] \<or> htext s F_overload_event_id \<noteq> [] \<or> htext s F_dispatch_provider_token \<noteq> [])
          then Some ''publication state''
          else if \<not> dispatch_state_ok s then Some ''dispatch state''
          else None)"

subsection \<open>Deciding a call\<close>

record call_view =
  cv_execution_deadline :: string
  cv_expires_at :: string
  cv_terminal :: string
  cv_terminal_event_id :: string
  cv_registration_token :: string
  cv_published :: string
  cv_overload_event_id :: string
  cv_overload_retry_after_ms :: string
  cv_outcome_unknown_payload :: string
  cv_terminal_digest :: string
  cv_terminal_payload :: string
  cv_terminal_cause :: string

datatype decision_reply =
    ReplyMissing
  | ReplyConflict string
  | ReplyRejected string string
  | ReplyAdmitted call_view
  | ReplyUnmigrated call_view
  | ReplyAttached

definition view_of :: "call_state \<Rightarrow> call_view" where
  "view_of s =
     \<lparr>cv_execution_deadline = htext s F_execution_deadline, cv_expires_at = htext s F_expires_at,
      cv_terminal = htext s F_terminal, cv_terminal_event_id = htext s F_terminal_event_id,
      cv_registration_token = htext s F_registration_token, cv_published = htext s F_published,
      cv_overload_event_id = htext s F_overload_event_id,
      cv_overload_retry_after_ms = htext s F_overload_retry_after_ms,
      cv_outcome_unknown_payload = htext s F_outcome_unknown_payload,
      cv_terminal_digest = htext s F_terminal_digest, cv_terminal_payload = htext s F_terminal_payload,
      cv_terminal_cause = htext s F_terminal_cause\<rparr>"

definition attachCallAdmission ::
  "string \<Rightarrow> string \<Rightarrow> string \<Rightarrow> nat \<Rightarrow> call_state \<Rightarrow> (script_error, decision_reply) result" where
  "attachCallAdmission digest toolUseID catalogField now s =
     (if cs_hash s = None then Inr ReplyMissing
      else if hget s F_digest \<noteq> Some digest then Inr (ReplyConflict (htext s F_digest))
      else if hget s F_decision = Some ''rejected''
      then (if pttl s now \<le> 0 then Inl (CallDecisionInvalid ''rejection expiration'')
            else Inr (ReplyRejected (htext s F_kind) (htext s F_message)))
      else if hget s F_decision \<noteq> None \<and> hget s F_decision \<noteq> Some ''admitted''
      then Inl (CallDecisionInvalid [])
      else case admitted_state_error s toolUseID catalogField now of
             Some e \<Rightarrow> Inl (CallDecisionInvalid e)
           | None \<Rightarrow> Inr (if hget s F_decision = None then ReplyUnmigrated (view_of s) else ReplyAdmitted (view_of s)))"

definition migrateCallDecision :: "string \<Rightarrow> call_state \<Rightarrow> call_state \<times> (script_error, nat) result" where
  "migrateCallDecision digest s =
     (if hget s F_digest \<noteq> Some digest then (s, Inl CallDecisionChanged)
      else if hget s F_decision = None then (hset [(F_decision, ''admitted'')] s, Inr 1)
      else if hget s F_decision \<noteq> Some ''admitted'' then (s, Inl CallDecisionChanged)
      else (s, Inr 0))"

record ensure_args =
  en_digest :: string
  en_tool_use_id :: string
  en_registration_token :: string
  en_execution_timeout :: nat
  en_ttl :: nat
  en_outcome_unknown_payload :: string
  en_catalog_field :: string

definition fresh_fields :: "ensure_args \<Rightarrow> nat \<Rightarrow> (field \<times> string) list" where
  "fresh_fields a now =
     [(F_decision, ''admitted''), (F_digest, en_digest a), (F_tool_use_id, en_tool_use_id a),
      (F_registration_token, en_registration_token a),
      (F_execution_deadline, dec (now + en_execution_timeout a)), (F_expires_at, dec (now + en_ttl a)),
      (F_published, ''0''), (F_overload, []), (F_terminal, ''0''), (F_terminal_event_id, []),
      (F_terminal_digest, []), (F_terminal_payload, []), (F_terminal_cause, []),
      (F_outcome_unknown_payload, en_outcome_unknown_payload a), (F_catalog_field, en_catalog_field a),
      (F_output_delta_count, ''0''), (F_overload_event_id, []), (F_overload_retry_after_ms, ''0''),
      (F_dispatch_provider_token, []), (F_dispatch_provider_lease, []), (F_dispatch_request_event_id, [])]"

definition ensureCallAdmission ::
  "ensure_args \<Rightarrow> nat \<Rightarrow> call_state \<Rightarrow> call_state \<times> (script_error, decision_reply) result" where
  "ensureCallAdmission a now s =
     (if cs_hash s = None then
        (let s' = (hset (fresh_fields a now) s)\<lparr>cs_expire := Some (now + en_ttl a)\<rparr>
         in (s', Inr (ReplyAdmitted (view_of s'))))
      else if hget s F_digest \<noteq> Some (en_digest a) then (s, Inr (ReplyConflict (htext s F_digest)))
      else if hget s F_decision = Some ''rejected''
      then (s, Inr (ReplyRejected (htext s F_kind) (htext s F_message)))
      else if hget s F_decision \<noteq> Some ''admitted'' then (s, Inl (CallDecisionInvalid []))
      else if hget s F_published = Some ''0'' \<and> hget s F_terminal = Some ''0''
      then (hset [(F_registration_token, en_registration_token a),
                  (F_outcome_unknown_payload, en_outcome_unknown_payload a)] s, Inr ReplyAttached)
      else (s, Inr ReplyAttached))"

definition rejectCallAdmission ::
  "string \<Rightarrow> string \<Rightarrow> string \<Rightarrow> nat \<Rightarrow> nat \<Rightarrow> call_state \<Rightarrow> call_state \<times> (script_error, decision_reply) result" where
  "rejectCallAdmission digest kind message ttl now s =
     (let rejected = (hset [(F_decision, ''rejected''), (F_digest, digest), (F_kind, kind), (F_message, message)]
                        (s\<lparr>cs_hash := None\<rparr>))\<lparr>cs_expire := Some (now + ttl)\<rparr>
      in if cs_hash s \<noteq> None then
           (if hget s F_digest \<noteq> Some digest then (s, Inr (ReplyConflict (htext s F_digest)))
            else if hget s F_decision = Some ''rejected''
            then (s, Inr (ReplyRejected (htext s F_kind) (htext s F_message)))
            else if hget s F_decision \<noteq> Some ''admitted'' then (s, Inl (CallDecisionInvalid []))
            else if hget s F_published = Some ''0'' \<and> hget s F_terminal = Some ''0''
            then (rejected, Inr (ReplyRejected kind message))
            else (s, Inr ReplyAttached))
         else (rejected, Inr (ReplyRejected kind message)))"


subsection \<open>Publishing the request\<close>

definition group_unread :: "request_stream \<Rightarrow> nat \<Rightarrow> consumer_group \<Rightarrow> nat" where
  "group_unread st bound g =
     min (length (filter (\<lambda>(r, p). r > cg_last_delivered g) (rs_entries st))) (bound + 1)"

definition stream_backlog :: "request_stream \<Rightarrow> nat \<Rightarrow> nat" where
  "stream_backlog st bound =
     (if rs_groups st = [] then length (rs_entries st)
      else fold (\<lambda>g backlog. max backlog (group_unread st bound g + length (cg_pending g))) (rs_groups st) 0)"

definition group_floor :: "consumer_group \<Rightarrow> stream_ref" where
  "group_floor g = (if cg_pending g \<noteq> [] then Min (set (cg_pending g)) else cg_last_delivered g)"

definition trim_ref :: "request_stream \<Rightarrow> stream_ref option" where
  "trim_ref st = (if rs_groups st = [] then None else Some (Min (group_floor ` set (rs_groups st))))"

definition bounded_append ::
  "(stream_ref \<Rightarrow> (stream_ref \<times> string) list \<Rightarrow> (stream_ref \<times> string) list) \<Rightarrow> nat \<Rightarrow> stream_ref \<Rightarrow> string \<Rightarrow>
   request_stream \<Rightarrow> (nat, request_stream) result" where
  "bounded_append trim bound eid payload st =
     (if bound > 0 \<and> stream_backlog st bound \<ge> bound then Inl (stream_backlog st bound)
      else
        (let entries = rs_entries st @ [(eid, payload)]
         in Inr (st\<lparr>rs_entries := (case trim_ref st of None \<Rightarrow> entries | Some m \<Rightarrow> trim m entries)\<rparr>)))"

datatype publish_reply = QueueFull nat | Published string | AlreadyPublished string

definition routable_at :: "catalog_entry \<Rightarrow> nat \<Rightarrow> bool" where
  "routable_at e now \<longleftrightarrow> (\<exists>(k, l) \<in> set (leases e). \<not> pl_draining l \<and> pl_expires l > int now)"

record publish_args =
  pu_bound :: nat
  pu_payload :: string
  pu_digest :: string
  pu_overload_event_id :: string
  pu_catalog_field :: string
  pu_registration_token :: string

text \<open>The script for an admitted call; ordinary publication is \<open>bounded_append\<close> alone.\<close>

definition boundedPublish ::
  "(stream_ref \<Rightarrow> (stream_ref \<times> string) list \<Rightarrow> (stream_ref \<times> string) list) \<Rightarrow> catalog_map \<Rightarrow>
   publish_args \<Rightarrow> nat \<Rightarrow> stream_ref \<Rightarrow> call_state \<Rightarrow> call_state \<times> (script_error, publish_reply) result" where
  "boundedPublish trim cat a now eid s =
     (if hget s F_decision \<noteq> Some ''admitted'' \<or> hget s F_digest \<noteq> Some (pu_digest a) \<or>
         hget s F_registration_token \<noteq> Some (pu_registration_token a)
      then (s, Inl CallAdmissionChanged)
      else if hget s F_terminal = Some ''1'' then (s, Inr (AlreadyPublished (htext s F_terminal_event_id)))
      else if (pu_overload_event_id a = [] \<and> hget s F_published = Some ''1'') \<or>
              (pu_overload_event_id a \<noteq> [] \<and> hget s F_overload = Some (pu_overload_event_id a))
      then (s, Inr (AlreadyPublished (htext s F_publication_event_id)))
      else if (case hnum s F_execution_deadline of None \<Rightarrow> True | Some d \<Rightarrow> d \<le> now)
      then (s, Inl CallAdmissionChanged)
      else
        (case cat (pu_catalog_field a) of
           None \<Rightarrow> (s, Inl RoutingUnavailable)
         | Some (Undecodable t) \<Rightarrow> (s, Inl LuaError)
         | Some (Json entry) \<Rightarrow>
             if e_state entry \<noteq> EntryActive \<or> e_token entry \<noteq> pu_registration_token a
             then (s, Inl RoutingUnavailable)
             else if \<not> routable_at entry now then (s, Inl RoutingUnavailable)
             else (case bounded_append trim (pu_bound a) eid (pu_payload a) (cs_requests s) of
                     Inl backlog \<Rightarrow> (s, Inr (QueueFull backlog))
                   | Inr requests \<Rightarrow>
                       (hset [(F_published, ''1''), (F_overload, pu_overload_event_id a),
                              (F_publication_event_id, show_ref eid), (F_claim (show_ref eid), ''1'')]
                          (s\<lparr>cs_requests := requests\<rparr>),
                        Inr (Published (show_ref eid))))))"

subsection \<open>Provider operations\<close>

record provider_args =
  pa_tool_use_id :: string
  pa_call_token :: string
  pa_catalog_field :: string
  pa_provider_token :: string
  pa_lease :: string
  pa_request :: string

text \<open>The catalog check every provider script makes: the live lease's deadline, or an error.\<close>

definition provider_lease_check :: "catalog_map \<Rightarrow> provider_args \<Rightarrow> nat \<Rightarrow> (script_error, int) result" where
  "provider_lease_check cat a now =
     (case cat (pa_catalog_field a) of
        None \<Rightarrow> Inl ProviderLeaseChanged
      | Some (Undecodable t) \<Rightarrow> Inl LuaError
      | Some (Json entry) \<Rightarrow>
          if e_token entry \<noteq> pa_provider_token a then Inl ProviderLeaseChanged
          else (case map_of (leases entry) (pa_lease a) of
                  None \<Rightarrow> Inl ProviderLeaseChanged
                | Some lease \<Rightarrow> if pl_expires lease \<le> int now then Inl ProviderLeaseChanged
                                else Inr (pl_expires lease)))"

definition identity_changed :: "provider_args \<Rightarrow> call_state \<Rightarrow> bool" where
  "identity_changed a s \<longleftrightarrow>
     hget s F_tool_use_id \<noteq> Some (pa_tool_use_id a) \<or> hget s F_registration_token \<noteq> Some (pa_call_token a)"

definition owns_dispatch :: "provider_args \<Rightarrow> call_state \<Rightarrow> bool" where
  "owns_dispatch a s \<longleftrightarrow>
     hget s F_dispatch_provider_token = Some (pa_provider_token a) \<and>
     hget s F_dispatch_provider_lease = Some (pa_lease a) \<and>
     hget s F_dispatch_request_event_id = Some (pa_request a)"

definition leaseSettlementKey :: "string \<Rightarrow> string \<Rightarrow> string" where
  "leaseSettlementKey token lease = ''claimed-call-settlement:lease:'' @ token @ '':'' @ lease"

definition initializeResultStream ::
  "string \<Rightarrow> nat \<Rightarrow> stream_ref \<Rightarrow> call_state \<Rightarrow> call_state \<times> (script_error, nat) result" where
  "initializeResultStream digest now eid s =
     (if hget s F_digest \<noteq> Some digest then (s, Inl CallAdmissionChanged)
      else if hget s F_terminal = Some ''1'' \<or> cs_results s \<noteq> [] then (s, Inr 0)
      else case hnum s F_expires_at of
             None \<Rightarrow> (s, Inl CallAdmissionChanged)
           | Some expires \<Rightarrow>
               if expires \<le> now then (s, Inl CallAdmissionChanged)
               else (xadd_result eid ''{}'' expires s, Inr 1))"

definition completeCallAdmission ::
  "(string \<Rightarrow> string) \<Rightarrow> (string \<Rightarrow> string) \<Rightarrow> catalog_map \<Rightarrow> provider_args \<Rightarrow> string \<Rightarrow> nat \<Rightarrow> stream_ref \<Rightarrow>
   call_state \<Rightarrow> call_state \<times> (script_error, nat \<times> string) result" where
  "completeCallAdmission sha1 sha256 cat a payload now eid s =
     (if identity_changed a s then (s, Inl CallAdmissionChanged)
      else case provider_lease_check cat a now of
             Inl e \<Rightarrow> (s, Inl e)
           | Inr leaseExpires \<Rightarrow>
               if hget s (F_claim (pa_request a)) = None then (s, Inl CallClaimChanged)
               else case hnum s F_expires_at of
                      None \<Rightarrow> (s, Inl CallAdmissionChanged)
                    | Some expires \<Rightarrow>
                        if expires \<le> now then (s, Inl CallAdmissionChanged)
                        else if \<not> owns_dispatch a s then (s, Inl DispatchClaimChanged)
                        else if hget s F_terminal = Some ''1''
                        then (if hget s F_terminal_cause = Some ''execution_deadline''
                              then (s, Inr (2, htext s F_terminal_event_id))
                              else if hget s F_terminal_digest \<noteq> Some (sha256 payload)
                              then (s, Inl TerminalConflict)
                              else (s, Inr (0, htext s F_terminal_event_id)))
                        else
                          (case hnum s F_execution_deadline of
                             None \<Rightarrow> (s, Inl CallAdmissionChanged)
                           | Some deadline \<Rightarrow>
                               (let index = leaseSettlementKey (pa_provider_token a) (pa_lease a)
                                in if deadline \<le> now
                                   then (let unknown = htext s F_outcome_unknown_payload
                                         in if unknown = [] then (s, Inl OutcomeUnknownPayloadMissing)
                                            else (unindex index (commit_terminal eid (sha1 unknown) unknown
                                                    ''execution_deadline'' expires s),
                                                  Inr (2, show_ref eid)))
                                   else (unindex index (commit_terminal eid (sha256 payload) payload ''provider'' expires s),
                                         Inr (1, show_ref eid)))))"

datatype claim_disposition = ClaimExecute | ClaimTerminal | ClaimClaimed | ClaimExpired

definition claimCallAdmission ::
  "(string \<Rightarrow> string) \<Rightarrow> catalog_map \<Rightarrow> provider_args \<Rightarrow> string \<Rightarrow> nat \<Rightarrow> stream_ref \<Rightarrow>
   call_state \<Rightarrow> call_state \<times> (script_error, claim_disposition) result" where
  "claimCallAdmission sha256 cat a stalePayload now eid s =
     (case provider_lease_check cat a now of
        Inl e \<Rightarrow> (s, Inl e)
      | Inr leaseExpires \<Rightarrow>
          if cs_hash s = None then (s, Inr ClaimExpired)
          else if identity_changed a s then (s, Inl CallAdmissionChanged)
          else if hget s (F_claim (pa_request a)) = None then (s, Inl CallClaimChanged)
          else case (hnum s F_expires_at, hnum s F_execution_deadline) of
                 (Some expires, Some deadline) \<Rightarrow>
                   if hget s F_terminal = Some ''1'' then (s, Inr ClaimTerminal)
                   else if deadline \<le> now then (s, Inr ClaimExpired)
                   else if hget s F_dispatch_provider_token \<noteq> Some [] then (s, Inr ClaimClaimed)
                   else if pa_call_token a \<noteq> pa_provider_token a
                   then ((commit_terminal eid (sha256 stalePayload) stalePayload ''stale_admission'' expires s)
                           \<lparr>cs_settlement := None, cs_membership := None\<rparr>,
                         Inr ClaimTerminal)
                   else
                     (let index = leaseSettlementKey (pa_provider_token a) (pa_lease a);
                          s' = hset [(F_dispatch_provider_token, pa_provider_token a),
                                     (F_dispatch_provider_lease, pa_lease a),
                                     (F_dispatch_request_event_id, pa_request a),
                                     (F_dispatch_lease_expires, dec (nat leaseExpires))] s
                      in (s'\<lparr>cs_settlement := Some (min deadline (nat leaseExpires)),
                             cs_lease_index := (cs_lease_index s')(index \<mapsto> deadline),
                             cs_membership := Some index\<rparr>, Inr ClaimExecute))
               | _ \<Rightarrow> (s, Inl CallAdmissionChanged))"

definition publishLiveCallEvent ::
  "catalog_map \<Rightarrow> provider_args \<Rightarrow> string \<Rightarrow> nat \<Rightarrow> stream_ref \<Rightarrow> call_state \<Rightarrow> call_state \<times> (script_error, nat) result" where
  "publishLiveCallEvent cat a payload now eid s =
     (if identity_changed a s then (s, Inl CallAdmissionChanged)
      else case provider_lease_check cat a now of
             Inl e \<Rightarrow> (s, Inl e)
           | Inr leaseExpires \<Rightarrow>
               if hget s (F_claim (pa_request a)) = None then (s, Inl CallClaimChanged)
               else case hnum s F_expires_at of
                      None \<Rightarrow> (s, Inl CallAdmissionChanged)
                    | Some expires \<Rightarrow>
                        if expires \<le> now then (s, Inl CallAdmissionChanged)
                        else if hget s F_terminal = Some ''1'' then (s, Inr 0)
                        else if (case hnum s F_execution_deadline of None \<Rightarrow> True | Some d \<Rightarrow> d \<le> now) then (s, Inr 0)
                        else if \<not> owns_dispatch a s then (s, Inl DispatchClaimChanged)
                        else
                          (case undec (case hget s F_output_delta_count of None \<Rightarrow> ''0'' | Some c \<Rightarrow> c) of
                             None \<Rightarrow> (s, Inl LuaError)
                           | Some n \<Rightarrow>
                               if n \<ge> MaxToolOutputDeltaCount then (s, Inr 0)
                               else (hset [(F_output_delta_count, dec (n + 1))] (xadd_result eid payload expires s), Inr 1)))"

definition reportOverloadCall ::
  "(string \<Rightarrow> string) \<Rightarrow> catalog_map \<Rightarrow> provider_args \<Rightarrow> string \<Rightarrow> string \<Rightarrow> nat \<Rightarrow> stream_ref \<Rightarrow>
   call_state \<Rightarrow> call_state \<times> (script_error, nat) result" where
  "reportOverloadCall sha256 cat a overloadPayload stalePayload now eid s =
     (case provider_lease_check cat a now of
        Inl e \<Rightarrow> (s, Inl e)
      | Inr leaseExpires \<Rightarrow>
          if cs_hash s = None then (s, Inr 0)
          else if identity_changed a s then (s, Inl CallAdmissionChanged)
          else if hget s (F_claim (pa_request a)) = None then (s, Inl CallClaimChanged)
          else if hget s (F_overload_request (pa_request a)) \<noteq> None then (s, Inr 0)
          else case (hnum s F_expires_at, hnum s F_execution_deadline) of
                 (Some expires, Some deadline) \<Rightarrow>
                   if expires \<le> now \<or> deadline \<le> now then (s, Inr 0)
                   else if hget s F_terminal = Some ''1'' \<or> hget s F_dispatch_provider_token \<noteq> Some [] then (s, Inr 0)
                   else if pa_call_token a \<noteq> pa_provider_token a
                   then ((hset [(F_overload_request (pa_request a), show_ref eid)]
                            (commit_terminal eid (sha256 stalePayload) stalePayload ''stale_admission'' expires s))
                           \<lparr>cs_settlement := None, cs_membership := None\<rparr>, Inr 1)
                   else (hset [(F_overload_event_id, show_ref eid),
                               (F_overload_retry_after_ms, dec ProviderOverloadRetryAfter),
                               (F_overload_request (pa_request a), show_ref eid)]
                           (xadd_result eid overloadPayload expires s), Inr 1)
               | _ \<Rightarrow> (s, Inl CallAdmissionChanged))"

definition restoreCallTerminal ::
  "nat \<Rightarrow> stream_ref \<Rightarrow> call_state \<Rightarrow> call_state \<times> (script_error, nat) result" where
  "restoreCallTerminal now eid s =
     (if hget s F_terminal \<noteq> Some ''1'' then (s, Inr 0)
      else if htext s F_terminal_payload = [] then (s, Inl TerminalPayloadMissing)
      else if htext s F_terminal_event_id \<noteq> [] \<and>
              htext s F_terminal_event_id \<in> set (map (show_ref \<circ> fst) (cs_results s)) then (s, Inr 0)
      else case hnum s F_expires_at of
             None \<Rightarrow> (s, Inl CallAdmissionChanged)
           | Some expires \<Rightarrow>
               if expires \<le> now then (s, Inl CallAdmissionChanged)
               else (hset [(F_terminal_event_id, show_ref eid)]
                       (xadd_result eid (htext s F_terminal_payload) expires s), Inr 1))"

text \<open>The deadline of the lease that still owns the dispatch, if the catalog has it.\<close>

definition settlement_lease :: "catalog_map \<Rightarrow> nat \<Rightarrow> call_state \<Rightarrow> (script_error, int option) result" where
  "settlement_lease cat now s =
     (case hget s F_catalog_field of
        None \<Rightarrow> Inl LuaError
      | Some field \<Rightarrow>
          (case cat field of
             None \<Rightarrow> Inr None
           | Some (Undecodable t) \<Rightarrow> Inl LuaError
           | Some (Json entry) \<Rightarrow>
               Inr (case map_of (leases entry) (htext s F_dispatch_provider_lease) of
                      None \<Rightarrow> None
                    | Some lease \<Rightarrow>
                        if e_token entry = htext s F_dispatch_provider_token \<and> pl_expires lease > int now
                        then Some (pl_expires lease) else None)))"

definition settleLostClaim ::
  "(string \<Rightarrow> string) \<Rightarrow> catalog_map \<Rightarrow> string \<Rightarrow> nat \<Rightarrow> stream_ref \<Rightarrow> call_state \<Rightarrow>
   call_state \<times> (script_error, nat) result" where
  "settleLostClaim sha1 cat cause now eid s =
     (case cs_membership s of
        None \<Rightarrow> (s, Inl MembershipMissing)
      | Some index \<Rightarrow>
          if cs_hash s = None \<or> hget s F_terminal = Some ''1'' \<or> htext s F_dispatch_provider_token = [] \<or>
             htext s F_dispatch_provider_lease = []
          then (unindex index s, Inr 0)
          else
            (case hnum s F_execution_deadline of
               None \<Rightarrow> (s, Inl CallAdmissionChanged)
             | Some deadline \<Rightarrow>
                 (case (if now < deadline then settlement_lease cat now s else Inr None) of
                    Inl e \<Rightarrow> (s, Inl e)
                  | Inr (Some leaseExpires) \<Rightarrow>
                      (s\<lparr>cs_settlement := Some (min deadline (nat leaseExpires))\<rparr>, Inr 0)
                  | Inr None \<Rightarrow>
                      (let cause' = (if now < deadline then ''provider_lease_lost'' else cause);
                           payload = htext s F_outcome_unknown_payload
                       in if payload = [] then (s, Inl OutcomeUnknownPayloadMissing)
                          else case hnum s F_expires_at of
                                 None \<Rightarrow> (unindex index s, Inr 0)
                               | Some expires \<Rightarrow>
                                   if expires \<le> now then (unindex index s, Inr 0)
                                   else (unindex index (commit_terminal eid (sha1 payload) payload cause' expires s),
                                         Inr 1)))))"

definition cleanupSettlementMember :: "string \<Rightarrow> call_state \<Rightarrow> call_state" where
  "cleanupSettlementMember fallback s =
     (let index = (case cs_membership s of None \<Rightarrow> fallback | Some i \<Rightarrow> if i = [] then fallback else i)
      in if index = [] then s\<lparr>cs_settlement := None, cs_membership := None\<rparr> else unindex index s)"

text \<open>
  The sweeps \<open>SettleLostClaims\<close> and \<open>SettleLostClaimsForLease\<close> over all calls, keyed by record key. A
  sweep reads the due keys first and then settles one key at a time, so other operations can come in
  between: \<open>settle_keys\<close> is the loop over the keys already read. \<open>reads\<close> gives the time and event
  identifier Redis supplies to each key's script. A failed settlement ends the sweep.
\<close>

type_synonym call_store = "(string \<times> call_state) list"

definition set_call :: "string \<Rightarrow> call_state \<Rightarrow> call_store \<Rightarrow> call_store" where
  "set_call key s store = map (\<lambda>(k, v). (k, if k = key then s else v)) store"

definition due_keys :: "nat \<Rightarrow> int \<Rightarrow> call_store \<Rightarrow> string list" where
  "due_keys now limit store =
     (let due = sort (concat (map (\<lambda>(k, s). case cs_settlement s of
                                     Some score \<Rightarrow> if score \<le> now then [(score, k)] else []
                                   | None \<Rightarrow> []) store))
      in map snd (if limit < 0 then due else take (nat limit) due))"

definition lease_keys :: "string \<Rightarrow> call_store \<Rightarrow> string list" where
  "lease_keys index store =
     map snd (sort (concat (map (\<lambda>(k, s). case cs_lease_index s index of
                                     Some score \<Rightarrow> [(score, k)] | None \<Rightarrow> []) store)))"

fun settle_keys ::
  "(string \<Rightarrow> string) \<Rightarrow> catalog_map \<Rightarrow> string \<Rightarrow> string \<Rightarrow> (string \<Rightarrow> nat \<times> stream_ref) \<Rightarrow> string list \<Rightarrow> nat \<Rightarrow>
   call_store \<Rightarrow> call_store \<times> (script_error, nat) result" where
  "settle_keys sha1 cat fallback cause reads [] settled store = (store, Inr settled)"
| "settle_keys sha1 cat fallback cause reads (key # keys) settled store =
     (case map_of store key of
        None \<Rightarrow> settle_keys sha1 cat fallback cause reads keys settled store
      | Some s \<Rightarrow>
          if hget s F_tool_use_id = None
          then settle_keys sha1 cat fallback cause reads keys settled
                 (set_call key (cleanupSettlementMember fallback s) store)
          else
            (case settleLostClaim sha1 cat cause (fst (reads key)) (snd (reads key)) s of
               (s', Inl e) \<Rightarrow> (set_call key s' store, Inl e)
             | (s', Inr status) \<Rightarrow>
                 settle_keys sha1 cat fallback cause reads keys (settled + status) (set_call key s' store)))"

definition SettleLostClaims ::
  "(string \<Rightarrow> string) \<Rightarrow> catalog_map \<Rightarrow> int \<Rightarrow> nat \<Rightarrow> (string \<Rightarrow> nat \<times> stream_ref) \<Rightarrow>
   call_store \<Rightarrow> call_store \<times> (script_error, nat) result" where
  "SettleLostClaims sha1 cat limit now reads store =
     settle_keys sha1 cat [] ''execution_deadline'' reads (due_keys now limit store) 0 store"

definition SettleLostClaimsForLease ::
  "(string \<Rightarrow> string) \<Rightarrow> catalog_map \<Rightarrow> string \<Rightarrow> string \<Rightarrow> (string \<Rightarrow> nat \<times> stream_ref) \<Rightarrow>
   call_store \<Rightarrow> call_store \<times> (script_error, nat) result" where
  "SettleLostClaimsForLease sha1 cat token lease reads store =
     (let index = leaseSettlementKey token lease
      in settle_keys sha1 cat index ''provider_lease_released'' reads (lease_keys index store) 0 store)"


subsection \<open>Operations as steps\<close>

record call_env =
  ve_sha1 :: "string \<Rightarrow> string"
  ve_sha256 :: "string \<Rightarrow> string"
  ve_trim :: "stream_ref \<Rightarrow> (stream_ref \<times> string) list \<Rightarrow> (stream_ref \<times> string) list"

datatype call_op =
    OpEnsure ensure_args nat
  | OpMigrate string nat
  | OpReject string string string nat nat
  | OpPublish catalog_map publish_args nat stream_ref
  | OpInitialize string nat stream_ref
  | OpClaim catalog_map provider_args string nat stream_ref
  | OpLive catalog_map provider_args string nat stream_ref
  | OpOverload catalog_map provider_args string string nat stream_ref
  | OpComplete catalog_map provider_args string nat stream_ref
  | OpRestore nat stream_ref
  | OpSettle catalog_map string nat stream_ref
  | OpExpire
  | OpResultsExpire

fun exec_call :: "call_env \<Rightarrow> call_op \<Rightarrow> call_state \<Rightarrow> call_state" where
  "exec_call v (OpEnsure a now) s = fst (ensureCallAdmission a now s)"
| "exec_call v (OpMigrate digest now) s = fst (migrateCallDecision digest s)"
| "exec_call v (OpReject digest kind msg ttl now) s = fst (rejectCallAdmission digest kind msg ttl now s)"
| "exec_call v (OpPublish cat a now eid) s = fst (boundedPublish (ve_trim v) cat a now eid s)"
| "exec_call v (OpInitialize digest now eid) s = fst (initializeResultStream digest now eid s)"
| "exec_call v (OpClaim cat a stale now eid) s = fst (claimCallAdmission (ve_sha256 v) cat a stale now eid s)"
| "exec_call v (OpLive cat a payload now eid) s = fst (publishLiveCallEvent cat a payload now eid s)"
| "exec_call v (OpOverload cat a payload stale now eid) s =
     fst (reportOverloadCall (ve_sha256 v) cat a payload stale now eid s)"
| "exec_call v (OpComplete cat a payload now eid) s =
     fst (completeCallAdmission (ve_sha1 v) (ve_sha256 v) cat a payload now eid s)"
| "exec_call v (OpRestore now eid) s = fst (restoreCallTerminal now eid s)"
| "exec_call v (OpSettle cat cause now eid) s = fst (settleLostClaim (ve_sha1 v) cat cause now eid s)"
| "exec_call v OpExpire s = s\<lparr>cs_hash := None, cs_expire := None\<rparr>"
| "exec_call v OpResultsExpire s = s\<lparr>cs_results := [], cs_results_expire := None\<rparr>"

lemma hget_hset: "hget (hset fvs s) f = (case map_of (rev fvs) f of Some v \<Rightarrow> Some v | None \<Rightarrow> hget s f)"
  by (auto simp: hget_def hset_def map_add_def split: option.splits)

lemma hash_hset [simp]: "cs_hash (hset fvs s) \<noteq> None" "\<exists>h. cs_hash (hset fvs s) = Some h"
  by (simp_all add: hset_def)

lemma hset_other [simp]:
  "cs_expire (hset fvs s) = cs_expire s" "cs_results (hset fvs s) = cs_results s"
  "cs_settlement (hset fvs s) = cs_settlement s" "cs_lease_index (hset fvs s) = cs_lease_index s"
  "cs_membership (hset fvs s) = cs_membership s" "cs_requests (hset fvs s) = cs_requests s"
  by (simp_all add: hset_def)

lemma xadd_other [simp]:
  "cs_hash (xadd_result eid p x s) = cs_hash s" "cs_expire (xadd_result eid p x s) = cs_expire s"
  "cs_settlement (xadd_result eid p x s) = cs_settlement s" "cs_lease_index (xadd_result eid p x s) = cs_lease_index s"
  "cs_membership (xadd_result eid p x s) = cs_membership s" "cs_requests (xadd_result eid p x s) = cs_requests s"
  by (simp_all add: xadd_result_def Let_def)

lemma hget_frame [simp]:
  "hget (xadd_result eid p x s) = hget s" "hget (unindex i s) = hget s"
  "hget (s\<lparr>cs_settlement := a\<rparr>) = hget s" "hget (s\<lparr>cs_membership := b\<rparr>) = hget s"
  "hget (s\<lparr>cs_lease_index := c\<rparr>) = hget s" "hget (s\<lparr>cs_requests := d\<rparr>) = hget s"
  "hget (s\<lparr>cs_expire := e\<rparr>) = hget s" "hget (s\<lparr>cs_results := r, cs_results_expire := y\<rparr>) = hget s"
  by (simp_all add: hget_def fun_eq_iff unindex_def)

lemma hget_gone [simp]: "hget (s\<lparr>cs_hash := None\<rparr>) f = None"
  by (simp add: hget_def)

lemma hget_missing: "cs_hash s = None \<Longrightarrow> hget s f = None"
  by (simp add: hget_def)

lemma hget_Some_hash: "hget s f = Some v \<Longrightarrow> cs_hash s \<noteq> None"
  by (cases "cs_hash s") (auto simp: hget_def)

lemma unindex_other [simp]: "cs_hash (unindex i s) = cs_hash s" "cs_expire (unindex i s) = cs_expire s"
  by (simp_all add: unindex_def)

lemma hget_commit:
  "hget (commit_terminal eid d p c x s) f =
     (if f = F_terminal then Some ''1'' else if f = F_terminal_event_id then Some (show_ref eid)
      else if f = F_terminal_digest then Some d else if f = F_terminal_payload then Some p
      else if f = F_terminal_cause then Some c else hget s f)"
  by (simp add: commit_terminal_def hget_hset)

lemma commit_other [simp]:
  "cs_expire (commit_terminal eid d p c x s) = cs_expire s"
  "cs_hash (commit_terminal eid d p c x s) \<noteq> None"
  by (simp_all add: commit_terminal_def)

subsection \<open>What each script can change\<close>

text \<open>Every script either leaves the state alone or makes the one change its guards allow.\<close>

lemma publish_cases:
  obtains (same) "fst (boundedPublish trim cat a now eid s) = s"
  | (published) requests where "hget s F_decision = Some ''admitted''" "hget s F_terminal \<noteq> Some ''1''"
      "hget s F_registration_token = Some (pu_registration_token a)"
      "pu_overload_event_id a = [] \<longrightarrow> hget s F_published \<noteq> Some ''1''"
      "bounded_append trim (pu_bound a) eid (pu_payload a) (cs_requests s) = Inr requests"
      "boundedPublish trim cat a now eid s =
         (hset [(F_published, ''1''), (F_overload, pu_overload_event_id a), (F_publication_event_id, show_ref eid),
                (F_claim (show_ref eid), ''1'')] (s\<lparr>cs_requests := requests\<rparr>), Inr (Published (show_ref eid)))"
proof (cases "snd (boundedPublish trim cat a now eid s) = Inr (Published (show_ref eid))")
  case True
  then show ?thesis
    by (intro published [of "projr (bounded_append trim (pu_bound a) eid (pu_payload a) (cs_requests s))"])
      (auto simp: boundedPublish_def split: if_splits option.splits persisted.splits sum.splits)
next
  case False
  then have "fst (boundedPublish trim cat a now eid s) = s"
    by (auto simp: boundedPublish_def split: if_splits option.splits persisted.splits sum.splits)
  then show ?thesis by (rule same)
qed

lemma claim_cases:
  obtains (same) "fst (claimCallAdmission sha cat a stale now eid s) = s"
      "snd (claimCallAdmission sha cat a stale now eid s) \<noteq> Inr ClaimExecute"
  | (stale) expires where "hget s F_terminal \<noteq> Some ''1''" "hget s F_dispatch_provider_token = Some []"
      "hget s (F_claim (pa_request a)) \<noteq> None"
      "claimCallAdmission sha cat a stale now eid s =
         ((commit_terminal eid (sha stale) stale ''stale_admission'' expires s)
            \<lparr>cs_settlement := None, cs_membership := None\<rparr>, Inr ClaimTerminal)"
  | (granted) leaseExpires deadline where "hget s F_terminal \<noteq> Some ''1''"
      "hget s F_dispatch_provider_token = Some []" "hget s (F_claim (pa_request a)) \<noteq> None"
      "hget s F_registration_token = Some (pa_provider_token a)"
      "provider_lease_check cat a now = Inr leaseExpires" "hnum s F_execution_deadline = Some deadline" "now < deadline"
      "claimCallAdmission sha cat a stale now eid s =
        ((hset [(F_dispatch_provider_token, pa_provider_token a), (F_dispatch_provider_lease, pa_lease a),
                (F_dispatch_request_event_id, pa_request a), (F_dispatch_lease_expires, dec (nat leaseExpires))] s)
           \<lparr>cs_settlement := Some (min deadline (nat leaseExpires)),
            cs_lease_index := (cs_lease_index s)(leaseSettlementKey (pa_provider_token a) (pa_lease a) \<mapsto> deadline),
            cs_membership := Some (leaseSettlementKey (pa_provider_token a) (pa_lease a))\<rparr>, Inr ClaimExecute)"
proof (cases "snd (claimCallAdmission sha cat a stale now eid s) = Inr ClaimExecute")
  case True
  then obtain le x d where "provider_lease_check cat a now = Inr le" "hnum s F_expires_at = Some x"
      "hnum s F_execution_deadline = Some d"
    by (auto simp: claimCallAdmission_def split: sum.splits if_splits option.splits prod.splits)
  with True show ?thesis
    by (intro granted [of le d])
      (auto simp: claimCallAdmission_def identity_changed_def Let_def split: if_splits)
next
  case False
  show ?thesis
  proof (cases "fst (claimCallAdmission sha cat a stale now eid s) = s")
    case True
    then show ?thesis using False by (rule same)
  next
    case changed: False
    then obtain x d where "hnum s F_expires_at = Some x" "hnum s F_execution_deadline = Some d"
      by (auto simp: claimCallAdmission_def split: sum.splits if_splits option.splits prod.splits)
    with changed False show ?thesis
      by (intro stale [of x]) (auto simp: claimCallAdmission_def Let_def split: sum.splits if_splits)
  qed
qed

lemma ensure_cases:
  obtains (same) "fst (ensureCallAdmission a now s) = s"
  | (fresh) "cs_hash s = None"
      "fst (ensureCallAdmission a now s) = (hset (fresh_fields a now) s)\<lparr>cs_expire := Some (now + en_ttl a)\<rparr>"
  | (rebound) "hget s F_decision = Some ''admitted''" "hget s F_published = Some ''0''" "hget s F_terminal = Some ''0''"
      "fst (ensureCallAdmission a now s) =
         hset [(F_registration_token, en_registration_token a), (F_outcome_unknown_payload, en_outcome_unknown_payload a)] s"
proof (cases "cs_hash s = None")
  case True
  then show ?thesis by (intro fresh) (simp_all add: ensureCallAdmission_def Let_def)
next
  case False
  show ?thesis
  proof (cases "fst (ensureCallAdmission a now s) = s")
    case changed: False
    with False show ?thesis
      by (intro rebound) (simp_all add: ensureCallAdmission_def split: if_splits)
  qed (rule same)
qed

lemma migrate_cases:
  obtains (same) "fst (migrateCallDecision d s) = s"
  | (migrated) "hget s F_decision = None" "hget s F_digest = Some d"
      "fst (migrateCallDecision d s) = hset [(F_decision, ''admitted'')] s"
  by (cases "hget s F_digest = Some d"; cases "hget s F_decision") (simp_all add: migrateCallDecision_def)

lemma reject_cases:
  obtains (same) "fst (rejectCallAdmission d k m ttl now s) = s"
  | (rejected) "cs_hash s = None \<or> hget s F_published = Some ''0'' \<and> hget s F_terminal = Some ''0''"
      "fst (rejectCallAdmission d k m ttl now s) =
         (hset [(F_decision, ''rejected''), (F_digest, d), (F_kind, k), (F_message, m)] (s\<lparr>cs_hash := None\<rparr>))
           \<lparr>cs_expire := Some (now + ttl)\<rparr>"
proof (cases "fst (rejectCallAdmission d k m ttl now s) = s")
  case False
  then show ?thesis
    by (intro rejected) (auto simp: rejectCallAdmission_def Let_def split: if_splits)
qed (rule same)

lemma initialize_frame [simp]:
  "hget (fst (initializeResultStream d now eid s)) = hget s"
  "cs_hash (fst (initializeResultStream d now eid s)) = cs_hash s"
  "cs_expire (fst (initializeResultStream d now eid s)) = cs_expire s"
  "cs_settlement (fst (initializeResultStream d now eid s)) = cs_settlement s"
  "cs_lease_index (fst (initializeResultStream d now eid s)) = cs_lease_index s"
  "cs_membership (fst (initializeResultStream d now eid s)) = cs_membership s"
  by (simp_all add: initializeResultStream_def split: option.split)

lemma live_cases:
  obtains (same) "fst (publishLiveCallEvent cat a p now eid s) = s"
  | (appended) n expires where "hget s F_terminal \<noteq> Some ''1''" "owns_dispatch a s" "n < MaxToolOutputDeltaCount"
      "undec (case hget s F_output_delta_count of None \<Rightarrow> ''0'' | Some c \<Rightarrow> c) = Some n"
      "fst (publishLiveCallEvent cat a p now eid s) =
         hset [(F_output_delta_count, dec (n + 1))] (xadd_result eid p expires s)"
proof (cases "fst (publishLiveCallEvent cat a p now eid s) = s")
  case False
  then obtain x n where x: "hnum s F_expires_at = Some x"
      "undec (case hget s F_output_delta_count of None \<Rightarrow> ''0'' | Some c \<Rightarrow> c) = Some n"
    by (simp add: publishLiveCallEvent_def split: sum.splits if_splits option.splits)
  with False show ?thesis
    by (intro appended [of n x])
      (simp_all add: publishLiveCallEvent_def split: sum.splits if_splits option.splits)
qed (rule same)

lemma overload_cases:
  obtains (same) "fst (reportOverloadCall sha cat a p stale now eid s) = s"
  | (stale) expires where "hget s F_terminal \<noteq> Some ''1''" "hget s F_dispatch_provider_token = Some []"
      "hget s (F_claim (pa_request a)) \<noteq> None"
      "fst (reportOverloadCall sha cat a p stale now eid s) =
         (hset [(F_overload_request (pa_request a), show_ref eid)]
            (commit_terminal eid (sha stale) stale ''stale_admission'' expires s))
           \<lparr>cs_settlement := None, cs_membership := None\<rparr>"
  | (reported) expires where "hget s F_terminal \<noteq> Some ''1''" "hget s F_dispatch_provider_token = Some []"
      "hget s (F_claim (pa_request a)) \<noteq> None"
      "fst (reportOverloadCall sha cat a p stale now eid s) =
         hset [(F_overload_event_id, show_ref eid), (F_overload_retry_after_ms, dec ProviderOverloadRetryAfter),
               (F_overload_request (pa_request a), show_ref eid)] (xadd_result eid p expires s)"
proof (cases "fst (reportOverloadCall sha cat a p stale now eid s) = s")
  case False
  then obtain x d where "hnum s F_expires_at = Some x" "hnum s F_execution_deadline = Some d"
    by (auto simp: reportOverloadCall_def split: sum.splits if_splits option.splits prod.splits)
  with False show ?thesis
    by (cases "pa_call_token a = pa_provider_token a")
      (rule reported [of x] stale [of x];
       auto simp: reportOverloadCall_def split: sum.splits if_splits)+
qed (rule same)

lemma complete_cases:
  obtains (same) "fst (completeCallAdmission sha1 sha cat a p now eid s) = s"
  | (late) expires deadline where "hget s F_terminal \<noteq> Some ''1''" "owns_dispatch a s" "hget s (F_claim (pa_request a)) \<noteq> None"
      "hnum s F_execution_deadline = Some deadline" "deadline \<le> now" "htext s F_outcome_unknown_payload \<noteq> []"
      "completeCallAdmission sha1 sha cat a p now eid s =
         (unindex (leaseSettlementKey (pa_provider_token a) (pa_lease a))
            (commit_terminal eid (sha1 (htext s F_outcome_unknown_payload)) (htext s F_outcome_unknown_payload)
               ''execution_deadline'' expires s), Inr (2, show_ref eid))"
  | (completed) expires deadline where "hget s F_terminal \<noteq> Some ''1''" "owns_dispatch a s"
      "hget s (F_claim (pa_request a)) \<noteq> None" "hnum s F_execution_deadline = Some deadline" "now < deadline"
      "completeCallAdmission sha1 sha cat a p now eid s =
         (unindex (leaseSettlementKey (pa_provider_token a) (pa_lease a))
            (commit_terminal eid (sha p) p ''provider'' expires s), Inr (1, show_ref eid))"
proof (cases "fst (completeCallAdmission sha1 sha cat a p now eid s) = s")
  case False
  then obtain x d where "hnum s F_expires_at = Some x" "hnum s F_execution_deadline = Some d"
    by (simp add: completeCallAdmission_def Let_def split: sum.splits if_splits option.splits)
  with False show ?thesis
    by (cases "d \<le> now")
      (rule late [of d x] completed [of d x];
       simp add: completeCallAdmission_def Let_def split: sum.splits if_splits)+
qed (rule same)

lemma restore_frame:
  "f \<noteq> F_terminal_event_id \<Longrightarrow> hget (fst (restoreCallTerminal now eid s)) f = hget s f"
  "hget s F_terminal \<noteq> Some ''1'' \<Longrightarrow> fst (restoreCallTerminal now eid s) = s"
  by (simp_all add: restoreCallTerminal_def hget_hset split: option.split)

lemma settle_cases:
  obtains (same) "fst (settleLostClaim sha1 cat cause now eid s) = s"
  | (dropped) index where "cs_membership s = Some index"
      "cs_hash s = None \<or> hget s F_terminal = Some ''1'' \<or> htext s F_dispatch_provider_token = [] \<or>
       htext s F_dispatch_provider_lease = [] \<or> (\<forall>x. hnum s F_expires_at = Some x \<longrightarrow> x \<le> now)"
      "settleLostClaim sha1 cat cause now eid s = (unindex index s, Inr 0)"
  | (rescheduled) deadline expires where "hnum s F_execution_deadline = Some deadline" "now < deadline"
      "settleLostClaim sha1 cat cause now eid s = (s\<lparr>cs_settlement := Some (min deadline expires)\<rparr>, Inr 0)"
  | (settled) index deadline expires cause' where "cs_membership s = Some index" "hget s F_terminal \<noteq> Some ''1''"
      "htext s F_dispatch_provider_token \<noteq> []" "hnum s F_execution_deadline = Some deadline"
      "hnum s F_expires_at = Some expires" "now < expires" "htext s F_outcome_unknown_payload \<noteq> []"
      "cause' = (if now < deadline then ''provider_lease_lost'' else cause)"
      "settleLostClaim sha1 cat cause now eid s =
         (unindex index (commit_terminal eid (sha1 (htext s F_outcome_unknown_payload))
            (htext s F_outcome_unknown_payload) cause' expires s), Inr 1)"
proof (cases "cs_membership s")
  case None
  then show ?thesis by (intro same) (simp add: settleLostClaim_def)
next
  case index: (Some index)
  let ?gone = "cs_hash s = None \<or> hget s F_terminal = Some ''1'' \<or> htext s F_dispatch_provider_token = [] \<or>
    htext s F_dispatch_provider_lease = []"
  show ?thesis
  proof (cases "?gone \<or> hnum s F_execution_deadline = None")
    case True
    show ?thesis
    proof (cases ?gone)
      case gone: True
      then have "settleLostClaim sha1 cat cause now eid s = (unindex index s, Inr 0)"
        unfolding settleLostClaim_def index by (simp only: option.case if_True)
      with gone index show ?thesis by (intro dropped [of index]) blast+
    next
      case False
      with True index show ?thesis by (intro same) (auto simp: settleLostClaim_def)
    qed
  next
    case live: False
    then obtain d where d: "hnum s F_execution_deadline = Some d" by auto
    let ?lease = "if now < d then settlement_lease cat now s else Inr None"
    show ?thesis
    proof (cases "\<exists>l. ?lease = Inr (Some l)")
      case True
      then obtain l where "?lease = Inr (Some l)" by blast
      with live d index show ?thesis
        by (intro rescheduled [of d "nat l"]) (auto simp: settleLostClaim_def split: if_splits)
    next
      case lost: False
      show ?thesis
      proof (cases "?lease = Inr None \<and> htext s F_outcome_unknown_payload \<noteq> []")
        case False
        with lost live d index show ?thesis
          by (intro same) (auto simp: settleLostClaim_def split: sum.split option.split)
      next
        case unknown: True
        show ?thesis
        proof (cases "\<exists>x. hnum s F_expires_at = Some x \<and> now < x")
          case True
          then obtain x where "hnum s F_expires_at = Some x" "now < x" by auto
          with unknown live d index show ?thesis
            by (intro settled [of index d x]) (auto simp: settleLostClaim_def Let_def)
        next
          case False
          with unknown live d index show ?thesis
            by (intro dropped [of index]) (auto simp: settleLostClaim_def Let_def split: option.split)
        qed
      qed
    qed
  qed
qed

lemmas call_op_cases = ensure_cases migrate_cases reject_cases publish_cases claim_cases live_cases overload_cases
  complete_cases settle_cases

end
