(* ===== verification/Call_Example.thy ===== *)
theory Call_Example
  imports Call_Record
begin

section \<open>A routed call, step by step\<close>

text \<open>
  A concrete catalog and one call that is admitted, published, claimed and completed, with what each step
  leaves in the record. The properties of the call scripts are applied to these states.
\<close>

definition example_call_token :: string where "example_call_token = replicate 64 CHR ''a''"

definition example_call_env :: call_env where
  "example_call_env = \<lparr>ve_sha1 = (\<lambda>x. CHR ''s'' # x), ve_sha256 = (\<lambda>x. CHR ''h'' # x),
     ve_trim = (\<lambda>m. filter (\<lambda>e. m \<le> fst e))\<rparr>"

definition example_routing :: "int \<Rightarrow> catalog_map" where
  "example_routing expires =
     [''tools'' \<mapsto> Json \<lparr>e_state = EntryActive, e_toolset = None, e_fingerprint = [], e_revision = ''1'', e_wire = 1,
        e_token = example_call_token, e_registered_at = [],
        e_leases = Some [(''L'', \<lparr>pl_expires = expires, pl_draining = False\<rparr>)], e_retired = Some {},
        e_epoch = 0, e_last_pong = 0\<rparr>]"

definition no_call :: call_state where
  "no_call = \<lparr>cs_hash = None, cs_expire = None, cs_results = [], cs_results_expire = None, cs_settlement = None,
     cs_lease_index = Map.empty, cs_membership = None, cs_requests = \<lparr>rs_entries = [], rs_groups = []\<rparr>\<rparr>"

definition example_ensure :: call_op where
  "example_ensure = OpEnsure \<lparr>en_digest = ''d'', en_tool_use_id = ''u'', en_registration_token = example_call_token,
     en_execution_timeout = 1000, en_ttl = 9000, en_outcome_unknown_payload = ''?'', en_catalog_field = ''tools''\<rparr> 1000"

definition example_publish :: "string \<Rightarrow> nat \<Rightarrow> call_op" where
  "example_publish retry now = OpPublish (example_routing 5000)
     \<lparr>pu_bound = 10, pu_payload = ''call'', pu_digest = ''d'', pu_overload_event_id = retry,
      pu_catalog_field = ''tools'', pu_registration_token = example_call_token\<rparr> now (now, 0)"

definition example_provider :: "string \<Rightarrow> provider_args" where
  "example_provider request = \<lparr>pa_tool_use_id = ''u'', pa_call_token = example_call_token, pa_catalog_field = ''tools'',
     pa_provider_token = example_call_token, pa_lease = ''L'', pa_request = request\<rparr>"


lemma example_call_token_not_Nil [simp]: "example_call_token \<noteq> []"
  by (simp add: example_call_token_def)

definition example_admitted :: call_state where
  "example_admitted = exec_call example_call_env example_ensure no_call"

definition example_published :: call_state where
  "example_published = exec_call example_call_env (example_publish [] 1001) example_admitted"

lemma no_call_simps [simp]: "cs_hash no_call = None" "cs_requests no_call = \<lparr>rs_entries = [], rs_groups = []\<rparr>"
  "cs_results no_call = []" "cs_lease_index no_call = Map.empty" "hget no_call f = None"
  by (simp_all add: no_call_def hget_def)

lemma hget_admitted [simp]:
  "hget example_admitted f = map_of
     [(F_decision, ''admitted''), (F_digest, ''d''), (F_tool_use_id, ''u''), (F_registration_token, example_call_token),
      (F_execution_deadline, dec 2000), (F_expires_at, dec 10000), (F_published, ''0''), (F_overload, []),
      (F_terminal, ''0''), (F_terminal_event_id, []), (F_terminal_digest, []), (F_terminal_payload, []),
      (F_terminal_cause, []), (F_outcome_unknown_payload, ''?''), (F_catalog_field, ''tools''),
      (F_output_delta_count, ''0''), (F_overload_event_id, []), (F_overload_retry_after_ms, ''0''),
      (F_dispatch_provider_token, []), (F_dispatch_provider_lease, []), (F_dispatch_request_event_id, [])] f"
  by (simp add: example_admitted_def example_ensure_def ensureCallAdmission_def hget_hset fresh_fields_def Let_def)

lemma example_admitted_requests [simp]: "cs_requests example_admitted = \<lparr>rs_entries = [], rs_groups = []\<rparr>"
  by (simp add: example_admitted_def example_ensure_def ensureCallAdmission_def Let_def)

lemma hget_published [simp]:
  "hget example_published f =
     (if f = F_published then Some ''1'' else if f = F_publication_event_id then Some (show_ref (1001, 0))
      else if f = F_claim (show_ref (1001, 0)) then Some ''1'' else hget example_admitted f)"
  by (simp add: example_published_def example_publish_def boundedPublish_def hnum_def bounded_append_def
      stream_backlog_def trim_ref_def example_routing_def routable_at_def leases_def Let_def hget_hset)

definition example_lease_index :: string where
  "example_lease_index = leaseSettlementKey example_call_token ''L''"

definition example_dispatched :: call_state where
  "example_dispatched = (hset
     [(F_dispatch_provider_token, example_call_token), (F_dispatch_provider_lease, ''L''),
      (F_dispatch_request_event_id, show_ref (1001, 0)), (F_dispatch_lease_expires, dec 5000)] example_published)
     \<lparr>cs_settlement := Some 2000, cs_lease_index := (cs_lease_index example_published)(example_lease_index \<mapsto> 2000),
      cs_membership := Some example_lease_index\<rparr>"

lemma example_lease_check:
  "now < 5000 \<Longrightarrow> provider_lease_check (example_routing 5000) (example_provider r) now = Inr 5000"
  by (simp add: provider_lease_check_def example_routing_def leases_def example_provider_def)

lemma example_provider_simps [simp]:
  "pa_request (example_provider r) = r" "pa_provider_token (example_provider r) = example_call_token"
  "pa_call_token (example_provider r) = example_call_token" "pa_lease (example_provider r) = ''L''"
  "pa_tool_use_id (example_provider r) = ''u''" "pa_catalog_field (example_provider r) = ''tools''"
  by (simp_all add: example_provider_def)

lemma example_claim:
  "claimCallAdmission sha (example_routing 5000) (example_provider (show_ref (1001, 0))) p 1002 eid example_published =
     (example_dispatched, Inr ClaimExecute)"
  by (simp add: claimCallAdmission_def example_lease_check hnum_def identity_changed_def hget_Some_hash [of _ F_digest]
      example_dispatched_def example_lease_index_def Let_def)

lemma hget_dispatched [simp]:
  "hget example_dispatched f =
     (if f = F_dispatch_provider_token then Some example_call_token else if f = F_dispatch_provider_lease then Some ''L''
      else if f = F_dispatch_request_event_id then Some (show_ref (1001, 0))
      else if f = F_dispatch_lease_expires then Some (dec 5000) else hget example_published f)"
  by (simp add: example_dispatched_def hget_hset)

lemma example_dispatched_indexes [simp]:
  "cs_settlement example_dispatched = Some 2000" "cs_membership example_dispatched = Some example_lease_index"
  by (simp_all add: example_dispatched_def)

definition example_completed :: call_state where
  "example_completed = unindex example_lease_index
     (commit_terminal (1003, 0) (CHR ''h'' # ''done'') ''done'' ''provider'' 10000 example_dispatched)"

lemma example_complete:
  "completeCallAdmission sha1 (\<lambda>x. CHR ''h'' # x) (example_routing 5000) (example_provider (show_ref (1001, 0))) ''done''
     1003 (1003, 0) example_dispatched = (example_completed, Inr (1, show_ref (1003, 0)))"
  by (simp add: completeCallAdmission_def example_lease_check hnum_def identity_changed_def owns_dispatch_def
      example_completed_def example_lease_index_def Let_def)

lemma hget_completed [simp]:
  "hget example_completed f =
     (if f = F_terminal then Some ''1'' else if f = F_terminal_event_id then Some (show_ref (1003, 0))
      else if f = F_terminal_digest then Some (CHR ''h'' # ''done'') else if f = F_terminal_payload then Some ''done''
      else if f = F_terminal_cause then Some ''provider'' else hget example_dispatched f)"
  by (simp add: example_completed_def hget_commit)

lemma example_run:
  "run_ops (exec_call example_call_env) [example_ensure, example_publish [] 1001] no_call = example_published"
  by (simp add: example_published_def example_admitted_def)

end
