(* ===== verification/Call_Safety.thy ===== *)
theory Call_Safety
  imports Call_Example
begin

section \<open>Safety of routed calls\<close>

text \<open>
  What the scripts of \<open>Call_Record\<close> guarantee together, over every sequence of operations that any
  number of registry replicas, callers and providers can produce on one call: each script is atomic, so
  a run of the system is a list of \<open>call_op\<close>.
\<close>

subsection \<open>Terminal records are frozen\<close>

lemma terminal_step:
  assumes t: "hget s F_terminal = Some ''1''" and "op \<noteq> OpExpire" "f \<noteq> F_terminal_event_id"
    "f \<noteq> F_decision \<or> hget s F_decision \<noteq> None"
  shows "hget (exec_call v op s) f = hget s f"
proof (cases op)
  case (OpEnsure a now)
  then show ?thesis using assms hget_Some_hash [OF t] by (cases a now s rule: ensure_cases) simp_all
next
  case (OpMigrate d now)
  then show ?thesis using assms by (cases d s rule: migrate_cases) (auto simp: hget_hset)
next
  case (OpReject d k m ttl now)
  then show ?thesis using assms hget_Some_hash [OF t] by (cases d k m ttl now s rule: reject_cases) simp_all
next
  case (OpPublish cat a now eid)
  then show ?thesis using assms by (cases "ve_trim v" cat a now eid s rule: publish_cases) simp_all
next
  case (OpClaim cat a stale now eid)
  then show ?thesis using assms by (cases "ve_sha256 v" cat a stale now eid s rule: claim_cases) simp_all
next
  case (OpLive cat a p now eid)
  then show ?thesis using assms by (cases cat a p now eid s rule: live_cases) simp_all
next
  case (OpOverload cat a p stale now eid)
  then show ?thesis using assms by (cases "ve_sha256 v" cat a p stale now eid s rule: overload_cases) simp_all
next
  case (OpComplete cat a p now eid)
  then show ?thesis using assms
    by (cases "ve_sha1 v" "ve_sha256 v" cat a p now eid s rule: complete_cases) simp_all
next
  case (OpRestore now eid)
  then show ?thesis using assms by (simp add: restore_frame)
next
  case (OpSettle cat c now eid)
  then show ?thesis using assms by (cases "ve_sha1 v" cat c now eid s rule: settle_cases) simp_all
qed (use assms in simp_all)

definition terminal_as :: "field \<times> string option \<Rightarrow> call_state \<Rightarrow> bool" where
  "terminal_as k s \<longleftrightarrow> hget s F_terminal = Some ''1'' \<and> hget s (fst k) = snd k"

definition keeps_terminal :: "field \<times> string option \<Rightarrow> call_op \<Rightarrow> call_state \<Rightarrow> bool" where
  "keeps_terminal k op s \<longleftrightarrow> op \<noteq> OpExpire \<and> fst k \<notin> {F_terminal_event_id, F_decision}"

interpretation terminal: stable_fact "exec_call v" "\<lambda>_ _. True" "\<lambda>_. True" terminal_as keeps_terminal for v
  by unfold_locales (auto simp: terminal_as_def keeps_terminal_def terminal_step)

lemma terminal_run:
  assumes "hget s F_terminal = Some ''1''" "OpExpire \<notin> set ops" "f \<notin> {F_terminal_event_id, F_decision}"
  shows "hget (run_ops (exec_call v) ops s) f = hget s f"
proof -
  have "legal_ops (exec_call v) (\<lambda>op s. True \<and> keeps_terminal (f, hget s0 f) op s) ops s" for s0
    using assms(2,3) by (intro legal_ops_static) (auto simp: keeps_terminal_def)
  from terminal.ops_stable [OF TrueI this [of s]] show ?thesis
    using assms(1) by (simp add: terminal_as_def)
qed

lemma terminal_claim:
  "hget s F_terminal = Some ''1'' \<Longrightarrow>
   fst (claimCallAdmission sha cat a p now eid s) = s \<and>
   snd (claimCallAdmission sha cat a p now eid s) \<noteq> Inr ClaimExecute"
  by (cases sha cat a p now eid s rule: claim_cases) simp_all

lemma complete_again:
  assumes "\<not> identity_changed a s" "owns_dispatch a s" "provider_lease_check cat a now = Inr l"
    "hget s (F_claim (pa_request a)) \<noteq> None" "hnum s F_expires_at = Some x" "now < x"
    "hget s F_terminal = Some ''1''" "hget s F_terminal_cause \<noteq> Some ''execution_deadline''"
  shows "snd (completeCallAdmission sha1 sha cat a p now eid s) =
    (if hget s F_terminal_digest = Some (sha p) then Inr (0, htext s F_terminal_event_id) else Inl TerminalConflict)"
  using assms by (simp add: completeCallAdmission_def)

text \<open>
  Property C16. A terminal result is final. Once a call's record is terminal, no sequence of operations
  short of the record's expiry changes any field of it but the event identifier, which \<open>RestoreTerminal\<close>
  may refresh: the outcome, its digest and its cause are the ones first committed. No provider is
  granted dispatch again, and a completion with the same payload, by the provider that owns the
  dispatch and while its lease is live, is answered with status 0 and no change, one with another
  payload is refused.
\<close>

theorem terminal_result_is_final:
  assumes "hget s F_terminal = Some ''1''" "OpExpire \<notin> set ops"
    and s'_def: "s' = run_ops (exec_call v) ops s"
  shows "(\<forall>f. f \<notin> {F_terminal_event_id, F_decision} \<longrightarrow> hget s' f = hget s f) \<and>
    (\<forall>sha cat a p now eid. snd (claimCallAdmission sha cat a p now eid s') \<noteq> Inr ClaimExecute) \<and>
    (\<forall>sha1 sha cat a p now eid.
       fst (completeCallAdmission sha1 sha cat a p now eid s') = s' \<and>
       (\<forall>x l. \<not> identity_changed a s \<and> owns_dispatch a s \<and> provider_lease_check cat a now = Inr l \<and>
          hget s (F_claim (pa_request a)) \<noteq> None \<and> hnum s F_expires_at = Some x \<and> now < x \<and>
          hget s F_terminal_cause \<noteq> Some ''execution_deadline'' \<longrightarrow>
          snd (completeCallAdmission sha1 sha cat a p now eid s') =
            (if hget s F_terminal_digest = Some (sha p) then Inr (0, htext s' F_terminal_event_id)
             else Inl TerminalConflict)))"
proof -
  have frozen: "hget s' f = hget s f" if "f \<notin> {F_terminal_event_id, F_decision}" for f
    using terminal_run [OF assms(1,2) that] by (simp add: s'_def)
  then have t: "hget s' F_terminal = Some ''1''" using assms(1) by simp
  have same: "fst (completeCallAdmission sha1 sha cat a p now eid s') = s'" for sha1 sha cat a p now eid
    using t by (cases sha1 sha cat a p now eid s' rule: complete_cases) simp_all
  have x: "hnum s' F_expires_at = hnum s F_expires_at" by (simp add: hnum_def frozen)
  have a: "identity_changed a s' = identity_changed a s" "owns_dispatch a s' = owns_dispatch a s" for a
    by (simp_all add: identity_changed_def owns_dispatch_def frozen)
  have again: "snd (completeCallAdmission sha1 sha cat a p now eid s') =
      (if hget s F_terminal_digest = Some (sha p) then Inr (0, htext s' F_terminal_event_id) else Inl TerminalConflict)"
    if "\<not> identity_changed a s" "owns_dispatch a s" "provider_lease_check cat a now = Inr l"
      "hget s (F_claim (pa_request a)) \<noteq> None" "hnum s F_expires_at = Some x" "now < x"
      "hget s F_terminal_cause \<noteq> Some ''execution_deadline''" for sha1 sha cat a p now eid l x
    using complete_again [of a s' cat now l x sha1 sha p eid] that t by (simp add: frozen x a)
  show ?thesis
  proof (intro conjI allI impI, goal_cases)
    case (1 f)
    then show ?case by (rule frozen)
  next
    case 2
    show ?case by (rule conjunct2 [OF terminal_claim [OF t]])
  next
    case 3
    show ?case by (rule same)
  next
    case 4
    then show ?case by (elim conjE) (rule again)
  qed
qed

theorem terminal_result_is_final_witness:
  "let s' = run_ops (exec_call example_call_env)
         [OpResultsExpire, OpRestore 1500 (1500, 0), OpSettle (example_routing 0) ''execution_deadline'' 3000 (3000, 0)]
         example_completed
   in hget s' F_terminal_payload = Some ''done'' \<and>
      snd (completeCallAdmission (\<lambda>x. x) (\<lambda>x. CHR ''h'' # x) (example_routing 5000)
             (example_provider (show_ref (1001, 0))) ''other'' 3001 (3001, 0) s') = Inl TerminalConflict"
proof -
  define s' where "s' = run_ops (exec_call example_call_env)
         [OpResultsExpire, OpRestore 1500 (1500, 0), OpSettle (example_routing 0) ''execution_deadline'' 3000 (3000, 0)]
         example_completed"
  note f = terminal_result_is_final [OF _ _ s'_def]
  have "hget s' F_terminal_payload = hget example_completed F_terminal_payload"
    using f by simp
  moreover have "snd (completeCallAdmission (\<lambda>x. x) (\<lambda>x. CHR ''h'' # x) (example_routing 5000)
        (example_provider (show_ref (1001, 0))) ''other'' 3001 (3001, 0) s') =
      (if hget example_completed F_terminal_digest = Some (CHR ''h'' # ''other'')
       then Inr (0, htext s' F_terminal_event_id) else Inl TerminalConflict)"
    using f example_lease_check [of 3001 "show_ref (1001, 0)"]
    by (simp add: identity_changed_def owns_dispatch_def hnum_def)
  ultimately show ?thesis unfolding Let_def s'_def [symmetric] by simp
qed

subsection \<open>One dispatch per call\<close>

text \<open>A claimable request or a granted dispatch exists only in a published record.\<close>

definition claims_published :: "call_state \<Rightarrow> bool" where
  "claims_published s \<longleftrightarrow>
     (\<forall>e. hget s (F_claim e) \<noteq> None \<longrightarrow> hget s F_published = Some ''1'') \<and>
     (hget s F_dispatch_provider_token \<notin> {None, Some []} \<longrightarrow> hget s F_published = Some ''1'')"

lemma claims_published_missing: "cs_hash s = None \<Longrightarrow> claims_published s"
  by (simp add: claims_published_def hget_missing)

lemma claims_published_exec:
  assumes inv: "claims_published s"
  shows "claims_published (exec_call v op s)"
proof (cases op)
  case (OpEnsure a now)
  then show ?thesis using inv
    by (cases a now s rule: ensure_cases)
      (simp_all add: claims_published_def hget_hset hget_missing fresh_fields_def)
next
  case (OpMigrate d now)
  then show ?thesis using inv
    by (cases d s rule: migrate_cases) (simp_all add: claims_published_def hget_hset)
next
  case (OpReject d k m ttl now)
  then show ?thesis using inv
    by (cases d k m ttl now s rule: reject_cases) (simp_all add: claims_published_def hget_hset)
next
  case (OpPublish cat a now eid)
  then show ?thesis using inv
    by (cases "ve_trim v" cat a now eid s rule: publish_cases) (simp_all add: claims_published_def hget_hset)
next
  case (OpClaim cat a stale now eid)
  then show ?thesis using inv
    by (cases "ve_sha256 v" cat a stale now eid s rule: claim_cases)
      (auto simp: claims_published_def hget_hset hget_commit)
next
  case (OpLive cat a p now eid)
  then show ?thesis using inv
    by (cases cat a p now eid s rule: live_cases) (simp_all add: claims_published_def hget_hset)
next
  case (OpOverload cat a p stale now eid)
  then show ?thesis using inv
    by (cases "ve_sha256 v" cat a p stale now eid s rule: overload_cases)
      (simp_all add: claims_published_def hget_hset hget_commit)
next
  case (OpComplete cat a p now eid)
  then show ?thesis using inv
    by (cases "ve_sha1 v" "ve_sha256 v" cat a p now eid s rule: complete_cases)
      (simp_all add: claims_published_def hget_commit)
next
  case (OpRestore now eid)
  then show ?thesis using inv by (simp add: claims_published_def restore_frame)
next
  case (OpSettle cat c now eid)
  then show ?thesis using inv
    by (cases "ve_sha1 v" cat c now eid s rule: settle_cases) (simp_all add: claims_published_def hget_commit)
qed (use inv in \<open>simp_all add: claims_published_def\<close>)

interpretation published_claims: kept_invariant "exec_call v" "\<lambda>_ _. True" claims_published for v
  by unfold_locales (rule claims_published_exec)

text \<open>Publication fixes the decision: the request's identity, provider token, deadlines and routing.\<close>

definition published_fields :: "field set" where
  "published_fields =
     {F_digest, F_tool_use_id, F_registration_token, F_execution_deadline, F_expires_at, F_published,
      F_outcome_unknown_payload, F_catalog_field} \<union> range F_claim"

definition dispatch_fields :: "field set" where
  "dispatch_fields = {F_dispatch_provider_token, F_dispatch_provider_lease, F_dispatch_request_event_id,
     F_dispatch_lease_expires}"

lemma published_step:
  assumes p: "hget s F_published = Some ''1''" and "op \<noteq> OpExpire"
    and f: "f \<in> published_fields \<and> (\<forall>e. f = F_claim e \<longrightarrow> hget s f = Some ''1'') \<or>
      f \<in> dispatch_fields \<and> hget s F_dispatch_provider_token \<noteq> Some []"
  shows "hget (exec_call v op s) f = hget s f"
proof (cases op)
  case (OpEnsure a now)
  then show ?thesis using p hget_Some_hash [OF p] by (cases a now s rule: ensure_cases) simp_all
next
  case (OpMigrate d now)
  then show ?thesis using f
    by (cases d s rule: migrate_cases) (auto simp: hget_hset published_fields_def dispatch_fields_def)
next
  case (OpReject d k m ttl now)
  then show ?thesis using p hget_Some_hash [OF p] by (cases d k m ttl now s rule: reject_cases) simp_all
next
  case (OpPublish cat a now eid)
  then show ?thesis using f p
    by (cases "ve_trim v" cat a now eid s rule: publish_cases)
      (auto simp: hget_hset published_fields_def dispatch_fields_def)
next
  case (OpClaim cat a stale now eid)
  then show ?thesis using f
    by (cases "ve_sha256 v" cat a stale now eid s rule: claim_cases)
      (auto simp: hget_hset hget_commit published_fields_def dispatch_fields_def)
next
  case (OpLive cat a p now eid)
  then show ?thesis using f
    by (cases cat a p now eid s rule: live_cases) (auto simp: hget_hset published_fields_def dispatch_fields_def)
next
  case (OpOverload cat a p stale now eid)
  then show ?thesis using f
    by (cases "ve_sha256 v" cat a p stale now eid s rule: overload_cases)
      (auto simp: hget_hset hget_commit published_fields_def dispatch_fields_def)
next
  case (OpComplete cat a p now eid)
  then show ?thesis using f
    by (cases "ve_sha1 v" "ve_sha256 v" cat a p now eid s rule: complete_cases)
      (auto simp: hget_commit published_fields_def dispatch_fields_def)
next
  case (OpRestore now eid)
  then show ?thesis using f by (auto simp: restore_frame published_fields_def dispatch_fields_def)
next
  case (OpSettle cat c now eid)
  then show ?thesis using f
    by (cases "ve_sha1 v" cat c now eid s rule: settle_cases)
      (auto simp: hget_commit published_fields_def dispatch_fields_def)
qed (use assms in simp_all)

definition published_as :: "field \<times> string option \<Rightarrow> call_state \<Rightarrow> bool" where
  "published_as k s \<longleftrightarrow> hget s F_published = Some ''1'' \<and> hget s (fst k) = snd k"

definition dispatched_as :: "provider_args \<Rightarrow> call_state \<Rightarrow> bool" where
  "dispatched_as a s \<longleftrightarrow> hget s F_published = Some ''1'' \<and> owns_dispatch a s \<and> pa_provider_token a \<noteq> []"

lemma published_as_exec:
  "op \<noteq> OpExpire \<Longrightarrow> fst k \<in> published_fields - range F_claim \<Longrightarrow> published_as k s \<Longrightarrow> published_as k (exec_call v op s)"
  using published_step [of s op F_published v] published_step [of s op "fst k" v]
  by (auto simp: published_as_def published_fields_def)

lemma dispatched_as_exec:
  assumes "op \<noteq> OpExpire" "dispatched_as a s"
  shows "dispatched_as a (exec_call v op s)"
proof -
  have "hget (exec_call v op s) f = hget s f" if "f \<in> dispatch_fields \<or> f = F_published" for f
    using assms that
    by (intro published_step) (auto simp: dispatched_as_def owns_dispatch_def published_fields_def)
  then show ?thesis
    using assms(2) by (simp add: dispatched_as_def owns_dispatch_def dispatch_fields_def)
qed

interpretation published: stable_fact "exec_call v" "\<lambda>_ _. True" "\<lambda>_. True" published_as
  "\<lambda>k op _. op \<noteq> OpExpire \<and> fst k \<in> published_fields - range F_claim" for v
  by unfold_locales (blast intro: published_as_exec)+

interpretation dispatched: stable_fact "exec_call v" "\<lambda>_ _. True" "\<lambda>_. True" dispatched_as "\<lambda>a op _. op \<noteq> OpExpire" for v
  by unfold_locales (blast intro: dispatched_as_exec)+

lemma published_run:
  assumes "hget s F_published = Some ''1''" "OpExpire \<notin> set ops" "f \<in> published_fields - range F_claim"
  shows "hget (run_ops (exec_call v) ops s) f = hget s f"
proof -
  have "legal_ops (exec_call v) (\<lambda>op _. True \<and> (op \<noteq> OpExpire \<and> fst (f, hget s f) \<in> published_fields - range F_claim)) ops s"
    using assms(2,3) by (intro legal_ops_static) auto
  from published.ops_stable [OF TrueI this] show ?thesis
    using assms(1) by (simp add: published_as_def)
qed

lemma dispatched_run:
  assumes "dispatched_as a s" "OpExpire \<notin> set ops"
  shows "dispatched_as a (run_ops (exec_call v) ops s)"
  using assms by (intro dispatched.ops_stable legal_ops_static) auto

lemma dispatched_excludes:
  assumes "dispatched_as a s"
  shows "fst (claimCallAdmission sha cat b p now eid s) = s"
    "snd (claimCallAdmission sha cat b p now eid s) \<noteq> Inr ClaimExecute"
    "\<not> owns_dispatch b s \<Longrightarrow> fst (completeCallAdmission sha1 sha cat b p now eid s) = s"
    "\<not> owns_dispatch b s \<Longrightarrow> fst (publishLiveCallEvent cat b p now eid s) = s"
    "fst (reportOverloadCall sha cat b p q now eid s) = s"
proof -
  have d: "hget s F_dispatch_provider_token \<noteq> Some []"
    using assms by (simp add: dispatched_as_def owns_dispatch_def)
  show "fst (claimCallAdmission sha cat b p now eid s) = s"
    "snd (claimCallAdmission sha cat b p now eid s) \<noteq> Inr ClaimExecute"
    using d by (cases sha cat b p now eid s rule: claim_cases; simp)+
  show "\<not> owns_dispatch b s \<Longrightarrow> fst (completeCallAdmission sha1 sha cat b p now eid s) = s"
    by (cases sha1 sha cat b p now eid s rule: complete_cases; simp)
  show "\<not> owns_dispatch b s \<Longrightarrow> fst (publishLiveCallEvent cat b p now eid s) = s"
    by (cases cat b p now eid s rule: live_cases; simp)
  show "fst (reportOverloadCall sha cat b p q now eid s) = s"
    using d by (cases sha cat b p q now eid s rule: overload_cases; simp)
qed

lemma claim_execute_dispatches:
  assumes "claims_published s" "claimCallAdmission sha cat a p now eid s = (s', Inr ClaimExecute)"
    "pa_provider_token a \<noteq> []"
  shows "dispatched_as a s'"
proof (cases sha cat a p now eid s rule: claim_cases)
  case (granted leaseExpires deadline)
  with assms show ?thesis
    by (auto simp: dispatched_as_def owns_dispatch_def hget_hset claims_published_def)
qed (use assms in auto)

text \<open>
  Property C17. A call is dispatched once. Start from an unused tool-use identity, let any operations
  happen, and let a claim be granted. Until the record expires, whatever operations follow: the granted
  provider, lease and request event keep owning the dispatch, no claim by anybody is granted again, an
  overload report changes nothing, and no other provider, lease or request event can complete the call
  or publish live output to it.
\<close>

theorem dispatch_is_exclusive:
  assumes "cs_hash s0 = None" "s1 = run_ops (exec_call v) ops1 s0"
    and "claimCallAdmission sha cat a p now eid s1 = (s2, Inr ClaimExecute)" "pa_provider_token a \<noteq> []"
    and "OpExpire \<notin> set ops2" "s3 = run_ops (exec_call v) ops2 s2"
  shows "owns_dispatch a s3 \<and>
    (\<forall>sha cat b p now eid. fst (claimCallAdmission sha cat b p now eid s3) = s3 \<and>
       snd (claimCallAdmission sha cat b p now eid s3) \<noteq> Inr ClaimExecute) \<and>
    (\<forall>sha cat b p q now eid. fst (reportOverloadCall sha cat b p q now eid s3) = s3) \<and>
    (\<forall>b. (pa_provider_token b, pa_lease b, pa_request b) \<noteq> (pa_provider_token a, pa_lease a, pa_request a) \<longrightarrow>
       (\<forall>sha1 sha cat p now eid. fst (completeCallAdmission sha1 sha cat b p now eid s3) = s3 \<and>
          fst (publishLiveCallEvent cat b p now eid s3) = s3))"
proof -
  have "claims_published s1"
    unfolding assms(2) using assms(1)
    by (intro published_claims.ops_keep claims_published_missing legal_ops_static) simp_all
  then have d: "dispatched_as a s3"
    unfolding assms(6) by (intro dispatched_run claim_execute_dispatches [OF _ assms(3,4)] assms(5))
  then have o: "owns_dispatch a s3" by (simp add: dispatched_as_def)
  have other: "\<not> owns_dispatch b s3"
    if "(pa_provider_token b, pa_lease b, pa_request b) \<noteq> (pa_provider_token a, pa_lease a, pa_request a)" for b
    using o that by (auto simp: owns_dispatch_def)
  show ?thesis
    by (intro conjI allI impI o dispatched_excludes [OF d] other)
qed

theorem dispatch_is_exclusive_witness:
  "let s3 = run_ops (exec_call example_call_env)
         [OpLive (example_routing 5000) (example_provider (show_ref (1001, 0))) ''out'' 1003 (1003, 0)] example_dispatched
   in owns_dispatch (example_provider (show_ref (1001, 0))) s3 \<and>
      snd (claimCallAdmission id (example_routing 5000) ((example_provider (show_ref (1001, 0)))\<lparr>pa_lease := ''M''\<rparr>)
             ''x'' 1004 (1004, 0) s3) \<noteq> Inr ClaimExecute"
  using dispatch_is_exclusive [OF _ example_run [symmetric] example_claim [of id "''x''" "(1002, 0)"] _ _ refl,
      of "[OpLive (example_routing 5000) (example_provider (show_ref (1001, 0))) ''out'' 1003 (1003, 0)]"]
  by simp

text \<open>
  Property C18. A published decision is final. Once a call's request is published, until its record
  expires, no operation changes the request digest, the tool-use identity, the provider token the call
  was admitted for, its deadlines, its routing or its outcome-unknown payload; the call can no longer be
  rejected or rebound to another provider token; and the request is not published a second time unless
  the publisher names an overload event to retry.
\<close>

theorem published_decision_is_final:
  assumes "hget s F_published = Some ''1''" "OpExpire \<notin> set ops" "s' = run_ops (exec_call v) ops s"
  shows "(\<forall>f \<in> {F_digest, F_tool_use_id, F_registration_token, F_execution_deadline, F_expires_at, F_published,
            F_outcome_unknown_payload, F_catalog_field}. hget s' f = hget s f) \<and>
    (\<forall>d k m ttl now. fst (rejectCallAdmission d k m ttl now s') = s') \<and>
    (\<forall>a now. fst (ensureCallAdmission a now s') = s') \<and>
    (\<forall>trim cat a now eid. pu_overload_event_id a = [] \<longrightarrow> fst (boundedPublish trim cat a now eid s') = s')"
proof -
  have frozen: "\<forall>f \<in> {F_digest, F_tool_use_id, F_registration_token, F_execution_deadline, F_expires_at, F_published,
            F_outcome_unknown_payload, F_catalog_field}. hget s' f = hget s f"
    unfolding assms(3) by (intro ballI published_run [OF assms(1,2)]) (auto simp: published_fields_def)
  then have p: "hget s' F_published = Some ''1''" using assms(1) by simp
  show ?thesis
  proof (intro conjI allI impI, goal_cases)
    case 1
    show ?case by (rule frozen)
  next
    case (2 d k m ttl now)
    show ?case using p hget_Some_hash [OF p] by (cases d k m ttl now s' rule: reject_cases) simp_all
  next
    case (3 a now)
    show ?case using p hget_Some_hash [OF p] by (cases a now s' rule: ensure_cases) simp_all
  next
    case (4 trim cat a now eid)
    then show ?case using p by (cases trim cat a now eid s' rule: publish_cases) simp_all
  qed
qed

theorem published_decision_is_final_witness:
  "let s' = run_ops (exec_call example_call_env)
         [OpReject ''d'' ''not_found'' ''gone'' 10 1002, OpClaim (example_routing 5000) (example_provider (show_ref (1001, 0)))
            ''x'' 1003 (1003, 0)] example_published
   in hget s' F_registration_token = Some example_call_token \<and>
      fst (rejectCallAdmission ''d'' ''not_found'' ''gone'' 10 1004 s') = s'"
  using published_decision_is_final [OF _ _ refl, of example_published
      "[OpReject ''d'' ''not_found'' ''gone'' 10 1002, OpClaim (example_routing 5000) (example_provider (show_ref (1001, 0)))
            ''x'' 1003 (1003, 0)]" example_call_env]
  by (simp del: run_ops.simps)

end
