(* ===== verification/Tool_Policy.thy ===== *)
theory Tool_Policy
  imports Go_Prelude
begin

section \<open>Tool policy and execution caps\<close>

text \<open>
  What decides whether a tool call the planner asked for runs: the rewriting of unknown and denied calls
  to the runtime's own \<open>tool_unavailable\<close> tool (\<open>tool_unavailable.go\<close>), the per-run overrides
  (\<open>tool_policy.go\<close>), the pluggable policy engine and its application (\<open>workflow_policy.go\<close>,
  \<open>features/policy/basic/engine.go\<close>) and the caps on tool calls and consecutive failures
  (\<open>helpers.go\<close>). The runtime's two tool tables are written together by \<open>addToolSpecsLocked\<close>, so the
  model keeps one map from names to specification and policy metadata. JSON encoding, the policy engine
  and the publication of the decision event are arguments.
\<close>

subsection \<open>Data\<close>

record tool_request =
  tr_name :: string
  tr_payload :: string
  tr_model_name :: string
  tr_model_payload :: string
  tr_agent_id :: string
  tr_run_id :: string
  tr_session_id :: string
  tr_labels :: "string \<rightharpoonup> string"
  tr_turn_id :: string
  tr_tool_call_id :: string
  tr_parent_tool_call_id :: string
  tr_continuation_root :: string

definition TranscriptName :: "tool_request \<Rightarrow> string" where
  "TranscriptName r = (if tr_model_name r \<noteq> [] then tr_model_name r else tr_name r)"

definition TranscriptPayload :: "tool_request \<Rightarrow> string" where
  "TranscriptPayload r = (if tr_model_payload r \<noteq> [] then tr_model_payload r else tr_payload r)"

definition ToolUnavailable :: string where
  "ToolUnavailable = ''runtime.tool_unavailable''"

datatype budget_class = Budgeted | Bookkeeping

record tool_metadata =
  md_id :: string
  md_title :: string
  md_description :: string
  md_tags :: "string list"
  md_budget_class :: budget_class

record tool_spec =
  sp_name :: string
  sp_description :: string
  sp_tags :: "string list"
  sp_terminal_run :: bool
  sp_bookkeeping :: bool

record caps_state =
  MaxToolCalls :: int
  RemainingToolCalls :: int
  MaxConsecutiveFailedToolCalls :: int
  RemainingConsecutiveFailedToolCalls :: int

record tag_clause =
  AllowedAny :: "string list"
  DeniedAny :: "string list"

datatype policy_error =
    EncodeUnavailable string
  | PolicyEngineFailed string
  | ToolsDisabled
  | PublishFailed string
  | NegativeRemainingPanic

type_synonym tool_table = "string \<rightharpoonup> tool_spec \<times> tool_metadata"
type_synonym marshal = "string \<Rightarrow> string \<Rightarrow> (string, string) result"

subsection \<open>Registered tools\<close>

text \<open>Titles are presentation only and left to an argument.\<close>

definition toolBudgetClass :: "bool \<Rightarrow> budget_class" where
  "toolBudgetClass bookkeeping = (if bookkeeping then Bookkeeping else Budgeted)"

definition canonicalToolMetadata ::
  "(string \<Rightarrow> string) \<Rightarrow> tool_spec \<Rightarrow> (string \<Rightarrow> tool_metadata option) option \<Rightarrow> tool_metadata option" where
  "canonicalToolMetadata title spec lookup =
     (case lookup of
        Some f \<Rightarrow> f (sp_name spec)
      | None \<Rightarrow> Some \<lparr>md_id = sp_name spec, md_title = title (sp_name spec), md_description = sp_description spec,
                      md_tags = sp_tags spec, md_budget_class = toolBudgetClass (sp_bookkeeping spec)\<rparr>)"

text \<open>\<open>None\<close> is the panic on a lookup that does not know a specification it is registered with.\<close>

fun addToolSpecsLocked ::
  "(string \<Rightarrow> string) \<Rightarrow> tool_spec list \<Rightarrow> (string \<Rightarrow> tool_metadata option) option \<Rightarrow> tool_table \<Rightarrow> tool_table option" where
  "addToolSpecsLocked title [] lookup tbl = Some tbl"
| "addToolSpecsLocked title (spec # specs) lookup tbl =
     (case canonicalToolMetadata title spec lookup of
        None \<Rightarrow> None
      | Some meta \<Rightarrow> addToolSpecsLocked title specs lookup (tbl(sp_name spec \<mapsto> (spec, meta))))"

definition toolSpec :: "tool_table \<Rightarrow> string \<Rightarrow> tool_spec option" where
  "toolSpec tbl name = map_option fst (tbl name)"

definition policyMetadata :: "tool_table \<Rightarrow> string \<Rightarrow> tool_metadata option" where
  "policyMetadata tbl name = map_option snd (tbl name)"

definition isBookkeeping :: "tool_table \<Rightarrow> string \<Rightarrow> bool" where
  "isBookkeeping tbl name =
     (case policyMetadata tbl name of None \<Rightarrow> False | Some meta \<Rightarrow> md_budget_class meta = Bookkeeping)"

definition toolMetadata :: "(string \<Rightarrow> string) \<Rightarrow> tool_table \<Rightarrow> tool_request list \<Rightarrow> tool_metadata list" where
  "toolMetadata title tbl calls =
     map (\<lambda>call. case policyMetadata tbl (tr_name call) of
            Some meta \<Rightarrow> meta
          | None \<Rightarrow> \<lparr>md_id = tr_name call, md_title = title (tr_name call), md_description = [], md_tags = [],
                     md_budget_class = Budgeted\<rparr>) calls"

subsection \<open>Unavailable tools\<close>

definition rewriteToolCallUnavailable ::
  "marshal \<Rightarrow> tool_request \<Rightarrow> (policy_error, tool_request) result" where
  "rewriteToolCallUnavailable marshal call =
     (let requestedName = TranscriptName call;
          requestedPayload = TranscriptPayload call;
          call' = (if tr_model_name call = []
                   then call\<lparr>tr_model_name := requestedName, tr_model_payload := requestedPayload\<rparr> else call)
      in case marshal requestedName requestedPayload of
           Inl err \<Rightarrow> Inl (EncodeUnavailable (tr_name call))
         | Inr payload \<Rightarrow> Inr (call'\<lparr>tr_name := ToolUnavailable, tr_payload := payload\<rparr>))"

definition rewriteUnknownToolCalls ::
  "marshal \<Rightarrow> tool_table \<Rightarrow> tool_request list \<Rightarrow> (policy_error, tool_request list) result" where
  "rewriteUnknownToolCalls marshal tbl calls =
     traverse (\<lambda>call. if tr_name call = [] \<or> toolSpec tbl (tr_name call) \<noteq> None then Inr call
                      else rewriteToolCallUnavailable marshal call) calls"

subsection \<open>Per-run overrides\<close>

record compiled_policy =
  callerRestrictToTool :: string
  tagClauses :: "tag_clause list"

definition hasIntersection :: "string list \<Rightarrow> string list \<Rightarrow> bool" where
  "hasIntersection a b \<longleftrightarrow> a \<noteq> [] \<and> b \<noteq> [] \<and> list_ex (\<lambda>v. v \<in> set a) b"

definition tagClauseAllows :: "tag_clause \<Rightarrow> string list \<Rightarrow> bool" where
  "tagClauseAllows clause tags \<longleftrightarrow>
     \<not> (AllowedAny clause \<noteq> [] \<and> \<not> hasIntersection tags (AllowedAny clause)) \<and>
     \<not> (DeniedAny clause \<noteq> [] \<and> hasIntersection tags (DeniedAny clause))"

definition TagPolicyAllows :: "tag_clause list \<Rightarrow> string list \<Rightarrow> bool" where
  "TagPolicyAllows clauses tags \<longleftrightarrow> list_all (\<lambda>clause. tagClauseAllows clause tags) clauses"

definition allowsTool :: "compiled_policy \<Rightarrow> string \<Rightarrow> string list \<Rightarrow> bool" where
  "allowsTool p name tags \<longleftrightarrow>
     (if name = ToolUnavailable then True
      else if callerRestrictToTool p \<noteq> [] \<and> name \<noteq> callerRestrictToTool p then False
      else TagPolicyAllows (tagClauses p) tags)"

definition policy_isZero :: "compiled_policy \<Rightarrow> bool" where
  "policy_isZero p \<longleftrightarrow> callerRestrictToTool p = [] \<and> tagClauses p = []"

definition compileToolPolicy :: "(string \<times> tag_clause list) option \<Rightarrow> compiled_policy" where
  "compileToolPolicy overrides =
     (case overrides of
        None \<Rightarrow> \<lparr>callerRestrictToTool = [], tagClauses = []\<rparr>
      | Some (restrict, clauses) \<Rightarrow> \<lparr>callerRestrictToTool = restrict, tagClauses = clauses\<rparr>)"

definition advertisedToolDefinitions :: "tool_spec list \<Rightarrow> compiled_policy \<Rightarrow> tool_spec list" where
  "advertisedToolDefinitions specs p = filter (\<lambda>spec. allowsTool p (sp_name spec) (sp_tags spec)) specs"

definition applyPerRunOverrides ::
  "(string \<Rightarrow> string) \<Rightarrow> marshal \<Rightarrow> tool_table \<Rightarrow> (string \<times> tag_clause list) option \<Rightarrow> tool_request list \<Rightarrow>
   (policy_error, tool_request list) result" where
  "applyPerRunOverrides title marshal tbl overrides candidates =
     (let runPolicy = compileToolPolicy overrides
      in if candidates = [] \<or> policy_isZero runPolicy then Inr candidates
         else traverse (\<lambda>(call, meta). if allowsTool runPolicy (tr_name call) (md_tags meta) then Inr call
                                       else rewriteToolCallUnavailable marshal call)
                (zip candidates (toolMetadata title tbl candidates)))"

subsection \<open>Caps\<close>

definition initialCaps :: "int \<Rightarrow> int \<Rightarrow> caps_state" where
  "initialCaps maxCalls maxFailures =
     \<lparr>MaxToolCalls = maxCalls, RemainingToolCalls = maxCalls, MaxConsecutiveFailedToolCalls = maxFailures,
      RemainingConsecutiveFailedToolCalls = maxFailures\<rparr>"

text \<open>The caps a run starts with, after its own overrides.\<close>

definition runCaps :: "int \<Rightarrow> int \<Rightarrow> (int \<times> int) option \<Rightarrow> caps_state" where
  "runCaps maxCalls maxFailures overrides =
     (let caps = initialCaps maxCalls maxFailures
      in case overrides of
           None \<Rightarrow> caps
         | Some (calls, failures) \<Rightarrow>
             (let caps1 = (if calls > 0 then caps\<lparr>MaxToolCalls := calls, RemainingToolCalls := calls\<rparr> else caps)
              in if failures > 0
                 then caps1\<lparr>MaxConsecutiveFailedToolCalls := failures, RemainingConsecutiveFailedToolCalls := failures\<rparr>
                 else caps1))"

definition decrementCap :: "int \<Rightarrow> int \<Rightarrow> int" where
  "decrementCap current delta =
     (if current = 0 \<or> delta = 0 then current
      else if current - delta < 0 then 0 else current - delta)"

definition mergeCapDown :: "int \<Rightarrow> int \<Rightarrow> int" where
  "mergeCapDown current decision = (if current = 0 \<or> decision = 0 then current else min current decision)"

definition mergeCaps :: "caps_state \<Rightarrow> caps_state \<Rightarrow> caps_state" where
  "mergeCaps current decision =
     \<lparr>MaxToolCalls = mergeCapDown (MaxToolCalls current) (MaxToolCalls decision),
      RemainingToolCalls = mergeCapDown (RemainingToolCalls current) (RemainingToolCalls decision),
      MaxConsecutiveFailedToolCalls =
        mergeCapDown (MaxConsecutiveFailedToolCalls current) (MaxConsecutiveFailedToolCalls decision),
      RemainingConsecutiveFailedToolCalls =
        mergeCapDown (RemainingConsecutiveFailedToolCalls current) (RemainingConsecutiveFailedToolCalls decision)\<rparr>"

definition applyFailureStreak :: "caps_state \<Rightarrow> bool \<Rightarrow> bool \<Rightarrow> caps_state \<times> bool" where
  "applyFailureStreak caps progress failed =
     (if progress
      then (if MaxConsecutiveFailedToolCalls caps > 0
            then caps\<lparr>RemainingConsecutiveFailedToolCalls := MaxConsecutiveFailedToolCalls caps\<rparr> else caps, False)
      else if failed
      then (let caps' = caps\<lparr>RemainingConsecutiveFailedToolCalls :=
                              decrementCap (RemainingConsecutiveFailedToolCalls caps) 1\<rparr>
            in (caps', MaxConsecutiveFailedToolCalls caps' > 0 \<and> RemainingConsecutiveFailedToolCalls caps' \<le> 0))
      else (caps, False))"

definition admitToolBatch ::
  "tool_table \<Rightarrow> tool_request list \<Rightarrow> caps_state \<Rightarrow> (policy_error, int \<times> bool) result" where
  "admitToolBatch tbl calls caps =
     (let remaining = RemainingToolCalls caps
      in if remaining < 0 then Inl NegativeRemainingPanic
         else (let budgetCost = int (length (filter (\<lambda>call. \<not> isBookkeeping tbl (tr_name call)) calls))
               in Inr (budgetCost, MaxToolCalls caps \<le> 0 \<or> budgetCost \<le> remaining)))"

subsection \<open>The policy engine\<close>

record policy_input =
  pi_tools :: "tool_metadata list"
  pi_remaining_caps :: caps_state
  pi_requested :: "string list"
  pi_labels :: "string \<rightharpoonup> string"

record decision =
  d_allowed_tools :: "string list"
  d_caps :: caps_state
  d_disable_tools :: bool
  d_labels :: "string \<rightharpoonup> string"

definition mergeLabels :: "(string \<rightharpoonup> string) \<Rightarrow> (string \<rightharpoonup> string) \<Rightarrow> (string \<rightharpoonup> string)" where
  "mergeLabels dst src = dst ++ src"

definition rewritePolicyDeniedToolCalls ::
  "marshal \<Rightarrow> tool_request list \<Rightarrow> string list \<Rightarrow> (policy_error, tool_request list) result" where
  "rewritePolicyDeniedToolCalls marshal calls allowed =
     traverse (\<lambda>call. if tr_name call = ToolUnavailable \<or> tr_name call \<in> set allowed then Inr call
                      else rewriteToolCallUnavailable marshal call) calls"

record policy_env =
  pe_title :: "string \<Rightarrow> string"
  pe_marshal :: marshal
  pe_decide :: "(policy_input \<Rightarrow> (string, decision) result) option"
  pe_publish :: "(string, unit) result"

definition applyRuntimePolicy ::
  "policy_env \<Rightarrow> tool_table \<Rightarrow> (string \<rightharpoonup> string) \<Rightarrow> tool_request list \<Rightarrow> caps_state \<Rightarrow>
   (string \<rightharpoonup> string) \<times> (policy_error, tool_request list \<times> caps_state) result" where
  "applyRuntimePolicy env tbl labels candidates caps =
     (case pe_decide env of
        None \<Rightarrow> (labels, Inr (candidates, caps))
      | Some decide \<Rightarrow>
          (case decide \<lparr>pi_tools = toolMetadata (pe_title env) tbl candidates, pi_remaining_caps = caps,
                        pi_requested = map tr_name candidates, pi_labels = labels\<rparr> of
             Inl err \<Rightarrow> (labels, Inl (PolicyEngineFailed err))
           | Inr d \<Rightarrow>
               (let labels' = mergeLabels labels (d_labels d)
                in if d_disable_tools d then (labels', Inl ToolsDisabled)
                   else
                     (labels',
                      (case (if d_allowed_tools d \<noteq> []
                             then rewritePolicyDeniedToolCalls (pe_marshal env) candidates (d_allowed_tools d)
                             else Inr candidates) of
                         Inl err \<Rightarrow> Inl err
                       | Inr allowed \<Rightarrow>
                           (case pe_publish env of
                              Inl err \<Rightarrow> Inl (PublishFailed err)
                            | Inr u \<Rightarrow> Inr (allowed, mergeCaps caps (d_caps d))))))))"

subsection \<open>The basic policy engine\<close>

record basic_options =
  AllowTags :: "string list"
  BlockTags :: "string list"
  AllowTools :: "string list"
  BlockTools :: "string list"
  Label :: string

record basic_engine =
  be_allowTags :: "string set option"
  be_blockTags :: "string set option"
  be_allowTools :: "string set option"
  be_blockTools :: "string set option"
  be_label :: string

definition toSet :: "string list \<Rightarrow> string set option" where
  "toSet values = (let s = set (filter (\<lambda>v. v \<noteq> []) values) in if s = {} then None else Some s)"

definition NewBasic :: "basic_options \<Rightarrow> basic_engine" where
  "NewBasic opts =
     \<lparr>be_allowTags = toSet (AllowTags opts), be_blockTags = toSet (BlockTags opts),
      be_allowTools = toSet (AllowTools opts), be_blockTools = toSet (BlockTools opts),
      be_label = (if Label opts = [] then ''basic'' else Label opts)\<rparr>"

definition isAllowed :: "basic_engine \<Rightarrow> tool_metadata \<Rightarrow> bool" where
  "isAllowed e meta =
     (if (case be_blockTools e of None \<Rightarrow> False | Some b \<Rightarrow> md_id meta \<in> b) then False
      else if (case be_blockTags e of None \<Rightarrow> False | Some b \<Rightarrow> list_ex (\<lambda>tag. tag \<in> b) (md_tags meta)) then False
      else case be_allowTools e of
             Some a \<Rightarrow> md_id meta \<in> a
           | None \<Rightarrow> (case be_allowTags e of
                        Some a \<Rightarrow> list_ex (\<lambda>tag. tag \<in> a) (md_tags meta)
                      | None \<Rightarrow> True))"

definition indexMetadata :: "tool_metadata list \<Rightarrow> string \<rightharpoonup> tool_metadata" where
  "indexMetadata metas = fold (\<lambda>meta index. index(md_id meta \<mapsto> meta)) metas Map.empty"

fun filterAllowed :: "basic_engine \<Rightarrow> string list \<Rightarrow> (string \<rightharpoonup> tool_metadata) \<Rightarrow> string set \<Rightarrow> string list" where
  "filterAllowed e [] meta seen = []"
| "filterAllowed e (handle # handles) meta seen =
     (if handle \<in> seen then filterAllowed e handles meta seen
      else case meta handle of
             None \<Rightarrow> filterAllowed e handles meta seen
           | Some md \<Rightarrow>
               if \<not> isAllowed e md then filterAllowed e handles meta seen
               else handle # filterAllowed e handles meta (insert handle seen))"

text \<open>Without requested tools the engine takes the index's keys, in the order Go iterates the map.\<close>

definition candidateHandles :: "policy_input \<Rightarrow> string list \<Rightarrow> string list" where
  "candidateHandles input keys = (if pi_requested input \<noteq> [] then pi_requested input else keys)"

definition basic_Decide :: "basic_engine \<Rightarrow> string list \<Rightarrow> policy_input \<Rightarrow> (string, decision) result" where
  "basic_Decide e keys input =
     Inr \<lparr>d_allowed_tools = filterAllowed e (candidateHandles input keys) (indexMetadata (pi_tools input)) {},
          d_caps = pi_remaining_caps input, d_disable_tools = False, d_labels = [''policy_engine'' \<mapsto> be_label e]\<rparr>"

subsection \<open>Advertising and execution agree\<close>

lemma toolMetadata_nth:
  "i < length calls \<Longrightarrow> toolMetadata title tbl calls ! i =
     (case policyMetadata tbl (tr_name (calls ! i)) of
        Some meta \<Rightarrow> meta
      | None \<Rightarrow> \<lparr>md_id = tr_name (calls ! i), md_title = title (tr_name (calls ! i)), md_description = [], md_tags = [],
                 md_budget_class = Budgeted\<rparr>)"
  by (simp add: toolMetadata_def)

lemma length_toolMetadata [simp]: "length (toolMetadata title tbl calls) = length calls"
  by (simp add: toolMetadata_def)

lemma rewritten_name:
  "rewriteToolCallUnavailable marshal call = Inr call' \<Longrightarrow> tr_name call \<noteq> [] \<Longrightarrow>
   tr_name call' = ToolUnavailable \<and> TranscriptName call' = TranscriptName call \<and>
   tr_tool_call_id call' = tr_tool_call_id call"
  by (auto simp: rewriteToolCallUnavailable_def Let_def TranscriptName_def split: sum.splits if_splits)

lemma rewrite_total: "marshal (TranscriptName call) (TranscriptPayload call) = Inr p \<Longrightarrow> \<exists>c. rewriteToolCallUnavailable marshal call = Inr c"
  by (simp add: rewriteToolCallUnavailable_def Let_def)

lemma addToolSpecs_lookup:
  assumes "addToolSpecsLocked title specs None tbl = Some tbl'" "distinct (map sp_name specs)" "spec \<in> set specs"
  shows "toolSpec tbl' (sp_name spec) = Some spec \<and>
    (\<exists>meta. policyMetadata tbl' (sp_name spec) = Some meta \<and> md_tags meta = sp_tags spec \<and> md_id meta = sp_name spec \<and>
       md_budget_class meta = toolBudgetClass (sp_bookkeeping spec))"
proof -
  have keep: "tbl' n = tbl n" if "addToolSpecsLocked title specs None tbl = Some tbl'" "n \<notin> sp_name ` set specs" for specs tbl tbl' n
    using that by (induction specs arbitrary: tbl) (auto simp: canonicalToolMetadata_def)
  show ?thesis
    using assms
  proof (induction specs arbitrary: tbl)
    case (Cons x xs)
    show ?case
    proof (cases "spec = x")
      case True
      with Cons.prems keep [of xs _ tbl' "sp_name x"] show ?thesis
        by (simp add: canonicalToolMetadata_def toolSpec_def policyMetadata_def)
    next
      case False
      with Cons.prems show ?thesis by (intro Cons.IH) (simp_all add: canonicalToolMetadata_def)
    qed
  qed simp
qed

text \<open>
  What is advertised is what may run. For tools registered from their own specifications,
  under any per-run overrides: the overrides let a call to a registered tool through unchanged exactly
  when the tool is among the advertised definitions, and otherwise turn it into a call of the
  unavailable-tool marker that keeps the name the model asked for and the call's identifier.
\<close>

theorem advertised_iff_executable:
  assumes "addToolSpecsLocked title specs None Map.empty = Some tbl" "distinct (map sp_name specs)"
    and "applyPerRunOverrides title marshal tbl overrides calls = Inr out" "i < length calls"
    and "spec \<in> set specs" "tr_name (calls ! i) = sp_name spec" "sp_name spec \<noteq> []"
  shows "length out = length calls \<and>
    (if spec \<in> set (advertisedToolDefinitions specs (compileToolPolicy overrides)) then out ! i = calls ! i
     else tr_name (out ! i) = ToolUnavailable \<and> TranscriptName (out ! i) = TranscriptName (calls ! i) \<and>
          tr_tool_call_id (out ! i) = tr_tool_call_id (calls ! i))"
proof (cases "calls = [] \<or> policy_isZero (compileToolPolicy overrides)")
  case True
  with assms show ?thesis
    by (auto simp: applyPerRunOverrides_def Let_def advertisedToolDefinitions_def allowsTool_def policy_isZero_def
        TagPolicyAllows_def)
next
  case False
  let ?p = "compileToolPolicy overrides"
  let ?f = "\<lambda>(call, meta). if allowsTool ?p (tr_name call) (md_tags meta) then Inr call
      else rewriteToolCallUnavailable marshal call"
  from False assms(3) have all: "list_all2 (\<lambda>x y. ?f x = Inr y) (zip calls (toolMetadata title tbl calls)) out"
    by (simp add: applyPerRunOverrides_def traverse_eq_Inr)
  then have len: "length out = length calls" by (auto dest: list_all2_lengthD)
  obtain meta where meta: "policyMetadata tbl (sp_name spec) = Some meta" "md_tags meta = sp_tags spec"
    using addToolSpecs_lookup [OF assms(1,2,5)] by blast
  have "?f (calls ! i, meta) = Inr (out ! i)"
    using list_all2_nthD [OF all, of i] assms(4,6) meta(1) by (simp add: toolMetadata_nth)
  then show ?thesis
    using len meta(2) assms(5,6,7) rewritten_name [of marshal "calls ! i" "out ! i"]
    by (auto simp: advertisedToolDefinitions_def split: if_splits)
qed

text \<open>Two tools, one of them tagged, and a run restricted to the tag.\<close>

definition example_specs :: "tool_spec list" where
  "example_specs =
     [\<lparr>sp_name = ''a.read'', sp_description = [], sp_tags = [''safe''], sp_terminal_run = False, sp_bookkeeping = False\<rparr>,
      \<lparr>sp_name = ''a.drop'', sp_description = [], sp_tags = [], sp_terminal_run = False, sp_bookkeeping = False\<rparr>]"

definition example_call :: "string \<Rightarrow> string \<Rightarrow> tool_request" where
  "example_call name callID =
     \<lparr>tr_name = name, tr_payload = ''{}'', tr_model_name = [], tr_model_payload = [], tr_agent_id = [], tr_run_id = ''r'',
      tr_session_id = [], tr_labels = Map.empty, tr_turn_id = [], tr_tool_call_id = callID, tr_parent_tool_call_id = [],
      tr_continuation_root = []\<rparr>"

definition example_table :: tool_table where
  "example_table = the (addToolSpecsLocked id example_specs None Map.empty)"

definition example_overrides :: "(string \<times> tag_clause list) option" where
  "example_overrides = Some ([], [\<lparr>AllowedAny = [''safe''], DeniedAny = []\<rparr>])"

lemma example_table_eq: "addToolSpecsLocked id example_specs None Map.empty = Some example_table"
  by (simp add: example_table_def example_specs_def canonicalToolMetadata_def)

lemma example_specs_names [simp]: "map sp_name example_specs = [''a.read'', ''a.drop'']"
  by (simp add: example_specs_def)

theorem advertised_iff_executable_witness:
  "\<exists>out. applyPerRunOverrides id (\<lambda>n p. Inr n) example_table example_overrides
       [example_call ''a.read'' ''1'', example_call ''a.drop'' ''2''] = Inr out \<and>
     out ! 0 = example_call ''a.read'' ''1'' \<and> tr_name (out ! 1) = ToolUnavailable"
proof -
  let ?calls = "[example_call ''a.read'' ''1'', example_call ''a.drop'' ''2'']"
  obtain out where out: "applyPerRunOverrides id (\<lambda>n p. Inr n) example_table example_overrides ?calls = Inr out"
  proof -
    have "\<exists>out. applyPerRunOverrides id (\<lambda>n p. Inr n) example_table example_overrides ?calls = Inr out"
      unfolding applyPerRunOverrides_def Let_def by (auto intro!: traverse_total rewrite_total)
    then show ?thesis using that by blast
  qed
  note f = advertised_iff_executable [OF example_table_eq _ out]
  have "out ! 0 = ?calls ! 0"
    using f [of 0 "example_specs ! 0"]
    by (simp add: example_specs_def example_call_def advertisedToolDefinitions_def example_overrides_def
        compileToolPolicy_def allowsTool_def TagPolicyAllows_def tagClauseAllows_def hasIntersection_def)
  moreover have "tr_name (out ! 1) = ToolUnavailable"
    using f [of 1 "example_specs ! 1"]
    by (simp add: example_specs_def example_call_def advertisedToolDefinitions_def example_overrides_def
        compileToolPolicy_def allowsTool_def TagPolicyAllows_def tagClauseAllows_def hasIntersection_def
        ToolUnavailable_def split: if_splits)
  ultimately show ?thesis using out by auto
qed

subsection \<open>Caps\<close>

lemma decrementCap_bounds: "0 \<le> c \<Longrightarrow> 0 \<le> d \<Longrightarrow> 0 \<le> decrementCap c d \<and> decrementCap c d \<le> c"
  by (simp add: decrementCap_def)

lemma decrementCap_exact: "0 \<le> d \<Longrightarrow> d \<le> c \<Longrightarrow> decrementCap c d = c - d"
  by (simp add: decrementCap_def)

lemma mergeCapDown_le: "mergeCapDown c d \<le> c" "mergeCapDown 0 d = 0"
  by (simp_all add: mergeCapDown_def)

subsection \<open>The policy engine\<close>

lemma filterAllowed_set:
  "set (filterAllowed e hs meta seen) = {h \<in> set hs. h \<notin> seen \<and> (\<exists>md. meta h = Some md \<and> isAllowed e md)}"
  by (induction e hs meta seen rule: filterAllowed.induct) (auto split: option.split)

lemma filterAllowed_distinct: "distinct (filterAllowed e hs meta seen)"
  by (induction e hs meta seen rule: filterAllowed.induct) (auto simp: filterAllowed_set split: option.split)

lemma indexMetadata_Some: "indexMetadata metas k = Some md \<Longrightarrow> md \<in> set metas \<and> md_id md = k"
proof -
  have "fold (\<lambda>meta index. index(md_id meta \<mapsto> meta)) metas m k = Some md \<Longrightarrow>
      (md \<in> set metas \<and> md_id md = k) \<or> m k = Some md" for m
  proof (induction metas arbitrary: m)
    case (Cons a metas)
    from Cons.IH [of "m(md_id a \<mapsto> a)"] Cons.prems show ?case by (auto split: if_splits)
  qed simp
  from this [of Map.empty] show "indexMetadata metas k = Some md \<Longrightarrow> md \<in> set metas \<and> md_id md = k"
    by (simp add: indexMetadata_def)
qed


text \<open>A policy engine's contract: every tool it lets through satisfies its own rule.\<close>

locale policy_engine =
  fixes decide :: "policy_input \<Rightarrow> (string, decision) result" and rule :: "tool_metadata \<Rightarrow> bool"
  assumes decide_sound:
    "decide i = Inr d \<Longrightarrow> t \<in> set (d_allowed_tools d) \<Longrightarrow> \<exists>md \<in> set (pi_tools i). md_id md = t \<and> rule md"
    and decide_nonneg: "decide i = Inr d \<Longrightarrow> 0 \<le> RemainingToolCalls (pi_remaining_caps i) \<Longrightarrow>
      0 \<le> RemainingToolCalls (d_caps d)"
begin

lemma applied_caps:
  assumes "pe_decide env = Some decide" "applyRuntimePolicy env tbl labels calls caps = (labels', Inr (out, caps'))"
    and "0 \<le> RemainingToolCalls caps"
  shows "0 \<le> RemainingToolCalls caps'"
proof -
  let ?i = "\<lparr>pi_tools = toolMetadata (pe_title env) tbl calls, pi_remaining_caps = caps,
      pi_requested = map tr_name calls, pi_labels = labels\<rparr>"
  obtain d where "decide ?i = Inr d" "caps' = mergeCaps caps (d_caps d)"
    using assms(1,2) by (auto simp: applyRuntimePolicy_def Let_def split: sum.splits if_splits)
  with decide_nonneg [of ?i d] assms(3) show ?thesis by (simp add: mergeCaps_def mergeCapDown_def)
qed

lemma applied_rule:
  assumes "pe_decide env = Some decide" "applyRuntimePolicy env tbl labels calls caps = (labels', Inr (out, caps'))"
    and "decide \<lparr>pi_tools = toolMetadata (pe_title env) tbl calls, pi_remaining_caps = caps,
                  pi_requested = map tr_name calls, pi_labels = labels\<rparr> = Inr d" "d_allowed_tools d \<noteq> []"
    and "c \<in> set out" "tr_name c \<noteq> ToolUnavailable"
  shows "\<exists>md \<in> set (toolMetadata (pe_title env) tbl calls). md_id md = tr_name c \<and> rule md"
proof -
  have "rewritePolicyDeniedToolCalls (pe_marshal env) calls (d_allowed_tools d) = Inr out"
    using assms(1-4) by (auto simp: applyRuntimePolicy_def Let_def split: sum.splits if_splits)
  then have "list_all2 (\<lambda>x y. (if tr_name x = ToolUnavailable \<or> tr_name x \<in> set (d_allowed_tools d) then Inr x
      else rewriteToolCallUnavailable (pe_marshal env) x) = Inr y) calls out"
    by (simp add: rewritePolicyDeniedToolCalls_def traverse_eq_Inr)
  then obtain x where "(if tr_name x = ToolUnavailable \<or> tr_name x \<in> set (d_allowed_tools d) then Inr x
      else rewriteToolCallUnavailable (pe_marshal env) x) = Inr c"
    using assms(5) by (auto simp: list_all2_conv_all_nth in_set_conv_nth)
  then have "tr_name c \<in> set (d_allowed_tools d)"
    using assms(6) by (auto simp: rewriteToolCallUnavailable_def Let_def split: if_splits sum.splits)
  from decide_sound [OF assms(3) this] show ?thesis by simp
qed

end

interpretation basic: policy_engine "basic_Decide e keys" "isAllowed e" for e keys
proof
  fix i d t
  assume d: "basic_Decide e keys i = Inr d" "t \<in> set (d_allowed_tools d)"
  then show "\<exists>md \<in> set (pi_tools i). md_id md = t \<and> isAllowed e md"
    by (auto simp: basic_Decide_def filterAllowed_set) (blast dest: indexMetadata_Some)
qed (auto simp: basic_Decide_def)

lemma toolMetadata_id:
  assumes "\<And>n md. policyMetadata tbl n = Some md \<Longrightarrow> md_id md = n"
  shows "map md_id (toolMetadata title tbl calls) = map tr_name calls"
  using assms by (auto simp: toolMetadata_def split: option.split)

lemma filterAllowed_Nil:
  "filterAllowed e hs meta {} = [] \<longleftrightarrow> (\<forall>h \<in> set hs. \<forall>md. meta h = Some md \<longrightarrow> \<not> isAllowed e md)"
  unfolding set_empty [symmetric] filterAllowed_set by blast













text \<open>
  Property C22. When the basic engine denies every requested tool, nothing is denied: the empty allow
  list is read as no restriction, so all the calls, blocked tools included, go on to execution unchanged.
\<close>

theorem basic_engine_all_denied_runs:
  assumes "pe_decide env = Some (basic_Decide e keys)" "pe_publish env = Inr ()" "calls \<noteq> []"
    and "\<And>md. md \<in> set (toolMetadata (pe_title env) tbl calls) \<Longrightarrow> \<not> isAllowed e md"
  shows "snd (applyRuntimePolicy env tbl labels calls caps) = Inr (calls, mergeCaps caps caps)"
proof -
  have "filterAllowed e (map tr_name calls) (indexMetadata (toolMetadata (pe_title env) tbl calls)) {} = []"
    unfolding filterAllowed_Nil using assms(4) indexMetadata_Some by blast
  with assms(1-3) show ?thesis
    by (simp add: applyRuntimePolicy_def basic_Decide_def candidateHandles_def)
qed

definition example_engine :: basic_engine where
  "example_engine = NewBasic \<lparr>AllowTags = [], BlockTags = [], AllowTools = [], BlockTools = [''a.drop''], Label = []\<rparr>"

definition example_policy_env :: policy_env where
  "example_policy_env = \<lparr>pe_title = id, pe_marshal = (\<lambda>n p. Inr n), pe_decide = Some (basic_Decide example_engine []),
     pe_publish = Inr ()\<rparr>"

lemma example_call_simps [simp]: "tr_name (example_call n i) = n" "tr_tool_call_id (example_call n i) = i"
  by (simp_all add: example_call_def)

lemma example_policy_env_simps [simp]:
  "pe_decide example_policy_env = Some (basic_Decide example_engine [])" "pe_publish example_policy_env = Inr ()"
  by (simp_all add: example_policy_env_def)

lemma example_tables [simp]:
  "policyMetadata example_table ''a.drop'' = Some \<lparr>md_id = ''a.drop'', md_title = ''a.drop'', md_description = [],
     md_tags = [], md_budget_class = Budgeted\<rparr>"
  "policyMetadata example_table ''a.read'' = Some \<lparr>md_id = ''a.read'', md_title = ''a.read'', md_description = [],
     md_tags = [''safe''], md_budget_class = Budgeted\<rparr>"
  by (simp_all add: example_table_def example_specs_def policyMetadata_def canonicalToolMetadata_def toolBudgetClass_def)

lemma example_blocked: "isAllowed example_engine md \<longleftrightarrow> md_id md \<noteq> ''a.drop''"
  by (simp add: isAllowed_def example_engine_def NewBasic_def toSet_def)

theorem basic_engine_all_denied_runs_witness:
  "snd (applyRuntimePolicy example_policy_env example_table Map.empty [example_call ''a.drop'' ''1''] (initialCaps 5 5)) =
     Inr ([example_call ''a.drop'' ''1''], initialCaps 5 5)"
  using basic_engine_all_denied_runs [of example_policy_env example_engine "[]" "[example_call ''a.drop'' ''1'']"
      example_table Map.empty "initialCaps 5 5"]
  by (simp add: example_policy_env_def toolMetadata_def example_call_def example_blocked mergeCaps_def mergeCapDown_def
      initialCaps_def)



end
