(* ===== verification/Workflow_Step.thy ===== *)
theory Workflow_Step
  imports Tool_Policy
begin

section \<open>One step of the agent workflow\<close>

text \<open>
  \<open>runtime/agent/runtime/workflow_step.go\<close> and \<open>workflow_turn.go\<close>: a planner result becomes exactly one
  step program, its tool calls are checked, executed and paired with results, and the finished batch
  decides whether the run finishes, finalizes or asks the planner again. The functions are pure on the
  tool tables of \<open>Tool_Policy\<close>; tool execution, the confirmation rule and hashing are arguments, and a
  Go error is a value of \<open>step_error\<close>. Publication of events and transcript persistence are I/O and not
  part of the model.
\<close>

subsection \<open>Planner results\<close>

datatype await_kind =
    AwaitItemKindClarification | AwaitItemKindToolClarification | AwaitItemKindQuestions
  | AwaitItemKindExternalTools | AwaitItemKindOther string

record await_clarification =
  ac_id :: string
  ac_question :: string

record await_tool_clarification =
  at_id :: string
  at_tool_name :: string
  at_tool_call_id :: string
  at_payload :: string
  at_question :: string

record await_questions =
  aq_id :: string
  aq_tool_name :: string
  aq_tool_call_id :: string
  aq_payload :: string
  aq_questions :: "string list"

record await_tool_item =
  ai_name :: string
  ai_tool_call_id :: string
  ai_payload :: string

record await_external_tools =
  ae_id :: string
  ae_items :: "await_tool_item list"

record await_item =
  aw_kind :: await_kind
  aw_clarification :: "await_clarification option"
  aw_tool_clarification :: "await_tool_clarification option"
  aw_questions :: "await_questions option"
  aw_external_tools :: "await_external_tools option"

record plan_result =
  pr_tool_calls :: "tool_request list"
  pr_synthesize_after_tools :: bool
  pr_final_response :: "string option"
  pr_final_tool_result :: "string option"
  pr_await :: "await_item list option"
  pr_expected_children :: int

text \<open>An error is its message and the tools or identifiers it names.\<close>

datatype step_error =
    StepErr string "string list"
  | AwaitItemInvalid nat
  | ExecutionCount nat nat
  | PolicyErr policy_error
  | WrappedError string step_error
  | JoinedErrors step_error step_error

abbreviation NilPlanResult :: step_error where
  "NilPlanResult \<equiv> StepErr ''workflow step received nil PlanResult'' []"
abbreviation BothTerminalPayloads :: step_error where
  "BothTerminalPayloads \<equiv> StepErr ''workflow step received both FinalResponse and FinalToolResult'' []"
abbreviation EmptyAwait :: step_error where
  "EmptyAwait \<equiv> StepErr ''workflow step received empty await'' []"
abbreviation EmptyPlanResult :: step_error where
  "EmptyPlanResult \<equiv> StepErr ''workflow step received empty PlanResult'' []"
abbreviation SynthesisOnlyToolCalls :: step_error where
  "SynthesisOnlyToolCalls \<equiv> StepErr ''synthesis-after-tools requires only tool calls'' []"
abbreviation SynthesisTerminalTool :: "string \<Rightarrow> step_error" where
  "SynthesisTerminalTool name \<equiv> StepErr ''synthesis-after-tools cannot include terminal tool'' [name]"
abbreviation SynthesisNeedsBudgetedTool :: step_error where
  "SynthesisNeedsBudgetedTool \<equiv> StepErr ''synthesis-after-tools requires at least one budgeted tool'' []"
abbreviation TerminalWithAwait :: step_error where
  "TerminalWithAwait \<equiv> StepErr ''workflow step cannot combine terminal payload and await'' []"
abbreviation TerminalUnknownTool :: "string \<Rightarrow> step_error" where
  "TerminalUnknownTool name \<equiv> StepErr ''terminal payload cannot accompany unknown tool'' [name]"
abbreviation TerminalBudgetedTool :: "string \<Rightarrow> step_error" where
  "TerminalBudgetedTool name \<equiv> StepErr ''terminal payload cannot accompany budgeted tool'' [name]"
abbreviation TerminalTerminalTool :: "string \<Rightarrow> step_error" where
  "TerminalTerminalTool name \<equiv> StepErr ''terminal payload cannot accompany terminal tool'' [name]"
abbreviation MissingToolCallID :: "string \<Rightarrow> step_error" where
  "MissingToolCallID name \<equiv> StepErr ''missing tool_call_id'' [name]"
abbreviation DuplicateToolCallID :: "string \<Rightarrow> step_error" where
  "DuplicateToolCallID name \<equiv> StepErr ''duplicate tool_call_id'' [name]"
abbreviation UnknownTool :: "string \<Rightarrow> step_error" where
  "UnknownTool name \<equiv> StepErr ''unknown tool'' [name]"
abbreviation MixedTerminalTools :: step_error where
  "MixedTerminalTools \<equiv> StepErr ''workflow step cannot mix terminal and non-terminal tools'' []"
abbreviation TerminalClarification :: "string \<Rightarrow> step_error" where
  "TerminalClarification name \<equiv> StepErr ''terminal tool cannot request clarification'' [name]"
abbreviation OutsideRecoveryCatalog :: "string \<Rightarrow> step_error" where
  "OutsideRecoveryCatalog name \<equiv> StepErr ''tool outside the advertised recovery catalog'' [name]"
abbreviation EmptyOutcome :: step_error where
  "EmptyOutcome \<equiv> StepErr ''workflow step execution returned an empty outcome'' []"
abbreviation OutcomeUnknown :: "string \<Rightarrow> step_error" where
  "OutcomeUnknown name \<equiv> StepErr ''workflow step execution returned unknown tool_call_id'' [name]"
abbreviation RecordInvalid :: "string \<Rightarrow> step_error" where
  "RecordInvalid name \<equiv> StepErr ''invalid step tool record'' [name]"
abbreviation UnknownResults :: step_error where
  "UnknownResults \<equiv> StepErr ''workflow step execution returned results for unknown tool calls'' []"
abbreviation ClarificationWithTerminal :: "string \<Rightarrow> step_error" where
  "ClarificationWithTerminal name \<equiv> StepErr ''terminal payload cannot accompany clarification from tool'' [name]"
abbreviation MissingResult :: "string \<Rightarrow> step_error" where
  "MissingResult name \<equiv> StepErr ''missing tool result'' [name]"
abbreviation FailedWithTerminal :: "string \<Rightarrow> step_error" where
  "FailedWithTerminal name \<equiv> StepErr ''terminal payload cannot accompany failed tool'' [name]"
abbreviation NeitherTerminalPayload :: step_error where
  "NeitherTerminalPayload \<equiv> StepErr ''planner returned neither FinalResponse nor FinalToolResult'' []"
abbreviation AwaitWithTerminal :: step_error where
  "AwaitWithTerminal \<equiv> StepErr ''planner returned await alongside terminal payload'' []"
abbreviation FinalizationAwaits :: step_error where
  "FinalizationAwaits \<equiv> StepErr ''finalization planner cannot await external input'' []"
abbreviation FinalizationSynthesizes :: step_error where
  "FinalizationSynthesizes \<equiv> StepErr ''finalization planner cannot request another synthesis turn'' []"
abbreviation FinalizationCombines :: step_error where
  "FinalizationCombines \<equiv> StepErr ''finalization planner cannot combine tool calls with a terminal payload'' []"
abbreviation FinalizationNoCalls :: step_error where
  "FinalizationNoCalls \<equiv> StepErr ''finalization terminal tool plan has no tool calls'' []"
abbreviation FinalizationUnknownTool :: "string \<Rightarrow> step_error" where
  "FinalizationUnknownTool name \<equiv> StepErr ''finalization cannot call unknown tool'' [name]"
abbreviation FinalizationBudgetedTool :: "string \<Rightarrow> step_error" where
  "FinalizationBudgetedTool name \<equiv> StepErr ''finalization cannot call budgeted tool'' [name]"
abbreviation FinalizationNonTerminalTool :: "string \<Rightarrow> step_error" where
  "FinalizationNonTerminalTool name \<equiv> StepErr ''finalization cannot call non-terminal tool'' [name]"
abbreviation FinalizationNoRecords :: step_error where
  "FinalizationNoRecords \<equiv> StepErr ''finalization terminal tool step produced no records'' []"
abbreviation FinalizationClarifies :: "string \<Rightarrow> step_error" where
  "FinalizationClarifies name \<equiv> StepErr ''finalization cannot request clarification from tool'' [name]"
abbreviation FinalizationFailed :: "string \<Rightarrow> step_error" where
  "FinalizationFailed name \<equiv> StepErr ''finalization failed on tool'' [name]"
abbreviation NoToolsAllowed :: step_error where
  "NoToolsAllowed \<equiv> StepErr ''no tools allowed for execution'' []"
abbreviation AwaitUnknownTool :: "string \<Rightarrow> step_error" where
  "AwaitUnknownTool name \<equiv> StepErr ''planner await references unknown tool'' [name]"
abbreviation AwaitTerminalTool :: "string \<Rightarrow> step_error" where
  "AwaitTerminalTool name \<equiv> StepErr ''terminal tool cannot be owned by planner await work'' [name]"
abbreviation TerminalToolWithAwait :: "string \<Rightarrow> step_error" where
  "TerminalToolWithAwait name \<equiv> StepErr ''terminal tool cannot accompany planner await work'' [name]"
abbreviation TerminalWithConfirmation :: step_error where
  "TerminalWithConfirmation \<equiv> StepErr ''terminal payload cannot accompany confirmation-gated tools'' []"
abbreviation OutcomeMissing :: "string \<Rightarrow> string \<Rightarrow> step_error" where
  "OutcomeMissing name callID \<equiv> StepErr ''workflow step execution missing result'' [name, callID]"
abbreviation BookkeepingNeedsTerminal :: "step_error \<Rightarrow> step_error" where
  "BookkeepingNeedsTerminal err \<equiv>
     WrappedError ''bookkeeping-only tool batch requires a terminal tool or terminal planner payload'' err"

definition validateAwaitItem :: "await_item \<Rightarrow> bool" where
  "validateAwaitItem item \<longleftrightarrow>
     length (filter id [aw_clarification item \<noteq> None, aw_tool_clarification item \<noteq> None,
                        aw_questions item \<noteq> None, aw_external_tools item \<noteq> None]) = 1 \<and>
     (case aw_kind item of
        AwaitItemKindClarification \<Rightarrow>
          (case aw_clarification item of None \<Rightarrow> False | Some q \<Rightarrow> ac_id q \<noteq> [] \<and> ac_question q \<noteq> [])
      | AwaitItemKindToolClarification \<Rightarrow>
          (case aw_tool_clarification item of None \<Rightarrow> False
           | Some q \<Rightarrow> at_id q \<noteq> [] \<and> at_tool_name q \<noteq> [] \<and> at_tool_call_id q \<noteq> [] \<and> at_question q \<noteq> [])
      | AwaitItemKindQuestions \<Rightarrow>
          (case aw_questions item of None \<Rightarrow> False
           | Some q \<Rightarrow> aq_id q \<noteq> [] \<and> aq_tool_name q \<noteq> [] \<and> aq_tool_call_id q \<noteq> [] \<and> aq_questions q \<noteq> [])
      | AwaitItemKindExternalTools \<Rightarrow>
          (case aw_external_tools item of None \<Rightarrow> False
           | Some e \<Rightarrow> ae_id e \<noteq> [] \<and> ae_items e \<noteq> [] \<and>
                       list_all (\<lambda>call. ai_name call \<noteq> [] \<and> ai_tool_call_id call \<noteq> []) (ae_items e))
      | AwaitItemKindOther k \<Rightarrow> False)"

fun validateAwaitItems_from :: "nat \<Rightarrow> await_item list \<Rightarrow> (step_error, unit) result" where
  "validateAwaitItems_from i [] = Inr ()"
| "validateAwaitItems_from i (item # items) =
     (if \<not> validateAwaitItem item then Inl (AwaitItemInvalid i) else validateAwaitItems_from (i + 1) items)"

definition validateAwaitItems :: "await_item list \<Rightarrow> (step_error, unit) result" where
  "validateAwaitItems items = validateAwaitItems_from 0 items"

definition new_request :: "string \<Rightarrow> string \<Rightarrow> string \<Rightarrow> tool_request" where
  "new_request name callID payload =
     \<lparr>tr_name = name, tr_payload = payload, tr_model_name = [], tr_model_payload = [], tr_agent_id = [], tr_run_id = [],
      tr_session_id = [], tr_labels = Map.empty, tr_turn_id = [], tr_tool_call_id = callID, tr_parent_tool_call_id = [],
      tr_continuation_root = []\<rparr>"

text \<open>Items are validated before their calls are read, so a missing payload cannot be met here.\<close>

definition awaitItemRequests :: "await_item \<Rightarrow> tool_request list" where
  "awaitItemRequests item =
     (case aw_kind item of
        AwaitItemKindToolClarification \<Rightarrow>
          (case aw_tool_clarification item of None \<Rightarrow> []
           | Some q \<Rightarrow> [new_request (at_tool_name q) (at_tool_call_id q) (at_payload q)])
      | AwaitItemKindQuestions \<Rightarrow>
          (case aw_questions item of None \<Rightarrow> []
           | Some q \<Rightarrow> [new_request (aq_tool_name q) (aq_tool_call_id q) (aq_payload q)])
      | AwaitItemKindExternalTools \<Rightarrow>
          (case aw_external_tools item of None \<Rightarrow> []
           | Some e \<Rightarrow> map (\<lambda>c. new_request (ai_name c) (ai_tool_call_id c) (ai_payload c)) (ae_items e))
      | _ \<Rightarrow> [])"

definition awaitToolRequests :: "await_item list \<Rightarrow> tool_request list" where
  "awaitToolRequests items = concat (map awaitItemRequests items)"

definition hasBudgetedToolCalls :: "tool_table \<Rightarrow> tool_request list \<Rightarrow> bool" where
  "hasBudgetedToolCalls tbl calls \<longleftrightarrow> list_ex (\<lambda>call. \<not> isBookkeeping tbl (tr_name call)) calls"

definition hasBookkeepingToolCalls :: "tool_table \<Rightarrow> tool_request list \<Rightarrow> bool" where
  "hasBookkeepingToolCalls tbl calls \<longleftrightarrow> list_ex (\<lambda>call. isBookkeeping tbl (tr_name call)) calls"

definition is_terminal_tool :: "tool_table \<Rightarrow> string \<Rightarrow> bool" where
  "is_terminal_tool tbl name \<longleftrightarrow> (case toolSpec tbl name of None \<Rightarrow> False | Some spec \<Rightarrow> sp_terminal_run spec)"

fun validateSynthesisCalls :: "tool_table \<Rightarrow> tool_request list \<Rightarrow> (step_error, unit) result" where
  "validateSynthesisCalls tbl [] = Inr ()"
| "validateSynthesisCalls tbl (call # calls) =
     (if is_terminal_tool tbl (tr_name call) then Inl (SynthesisTerminalTool (tr_name call))
      else validateSynthesisCalls tbl calls)"

definition validateSynthesisAfterTools :: "tool_table \<Rightarrow> tool_request list \<Rightarrow> (step_error, unit) result" where
  "validateSynthesisAfterTools tbl calls =
     (case validateSynthesisCalls tbl calls of
        Inl err \<Rightarrow> Inl err
      | Inr u \<Rightarrow> if \<not> hasBudgetedToolCalls tbl calls then Inl SynthesisNeedsBudgetedTool else Inr ())"

fun validateToolTerminalProgram :: "tool_table \<Rightarrow> tool_request list \<Rightarrow> (step_error, unit) result" where
  "validateToolTerminalProgram tbl [] = Inr ()"
| "validateToolTerminalProgram tbl (call # calls) =
     (case toolSpec tbl (tr_name call) of
        None \<Rightarrow> Inl (TerminalUnknownTool (tr_name call))
      | Some spec \<Rightarrow>
          if \<not> sp_bookkeeping spec then Inl (TerminalBudgetedTool (tr_name call))
          else if sp_terminal_run spec then Inl (TerminalTerminalTool (tr_name call))
          else validateToolTerminalProgram tbl calls)"

datatype step_kind = StepTerminal | StepAwait | StepTools | StepToolTerminal

record step_program =
  sg_result :: plan_result
  sg_calls :: "tool_request list"
  sg_await_items :: "await_item list"
  sg_kind :: step_kind

definition normalizeStep :: "tool_table \<Rightarrow> plan_result option \<Rightarrow> (step_error, step_program) result" where
  "normalizeStep tbl result =
     (case result of
        None \<Rightarrow> Inl NilPlanResult
      | Some r \<Rightarrow>
          if pr_final_response r \<noteq> None \<and> pr_final_tool_result r \<noteq> None then Inl BothTerminalPayloads
          else
            (let hasCalls = pr_tool_calls r \<noteq> [];
                 hasTerminal = (pr_final_response r \<noteq> None \<or> pr_final_tool_result r \<noteq> None);
                 hasAwait = (pr_await r \<noteq> None);
                 awaitItems = (case pr_await r of None \<Rightarrow> [] | Some items \<Rightarrow> items)
             in if hasAwait \<and> awaitItems = [] then Inl EmptyAwait
                else case (if hasAwait then validateAwaitItems awaitItems else Inr ()) of
                  Inl err \<Rightarrow> Inl err
                | Inr u \<Rightarrow>
                    if \<not> hasCalls \<and> \<not> hasTerminal \<and> \<not> hasAwait then Inl EmptyPlanResult
                    else if pr_synthesize_after_tools r \<and> (\<not> hasCalls \<or> hasTerminal \<or> hasAwait)
                    then Inl SynthesisOnlyToolCalls
                    else case (if pr_synthesize_after_tools r then validateSynthesisAfterTools tbl (pr_tool_calls r)
                               else Inr ()) of
                      Inl err \<Rightarrow> Inl err
                    | Inr u \<Rightarrow>
                        if hasTerminal \<and> hasAwait then Inl TerminalWithAwait
                        else if hasTerminal \<and> \<not> hasCalls
                        then Inr \<lparr>sg_result = r, sg_calls = [], sg_await_items = [], sg_kind = StepTerminal\<rparr>
                        else if hasTerminal
                        then (case validateToolTerminalProgram tbl (pr_tool_calls r) of
                                Inl err \<Rightarrow> Inl err
                              | Inr u \<Rightarrow> Inr \<lparr>sg_result = r, sg_calls = pr_tool_calls r, sg_await_items = [],
                                             sg_kind = StepToolTerminal\<rparr>)
                        else if hasCalls
                        then Inr \<lparr>sg_result = r, sg_calls = pr_tool_calls r, sg_await_items = awaitItems,
                                  sg_kind = StepTools\<rparr>
                        else Inr \<lparr>sg_result = r, sg_calls = [], sg_await_items = awaitItems, sg_kind = StepAwait\<rparr>))"

definition planResultModelToolCalls :: "plan_result \<Rightarrow> (string \<times> string) list" where
  "planResultModelToolCalls r =
     map (\<lambda>call. (tr_tool_call_id call, TranscriptName call)) (pr_tool_calls r) @
     (case pr_await r of None \<Rightarrow> []
      | Some items \<Rightarrow> map (\<lambda>call. (tr_tool_call_id call, tr_name call)) (awaitToolRequests items))"

fun validateCallIDs :: "string set \<Rightarrow> (string \<times> string) list \<Rightarrow> (step_error, unit) result" where
  "validateCallIDs seen [] = Inr ()"
| "validateCallIDs seen ((callID, name) # calls) =
     (if callID = [] then Inl (MissingToolCallID name)
      else if callID \<in> seen then Inl (DuplicateToolCallID callID)
      else validateCallIDs (insert callID seen) calls)"

definition validatePlanResultToolCallIDs :: "plan_result \<Rightarrow> (step_error, unit) result" where
  "validatePlanResultToolCallIDs r = validateCallIDs {} (planResultModelToolCalls r)"

subsection \<open>Identifiers\<close>

record run_context =
  rc_run_id :: string
  rc_session_id :: string
  rc_turn_id :: string
  rc_attempt :: int

definition replace_dots :: "string \<Rightarrow> string" where
  "replace_dots s = map (\<lambda>c. if c = CHR ''.'' then CHR ''-'' else c) s"

definition MaxToolCallMetaIDLength :: nat where "MaxToolCallMetaIDLength = 256"

definition readable_call_id :: "string \<Rightarrow> string \<Rightarrow> int \<Rightarrow> string \<Rightarrow> nat \<Rightarrow> string" where
  "readable_call_id runID turnID attempt toolName index =
     strings_join
       [if runID = [] then ''unknown'' else runID, if turnID = [] then ''no-turn'' else turnID,
        ''attempt-'' @ show_int attempt, replace_dots (if toolName = [] then ''tool'' else toolName), dec index] ''/''"

definition generateDeterministicToolCallID ::
  "(string \<Rightarrow> string) \<Rightarrow> string \<Rightarrow> string \<Rightarrow> int \<Rightarrow> string \<Rightarrow> nat \<Rightarrow> string" where
  "generateDeterministicToolCallID sha256hex runID turnID attempt toolName index =
     (let readable = readable_call_id runID turnID attempt toolName index
      in if length readable \<le> MaxToolCallMetaIDLength then readable
         else ''call-'' @ sha256hex (''goa-ai/runtime-tool-call-id/v1'' @ [CHR 0x00] @ readable))"

text \<open>\<open>parent\<close> is the tool call that started a nested run.\<close>

definition prepare_call ::
  "(string \<Rightarrow> string) \<Rightarrow> string \<Rightarrow> run_context \<Rightarrow> string option \<Rightarrow> nat \<Rightarrow> tool_request \<Rightarrow> tool_request" where
  "prepare_call sha256hex agentID ctx parent i call =
     call\<lparr>tr_run_id := (if tr_run_id call = [] then rc_run_id ctx else tr_run_id call),
          tr_agent_id := (if tr_agent_id call = [] then agentID else tr_agent_id call),
          tr_session_id := (if tr_session_id call = [] then rc_session_id ctx else tr_session_id call),
          tr_turn_id := (if tr_turn_id call = [] then rc_turn_id ctx else tr_turn_id call),
          tr_tool_call_id :=
            (if tr_tool_call_id call = []
             then generateDeterministicToolCallID sha256hex (rc_run_id ctx) (rc_turn_id ctx) (rc_attempt ctx)
                    (tr_name call) i
             else tr_tool_call_id call),
          tr_parent_tool_call_id :=
            (case parent of
               Some p \<Rightarrow> if tr_parent_tool_call_id call = [] then p else tr_parent_tool_call_id call
             | None \<Rightarrow> tr_parent_tool_call_id call)\<rparr>"

definition prepareAllowedCallsMetadata ::
  "(string \<Rightarrow> string) \<Rightarrow> string \<Rightarrow> run_context \<Rightarrow> string option \<Rightarrow> tool_request list \<Rightarrow> tool_request list" where
  "prepareAllowedCallsMetadata sha256hex agentID ctx parent calls =
     map (\<lambda>(i, call). prepare_call sha256hex agentID ctx parent i call) (enumerate 0 calls)"


subsection \<open>Results of executed calls\<close>

datatype recovery_action = RecoveryCorrectCall | RecoveryReplan | RecoveryFinish

datatype failure_kind =
    FailureInvalidCall | FailureDomainRejection | FailureUnavailable | FailureRateLimited | FailureTimeout
  | FailureMalformedResult | FailureInternal

text \<open>Field issues are pairs of a field and the violated constraint; rejected input and examples are not kept.\<close>

record tool_failure =
  fl_kind :: failure_kind
  fl_error :: string
  fl_action :: recovery_action
  fl_issues :: "(string \<times> string) list"

record tool_result =
  rs_name :: string
  rs_tool_call_id :: string
  rs_result :: string
  rs_failure :: "tool_failure option"

record execution_outcome =
  xo_result :: "tool_result option"
  xo_clarification :: "await_clarification option"
  xo_child_suspension :: "string option"
  xo_result_published :: bool
  xo_schedule_published :: bool

record step_record =
  sr_call :: tool_request
  sr_result :: "tool_result option"
  sr_clarification :: "await_clarification option"
  sr_child_suspension :: "string option"
  sr_result_published :: bool
  sr_schedule_required :: bool
  sr_schedule_exact :: bool
  sr_requires_resume :: bool

definition validateStepToolRecord :: "step_record \<Rightarrow> (step_error, unit) result" where
  "validateStepToolRecord record =
     (if tr_tool_call_id (sr_call record) = [] then Inl (RecordInvalid ''missing call tool_call_id'')
      else case sr_result record of
             None \<Rightarrow> Inl (RecordInvalid ''nil tool result'')
           | Some res \<Rightarrow>
               if rs_tool_call_id res = [] then Inl (RecordInvalid ''missing result tool_call_id'')
               else if rs_tool_call_id res \<noteq> tr_tool_call_id (sr_call record)
               then Inl (RecordInvalid ''tool_call_id mismatch'')
               else if rs_name res \<noteq> [] \<and> rs_name res \<noteq> tr_name (sr_call record)
               then Inl (RecordInvalid ''name mismatch'')
               else Inr ())"

definition record_of :: "tool_request \<Rightarrow> execution_outcome \<Rightarrow> step_record" where
  "record_of call outcome =
     \<lparr>sr_call = call, sr_result = xo_result outcome, sr_clarification = xo_clarification outcome,
      sr_child_suspension = xo_child_suspension outcome, sr_result_published = xo_result_published outcome,
      sr_schedule_required = \<not> xo_schedule_published outcome, sr_schedule_exact = True, sr_requires_resume = False\<rparr>"

fun index_outcomes ::
  "(string \<rightharpoonup> execution_outcome) \<Rightarrow> execution_outcome option list \<Rightarrow>
   (step_error, string \<rightharpoonup> execution_outcome) result" where
  "index_outcomes byID [] = Inr byID"
| "index_outcomes byID (outcome # outcomes) =
     (case outcome of
        None \<Rightarrow> Inl EmptyOutcome
      | Some x \<Rightarrow>
          (case xo_result x of
             None \<Rightarrow> Inl EmptyOutcome
           | Some res \<Rightarrow>
               if rs_tool_call_id res = [] then Inl (MissingToolCallID (rs_name res))
               else if byID (rs_tool_call_id res) \<noteq> None then Inl (DuplicateToolCallID (rs_tool_call_id res))
               else index_outcomes (byID(rs_tool_call_id res \<mapsto> x)) outcomes))"

fun pair_outcomes ::
  "(string \<rightharpoonup> execution_outcome) \<Rightarrow> tool_request list \<Rightarrow>
   (step_error, step_record list \<times> (string \<rightharpoonup> execution_outcome)) result" where
  "pair_outcomes byID [] = Inr ([], byID)"
| "pair_outcomes byID (call # calls) =
     (case byID (tr_tool_call_id call) of
        None \<Rightarrow> Inl (OutcomeMissing (tr_name call) (tr_tool_call_id call))
      | Some x \<Rightarrow>
          (case validateStepToolRecord (record_of call x) of
             Inl err \<Rightarrow> Inl err
           | Inr u \<Rightarrow>
               (case pair_outcomes (byID(tr_tool_call_id call := None)) calls of
                  Inl err \<Rightarrow> Inl err
                | Inr (records, rest) \<Rightarrow> Inr (record_of call x # records, rest))))"

definition stepToolRecordsFromExecutions ::
  "tool_request list \<Rightarrow> execution_outcome option list \<Rightarrow> (step_error, step_record list) result" where
  "stepToolRecordsFromExecutions calls outcomes =
     (if length calls \<noteq> length outcomes then Inl (ExecutionCount (length calls) (length outcomes))
      else case index_outcomes Map.empty outcomes of
             Inl err \<Rightarrow> Inl err
           | Inr byID \<Rightarrow>
               (case pair_outcomes byID calls of
                  Inl err \<Rightarrow> Inl err
                | Inr (records, rest) \<Rightarrow> if rest \<noteq> Map.empty then Inl UnknownResults else Inr records))"

text \<open>Errors accumulate with \<open>errors.Join\<close>.\<close>

definition join_error :: "step_error option \<Rightarrow> step_error \<Rightarrow> step_error option" where
  "join_error acc e = (case acc of None \<Rightarrow> Some e | Some a \<Rightarrow> Some (JoinedErrors a e))"

definition collect_outcome ::
  "tool_request list \<Rightarrow> execution_outcome option \<Rightarrow> (string \<rightharpoonup> step_record) \<times> step_error option \<Rightarrow>
   (string \<rightharpoonup> step_record) \<times> step_error option" where
  "collect_outcome calls outcome acc =
     (case outcome of
        None \<Rightarrow> (fst acc, join_error (snd acc) EmptyOutcome)
      | Some x \<Rightarrow>
          (case xo_result x of
             None \<Rightarrow> (fst acc, join_error (snd acc) EmptyOutcome)
           | Some res \<Rightarrow>
               (case find (\<lambda>c. tr_tool_call_id c = rs_tool_call_id res) (rev calls) of
                  None \<Rightarrow> (fst acc, join_error (snd acc) (OutcomeUnknown (rs_tool_call_id res)))
                | Some call \<Rightarrow>
                    if fst acc (rs_tool_call_id res) \<noteq> None
                    then (fst acc, join_error (snd acc) (DuplicateToolCallID (rs_tool_call_id res)))
                    else (case validateStepToolRecord (record_of call x) of
                            Inl err \<Rightarrow> (fst acc, join_error (snd acc) err)
                          | Inr u \<Rightarrow> ((fst acc)(rs_tool_call_id res \<mapsto> record_of call x), snd acc)))))"

definition unresolved_record :: "string \<Rightarrow> tool_request \<Rightarrow> step_record" where
  "unresolved_record boundaryErr call =
     \<lparr>sr_call = call,
      sr_result = Some \<lparr>rs_name = tr_name call, rs_tool_call_id = tr_tool_call_id call, rs_result = [],
                        rs_failure = Some \<lparr>fl_kind = FailureInternal,
                                           fl_error = ''tool execution did not produce a result: '' @ boundaryErr,
                                           fl_action = RecoveryFinish, fl_issues = []\<rparr>\<rparr>,
      sr_clarification = None, sr_child_suspension = None, sr_result_published = False, sr_schedule_required = True,
      sr_schedule_exact = False, sr_requires_resume = False\<rparr>"

text \<open>\<open>show\<close> renders an error for the synthesized failure.\<close>

definition stepToolRecordsAfterExecution ::
  "(step_error \<Rightarrow> string) \<Rightarrow> tool_request list \<Rightarrow> execution_outcome option list \<Rightarrow> step_error option \<Rightarrow>
   step_record list \<times> step_error option" where
  "stepToolRecordsAfterExecution show calls outcomes executionErr =
     (let (byID, err1) = fold (collect_outcome calls) outcomes (Map.empty, None);
          resultErr = fold (\<lambda>call err.
            if byID (tr_tool_call_id call) = None \<and> executionErr = None
            then join_error err (OutcomeMissing (tr_name call) (tr_tool_call_id call)) else err) calls err1;
          boundary = (case (executionErr, resultErr) of
                        (None, None) \<Rightarrow> [] | (Some a, None) \<Rightarrow> show a | (None, Some b) \<Rightarrow> show b
                      | (Some a, Some b) \<Rightarrow> show (JoinedErrors a b))
      in (map (\<lambda>call. case byID (tr_tool_call_id call) of
                        Some record \<Rightarrow> record | None \<Rightarrow> unresolved_record boundary call) calls, resultErr))"

fun index_records :: "(string \<rightharpoonup> step_record) \<Rightarrow> step_record list \<Rightarrow> (step_error, string \<rightharpoonup> step_record) result" where
  "index_records byID [] = Inr byID"
| "index_records byID (record # records) =
     (let callID = tr_tool_call_id (sr_call record)
      in if callID = [] then Inl (MissingToolCallID (tr_name (sr_call record)))
         else if byID callID \<noteq> None then Inl (DuplicateToolCallID callID)
         else index_records (byID(callID \<mapsto> record)) records)"

fun take_records :: "string list \<Rightarrow> (string \<rightharpoonup> step_record) \<Rightarrow> step_record list \<times> (string \<rightharpoonup> step_record)" where
  "take_records [] byID = ([], byID)"
| "take_records (callID # callIDs) byID =
     (case byID callID of
        None \<Rightarrow> take_records callIDs byID
      | Some record \<Rightarrow>
          (let (records, rest) = take_records callIDs (byID(callID := None)) in (record # records, rest)))"

definition canonicalStepToolRecords ::
  "tool_request list \<Rightarrow> step_record list \<Rightarrow> (step_error, step_record list) result" where
  "canonicalStepToolRecords calls records =
     (case index_records Map.empty records of
        Inl err \<Rightarrow> Inl err
      | Inr byID \<Rightarrow>
          (let (ordered, rest) = take_records (map tr_tool_call_id calls) byID;
               (others, rest') = take_records (map (tr_tool_call_id \<circ> sr_call) records) rest
           in Inr (ordered @ others)))"

subsection \<open>Recovery\<close>

definition record_failure :: "step_record \<Rightarrow> tool_failure option" where
  "record_failure record = Option.bind (sr_result record) rs_failure"

definition strongerRecoveryAction :: "recovery_action option \<Rightarrow> recovery_action \<Rightarrow> recovery_action" where
  "strongerRecoveryAction current next_action =
     (if current = Some RecoveryFinish \<or> next_action = RecoveryFinish then RecoveryFinish
      else if current = Some RecoveryCorrectCall \<or> next_action = RecoveryCorrectCall then RecoveryCorrectCall
      else case current of Some a \<Rightarrow> a | None \<Rightarrow> next_action)"

fun dominant_from :: "recovery_action option \<Rightarrow> step_record list \<Rightarrow> recovery_action option" where
  "dominant_from action [] = action"
| "dominant_from action (record # records) =
     (case record_failure record of
        None \<Rightarrow> dominant_from action records
      | Some failure \<Rightarrow>
          (let action' = strongerRecoveryAction action (fl_action failure)
           in if action' = RecoveryFinish then Some RecoveryFinish else dominant_from (Some action') records))"

text \<open>\<open>None\<close> is the pair of the empty action and false.\<close>

definition dominantRecoveryAction :: "step_record list \<Rightarrow> recovery_action option" where
  "dominantRecoveryAction records = dominant_from None records"

definition AllowsToolTurn :: "tool_failure option \<Rightarrow> bool" where
  "AllowsToolTurn f = (case f of None \<Rightarrow> False | Some failure \<Rightarrow> fl_action failure \<noteq> RecoveryFinish)"

record tool_output =
  to_name :: string
  to_tool_call_id :: string
  to_payload :: string
  to_failure :: "tool_failure option"

definition output_of :: "step_record \<Rightarrow> tool_output" where
  "output_of record = \<lparr>to_name = tr_name (sr_call record), to_tool_call_id = tr_tool_call_id (sr_call record),
     to_payload = tr_payload (sr_call record), to_failure = record_failure record\<rparr>"

definition pendingRecoveryOutputs :: "step_record list \<Rightarrow> tool_output list" where
  "pendingRecoveryOutputs records =
     (case dominantRecoveryAction records of
        None \<Rightarrow> []
      | Some action \<Rightarrow>
          if action = RecoveryFinish then []
          else map output_of (filter (\<lambda>record. AllowsToolTurn (record_failure record)) records))"

definition dominantRecoveryOutputs :: "step_record list \<Rightarrow> tool_output list" where
  "dominantRecoveryOutputs records =
     (case dominantRecoveryAction records of
        None \<Rightarrow> []
      | Some action \<Rightarrow>
          map output_of (filter (\<lambda>record. map_option fl_action (record_failure record) = Some action) records))"

definition correctable_tools :: "tool_output list \<Rightarrow> string set" where
  "correctable_tools outputs =
     set (map to_name (filter (\<lambda>output. map_option fl_action (to_failure output) = Some RecoveryCorrectCall) outputs))"

fun replan_from :: "string set \<Rightarrow> string set \<Rightarrow> tool_output list \<Rightarrow> string list" where
  "replan_from correctable seen [] = []"
| "replan_from correctable seen (output # outputs) =
     (if to_name output \<noteq> ToolUnavailable \<and> map_option fl_action (to_failure output) = Some RecoveryReplan
      then (if to_name output \<in> correctable \<or> to_name output \<in> seen then replan_from correctable seen outputs
            else to_name output # replan_from correctable (insert (to_name output) seen) outputs)
      else replan_from correctable seen outputs)"

definition replanUnavailableTools :: "tool_output list \<Rightarrow> string list" where
  "replanUnavailableTools outputs = replan_from (correctable_tools outputs) {} outputs"

text \<open>The catalog of tools advertised to the planner turn that follows a failure; \<open>None\<close> is a history older than catalogs.\<close>

fun check_catalog :: "string list \<Rightarrow> tool_request list \<Rightarrow> (step_error, unit) result" where
  "check_catalog allowed [] = Inr ()"
| "check_catalog allowed (call # calls) =
     (if tr_name call \<noteq> ToolUnavailable \<and> tr_name call \<notin> set allowed then Inl (OutsideRecoveryCatalog (tr_name call))
      else check_catalog allowed calls)"

definition validateRecoveryCatalog :: "string list option \<Rightarrow> plan_result \<Rightarrow> (step_error, unit) result" where
  "validateRecoveryCatalog catalog result =
     (case catalog of
        None \<Rightarrow> Inr ()
      | Some allowed \<Rightarrow>
          check_catalog allowed
            (pr_tool_calls result @ (case pr_await result of None \<Rightarrow> [] | Some items \<Rightarrow> awaitToolRequests items)))"

definition rewriteRecoveryCatalogToolCalls ::
  "marshal \<Rightarrow> string list option \<Rightarrow> plan_result \<Rightarrow> (policy_error, plan_result) result" where
  "rewriteRecoveryCatalogToolCalls marshal catalog result =
     (case catalog of
        None \<Rightarrow> Inr result
      | Some allowed \<Rightarrow>
          (case traverse (\<lambda>call. if tr_name call = ToolUnavailable \<or> tr_name call \<in> set allowed then Inr call
                                 else rewriteToolCallUnavailable marshal call) (pr_tool_calls result) of
             Inl err \<Rightarrow> Inl err
           | Inr calls \<Rightarrow> Inr (result\<lparr>pr_tool_calls := calls\<rparr>)))"

subsection \<open>Ending a step\<close>

fun validateToolTerminalBatch :: "step_record list \<Rightarrow> (step_error, unit) result" where
  "validateToolTerminalBatch [] = Inr ()"
| "validateToolTerminalBatch (record # records) =
     (if sr_clarification record \<noteq> None then Inl (ClarificationWithTerminal (tr_name (sr_call record)))
      else case sr_result record of
             None \<Rightarrow> Inl (MissingResult (tr_name (sr_call record)))
           | Some res \<Rightarrow>
               if rs_failure res \<noteq> None then Inl (FailedWithTerminal (tr_name (sr_call record)))
               else validateToolTerminalBatch records)"

definition budgetedBatchOutcome :: "tool_table \<Rightarrow> step_record list \<Rightarrow> bool \<times> bool" where
  "budgetedBatchOutcome tbl records =
     (let budgeted = filter (\<lambda>record. sr_result record \<noteq> None \<and> \<not> isBookkeeping tbl (tr_name (sr_call record))) records
      in (list_ex (\<lambda>record. record_failure record = None) budgeted,
          list_ex (\<lambda>record. record_failure record \<noteq> None) budgeted))"

definition toolResultRequiresResume :: "tool_table \<Rightarrow> tool_request \<Rightarrow> tool_result option \<Rightarrow> bool" where
  "toolResultRequiresResume tbl call result =
     (if \<not> isBookkeeping tbl (tr_name call) then True else Option.bind result rs_failure \<noteq> None)"

fun filterResumeRequiredToolRecords :: "tool_table \<Rightarrow> step_record list \<Rightarrow> (step_error, step_record list) result" where
  "filterResumeRequiredToolRecords tbl [] = Inr []"
| "filterResumeRequiredToolRecords tbl (record # records) =
     (case validateStepToolRecord record of
        Inl err \<Rightarrow> Inl err
      | Inr u \<Rightarrow>
          (case filterResumeRequiredToolRecords tbl records of
             Inl err \<Rightarrow> Inl err
           | Inr filtered \<Rightarrow>
               Inr (if \<not> sr_requires_resume record \<and> \<not> toolResultRequiresResume tbl (sr_call record) (sr_result record)
                    then filtered else record # filtered)))"

fun executedSuccessfulTerminalRunTool :: "tool_table \<Rightarrow> step_record list \<Rightarrow> (step_error, bool) result" where
  "executedSuccessfulTerminalRunTool tbl [] = Inr False"
| "executedSuccessfulTerminalRunTool tbl (record # records) =
     (case sr_result record of
        None \<Rightarrow> Inl (MissingResult (tr_name (sr_call record)))
      | Some res \<Rightarrow>
          (case toolSpec tbl (rs_name res) of
             None \<Rightarrow> Inl (UnknownTool (rs_name res))
           | Some spec \<Rightarrow>
               if sp_terminal_run spec \<and> rs_failure res = None then Inr True
               else executedSuccessfulTerminalRunTool tbl records))"

definition validateTerminalPlanResult :: "plan_result \<Rightarrow> (step_error, unit) result" where
  "validateTerminalPlanResult r =
     (if pr_final_response r = None \<and> pr_final_tool_result r = None then Inl NeitherTerminalPayload
      else if pr_final_response r \<noteq> None \<and> pr_final_tool_result r \<noteq> None then Inl BothTerminalPayloads
      else if pr_await r \<noteq> None then Inl AwaitWithTerminal
      else Inr ())"

datatype step_transition = TransitionResume | TransitionFinishCurrent | TransitionFinishTerminal

definition classifyToolRecords ::
  "tool_table \<Rightarrow> step_record list \<Rightarrow> plan_result \<Rightarrow> bool \<Rightarrow> (step_error, step_transition) result" where
  "classifyToolRecords tbl records result awaited =
     (if records = [] \<or> list_ex (\<lambda>record. \<not> isBookkeeping tbl (tr_name (sr_call record))) records
      then Inr TransitionResume
      else case filterResumeRequiredToolRecords tbl records of
             Inl err \<Rightarrow> Inl err
           | Inr resumeRecords \<Rightarrow>
               if resumeRecords \<noteq> [] then Inr TransitionResume
               else case executedSuccessfulTerminalRunTool tbl records of
                      Inl err \<Rightarrow> Inl err
                    | Inr terminal \<Rightarrow>
                        if terminal then Inr TransitionFinishTerminal
                        else if awaited then Inr TransitionResume
                        else case validateTerminalPlanResult result of
                               Inl err \<Rightarrow> Inl (BookkeepingNeedsTerminal err)
                             | Inr u \<Rightarrow> Inr TransitionFinishCurrent)"

subsection \<open>Finalization\<close>

definition validateFinalizationPlanResult :: "plan_result option \<Rightarrow> (step_error, unit) result" where
  "validateFinalizationPlanResult result =
     (case result of
        None \<Rightarrow> Inl NilPlanResult
      | Some r \<Rightarrow>
          if pr_await r \<noteq> None then Inl FinalizationAwaits
          else if pr_synthesize_after_tools r then Inl FinalizationSynthesizes
          else if pr_tool_calls r \<noteq> []
          then (if pr_final_response r \<noteq> None \<or> pr_final_tool_result r \<noteq> None then Inl FinalizationCombines else Inr ())
          else validateTerminalPlanResult r)"

definition isFinalizationTerminalToolPlan :: "plan_result option \<Rightarrow> bool" where
  "isFinalizationTerminalToolPlan result \<longleftrightarrow>
     (case result of None \<Rightarrow> False
      | Some r \<Rightarrow> pr_tool_calls r \<noteq> [] \<and> pr_final_response r = None \<and> pr_final_tool_result r = None \<and> pr_await r = None)"

fun check_finalization_calls :: "tool_table \<Rightarrow> tool_request list \<Rightarrow> (step_error, unit) result" where
  "check_finalization_calls tbl [] = Inr ()"
| "check_finalization_calls tbl (call # calls) =
     (case toolSpec tbl (tr_name call) of
        None \<Rightarrow> Inl (FinalizationUnknownTool (tr_name call))
      | Some spec \<Rightarrow>
          if \<not> sp_bookkeeping spec then Inl (FinalizationBudgetedTool (tr_name call))
          else if \<not> sp_terminal_run spec then Inl (FinalizationNonTerminalTool (tr_name call))
          else check_finalization_calls tbl calls)"

definition validateFinalizationTerminalToolCalls :: "tool_table \<Rightarrow> tool_request list \<Rightarrow> (step_error, unit) result" where
  "validateFinalizationTerminalToolCalls tbl calls =
     (if calls = [] then Inl FinalizationNoCalls else check_finalization_calls tbl calls)"

fun check_finalization_records :: "tool_table \<Rightarrow> step_record list \<Rightarrow> (step_error, unit) result" where
  "check_finalization_records tbl [] = Inr ()"
| "check_finalization_records tbl (record # records) =
     (case validateStepToolRecord record of
        Inl err \<Rightarrow> Inl err
      | Inr u \<Rightarrow>
          if sr_clarification record \<noteq> None then Inl (FinalizationClarifies (tr_name (sr_call record)))
          else if record_failure record \<noteq> None then Inl (FinalizationFailed (tr_name (sr_call record)))
          else (case toolSpec tbl (case sr_result record of None \<Rightarrow> [] | Some res \<Rightarrow> rs_name res) of
                  None \<Rightarrow> Inl (FinalizationUnknownTool (tr_name (sr_call record)))
                | Some spec \<Rightarrow>
                    if \<not> sp_terminal_run spec then Inl (FinalizationNonTerminalTool (tr_name (sr_call record)))
                    else check_finalization_records tbl records))"

definition validateFinalizationTerminalToolRecords :: "tool_table \<Rightarrow> step_record list \<Rightarrow> (step_error, unit) result" where
  "validateFinalizationTerminalToolRecords tbl records =
     (if records = [] then Inl FinalizationNoRecords else check_finalization_records tbl records)"

end
