(* ===== verification/Step_Contract.thy ===== *)
theory Step_Contract
  imports Workflow_Step "HOL-Library.Multiset"
begin

section \<open>What a workflow step guarantees\<close>

text \<open>
  The contract of \<open>Workflow_Step\<close>: every committed tool call is closed by exactly one correlated result,
  the recorded results are in the provider's call order, parallel failures combine to the strongest
  recovery, and generated call identifiers are unique within a run.
\<close>

abbreviation call_id :: "step_record \<Rightarrow> string" where
  "call_id r \<equiv> tr_tool_call_id (sr_call r)"

subsection \<open>Pairing calls with results\<close>

lemma record_of_valid:
  "validateStepToolRecord (record_of call x) = Inr u \<longleftrightarrow>
   tr_tool_call_id call \<noteq> [] \<and>
   (\<exists>res. xo_result x = Some res \<and> rs_tool_call_id res = tr_tool_call_id call \<and>
      (rs_name res = [] \<or> rs_name res = tr_name call))"
  by (auto simp: validateStepToolRecord_def record_of_def split: option.split)

text \<open>The index of collected outcomes: valid records of the batch's own calls, from the outcomes seen.\<close>

definition collected :: "tool_request list \<Rightarrow> execution_outcome option set \<Rightarrow> (string \<rightharpoonup> step_record) \<Rightarrow> bool" where
  "collected calls outcomes byID \<longleftrightarrow>
     (\<forall>i r. byID i = Some r \<longrightarrow> (\<exists>x call. Some x \<in> outcomes \<and> call \<in> set calls \<and> tr_tool_call_id call = i \<and>
        r = record_of call x \<and> validateStepToolRecord r = Inr ()))"

lemma find_SomeD: "find P xs = Some x \<Longrightarrow> x \<in> set xs \<and> P x"
  by (induction xs) (auto split: if_splits)

lemma collect_outcome_keeps:
  assumes "collected calls S (fst acc)"
  shows "collected calls (insert outcome S) (fst (collect_outcome calls outcome acc))"
proof -
  have mono: "collected calls (insert outcome S) (fst acc)"
    using assms unfolding collected_def by blast
  show ?thesis
  proof (cases "fst (collect_outcome calls outcome acc) = fst acc")
    case True
    then show ?thesis using mono by simp
  next
    case False
    then obtain x res call where x: "outcome = Some x" "xo_result x = Some res"
        "find (\<lambda>c. tr_tool_call_id c = rs_tool_call_id res) (rev calls) = Some call"
        "validateStepToolRecord (record_of call x) = Inr ()"
        "fst (collect_outcome calls outcome acc) = (fst acc)(rs_tool_call_id res \<mapsto> record_of call x)"
      by (auto simp: collect_outcome_def split: option.splits if_splits sum.splits)
    have "call \<in> set calls" "tr_tool_call_id call = rs_tool_call_id res"
      using find_SomeD [OF x(3)] by simp_all
    with x mono show ?thesis by (auto simp: collected_def)
  qed
qed

lemma fold_collected:
  "collected calls S (fst acc) \<Longrightarrow> collected calls (S \<union> set outcomes) (fst (fold (collect_outcome calls) outcomes acc))"
proof (induction outcomes arbitrary: S acc)
  case (Cons a outcomes)
  from Cons.IH [OF collect_outcome_keeps [OF Cons.prems, of a]] show ?case by simp
qed simp

lemma fold_collected_Nil: "collected calls (set outcomes) (fst (fold (collect_outcome calls) outcomes (Map.empty, None)))"
  using fold_collected [of calls "{}" "(Map.empty, None)" outcomes] by (simp add: collected_def)

lemma join_error_Some [simp]: "join_error e x \<noteq> None"
  by (simp add: join_error_def split: option.split)

lemma missing_fold:
  "fold (\<lambda>call err. if P call then join_error err (f call) else err) calls err = None \<longleftrightarrow>
   err = None \<and> (\<forall>call \<in> set calls. \<not> P call)"
  by (induction calls arbitrary: err) auto

lemma records_close_calls:
  assumes "distinct (map tr_tool_call_id calls)" "[] \<notin> set (map tr_tool_call_id calls)"
    and "stepToolRecordsAfterExecution show calls outcomes executionErr = (records, resultErr)"
  shows "map sr_call records = calls \<and>
    (\<forall>r \<in> set records. \<exists>res. sr_result r = Some res \<and> rs_tool_call_id res = call_id r \<and>
       ((\<exists>x. Some x \<in> set outcomes \<and> r = record_of (sr_call r) x) \<or>
        map_option fl_action (rs_failure res) = Some RecoveryFinish \<and> (executionErr \<noteq> None \<or> resultErr \<noteq> None)))"
proof -
  let ?acc = "fold (collect_outcome calls) outcomes (Map.empty, None)"
  let ?byID = "fst ?acc"
  obtain boundary where recs: "records = map (\<lambda>call. case ?byID (tr_tool_call_id call) of
      Some r \<Rightarrow> r | None \<Rightarrow> unresolved_record boundary call) calls"
    and err: "resultErr = fold (\<lambda>call err. if ?byID (tr_tool_call_id call) = None \<and> executionErr = None
      then join_error err (OutcomeMissing (tr_name call) (tr_tool_call_id call)) else err) calls (snd ?acc)"
    using assms(3) by (auto simp: stepToolRecordsAfterExecution_def Let_def case_prod_beta)
  have one: "sr_call r = call \<and> (\<exists>res. sr_result r = Some res \<and> rs_tool_call_id res = call_id r \<and>
       ((\<exists>x. Some x \<in> set outcomes \<and> r = record_of (sr_call r) x) \<or>
        map_option fl_action (rs_failure res) = Some RecoveryFinish \<and> (executionErr \<noteq> None \<or> resultErr \<noteq> None)))"
    if call: "call \<in> set calls" and r: "r = (case ?byID (tr_tool_call_id call) of
      Some r \<Rightarrow> r | None \<Rightarrow> unresolved_record boundary call)" for call r
  proof (cases "?byID (tr_tool_call_id call)")
    case None
    then have "executionErr \<noteq> None \<or> resultErr \<noteq> None"
      using call unfolding err missing_fold by (cases executionErr) auto
    with None r show ?thesis by (simp add: unresolved_record_def)
  next
    case (Some rec)
    then obtain x c where x: "Some x \<in> set outcomes" "c \<in> set calls" "tr_tool_call_id c = tr_tool_call_id call"
        "rec = record_of c x" "validateStepToolRecord rec = Inr ()"
      using fold_collected_Nil [of calls outcomes] unfolding collected_def by blast
    have "c = call"
      using x(2,3) call assms(1) by (simp add: distinct_map inj_on_def)
    with Some r x show ?thesis
      using record_of_valid [of c x "()"] by (auto simp: record_of_def)
  qed
  have "map sr_call records = calls"
    unfolding recs by (simp add: comp_def) (rule map_idI, use one in blast)
  moreover have "\<exists>res. sr_result r = Some res \<and> rs_tool_call_id res = call_id r \<and>
       ((\<exists>x. Some x \<in> set outcomes \<and> r = record_of (sr_call r) x) \<or>
        map_option fl_action (rs_failure res) = Some RecoveryFinish \<and> (executionErr \<noteq> None \<or> resultErr \<noteq> None))"
    if "r \<in> set records" for r
  proof -
    from that obtain call where "call \<in> set calls" "r = (case ?byID (tr_tool_call_id call) of
        Some r \<Rightarrow> r | None \<Rightarrow> unresolved_record boundary call)"
      unfolding recs by auto
    from one [OF this] show ?thesis by blast
  qed
  ultimately show ?thesis by blast
qed

text \<open>
  Property C19. Every committed tool call is closed. Whatever the execution layer returns (nothing, too
  little, duplicates, results of other calls or malformed outcomes), the records of a batch with
  distinct non-empty call identifiers are exactly the calls, in order, each with a result carrying the
  call's identifier: the result of one of the outcomes, or a failure that ends domain work. If no error
  is reported, no call was left without an outcome.
\<close>

theorem committed_calls_are_closed:
  assumes "distinct (map tr_tool_call_id calls)" "[] \<notin> set (map tr_tool_call_id calls)"
    and "stepToolRecordsAfterExecution show calls outcomes executionErr = (records, resultErr)"
  shows "map sr_call records = calls \<and>
    (\<forall>r \<in> set records. \<exists>res. sr_result r = Some res \<and> rs_tool_call_id res = call_id r \<and>
       ((\<exists>x. Some x \<in> set outcomes \<and> r = record_of (sr_call r) x) \<or>
        map_option fl_action (rs_failure res) = Some RecoveryFinish \<and> (executionErr \<noteq> None \<or> resultErr \<noteq> None)))"
  using assms by (rule records_close_calls)

subsection \<open>Order of recorded results\<close>

text \<open>The reference: the records of the calls in call order, then the others as they came.\<close>

definition in_call_order :: "tool_request list \<Rightarrow> step_record list \<Rightarrow> step_record list" where
  "in_call_order calls records =
     concat (map (\<lambda>call. filter (\<lambda>r. call_id r = tr_tool_call_id call) records) calls) @
     filter (\<lambda>r. call_id r \<notin> set (map tr_tool_call_id calls)) records"

lemma map_of_call_ids [simp]:
  "i \<notin> call_id ` set records \<Longrightarrow> map_of (map (\<lambda>r. (call_id r, r)) records) i = None"
  by (simp add: map_of_eq_None_iff image_image)

lemma index_records_ok:
  "index_records m records = Inr byID \<longleftrightarrow>
   [] \<notin> set (map call_id records) \<and> distinct (map call_id records) \<and> dom m \<inter> set (map call_id records) = {} \<and>
   byID = m ++ map_of (map (\<lambda>r. (call_id r, r)) records)"
proof (induction records arbitrary: m)
  case (Cons r records)
  show ?case
  proof (cases "call_id r = [] \<or> m (call_id r) \<noteq> None")
    case True
    then show ?thesis by (auto simp: Let_def)
  next
    case False
    have step: "index_records m (r # records) = index_records (m(call_id r \<mapsto> r)) records"
      using False by (simp add: Let_def)
    have IH: "index_records (m(call_id r \<mapsto> r)) records = Inr byID \<longleftrightarrow>
        [] \<notin> set (map call_id records) \<and> distinct (map call_id records) \<and>
        dom (m(call_id r \<mapsto> r)) \<inter> set (map call_id records) = {} \<and>
        byID = m(call_id r \<mapsto> r) ++ map_of (map (\<lambda>r. (call_id r, r)) records)"
      by (rule Cons.IH)
    have disjoint: "dom (m(call_id r \<mapsto> r)) \<inter> set (map call_id records) = {} \<longleftrightarrow>
        call_id r \<notin> set (map call_id records) \<and> dom m \<inter> set (map call_id (r # records)) = {}"
      using False by auto
    show ?thesis
    proof (cases "call_id r \<in> set (map call_id records)")
      case True
      then show ?thesis unfolding step IH disjoint by simp
    next
      case new: False
      have add: "m(call_id r \<mapsto> r) ++ map_of (map (\<lambda>r. (call_id r, r)) records) =
          m ++ map_of (map (\<lambda>r. (call_id r, r)) (r # records))"
      proof
        fix x
        show "(m(call_id r \<mapsto> r) ++ map_of (map (\<lambda>r. (call_id r, r)) records)) x =
            (m ++ map_of (map (\<lambda>r. (call_id r, r)) (r # records))) x"
          using new by (cases "map_of (map (\<lambda>r. (call_id r, r)) records) x") (auto simp: map_add_def)
      qed
      have fresh: "[] \<notin> set (map call_id (r # records)) \<and> distinct (map call_id (r # records)) \<longleftrightarrow>
          [] \<notin> set (map call_id records) \<and> distinct (map call_id records)"
        using new False by auto
      show ?thesis unfolding step IH disjoint add using fresh new by blast
    qed
  qed
qed auto

lemma map_of_records:
  "distinct (map call_id records) \<Longrightarrow>
   filter (\<lambda>r. call_id r = i) records =
     (case map_of (map (\<lambda>r. (call_id r, r)) records) i of None \<Rightarrow> [] | Some r \<Rightarrow> [r])"
proof (induction records)
  case (Cons r records)
  have "map_of (map (\<lambda>r. (call_id r, r)) records) (call_id r) = None"
    using Cons.prems by simp
  with Cons show ?case by auto
qed simp

lemma take_records_eq:
  "distinct ids \<Longrightarrow>
   take_records ids byID =
     (concat (map (\<lambda>i. case byID i of None \<Rightarrow> [] | Some r \<Rightarrow> [r]) ids), byID |` (- set ids))"
proof (induction ids arbitrary: byID)
  case (Cons i ids)
  have ids: "concat (map (\<lambda>j. case (byID(i := None)) j of None \<Rightarrow> [] | Some r \<Rightarrow> [r]) ids) =
      concat (map (\<lambda>j. case byID j of None \<Rightarrow> [] | Some r \<Rightarrow> [r]) ids)"
    using Cons.prems by (intro arg_cong [where f = concat] map_cong) auto
  have rest: "(byID(i := None)) |` (- set ids) = byID |` (- set (i # ids))"
    by (auto simp: restrict_map_def fun_eq_iff)
  show ?case
  proof (cases "byID i")
    case None
    then have "byID |` (- set ids) = byID |` (- set (i # ids))"
      by (auto simp: restrict_map_def fun_eq_iff)
    with None Cons show ?thesis by simp
  next
    case (Some r)
    have "take_records ids (byID(i := None)) =
        (concat (map (\<lambda>j. case byID j of None \<Rightarrow> [] | Some r \<Rightarrow> [r]) ids), byID |` (- set (i # ids)))"
      by (subst Cons.IH) (use Cons.prems in \<open>simp_all only: ids rest distinct.simps\<close>)
    with Some show ?thesis by simp
  qed
qed (simp add: restrict_map_def)

lemma remaining_records:
  assumes "distinct (map call_id records)"
  shows "concat (map (\<lambda>i. case (map_of (map (\<lambda>r. (call_id r, r)) records) |` S) i of None \<Rightarrow> [] | Some r \<Rightarrow> [r])
      (map call_id records)) = filter (\<lambda>r. call_id r \<in> S) records"
proof -
  have "map_of (map (\<lambda>r. (call_id r, r)) records) (call_id r) = Some r" if "r \<in> set records" for r
    using that assms by (intro map_of_is_SomeI) (auto simp: comp_def)
  then have one: "(case (map_of (map (\<lambda>r. (call_id r, r)) records) |` S) (call_id r) of None \<Rightarrow> [] | Some r \<Rightarrow> [r]) =
      (if call_id r \<in> S then [r] else [])" if "r \<in> set records" for r
    using that by (simp add: restrict_map_def)
  have "concat (map (\<lambda>i. case (map_of (map (\<lambda>r. (call_id r, r)) records) |` S) i of None \<Rightarrow> [] | Some r \<Rightarrow> [r])
      (map call_id records)) = concat (map (\<lambda>r. if call_id r \<in> S then [r] else []) records)"
    unfolding map_map comp_def by (intro arg_cong [where f = concat] map_cong refl one)
  also have "concat (map (\<lambda>r. if P r then [r] else []) xs) = filter P xs" for P and xs :: "step_record list"
    by (induction xs) auto
  finally show ?thesis .
qed

lemma canonical_records:
  assumes "distinct (map tr_tool_call_id calls)"
  shows "(canonicalStepToolRecords calls records = Inr out \<longleftrightarrow>
       [] \<notin> set (map call_id records) \<and> distinct (map call_id records) \<and> out = in_call_order calls records) \<and>
    (canonicalStepToolRecords calls records = Inr out \<longrightarrow> mset out = mset records)"
proof -
  let ?m = "map_of (map (\<lambda>r. (call_id r, r)) records)"
  have eq: "canonicalStepToolRecords calls records = Inr (in_call_order calls records)"
    if ok: "index_records Map.empty records = Inr ?m" "distinct (map call_id records)"
  proof -
    have "take_records (map call_id records) (?m |` (- set (map tr_tool_call_id calls))) =
        (filter (\<lambda>r. call_id r \<notin> set (map tr_tool_call_id calls)) records,
         ?m |` (- set (map tr_tool_call_id calls)) |` (- set (map call_id records)))"
      using take_records_eq [OF ok(2)] remaining_records [OF ok(2), of "- set (map tr_tool_call_id calls)"] by simp
    then show ?thesis
      using take_records_eq [OF assms, of ?m] ok(1)
      by (simp add: canonicalStepToolRecords_def in_call_order_def map_of_records [OF ok(2)] comp_def)
  qed
  have iff: "canonicalStepToolRecords calls records = Inr out \<longleftrightarrow>
       [] \<notin> set (map call_id records) \<and> distinct (map call_id records) \<and> out = in_call_order calls records"
  proof (cases "index_records Map.empty records")
    case (Inl e)
    then have "\<not> ([] \<notin> set (map call_id records) \<and> distinct (map call_id records))"
      using index_records_ok [of Map.empty records ?m] by auto
    with Inl show ?thesis by (auto simp: canonicalStepToolRecords_def)
  next
    case (Inr byID)
    then have "distinct (map call_id records)" "[] \<notin> set (map call_id records)" "byID = ?m"
      using index_records_ok [of Map.empty records byID] by auto
    with eq Inr show ?thesis by auto
  qed
  have "mset (in_call_order calls records) = mset records" if "distinct (map call_id records)"
    using assms
  proof (induction calls)
    case Nil
    then show ?case by (simp add: in_call_order_def)
  next
    case (Cons c calls)
    let ?rest = "\<lambda>r. call_id r \<notin> set (map tr_tool_call_id calls)"
    have "mset (filter ?rest records) =
        mset (filter (\<lambda>r. call_id r = tr_tool_call_id c) records) +
        mset (filter (\<lambda>r. call_id r \<notin> set (map tr_tool_call_id (c # calls))) records)"
      using Cons.prems by (induction records) auto
    with Cons show ?case by (simp add: in_call_order_def ac_simps)
  qed
  with iff show ?thesis by blast
qed

text \<open>
  Property C20. Results are recorded in the provider's order. For calls with distinct identifiers, the
  canonical order succeeds exactly when the records have distinct non-empty call identifiers, and then
  it is the records of the calls in call order followed by the records of await work in their own order:
  no record is lost, duplicated or changed.
\<close>

theorem canonical_order:
  assumes "distinct (map tr_tool_call_id calls)"
  shows "(canonicalStepToolRecords calls records = Inr out \<longleftrightarrow>
       [] \<notin> set (map call_id records) \<and> distinct (map call_id records) \<and> out = in_call_order calls records) \<and>
    (canonicalStepToolRecords calls records = Inr out \<longrightarrow> mset out = mset records)"
  using assms by (rule canonical_records)

subsection \<open>Combining failures\<close>

definition failure_actions :: "step_record list \<Rightarrow> recovery_action set" where
  "failure_actions records = {fl_action f | f record. record \<in> set records \<and> record_failure record = Some f}"

definition strongest :: "recovery_action set \<Rightarrow> recovery_action option" where
  "strongest actions =
     (if RecoveryFinish \<in> actions then Some RecoveryFinish
      else if RecoveryCorrectCall \<in> actions then Some RecoveryCorrectCall
      else if RecoveryReplan \<in> actions then Some RecoveryReplan
      else None)"

lemma failure_actions_simps [simp]:
  "failure_actions [] = {}"
  "failure_actions (r # records) =
     (case record_failure r of None \<Rightarrow> failure_actions records
      | Some f \<Rightarrow> insert (fl_action f) (failure_actions records))"
  by (auto simp: failure_actions_def split: option.split)

lemma strongest_insert:
  "strongest (insert (strongerRecoveryAction current a) S) = strongest (set_option current \<union> insert a S)"
  by (cases current; cases a; cases "the current")
     (auto simp: strongest_def strongerRecoveryAction_def)

lemma dominant_from_eq:
  "current \<noteq> Some RecoveryFinish \<Longrightarrow>
   dominant_from current records = strongest (set_option current \<union> failure_actions records)"
proof (induction records arbitrary: current)
  case Nil
  then show ?case by (cases current; cases "the current") (auto simp: strongest_def)
next
  case (Cons r records)
  show ?case
  proof (cases "record_failure r")
    case None
    with Cons show ?thesis by simp
  next
    case (Some f)
    let ?a = "strongerRecoveryAction current (fl_action f)"
    have union: "strongest (insert ?a (failure_actions records)) =
        strongest (set_option current \<union> insert (fl_action f) (failure_actions records))"
      by (rule strongest_insert)
    show ?thesis
    proof (cases "?a = RecoveryFinish")
      case True
      have "strongest (insert ?a (failure_actions records)) = Some RecoveryFinish"
        unfolding True by (simp add: strongest_def)
      with True Some union show ?thesis by simp
    next
      case False
      with Cons.IH [of "Some ?a"] Some union show ?thesis by simp
    qed
  qed
qed

text \<open>
  Parallel failures combine to the strongest recovery, whatever their order: one failure
  that ends domain work ends it, otherwise one call to correct is corrected, otherwise the planner
  replans; without a failure there is nothing to recover. The outputs handed to the planner for recovery
  are those of every recoverable failure, and none when one failure ends domain work.
\<close>

theorem dominant_recovery_is_strongest:
  "dominantRecoveryAction records = strongest (failure_actions records) \<and>
   pendingRecoveryOutputs records =
     (if RecoveryFinish \<in> failure_actions records then []
      else map output_of (filter (\<lambda>record. record_failure record \<noteq> None) records))"
proof -
  have dom: "dominantRecoveryAction records = strongest (failure_actions records)"
    using dominant_from_eq [of None records] by (simp add: dominantRecoveryAction_def)
  have "pendingRecoveryOutputs records = map output_of (filter (\<lambda>record. record_failure record \<noteq> None) records)"
    if no: "RecoveryFinish \<notin> failure_actions records"
  proof (cases "strongest (failure_actions records)")
    case None
    then have "fl_action f \<notin> failure_actions records" for f
      by (cases "fl_action f") (auto simp: strongest_def split: if_splits)
    then have "record_failure r = None" if "r \<in> set records" for r
      using that by (cases "record_failure r") (auto simp: failure_actions_def)
    then have "filter (\<lambda>record. record_failure record \<noteq> None) records = []"
      by (simp add: filter_empty_conv)
    with None show ?thesis by (simp add: pendingRecoveryOutputs_def dom)
  next
    case (Some action)
    have "AllowsToolTurn (record_failure r) \<longleftrightarrow> record_failure r \<noteq> None" if "r \<in> set records" for r
      using that no by (auto simp: AllowsToolTurn_def failure_actions_def split: option.split)
    then have "filter (\<lambda>record. AllowsToolTurn (record_failure record)) records =
        filter (\<lambda>record. record_failure record \<noteq> None) records"
      by (rule filter_cong [OF refl])
    moreover have "action \<noteq> RecoveryFinish"
      using Some no by (auto simp: strongest_def split: if_splits)
    ultimately show ?thesis using Some by (simp add: pendingRecoveryOutputs_def dom)
  qed
  moreover have "pendingRecoveryOutputs records = []" if "RecoveryFinish \<in> failure_actions records"
    using that by (simp add: pendingRecoveryOutputs_def dom strongest_def)
  ultimately show ?thesis using dom by simp
qed

subsection \<open>Generated call identifiers\<close>

lemma slash_not_in_dec [simp]: "CHR ''/'' \<notin> set (dec n)"
  using dec_all_digits [of n] by (auto simp: is_digit_def)

lemma slash_not_in_show_int [simp]: "CHR ''/'' \<notin> set (show_int i)"
  by (simp add: show_int_def)

lemma minus_not_in_dec [simp]: "dec n \<noteq> CHR ''-'' # s" "CHR ''-'' # s \<noteq> dec n"
proof -
  show "dec n \<noteq> CHR ''-'' # s"
    using dec_all_digits [of n] by (cases "dec n") (auto simp: is_digit_def)
  then show "CHR ''-'' # s \<noteq> dec n" by metis
qed

lemma show_int_inject [simp]: "show_int i = show_int j \<longleftrightarrow> i = j"
  by (auto simp: show_int_def)

lemma append_sep_inject:
  "sep \<notin> set xs \<Longrightarrow> sep \<notin> set ys \<Longrightarrow> xs @ sep # us = ys @ sep # vs \<longleftrightarrow> xs = ys \<and> us = vs"
  by (auto simp: append_eq_append_conv2 append_eq_Cons_conv Cons_eq_append_conv)

lemma append_last_sep_inject:
  "sep \<notin> set us \<Longrightarrow> sep \<notin> set vs \<Longrightarrow> xs @ sep # us = ys @ sep # vs \<longleftrightarrow> xs = ys \<and> us = vs"
  by (auto simp: append_eq_append_conv2 append_eq_Cons_conv Cons_eq_append_conv)

abbreviation call_name :: "string \<Rightarrow> string" where
  "call_name tool \<equiv> replace_dots (if tool = [] then ''tool'' else tool)"

lemma readable_call_id_inject [simp]:
  "readable_call_id runID turnID a tool i = readable_call_id runID turnID a' tool' i' \<longleftrightarrow>
   a = a' \<and> call_name tool = call_name tool' \<and> i = i'"
  by (simp add: readable_call_id_def append_sep_inject append_last_sep_inject)

lemma slash_in_readable: "CHR ''/'' \<in> set (readable_call_id runID turnID a tool i)"
  by (simp add: readable_call_id_def)

definition hash_input :: "string \<Rightarrow> string" where
  "hash_input readable = ''goa-ai/runtime-tool-call-id/v1'' @ [CHR 0x00] @ readable"

lemma hash_input_inject [simp]: "hash_input s = hash_input t \<longleftrightarrow> s = t"
  by (simp add: hash_input_def)

text \<open>What is relied on of the digest: 64 hexadecimal characters, and no collision on the identifiers at hand.\<close>

definition digest_ok :: "(string \<Rightarrow> string) \<Rightarrow> string set \<Rightarrow> bool" where
  "digest_ok sha256hex inputs \<longleftrightarrow>
     inj_on sha256hex (hash_input ` inputs) \<and>
     (\<forall>s \<in> inputs. length (sha256hex (hash_input s)) = 64 \<and> CHR ''/'' \<notin> set (sha256hex (hash_input s)))"

lemma generated_inject:
  assumes "digest_ok sha256hex {readable_call_id runID turnID a tool i, readable_call_id runID turnID a' tool' i'}"
  shows "generateDeterministicToolCallID sha256hex runID turnID a tool i =
         generateDeterministicToolCallID sha256hex runID turnID a' tool' i' \<longleftrightarrow>
         a = a' \<and> call_name tool = call_name tool' \<and> i = i'"
proof -
  let ?r = "readable_call_id runID turnID a tool i" and ?r' = "readable_call_id runID turnID a' tool' i'"
  have slash: "''call-'' @ sha256hex (hash_input ?r) \<noteq> ?r'" "?r \<noteq> ''call-'' @ sha256hex (hash_input ?r')"
  proof -
    have "CHR ''/'' \<notin> set (''call-'' @ sha256hex (hash_input ?r))" "CHR ''/'' \<notin> set (''call-'' @ sha256hex (hash_input ?r'))"
      using assms by (auto simp: digest_ok_def)
    then show "''call-'' @ sha256hex (hash_input ?r) \<noteq> ?r'" "?r \<noteq> ''call-'' @ sha256hex (hash_input ?r')"
      using slash_in_readable by metis+
  qed
  have inj: "sha256hex (hash_input ?r) = sha256hex (hash_input ?r') \<longleftrightarrow> ?r = ?r'"
  proof -
    have "inj_on sha256hex {hash_input ?r, hash_input ?r'}"
      using assms by (simp only: digest_ok_def image_insert image_empty)
    then have "sha256hex (hash_input ?r) = sha256hex (hash_input ?r') \<longleftrightarrow> hash_input ?r = hash_input ?r'"
      by (rule inj_on_eq_iff) simp_all
    then show ?thesis by (simp only: hash_input_inject)
  qed
  have gen: "generateDeterministicToolCallID sha256hex runID turnID b t j =
      (if length (readable_call_id runID turnID b t j) \<le> 256 then readable_call_id runID turnID b t j
       else ''call-'' @ sha256hex (hash_input (readable_call_id runID turnID b t j)))" for b t j
    by (simp add: generateDeterministicToolCallID_def MaxToolCallMetaIDLength_def hash_input_def Let_def)
  have "generateDeterministicToolCallID sha256hex runID turnID a tool i =
         generateDeterministicToolCallID sha256hex runID turnID a' tool' i' \<longleftrightarrow> ?r = ?r'"
    unfolding gen using slash inj by (auto simp del: readable_call_id_inject)
  then show ?thesis by simp
qed

text \<open>
  Generated call identifiers. Within one run and turn two generated identifiers are equal
  only for the same attempt, position and (dot-free) tool name, whether or not they are long enough to be
  hashed, and no generated identifier is longer than the limit of 256 characters.
\<close>

theorem generated_call_ids:
  assumes "digest_ok sha256hex {readable_call_id runID turnID a tool i, readable_call_id runID turnID a' tool' i'}"
  shows "(generateDeterministicToolCallID sha256hex runID turnID a tool i =
          generateDeterministicToolCallID sha256hex runID turnID a' tool' i' \<longleftrightarrow>
          a = a' \<and> replace_dots (if tool = [] then ''tool'' else tool) =
            replace_dots (if tool' = [] then ''tool'' else tool') \<and> i = i') \<and>
    length (generateDeterministicToolCallID sha256hex runID turnID a tool i) \<le> MaxToolCallMetaIDLength"
proof -
  have "length (sha256hex (hash_input (readable_call_id runID turnID a tool i))) = 64"
    using assms by (simp add: digest_ok_def)
  then have "length (generateDeterministicToolCallID sha256hex runID turnID a tool i) \<le> MaxToolCallMetaIDLength"
    by (simp add: generateDeterministicToolCallID_def MaxToolCallMetaIDLength_def hash_input_def Let_def)
  with generated_inject [OF assms] show ?thesis by simp
qed

text \<open>A digest for two short identifiers.\<close>

theorem generated_call_ids_witness:
  "generateDeterministicToolCallID (\<lambda>s. replicate 64 (last s)) ''r'' ''t'' 1 ''a.b'' 0 \<noteq>
   generateDeterministicToolCallID (\<lambda>s. replicate 64 (last s)) ''r'' ''t'' 1 ''a.b'' 1"
proof -
  have "digest_ok (\<lambda>s. replicate 64 (last s))
      {readable_call_id ''r'' ''t'' 1 ''a.b'' 0, readable_call_id ''r'' ''t'' 1 ''a.b'' 1}"
    by (simp add: digest_ok_def hash_input_def readable_call_id_def dec.simps digit_char_def
        flip: of_char_eq_iff [where 'a = nat])
  from generated_call_ids [OF this] show ?thesis by simp
qed

subsection \<open>The strict and the tolerant pairing agree\<close>

text \<open>Well-formed outcomes: each carries a result, under the identifier \<open>outcome_id\<close>.\<close>

definition outcome_id :: "execution_outcome \<Rightarrow> string" where
  "outcome_id x = (case xo_result x of None \<Rightarrow> [] | Some res \<Rightarrow> rs_tool_call_id res)"

abbreviation by_outcome_id :: "(execution_outcome \<Rightarrow> 'a) \<Rightarrow> execution_outcome list \<Rightarrow> string \<rightharpoonup> 'a" where
  "by_outcome_id f xs \<equiv> map_of (map (\<lambda>x. (outcome_id x, f x)) xs)"

definition fresh_outcomes :: "string set \<Rightarrow> execution_outcome list \<Rightarrow> bool" where
  "fresh_outcomes seen xs \<longleftrightarrow>
     (\<forall>x \<in> set xs. xo_result x \<noteq> None) \<and> distinct (map outcome_id xs) \<and> seen \<inter> outcome_id ` set xs = {}"

lemma fresh_outcomes_simps [simp]:
  "fresh_outcomes seen []"
  "fresh_outcomes seen (x # xs) \<longleftrightarrow> xo_result x \<noteq> None \<and> outcome_id x \<notin> seen \<and> fresh_outcomes (insert (outcome_id x) seen) xs"
  by (auto simp: fresh_outcomes_def)

lemma by_outcome_id_None [simp]: "i \<notin> outcome_id ` set xs \<Longrightarrow> by_outcome_id f xs i = None"
  by (simp add: map_of_eq_None_iff image_image)

lemma map_add_fresh: "m' k = None \<Longrightarrow> m(k \<mapsto> v) ++ m' = m ++ m'(k \<mapsto> v)"
  by (auto simp: map_add_def fun_eq_iff split: option.split)

lemma by_outcome_id_add:
  assumes "fresh_outcomes (insert (outcome_id x) seen) xs"
  shows "m(outcome_id x \<mapsto> f x) ++ by_outcome_id f xs = m ++ by_outcome_id f (x # xs)"
  using map_add_fresh [of "by_outcome_id f xs" "outcome_id x" m "f x"] assms by (simp add: fresh_outcomes_def)

lemma fresh_step:
  assumes "xo_result x \<noteq> None" "outcome_id x \<notin> seen"
  shows "fresh_outcomes (insert (outcome_id x) seen) xs \<and> P xs \<and> m' = m(outcome_id x \<mapsto> f x) ++ by_outcome_id f xs \<longleftrightarrow>
    fresh_outcomes seen (x # xs) \<and> P xs \<and> m' = m ++ by_outcome_id f (x # xs)"
proof (cases "fresh_outcomes (insert (outcome_id x) seen) xs")
  case True
  with assms show ?thesis unfolding by_outcome_id_add [OF True] by (simp only: fresh_outcomes_simps simp_thms)
next
  case False
  then show ?thesis by (simp only: fresh_outcomes_simps simp_thms)
qed

lemma index_outcomes_ok:
  "index_outcomes m outcomes = Inr byID \<longleftrightarrow>
   (\<exists>xs. outcomes = map Some xs \<and> fresh_outcomes (insert [] (dom m)) xs \<and> byID = m ++ by_outcome_id (\<lambda>x. x) xs)"
proof (induction outcomes arbitrary: m)
  case (Cons outcome outcomes)
  show ?case
  proof (cases "\<exists>x. outcome = Some x \<and> xo_result x \<noteq> None \<and> outcome_id x \<notin> insert [] (dom m)")
    case False
    then show ?thesis
      by (cases outcome) (auto simp: outcome_id_def Cons_eq_map_conv split: option.split)
  next
    case True
    then obtain x where x: "outcome = Some x" "xo_result x \<noteq> None" "outcome_id x \<notin> insert [] (dom m)" by blast
    have "index_outcomes m (outcome # outcomes) = index_outcomes (m(outcome_id x \<mapsto> x)) outcomes"
      using x by (auto simp: outcome_id_def split: option.splits)
    also have "\<dots> = Inr byID \<longleftrightarrow> (\<exists>xs. outcomes = map Some xs \<and>
        fresh_outcomes (insert [] (dom (m(outcome_id x \<mapsto> x)))) xs \<and>
        byID = m(outcome_id x \<mapsto> x) ++ by_outcome_id (\<lambda>x. x) xs)"
      by (rule Cons.IH)
    also have "\<dots> \<longleftrightarrow> (\<exists>xs. outcomes = map Some xs \<and> fresh_outcomes (insert [] (dom m)) (x # xs) \<and>
        byID = m ++ by_outcome_id (\<lambda>x. x) (x # xs))"
      using fresh_step [OF x(2,3), where P = "\<lambda>xs. True" and f = "\<lambda>x. x"]
      by (simp only: simp_thms dom_fun_upd option.distinct if_False insert_commute)
    also have "\<dots> \<longleftrightarrow> (\<exists>ys. outcome # outcomes = map Some ys \<and> fresh_outcomes (insert [] (dom m)) ys \<and>
        byID = m ++ by_outcome_id (\<lambda>x. x) ys)"
      using x(1) by (auto simp only: Cons_eq_map_conv option.inject)
    finally show ?thesis .
  qed
qed auto

lemma pair_outcomes_ok:
  "distinct (map tr_tool_call_id calls) \<Longrightarrow>
   pair_outcomes byID calls = Inr (records, rest) \<longleftrightarrow>
   (\<forall>call \<in> set calls. \<exists>x. byID (tr_tool_call_id call) = Some x \<and> validateStepToolRecord (record_of call x) = Inr ()) \<and>
   records = map (\<lambda>call. record_of call (the (byID (tr_tool_call_id call)))) calls \<and>
   rest = byID |` (- tr_tool_call_id ` set calls)"
proof (induction calls arbitrary: byID records rest)
  case (Cons call calls)
  let ?i = "tr_tool_call_id call"
  have other: "(byID(?i := None)) (tr_tool_call_id c) = byID (tr_tool_call_id c)" if "c \<in> set calls" for c
    using Cons.prems that by (metis distinct.simps(2) fun_upd_other image_eqI list.set_map list.simps(9))
  have IH: "pair_outcomes (byID(?i := None)) calls = Inr (rs, r) \<longleftrightarrow>
      (\<forall>c \<in> set calls. \<exists>x. byID (tr_tool_call_id c) = Some x \<and> validateStepToolRecord (record_of c x) = Inr ()) \<and>
      rs = map (\<lambda>c. record_of c (the (byID (tr_tool_call_id c)))) calls \<and>
      r = byID |` (- tr_tool_call_id ` set (call # calls))" for rs r
  proof -
    have "(byID(?i := None)) |` (- tr_tool_call_id ` set calls) = byID |` (- tr_tool_call_id ` set (call # calls))"
      by (auto simp: restrict_map_def fun_eq_iff)
    moreover have "distinct (map tr_tool_call_id calls)" using Cons.prems by simp
    ultimately show ?thesis
      unfolding Cons.IH [OF \<open>distinct (map tr_tool_call_id calls)\<close>] using other by (simp cong: map_cong)
  qed
  show ?case
  proof (cases "\<exists>x. byID ?i = Some x \<and> validateStepToolRecord (record_of call x) = Inr ()")
    case True
    then obtain x where "byID ?i = Some x" "validateStepToolRecord (record_of call x) = Inr ()" by blast
    then show ?thesis
      by (cases "pair_outcomes (byID(?i := None)) calls") (use IH in \<open>auto split: prod.splits\<close>)
  next
    case False
    then show ?thesis by (auto split: option.split sum.splits)
  qed
qed (auto simp: restrict_map_def)

lemma find_call:
  "distinct (map tr_tool_call_id calls) \<Longrightarrow> call \<in> set calls \<Longrightarrow>
   find (\<lambda>c. tr_tool_call_id c = tr_tool_call_id call) (rev calls) = Some call"
proof (cases "find (\<lambda>c. tr_tool_call_id c = tr_tool_call_id call) (rev calls)")
  case (Some c)
  assume "distinct (map tr_tool_call_id calls)" "call \<in> set calls"
  moreover have "c \<in> set calls" "tr_tool_call_id c = tr_tool_call_id call"
    using find_SomeD [OF Some] by simp_all
  ultimately show ?thesis using Some by (simp add: distinct_map inj_on_def)
qed (auto simp: find_None_iff)

lemma collect_error_stays: "snd (collect_outcome calls outcome acc) = None \<Longrightarrow> snd acc = None"
  by (auto simp: collect_outcome_def split: option.splits sum.splits if_splits)

lemma fold_collect_error_stays: "snd (fold (collect_outcome calls) outcomes acc) = None \<Longrightarrow> snd acc = None"
proof (induction outcomes arbitrary: acc)
  case (Cons a outcomes)
  show ?case by (rule collect_error_stays [OF Cons.IH]) (use Cons.prems in simp)
qed simp

text \<open>A clean outcome: one that belongs to a call of the batch and is valid for it.\<close>

definition call_of :: "tool_request list \<Rightarrow> execution_outcome \<Rightarrow> tool_request option" where
  "call_of calls x = find (\<lambda>c. tr_tool_call_id c = outcome_id x) (rev calls)"

abbreviation record_for :: "tool_request list \<Rightarrow> execution_outcome \<Rightarrow> step_record" where
  "record_for calls x \<equiv> record_of (the (call_of calls x)) x"

definition clean :: "tool_request list \<Rightarrow> execution_outcome \<Rightarrow> bool" where
  "clean calls x \<longleftrightarrow> call_of calls x \<noteq> None \<and> validateStepToolRecord (record_for calls x) = Inr ()"

lemma collect_outcome_ok:
  "collect_outcome calls outcome (m, None) = (m', None) \<longleftrightarrow>
   (\<exists>x. outcome = Some x \<and> xo_result x \<noteq> None \<and> outcome_id x \<notin> dom m \<and> clean calls x \<and>
      m' = m(outcome_id x \<mapsto> record_for calls x))"
proof (cases "\<exists>x. outcome = Some x \<and> xo_result x \<noteq> None \<and> outcome_id x \<notin> dom m \<and> clean calls x")
  case True
  then obtain x res call where x: "outcome = Some x" "xo_result x = Some res" "outcome_id x \<notin> dom m"
      "call_of calls x = Some call" "validateStepToolRecord (record_of call x) = Inr ()"
    unfolding clean_def by (metis not_None_eq option.sel)
  then have "collect_outcome calls outcome (m, None) = (m(outcome_id x \<mapsto> record_for calls x), None)"
    by (simp add: collect_outcome_def call_of_def outcome_id_def domIff)
  with True x show ?thesis by auto
next
  case False
  have "snd (collect_outcome calls outcome (m, None)) \<noteq> None"
  proof (cases outcome)
    case (Some x)
    show ?thesis
    proof (cases "xo_result x")
      case res: (Some res)
      then have x: "outcome_id x \<in> dom m \<or> \<not> clean calls x" "outcome_id x = rs_tool_call_id res"
        using False Some by (auto simp: outcome_id_def)
      show ?thesis
      proof (cases "call_of calls x")
        case call: (Some call)
        show ?thesis
          using x call Some res
          by (cases "validateStepToolRecord (record_of call x)")
             (auto simp: collect_outcome_def call_of_def clean_def simp del: not_None_eq)
      qed (use x Some res in \<open>simp add: collect_outcome_def call_of_def del: not_None_eq\<close>)
    qed (use Some in \<open>simp add: collect_outcome_def del: not_None_eq\<close>)
  qed (simp add: collect_outcome_def del: not_None_eq)
  with False show ?thesis by (metis snd_conv)
qed

lemma fold_collect_ok:
  "fold (collect_outcome calls) outcomes (m, None) = (m', None) \<longleftrightarrow>
   (\<exists>xs. outcomes = map Some xs \<and> fresh_outcomes (dom m) xs \<and> list_all (clean calls) xs \<and>
      m' = m ++ by_outcome_id (record_for calls) xs)"
proof (induction outcomes arbitrary: m)
  case (Cons outcome outcomes)
  show ?case
  proof (cases "\<exists>x. outcome = Some x \<and> xo_result x \<noteq> None \<and> outcome_id x \<notin> dom m \<and> clean calls x")
    case False
    then have "snd (collect_outcome calls outcome (m, None)) \<noteq> None"
      using collect_outcome_ok [of calls outcome m "fst (collect_outcome calls outcome (m, None))"] by (metis prod.collapse)
    then have "fold (collect_outcome calls) (outcome # outcomes) (m, None) \<noteq> (m', None)"
      using fold_collect_error_stays by (metis fold_simps(2) snd_conv)
    with False show ?thesis by (auto simp: Cons_eq_map_conv)
  next
    case True
    then obtain x where x: "outcome = Some x" "xo_result x \<noteq> None" "outcome_id x \<notin> dom m" "clean calls x" by blast
    then have "fold (collect_outcome calls) (outcome # outcomes) (m, None) =
        fold (collect_outcome calls) outcomes (m(outcome_id x \<mapsto> record_for calls x), None)"
      using collect_outcome_ok [of calls outcome m "m(outcome_id x \<mapsto> record_for calls x)"] by simp
    also have "\<dots> = (m', None) \<longleftrightarrow> (\<exists>xs. outcomes = map Some xs \<and>
        fresh_outcomes (dom (m(outcome_id x \<mapsto> record_for calls x))) xs \<and> list_all (clean calls) xs \<and>
        m' = m(outcome_id x \<mapsto> record_for calls x) ++ by_outcome_id (record_for calls) xs)"
      by (rule Cons.IH)
    also have "\<dots> \<longleftrightarrow> (\<exists>xs. outcomes = map Some xs \<and> fresh_outcomes (dom m) (x # xs) \<and> list_all (clean calls) (x # xs) \<and>
        m' = m ++ by_outcome_id (record_for calls) (x # xs))"
      using fresh_step [OF x(2,3), where P = "list_all (clean calls)" and f = "record_for calls"] x(4)
      by (simp only: simp_thms dom_fun_upd option.distinct if_False list.pred_inject)
    also have "\<dots> \<longleftrightarrow> (\<exists>ys. outcome # outcomes = map Some ys \<and> fresh_outcomes (dom m) ys \<and> list_all (clean calls) ys \<and>
        m' = m ++ by_outcome_id (record_for calls) ys)"
      using x(1) by (auto simp only: Cons_eq_map_conv option.inject)
    finally show ?thesis .
  qed
qed auto

lemma by_outcome_id_Some:
  "distinct (map outcome_id xs) \<Longrightarrow> x \<in> set xs \<Longrightarrow> by_outcome_id f xs (outcome_id x) = Some (f x)"
  by (intro map_of_is_SomeI) (auto simp: comp_def)

lemma by_outcome_id_SomeD: "by_outcome_id f xs i = Some y \<Longrightarrow> \<exists>x \<in> set xs. outcome_id x = i \<and> y = f x"
  by (drule map_of_SomeD) auto

lemma by_outcome_id_dom: "by_outcome_id f xs i = None \<longleftrightarrow> i \<notin> outcome_id ` set xs"
  by (simp add: map_of_eq_None_iff image_image)

lemma call_of_eq:
  "distinct (map tr_tool_call_id calls) \<Longrightarrow> call \<in> set calls \<Longrightarrow> outcome_id x = tr_tool_call_id call \<Longrightarrow>
   call_of calls x = Some call"
  unfolding call_of_def using find_call by metis

lemma call_ofD: "call_of calls x = Some call \<Longrightarrow> call \<in> set calls \<and> tr_tool_call_id call = outcome_id x"
  unfolding call_of_def using find_SomeD by fastforce

text \<open>The common specification: the outcomes are one clean outcome for each call.\<close>

definition matched :: "tool_request list \<Rightarrow> execution_outcome list \<Rightarrow> bool" where
  "matched calls xs \<longleftrightarrow>
     (\<forall>x \<in> set xs. xo_result x \<noteq> None) \<and> distinct (map outcome_id xs) \<and> list_all (clean calls) xs \<and>
     outcome_id ` set xs = tr_tool_call_id ` set calls"

definition matched_records :: "tool_request list \<Rightarrow> execution_outcome list \<Rightarrow> step_record list" where
  "matched_records calls xs = map (\<lambda>call. record_of call (the (by_outcome_id (\<lambda>x. x) xs (tr_tool_call_id call)))) calls"

lemma matched_length: "distinct (map tr_tool_call_id calls) \<Longrightarrow> matched calls xs \<Longrightarrow> length calls = length xs"
  using distinct_card [of "map outcome_id xs"] distinct_card [of "map tr_tool_call_id calls"] by (simp add: matched_def)

lemma matched_lookup:
  assumes ids: "distinct (map tr_tool_call_id calls)" and "matched calls xs" "call \<in> set calls"
  obtains x where "x \<in> set xs" "outcome_id x = tr_tool_call_id call" "call_of calls x = Some call"
    "validateStepToolRecord (record_of call x) = Inr ()"
proof -
  from assms(2,3) obtain x where x: "x \<in> set xs" "outcome_id x = tr_tool_call_id call"
    unfolding matched_def by (metis imageE imageI)
  moreover from call_of_eq [OF ids assms(3) x(2)] have call: "call_of calls x = Some call" .
  moreover have "validateStepToolRecord (record_of call x) = Inr ()"
    using assms(2) x(1) call by (auto simp: matched_def clean_def list_all_iff)
  ultimately show thesis by (rule that)
qed

lemma matched_by_id:
  "matched calls xs \<Longrightarrow> x \<in> set xs \<Longrightarrow> outcome_id x = i \<Longrightarrow> by_outcome_id f xs i = Some (f x)"
  using by_outcome_id_Some [of xs x f] by (simp add: matched_def)

lemma matched_strict:
  assumes "distinct (map tr_tool_call_id calls)" "[] \<notin> set (map tr_tool_call_id calls)"
  shows "stepToolRecordsFromExecutions calls outcomes = Inr records \<longleftrightarrow>
    (\<exists>xs. outcomes = map Some xs \<and> matched calls xs \<and> records = matched_records calls xs)"
proof
  assume "stepToolRecordsFromExecutions calls outcomes = Inr records"
  then obtain byID where "index_outcomes Map.empty outcomes = Inr byID"
      and pair: "pair_outcomes byID calls = Inr (records, Map.empty)"
    by (auto simp: stepToolRecordsFromExecutions_def split: if_splits sum.splits)
  then obtain xs where xs: "outcomes = map Some xs" "fresh_outcomes {[]} xs" "byID = by_outcome_id (\<lambda>x. x) xs"
    using index_outcomes_ok [of Map.empty] by auto
  from pair have calls: "\<forall>call \<in> set calls. \<exists>x. byID (tr_tool_call_id call) = Some x \<and>
        validateStepToolRecord (record_of call x) = Inr ()"
      "records = matched_records calls xs" "Map.empty = byID |` (- tr_tool_call_id ` set calls)"
    unfolding pair_outcomes_ok [OF assms(1)] matched_records_def xs(3) by blast+
  have lookup: "byID (outcome_id x) = Some x" if "x \<in> set xs" for x
    using by_outcome_id_Some [of xs x "\<lambda>x. x"] xs(2,3) that by (simp add: fresh_outcomes_def)
  have known: "\<exists>call \<in> set calls. tr_tool_call_id call = outcome_id x \<and> clean calls x" if "x \<in> set xs" for x
  proof -
    have "outcome_id x \<in> tr_tool_call_id ` set calls"
      using lookup [OF that] fun_cong [OF calls(3), of "outcome_id x"] by (auto simp: restrict_map_def split: if_splits)
    then obtain call where call: "call \<in> set calls" "tr_tool_call_id call = outcome_id x" by auto
    from calls(1) call lookup [OF that] have "validateStepToolRecord (record_of call x) = Inr ()" by force
    then have "clean calls x"
      using call_of_eq [OF assms(1) call(1) call(2) [symmetric]] by (simp add: clean_def)
    with call show ?thesis by blast
  qed
  have "tr_tool_call_id call \<in> outcome_id ` set xs" if "call \<in> set calls" for call
    using calls(1) that xs(3) by_outcome_id_SomeD [of "\<lambda>x. x" xs] by (metis imageI)
  with known xs(2) have "matched calls xs"
    unfolding matched_def fresh_outcomes_def list_all_iff by (auto simp: image_iff; metis)
  with xs(1) calls(2) show "\<exists>xs. outcomes = map Some xs \<and> matched calls xs \<and> records = matched_records calls xs" by blast
next
  assume "\<exists>xs. outcomes = map Some xs \<and> matched calls xs \<and> records = matched_records calls xs"
  then obtain xs where xs: "outcomes = map Some xs" "matched calls xs" "records = matched_records calls xs" by blast
  let ?byID = "by_outcome_id (\<lambda>x. x) xs"
  have "index_outcomes Map.empty outcomes = Inr ?byID"
    using xs(1,2) assms(2) unfolding index_outcomes_ok matched_def fresh_outcomes_def
    by (intro exI [of _ xs]) auto
  moreover have "pair_outcomes ?byID calls = Inr (records, Map.empty)"
  proof -
    have "?byID |` (- tr_tool_call_id ` set calls) = Map.empty"
      using xs(2) by (auto simp: restrict_map_def fun_eq_iff matched_def)
    moreover have "\<exists>x. ?byID (tr_tool_call_id call) = Some x \<and> validateStepToolRecord (record_of call x) = Inr ()"
      if "call \<in> set calls" for call
      by (rule matched_lookup [OF assms(1) xs(2) that]) (use matched_by_id [OF xs(2)] in force)
    ultimately show ?thesis
      unfolding pair_outcomes_ok [OF assms(1)] using xs(3) by (simp add: matched_records_def)
  qed
  ultimately show "stepToolRecordsFromExecutions calls outcomes = Inr records"
    using matched_length [OF assms(1) xs(2)] xs(1) by (simp add: stepToolRecordsFromExecutions_def)
qed

lemma matched_tolerant:
  assumes "distinct (map tr_tool_call_id calls)" "[] \<notin> set (map tr_tool_call_id calls)"
  shows "stepToolRecordsAfterExecution show calls outcomes None = (records, None) \<longleftrightarrow>
    (\<exists>xs. outcomes = map Some xs \<and> matched calls xs \<and> records = matched_records calls xs)"
proof -
  obtain byID err where fold: "fold (collect_outcome calls) outcomes (Map.empty, None) = (byID, err)"
    by fastforce
  have eq: "stepToolRecordsAfterExecution show calls outcomes None = (records, None) \<longleftrightarrow>
      err = None \<and> (\<forall>call \<in> set calls. byID (tr_tool_call_id call) \<noteq> None) \<and>
      records = map (\<lambda>call. the (byID (tr_tool_call_id call))) calls"
  proof (cases "err = None \<and> (\<forall>call \<in> set calls. byID (tr_tool_call_id call) \<noteq> None)")
    case True
    then have "map (\<lambda>call. case byID (tr_tool_call_id call) of Some r \<Rightarrow> r | None \<Rightarrow> f call) calls =
        map (\<lambda>call. the (byID (tr_tool_call_id call))) calls" for f
      by (intro map_cong) (auto split: option.split)
    with True show ?thesis
      unfolding stepToolRecordsAfterExecution_def fold Let_def prod.case by (auto simp: missing_fold)
  next
    case False
    then show ?thesis
      unfolding stepToolRecordsAfterExecution_def fold Let_def prod.case by (auto simp: missing_fold)
  qed
  show ?thesis
  proof
    assume "stepToolRecordsAfterExecution show calls outcomes None = (records, None)"
    then have after: "err = None" "\<forall>call \<in> set calls. byID (tr_tool_call_id call) \<noteq> None"
        "records = map (\<lambda>call. the (byID (tr_tool_call_id call))) calls"
      unfolding eq by blast+
    from fold [unfolded after(1) fold_collect_ok] obtain xs where xs: "outcomes = map Some xs" "fresh_outcomes {} xs"
        "list_all (clean calls) xs" "byID = by_outcome_id (record_for calls) xs" by auto
    have "outcome_id x \<in> tr_tool_call_id ` set calls" if "x \<in> set xs" for x
    proof -
      from xs(3) that obtain call where "call_of calls x = Some call" by (auto simp: clean_def list_all_iff)
      from call_ofD [OF this] show ?thesis by (metis imageI)
    qed
    moreover have "tr_tool_call_id call \<in> outcome_id ` set xs" if "call \<in> set calls" for call
      using after(2) that unfolding xs(4) by_outcome_id_dom by blast
    ultimately have m: "matched calls xs"
      using xs(2,3) unfolding matched_def fresh_outcomes_def by blast
    have "the (by_outcome_id (record_for calls) xs (tr_tool_call_id call)) =
        record_of call (the (by_outcome_id (\<lambda>x. x) xs (tr_tool_call_id call)))" if "call \<in> set calls" for call
      by (rule matched_lookup [OF assms(1) m that]) (simp add: matched_by_id [OF m])
    then have "records = matched_records calls xs"
      unfolding after(3) matched_records_def xs(4) by (intro map_cong refl)
    with xs(1) m show "\<exists>xs. outcomes = map Some xs \<and> matched calls xs \<and> records = matched_records calls xs" by blast
  next
    assume "\<exists>xs. outcomes = map Some xs \<and> matched calls xs \<and> records = matched_records calls xs"
    then obtain xs where xs: "outcomes = map Some xs" "matched calls xs" "records = matched_records calls xs" by blast
    have "fold (collect_outcome calls) outcomes (Map.empty, None) = (by_outcome_id (record_for calls) xs, None)"
      unfolding fold_collect_ok using xs(1,2) by (intro exI [of _ xs]) (auto simp: matched_def fresh_outcomes_def)
    with fold have byID: "byID = by_outcome_id (record_for calls) xs" "err = None" by simp_all
    have "byID (tr_tool_call_id call) = Some (record_of call (the (by_outcome_id (\<lambda>x. x) xs (tr_tool_call_id call))))"
      if "call \<in> set calls" for call
      unfolding byID by (rule matched_lookup [OF assms(1) xs(2) that]) (simp add: matched_by_id [OF xs(2)])
    then show "stepToolRecordsAfterExecution show calls outcomes None = (records, None)"
      unfolding eq unfolding xs(3) matched_records_def using byID(2) by simp
  qed
qed

text \<open>
  The strict and the tolerant pairing of calls with outcomes agree: for a batch with
  distinct non-empty call identifiers, the strict pairing succeeds with some records exactly when the
  tolerant pairing, after an execution without error, reports no error, and then with the same records.
  So the tolerant pairing hides nothing the strict one would refuse.
\<close>

theorem pairings_agree:
  assumes "distinct (map tr_tool_call_id calls)" "[] \<notin> set (map tr_tool_call_id calls)"
  shows "stepToolRecordsFromExecutions calls outcomes = Inr records \<longleftrightarrow>
         stepToolRecordsAfterExecution show calls outcomes None = (records, None)"
  unfolding matched_strict [OF assms] matched_tolerant [OF assms] by (rule refl)

text \<open>A batch of two calls, its outcomes out of order.\<close>

definition example_outcome :: "string \<Rightarrow> string \<Rightarrow> execution_outcome" where
  "example_outcome name callID =
     \<lparr>xo_result = Some \<lparr>rs_name = name, rs_tool_call_id = callID, rs_result = ''{}'', rs_failure = None\<rparr>,
      xo_clarification = None, xo_child_suspension = None, xo_result_published = False, xo_schedule_published = False\<rparr>"

abbreviation example_batch :: "tool_request list" where
  "example_batch \<equiv> [new_request ''a.x'' ''1'' ''{}'', new_request ''a.y'' ''2'' ''{}'']"

lemmas example_batch_simps = example_outcome_def new_request_def validateStepToolRecord_def record_of_def

theorem committed_calls_are_closed_witness:
  "map sr_call (fst (stepToolRecordsAfterExecution (\<lambda>e. ''boom'') example_batch
     [Some (example_outcome ''a.y'' ''2''), None, Some (example_outcome ''b'' ''9'')] None)) = example_batch"
  using committed_calls_are_closed [of example_batch "\<lambda>e. ''boom''"
      "[Some (example_outcome ''a.y'' ''2''), None, Some (example_outcome ''b'' ''9'')]" None, OF _ _ prod.collapse [symmetric]]
  by (simp add: new_request_def)

theorem canonical_order_witness:
  "canonicalStepToolRecords example_batch
     [record_of (new_request ''a.y'' ''2'' ''{}'') (example_outcome ''a.y'' ''2''),
      record_of (new_request ''a.x'' ''1'' ''{}'') (example_outcome ''a.x'' ''1'')] =
   Inr [record_of (new_request ''a.x'' ''1'' ''{}'') (example_outcome ''a.x'' ''1''),
        record_of (new_request ''a.y'' ''2'' ''{}'') (example_outcome ''a.y'' ''2'')]"
  using canonical_order [of example_batch "[record_of (new_request ''a.y'' ''2'' ''{}'') (example_outcome ''a.y'' ''2''),
      record_of (new_request ''a.x'' ''1'' ''{}'') (example_outcome ''a.x'' ''1'')]"]
  by (simp add: new_request_def record_of_def in_call_order_def)

theorem pairings_agree_witness:
  "stepToolRecordsAfterExecution (\<lambda>e. ''boom'') example_batch
     [Some (example_outcome ''a.y'' ''2''), Some (example_outcome ''a.x'' ''1'')] None =
   ([record_of (new_request ''a.x'' ''1'' ''{}'') (example_outcome ''a.x'' ''1''),
     record_of (new_request ''a.y'' ''2'' ''{}'') (example_outcome ''a.y'' ''2'')], None)"
proof -
  have "stepToolRecordsFromExecutions example_batch
      [Some (example_outcome ''a.y'' ''2''), Some (example_outcome ''a.x'' ''1'')] =
    Inr [record_of (new_request ''a.x'' ''1'' ''{}'') (example_outcome ''a.x'' ''1''),
         record_of (new_request ''a.y'' ''2'' ''{}'') (example_outcome ''a.y'' ''2'')]"
    by (simp add: stepToolRecordsFromExecutions_def example_batch_simps fun_eq_iff)
  then show ?thesis
    by (subst (asm) pairings_agree [of _ _ _ "\<lambda>e. ''boom''"]) (simp_all add: new_request_def)
qed

end
