(* ===== verification/Workflow_Loop.thy ===== *)
theory Workflow_Loop
  imports Step_Contract
begin

section \<open>The workflow loop\<close>

text \<open>
  \<open>runtime/agent/runtime/workflow_loop.go\<close>, \<open>workflow_step.go\<close>, \<open>workflow_turn.go\<close>,
  \<open>workflow_await_queue.go\<close> and \<open>workflow_suspension.go\<close>: the loop that prepares, commits, executes and
  advances one planner result after another, suspends a run that needs outside input and continues it
  from its checkpoint. The state is \<open>loop_state\<close>, a Go error is a value of \<open>step_error\<close>, and everything
  outside the loop is an argument: \<open>loop_env\<close> holds what is fixed for a run (tools, policy, deadlines,
  confirmation rule), \<open>step_inputs\<close> what the world answers during one step (clock, tool execution,
  planner, persistence). Two fields of the state record effects: \<open>ls_dispatched\<close> the tool calls handed to
  the execution layer and \<open>ls_recorded\<close> the tool results written to the transcript, both in order.
\<close>

subsection \<open>Execution classes\<close>

type_synonym executor =
  "int option \<Rightarrow> int \<Rightarrow> tool_request list \<Rightarrow> execution_outcome option list \<times> bool \<times> step_error option"

definition join_errors :: "step_error option \<Rightarrow> step_error option \<Rightarrow> step_error option" where
  "join_errors a b = (case b of None \<Rightarrow> a | Some e \<Rightarrow> join_error a e)"

definition is_prefix_rule :: "string \<times> int \<Rightarrow> bool" where
  "is_prefix_rule rule \<longleftrightarrow> fst rule \<noteq> [] \<and> last (fst rule) = CHR ''*''"

definition prefix_rules :: "(string \<times> int) list \<Rightarrow> (string \<times> int) list" where
  "prefix_rules rules =
     sort_key (\<lambda>rule. (- int (length (fst rule)), fst rule))
       (map (\<lambda>rule. (butlast (fst rule), snd rule)) (filter is_prefix_rule rules))"

definition resolve_timeout :: "(string \<times> int) list \<Rightarrow> string \<Rightarrow> int option" where
  "resolve_timeout rules name =
     (case map_of (filter (\<lambda>rule. \<not> is_prefix_rule rule) rules) name of
        Some t \<Rightarrow> Some t
      | None \<Rightarrow> map_option snd (find (\<lambda>rule. take (length (fst rule)) name = fst rule) (prefix_rules rules)))"

definition call_timeout :: "(string \<times> int) list \<Rightarrow> int \<Rightarrow> tool_request \<Rightarrow> int" where
  "call_timeout rules defaultTimeout call =
     (case resolve_timeout rules (tr_name call) of
        Some t \<Rightarrow> if t > 0 then t else defaultTimeout
      | None \<Rightarrow> defaultTimeout)"

definition add_to_group ::
  "int \<Rightarrow> tool_request \<Rightarrow> (int \<times> tool_request list) list \<Rightarrow> (int \<times> tool_request list) list" where
  "add_to_group t call groups =
     (if t \<in> fst ` set groups
      then map (\<lambda>g. if fst g = t then (t, snd g @ [call]) else g) groups
      else groups @ [(t, [call])])"

definition groupToolCallsByTimeout ::
  "(string \<times> int) list \<Rightarrow> int \<Rightarrow> tool_request list \<Rightarrow> (int \<times> tool_request list) list" where
  "groupToolCallsByTimeout rules defaultTimeout calls =
     (if rules \<noteq> []
      then foldl (\<lambda>groups call. add_to_group (call_timeout rules defaultTimeout call) call groups) [] calls
      else [(defaultTimeout, calls)])"

definition executeGroupedToolCalls ::
  "executor \<Rightarrow> int option \<Rightarrow> (int \<times> tool_request list) list \<Rightarrow>
   execution_outcome option list \<times> bool \<times> step_error option" where
  "executeGroupedToolCalls exec finishBy grouped =
     foldl (\<lambda>(out, timedOutAny, executionErr) (timeout, calls).
              (let (sub, timedOut, err) = exec finishBy timeout calls
               in (out @ sub, timedOutAny \<or> timedOut, join_errors executionErr err)))
       ([], False, None) grouped"

subsection \<open>Configuration, inputs and state\<close>

record confirmation_plan =
  cp_title :: string
  cp_prompt :: string
  cp_denied_result :: string

record confirmation_await =
  cf_await_id :: string
  cf_call :: tool_request
  cf_plan :: confirmation_plan

datatype missing_fields_action = MissingFieldsFinalize | MissingFieldsAwaitClarification | MissingFieldsResume

datatype termination_reason =
    TerminationReasonTimeBudget | TerminationReasonToolCap | TerminationReasonFailureCap
  | TerminationReasonToolFailure

record loop_env =
  le_table :: tool_table
  le_policy :: policy_env
  le_overrides :: "(string \<times> tag_clause list) option"
  le_tool_timeouts :: "(string \<times> int) list"
  le_default_timeout :: int
  le_sha256hex :: "string \<Rightarrow> string"
  le_show :: "step_error \<Rightarrow> string"
  le_agent_id :: string
  le_parent :: "string option"
  le_parent_context :: bool
  le_confirmation :: "tool_request \<Rightarrow> (step_error, confirmation_plan option) result"
  le_budget :: "int option"
  le_hard :: "int option"
  le_missing_fields :: "missing_fields_action option"
  le_field_description :: "string \<Rightarrow> string \<Rightarrow> string option"

text \<open>A resume request carries the recovery calls, the synthesis flag and the attempt.\<close>

record resume_request =
  rq_recovery_ids :: "string list"
  rq_synthesis_only :: bool
  rq_attempt :: int

datatype plan_error = PlanDeadlineExceeded | PlanFailed step_error

record step_inputs =
  si_now :: int
  si_exec :: executor
  si_suspension_ok :: "string \<Rightarrow> bool"
  si_record :: "(step_error, unit) result"
  si_persist :: "(step_error, unit) result"
  si_plan :: "resume_request \<Rightarrow> (plan_error, (plan_result \<times> string list option) option) result"

record loop_state =
  ls_caps :: caps_state
  ls_result :: plan_result
  ls_committed :: bool
  ls_next_attempt :: int
  ls_pending_recovery :: "tool_output list"
  ls_catalog :: "string list option"
  ls_context :: run_context
  ls_labels :: "string \<rightharpoonup> string"
  ls_dispatched :: "tool_request list"
  ls_recorded :: "step_record list"

record prepared_step = step_program +
  pg_allowed :: "tool_request list"
  pg_immediate :: "tool_request list"
  pg_confirmations :: "confirmation_await list"
  pg_budget_cost :: int
  pg_admitted :: bool

datatype pending_input =
    PendingConfirmation confirmation_await
  | PendingChild string string
  | PendingAwait await_item string

record step_batch =
  sb_program :: step_program
  sb_records :: "step_record list"
  sb_recorded :: nat
  sb_budget_cost :: int
  sb_timed_out :: bool
  sb_awaited :: bool
  sb_finalize :: "termination_reason option"
  sb_pending :: "pending_input list"

record checkpoint =
  ck_state :: loop_state
  ck_batch :: step_batch
  ck_pending :: "pending_input list"
  ck_budget_left :: "int option"
  ck_hard_left :: "int option"

text \<open>How a run ends: through finalization, with the current planner result, after a terminal tool, or suspended.\<close>

datatype loop_output =
    Finalized termination_reason "tool_output list"
  | FinishedCurrent plan_result
  | FinishedTerminal
  | Suspended checkpoint

abbreviation AwaitWithClarification :: step_error where
  "AwaitWithClarification \<equiv> StepErr ''planner await and tool clarification cannot both be present in the same turn'' []"
abbreviation TerminalWithAwaitWork :: step_error where
  "TerminalWithAwaitWork \<equiv> StepErr ''workflow step terminal payload cannot accompany await work'' []"
abbreviation MissingParentContext :: step_error where
  "MissingParentContext \<equiv> StepErr ''nested run is missing parent run context'' []"
abbreviation CapExhausted :: step_error where
  "CapExhausted \<equiv> StepErr ''tool call was not executed because the run tool-call cap was exhausted'' []"
abbreviation SuspensionInvalid :: "string \<Rightarrow> step_error" where
  "SuspensionInvalid callID \<equiv> StepErr ''validate suspended child'' [callID]"
abbreviation EmptyAwaitQueue :: step_error where
  "EmptyAwaitQueue \<equiv> StepErr ''await: empty await queue'' []"
abbreviation AwaitUseInvalid :: step_error where
  "AwaitUseInvalid \<equiv> StepErr ''await item is malformed'' []"
abbreviation SessionlessAwait :: step_error where
  "SessionlessAwait \<equiv> StepErr ''sessionless run cannot request external input'' []"
abbreviation NoExecutableWork :: step_error where
  "NoExecutableWork \<equiv> StepErr ''workflow step has neither terminal payload nor executable work'' []"
abbreviation RecordedPanic :: step_error where
  "RecordedPanic \<equiv> StepErr ''recorded step tool result count exceeds batch records'' []"
abbreviation CommittedTwice :: step_error where
  "CommittedTwice \<equiv> StepErr ''workflow planner response was committed more than once'' []"
abbreviation NilResumeResult :: step_error where
  "NilResumeResult \<equiv> StepErr ''plan activity returned nil result on resume'' []"
abbreviation MissingDescription :: "string \<Rightarrow> string \<Rightarrow> step_error" where
  "MissingDescription tool field \<equiv> StepErr ''missing generated description for clarification field'' [field, tool]"
abbreviation ResponseMismatch :: step_error where
  "ResponseMismatch \<equiv> StepErr ''run continuation response does not match the pending request'' []"

subsection \<open>Preparing a step\<close>

definition generateDeterministicAwaitID :: "string \<Rightarrow> string \<Rightarrow> string \<Rightarrow> string \<Rightarrow> string" where
  "generateDeterministicAwaitID runID turnID tool toolCallID =
     strings_join
       [if runID = [] then ''unknown'' else runID, if turnID = [] then ''no-turn'' else turnID,
        if replace_dots tool = [] then ''tool'' else replace_dots tool, ''await'',
        if toolCallID = [] then ''no-call'' else toolCallID] ''/''"

fun splitConfirmationCalls ::
  "loop_env \<Rightarrow> run_context \<Rightarrow> tool_request list \<Rightarrow>
   (step_error, tool_request list \<times> confirmation_await list) result" where
  "splitConfirmationCalls env ctx [] = Inr ([], [])"
| "splitConfirmationCalls env ctx (call # calls) =
     (case le_confirmation env call of
        Inl err \<Rightarrow> Inl err
      | Inr plan \<Rightarrow>
          (case splitConfirmationCalls env ctx calls of
             Inl err \<Rightarrow> Inl err
           | Inr (toExecute, toConfirm) \<Rightarrow>
               (case plan of
                  None \<Rightarrow> Inr (call # toExecute, toConfirm)
                | Some p \<Rightarrow>
                    Inr (toExecute,
                         \<lparr>cf_await_id = generateDeterministicAwaitID (rc_run_id ctx) (rc_turn_id ctx) (tr_name call)
                                          (tr_tool_call_id call),
                          cf_call = call, cf_plan = p\<rparr> # toConfirm))))"

fun terminal_kinds :: "tool_table \<Rightarrow> tool_request list \<Rightarrow> (step_error, bool \<times> bool) result" where
  "terminal_kinds tbl [] = Inr (False, False)"
| "terminal_kinds tbl (call # calls) =
     (case toolSpec tbl (tr_name call) of
        None \<Rightarrow> Inl (UnknownTool (tr_name call))
      | Some spec \<Rightarrow>
          (case terminal_kinds tbl calls of
             Inl err \<Rightarrow> Inl err
           | Inr (hasTerminal, hasNonTerminal) \<Rightarrow>
               Inr (sp_terminal_run spec \<or> hasTerminal, \<not> sp_terminal_run spec \<or> hasNonTerminal)))"

definition validateTerminalRunBatch :: "tool_table \<Rightarrow> tool_request list \<Rightarrow> (step_error, unit) result" where
  "validateTerminalRunBatch tbl calls =
     (case terminal_kinds tbl calls of
        Inl err \<Rightarrow> Inl err
      | Inr (hasTerminal, hasNonTerminal) \<Rightarrow>
          if hasTerminal \<and> hasNonTerminal then Inl MixedTerminalTools else Inr ())"

fun check_await_tools :: "tool_table \<Rightarrow> tool_request list \<Rightarrow> (step_error, unit) result" where
  "check_await_tools tbl [] = Inr ()"
| "check_await_tools tbl (call # calls) =
     (case toolSpec tbl (tr_name call) of
        None \<Rightarrow> Inl (AwaitUnknownTool (tr_name call))
      | Some spec \<Rightarrow>
          if sp_terminal_run spec then Inl (AwaitTerminalTool (tr_name call)) else check_await_tools tbl calls)"

fun check_awaiting_calls :: "tool_table \<Rightarrow> tool_request list \<Rightarrow> (step_error, unit) result" where
  "check_awaiting_calls tbl [] = Inr ()"
| "check_awaiting_calls tbl (call # calls) =
     (case toolSpec tbl (tr_name call) of
        None \<Rightarrow> Inl (UnknownTool (tr_name call))
      | Some spec \<Rightarrow>
          if sp_terminal_run spec then Inl (TerminalToolWithAwait (tr_name call)) else check_awaiting_calls tbl calls)"

definition check_allowed_batch ::
  "loop_env \<Rightarrow> step_program \<Rightarrow> tool_request list \<Rightarrow> (step_error, unit) result" where
  "check_allowed_batch env program allowed =
     (if allowed = [] then Inl NoToolsAllowed
      else case validateTerminalRunBatch (le_table env) allowed of
             Inl err \<Rightarrow> Inl err
           | Inr u \<Rightarrow>
               (case check_await_tools (le_table env) (awaitToolRequests (sg_await_items program)) of
                  Inl err \<Rightarrow> Inl err
                | Inr u \<Rightarrow>
                    if sg_await_items program \<noteq> [] then check_awaiting_calls (le_table env) allowed else Inr ()))"

definition prepared_of ::
  "step_program \<Rightarrow> tool_request list \<Rightarrow> tool_request list \<Rightarrow> confirmation_await list \<Rightarrow> int \<Rightarrow> bool \<Rightarrow> prepared_step" where
  "prepared_of program allowed immediate confirmations budgetCost admitted =
     \<lparr>sg_result = sg_result program, sg_calls = sg_calls program, sg_await_items = sg_await_items program,
      sg_kind = sg_kind program, pg_allowed = allowed, pg_immediate = immediate, pg_confirmations = confirmations,
      pg_budget_cost = budgetCost, pg_admitted = admitted\<rparr>"

definition prepare_admitted ::
  "loop_env \<Rightarrow> step_program \<Rightarrow> tool_request list \<Rightarrow> int \<Rightarrow> run_context \<Rightarrow> (step_error, prepared_step) result" where
  "prepare_admitted env program allowed budgetCost ctx =
     (case (if sg_kind program = StepToolTerminal then validateToolTerminalProgram (le_table env) allowed else Inr ()) of
        Inl err \<Rightarrow> Inl err
      | Inr u \<Rightarrow>
          if sg_kind program = StepToolTerminal \<and> sg_await_items program \<noteq> [] then Inl TerminalWithAwaitWork
          else case splitConfirmationCalls env ctx allowed of
                 Inl err \<Rightarrow> Inl err
               | Inr (immediate, confirmations) \<Rightarrow>
                   if sg_kind program = StepToolTerminal \<and> confirmations \<noteq> [] then Inl TerminalWithConfirmation
                   else if le_parent env \<noteq> None \<and> \<not> le_parent_context env then Inl MissingParentContext
                   else Inr (prepared_of program allowed immediate confirmations budgetCost True))"

definition prepareToolStep ::
  "loop_env \<Rightarrow> step_program \<Rightarrow> loop_state \<Rightarrow> loop_state \<times> (step_error, prepared_step) result" where
  "prepareToolStep env program st =
     (case rewriteUnknownToolCalls (pe_marshal (le_policy env)) (le_table env) (sg_calls program) of
        Inl err \<Rightarrow> (st, Inl (PolicyErr err))
      | Inr known \<Rightarrow>
          (case applyPerRunOverrides (pe_title (le_policy env)) (pe_marshal (le_policy env)) (le_table env)
                  (le_overrides env) known of
             Inl err \<Rightarrow> (st, Inl (PolicyErr err))
           | Inr candidates \<Rightarrow>
               (case applyRuntimePolicy (le_policy env) (le_table env) (ls_labels st) candidates (ls_caps st) of
                  (labels, Inl err) \<Rightarrow> (st\<lparr>ls_labels := labels\<rparr>, Inl (PolicyErr err))
                | (labels, Inr (policed, nextCaps)) \<Rightarrow>
                    (let st' = st\<lparr>ls_labels := labels\<rparr>;
                         allowed = map (\<lambda>call. call\<lparr>tr_labels := mergeLabels labels (tr_labels call)\<rparr>) policed
                     in case check_allowed_batch env program allowed of
                          Inl err \<Rightarrow> (st', Inl err)
                        | Inr u \<Rightarrow>
                            (case admitToolBatch (le_table env) allowed nextCaps of
                               Inl err \<Rightarrow> (st', Inl (PolicyErr err))
                             | Inr (budgetCost, admitted) \<Rightarrow>
                                 if \<not> admitted
                                 then (st'\<lparr>ls_caps := nextCaps\<rparr>, Inr (prepared_of program allowed [] [] budgetCost False))
                                 else (case prepare_admitted env program allowed budgetCost (ls_context st') of
                                         Inl err \<Rightarrow> (st', Inl err)
                                       | Inr prepared \<Rightarrow> (st'\<lparr>ls_caps := nextCaps\<rparr>, Inr prepared)))))))"

subsection \<open>Executing a step\<close>

definition executeImmediateToolClass ::
  "loop_env \<Rightarrow> executor \<Rightarrow> tool_request list \<Rightarrow> int option \<Rightarrow>
   execution_outcome option list \<times> bool \<times> step_error option" where
  "executeImmediateToolClass env exec calls finishBy =
     (if calls = [] then ([], False, None)
      else executeGroupedToolCalls exec finishBy
             (groupToolCallsByTimeout (le_tool_timeouts env) (le_default_timeout env) calls))"

definition executeImmediateToolCalls ::
  "loop_env \<Rightarrow> executor \<Rightarrow> tool_request list \<Rightarrow> execution_outcome option list \<times> bool \<times> step_error option" where
  "executeImmediateToolCalls env exec calls =
     (let bookkeeping = (\<lambda>call. isBookkeeping (le_table env) (tr_name call));
          (budgetedOutcomes, budgetTimedOut, err1) =
            executeImmediateToolClass env exec (filter (\<lambda>call. \<not> bookkeeping call) calls) (le_budget env);
          (bookkeepingOutcomes, hardTimedOut, err2) =
            executeImmediateToolClass env exec (filter bookkeeping calls) (le_hard env)
      in (budgetedOutcomes @ bookkeepingOutcomes, budgetTimedOut \<or> hardTimedOut, join_errors err1 err2))"

definition cap_denied_record :: "tool_request \<Rightarrow> step_record" where
  "cap_denied_record call =
     \<lparr>sr_call = call,
      sr_result = Some \<lparr>rs_name = tr_name call, rs_tool_call_id = tr_tool_call_id call, rs_result = [],
                        rs_failure = Some \<lparr>fl_kind = FailureInternal,
                          fl_error = ''tool call was not executed because the run tool-call cap was exhausted'',
                          fl_action = RecoveryFinish, fl_issues = []\<rparr>\<rparr>,
      sr_clarification = None, sr_child_suspension = None, sr_result_published = True, sr_schedule_required = False,
      sr_schedule_exact = True, sr_requires_resume = False\<rparr>"

fun validateTerminalToolClarifications :: "tool_table \<Rightarrow> step_record list \<Rightarrow> (step_error, unit) result" where
  "validateTerminalToolClarifications tbl [] = Inr ()"
| "validateTerminalToolClarifications tbl (record # records) =
     (if sr_clarification record = None then validateTerminalToolClarifications tbl records
      else case toolSpec tbl (tr_name (sr_call record)) of
             None \<Rightarrow> Inl (UnknownTool (tr_name (sr_call record)))
           | Some spec \<Rightarrow>
               if sp_terminal_run spec then Inl (TerminalClarification (tr_name (sr_call record)))
               else validateTerminalToolClarifications tbl records)"

definition toolClarificationsFromRecords :: "step_record list \<Rightarrow> await_clarification list" where
  "toolClarificationsFromRecords records = List.map_filter sr_clarification records"

definition clarification_item :: "await_clarification \<Rightarrow> await_item" where
  "clarification_item c =
     \<lparr>aw_kind = AwaitItemKindClarification, aw_clarification = Some c, aw_tool_clarification = None,
      aw_questions = None, aw_external_tools = None\<rparr>"

definition toolClarificationAwaitItems :: "await_clarification list \<Rightarrow> await_item list" where
  "toolClarificationAwaitItems clarifications = map clarification_item clarifications"

fun child_inputs :: "(string \<Rightarrow> bool) \<Rightarrow> step_record list \<Rightarrow> (step_error, pending_input list) result" where
  "child_inputs valid [] = Inr []"
| "child_inputs valid (record # records) =
     (case sr_child_suspension record of
        None \<Rightarrow> child_inputs valid records
      | Some suspension \<Rightarrow>
          if \<not> valid suspension then Inl (SuspensionInvalid (tr_tool_call_id (sr_call record)))
          else (case child_inputs valid records of
                  Inl err \<Rightarrow> Inl err
                | Inr pending \<Rightarrow> Inr (PendingChild (tr_tool_call_id (sr_call record)) suspension # pending)))"

definition step_await_items ::
  "prepared_step \<Rightarrow> await_clarification list \<Rightarrow> (step_error, confirmation_await list \<times> await_item list) result" where
  "step_await_items program clarifications =
     (if sg_await_items program \<noteq> [] \<and> clarifications \<noteq> [] then Inl AwaitWithClarification
      else (let items = sg_await_items program @ toolClarificationAwaitItems clarifications
            in if sg_kind program = StepToolTerminal \<and> items \<noteq> [] then Inl TerminalWithAwaitWork
               else Inr (pg_confirmations program, items)))"

text \<open>The publication of denied calls is not modelled: their records are the published ones.\<close>

definition executeToolStep ::
  "loop_env \<Rightarrow> step_inputs \<Rightarrow> prepared_step \<Rightarrow> step_batch \<Rightarrow> loop_state \<Rightarrow>
   loop_state \<times> step_batch \<times> (step_error, confirmation_await list \<times> await_item list) result" where
  "executeToolStep env inp program batch st =
     (if \<not> pg_admitted program
      then (st, batch\<lparr>sb_records := sb_records batch @ map cap_denied_record (pg_allowed program),
                      sb_finalize := Some TerminationReasonToolCap\<rparr>, Inr ([], []))
      else
        (let (outcomes, timedOut, executionErr) = executeImmediateToolCalls env (si_exec inp) (pg_immediate program);
             (records, resultErr) = stepToolRecordsAfterExecution (le_show env) (pg_immediate program) outcomes executionErr;
             st' = st\<lparr>ls_dispatched := ls_dispatched st @ pg_immediate program\<rparr>;
             batch' = batch\<lparr>sb_budget_cost := sb_budget_cost batch + pg_budget_cost program,
                            sb_records := sb_records batch @ records,
                            sb_timed_out := sb_timed_out batch \<or> timedOut\<rparr>
         in case join_errors executionErr resultErr of
              Some err \<Rightarrow> (st', batch', Inl err)
            | None \<Rightarrow>
                (case validateTerminalToolClarifications (le_table env) records of
                   Inl err \<Rightarrow> (st', batch', Inl err)
                 | Inr u \<Rightarrow>
                     (case child_inputs (si_suspension_ok inp) records of
                        Inl err \<Rightarrow> (st', batch', Inl err)
                      | Inr pending \<Rightarrow>
                          (st', batch'\<lparr>sb_pending := sb_pending batch' @ pending\<rparr>,
                           step_await_items program (toolClarificationsFromRecords records))))))"

definition deadline_open :: "int \<Rightarrow> int option \<Rightarrow> bool" where
  "deadline_open now deadline \<longleftrightarrow> (case deadline of None \<Rightarrow> True | Some d \<Rightarrow> now < d)"

definition shouldFinalize :: "loop_env \<Rightarrow> int \<Rightarrow> bool" where
  "shouldFinalize env now \<longleftrightarrow> \<not> deadline_open now (le_budget env)"

definition bookkeeping_confirmation :: "loop_env \<Rightarrow> confirmation_await \<Rightarrow> bool" where
  "bookkeeping_confirmation env c \<longleftrightarrow> isBookkeeping (le_table env) (tr_name (cf_call c))"

definition confirmation_open :: "loop_env \<Rightarrow> int \<Rightarrow> confirmation_await \<Rightarrow> bool" where
  "confirmation_open env now c \<longleftrightarrow>
     deadline_open now (if bookkeeping_confirmation env c then le_hard env else le_budget env)"

definition resolveExpiredConfirmations ::
  "loop_env \<Rightarrow> step_inputs \<Rightarrow> confirmation_await list \<Rightarrow> loop_state \<Rightarrow>
   loop_state \<times> confirmation_await list \<times> step_record list \<times> bool \<times> step_error option" where
  "resolveExpiredConfirmations env inp confirmations st =
     (let open = confirmation_open env (si_now inp);
          remaining = filter open confirmations;
          expiredBudgeted = map cf_call (filter (\<lambda>c. \<not> open c \<and> \<not> bookkeeping_confirmation env c) confirmations);
          expiredBookkeeping = map cf_call (filter (\<lambda>c. \<not> open c \<and> bookkeeping_confirmation env c) confirmations);
          expiredCalls = expiredBudgeted @ expiredBookkeeping
      in if expiredCalls = [] then (st, remaining, [], False, None)
         else
           (let (budgetedOutcomes, b1, err1) = executeImmediateToolClass env (si_exec inp) expiredBudgeted (le_budget env);
                (bookkeepingOutcomes, b2, err2) = executeImmediateToolClass env (si_exec inp) expiredBookkeeping (le_hard env);
                executionErr = join_errors err1 err2;
                (records, resultErr) =
                  stepToolRecordsAfterExecution (le_show env) expiredCalls (budgetedOutcomes @ bookkeepingOutcomes) executionErr
            in (st\<lparr>ls_dispatched := ls_dispatched st @ expiredCalls\<rparr>, remaining, records, True,
                join_errors executionErr resultErr)))"

subsection \<open>Recording results and suspending\<close>

definition recordUnrecordedStepToolResults ::
  "step_inputs \<Rightarrow> step_batch \<Rightarrow> loop_state \<Rightarrow> loop_state \<times> (step_error, step_batch) result" where
  "recordUnrecordedStepToolResults inp batch st =
     (if sb_recorded batch > length (sb_records batch) then (st, Inl RecordedPanic)
      else case canonicalStepToolRecords (sg_calls (sb_program batch)) (drop (sb_recorded batch) (sb_records batch)) of
             Inl err \<Rightarrow> (st, Inl err)
           | Inr ordered \<Rightarrow>
               (case si_record inp of
                  Inl err \<Rightarrow> (st, Inl err)
                | Inr u \<Rightarrow>
                    (st\<lparr>ls_recorded := ls_recorded st @ ordered\<rparr>,
                     Inr (batch\<lparr>sb_records := take (sb_recorded batch) (sb_records batch) @ ordered,
                                sb_recorded := length (sb_records batch)\<rparr>))))"

definition recordToolResultsBeforeError ::
  "step_inputs \<Rightarrow> step_batch \<Rightarrow> step_error \<Rightarrow> loop_state \<Rightarrow> loop_state \<times> step_error" where
  "recordToolResultsBeforeError inp batch contractErr st =
     (if sb_recorded batch = length (sb_records batch) then (st, contractErr)
      else case recordUnrecordedStepToolResults inp batch st of
             (st', Inl err) \<Rightarrow> (st', JoinedErrors contractErr err)
           | (st', Inr b) \<Rightarrow> (st', contractErr))"

definition prepareRecoveryRecords :: "step_batch \<Rightarrow> step_batch" where
  "prepareRecoveryRecords batch =
     batch\<lparr>sb_records := map (\<lambda>record. if \<not> sr_schedule_required record \<or> sr_schedule_exact record then record
                                     else record\<lparr>sr_schedule_exact := True\<rparr>) (sb_records batch)\<rparr>"

definition await_calls :: "loop_env \<Rightarrow> run_context \<Rightarrow> step_program \<Rightarrow> tool_request list" where
  "await_calls env ctx program =
     prepareAllowedCallsMetadata (le_sha256hex env) (le_agent_id env) ctx (le_parent env)
       (awaitToolRequests (sg_await_items program))"

definition failCommittedStep ::
  "loop_env \<Rightarrow> step_inputs \<Rightarrow> step_batch \<Rightarrow> step_error \<Rightarrow> loop_state \<Rightarrow> loop_state \<times> step_error" where
  "failCommittedStep env inp batch stepErr st =
     (let recorded = set (map (tr_tool_call_id \<circ> sr_call) (sb_records batch));
          allCalls = sg_calls (sb_program batch) @ await_calls env (ls_context st) (sb_program batch);
          unresolved = filter (\<lambda>call. tr_tool_call_id call \<notin> recorded) allCalls;
          (failures, resultErr) = stepToolRecordsAfterExecution (le_show env) unresolved [] (Some stepErr);
          batch' = prepareRecoveryRecords (batch\<lparr>sb_records := sb_records batch @ failures\<rparr>)
      in recordToolResultsBeforeError inp batch' (case resultErr of None \<Rightarrow> stepErr | Some e \<Rightarrow> JoinedErrors stepErr e) st)"

definition publishAwaitToolUses :: "await_item \<Rightarrow> (step_error, unit) result" where
  "publishAwaitToolUses item =
     (case aw_kind item of
        AwaitItemKindClarification \<Rightarrow> if aw_clarification item = None then Inl AwaitUseInvalid else Inr ()
      | AwaitItemKindToolClarification \<Rightarrow>
          (case aw_tool_clarification item of None \<Rightarrow> Inl AwaitUseInvalid
           | Some c \<Rightarrow> if at_tool_call_id c = [] then Inl AwaitUseInvalid else Inr ())
      | AwaitItemKindQuestions \<Rightarrow>
          (case aw_questions item of None \<Rightarrow> Inl AwaitUseInvalid
           | Some q \<Rightarrow> if aq_tool_call_id q = [] then Inl AwaitUseInvalid else Inr ())
      | AwaitItemKindExternalTools \<Rightarrow>
          (case aw_external_tools item of None \<Rightarrow> Inl AwaitUseInvalid
           | Some e \<Rightarrow> if ae_items e = [] \<or> list_ex (\<lambda>i. ai_tool_call_id i = []) (ae_items e) then Inl AwaitUseInvalid
                       else Inr ())
      | AwaitItemKindOther k \<Rightarrow> Inl AwaitUseInvalid)"

fun publish_await_items :: "await_item list \<Rightarrow> (step_error, unit) result" where
  "publish_await_items [] = Inr ()"
| "publish_await_items (item # items) =
     (case publishAwaitToolUses item of Inl err \<Rightarrow> Inl err | Inr u \<Rightarrow> publish_await_items items)"

text \<open>
  \<open>suspendCheckpointRun\<close>: the queue is either the one being restored or the confirmations, the suspended
  children and the await items, in this order; encoding and storing the checkpoint is \<open>si_persist\<close>.
\<close>

definition suspendCheckpointRun ::
  "loop_env \<Rightarrow> step_inputs \<Rightarrow> step_batch \<Rightarrow> confirmation_await list \<Rightarrow> await_item list \<Rightarrow> pending_input list \<Rightarrow> loop_state \<Rightarrow>
   (step_error, checkpoint) result" where
  "suspendCheckpointRun env inp batch confirmations items restoredPending st =
     (if rc_session_id (ls_context st) = [] then Inl SessionlessAwait
      else case si_persist inp of
             Inl err \<Rightarrow> Inl err
           | Inr u \<Rightarrow>
               Inr \<lparr>ck_state = st, ck_batch = batch,
                    ck_pending = (if restoredPending \<noteq> [] then restoredPending
                                  else map PendingConfirmation confirmations @ sb_pending batch @
                                       map (\<lambda>item. PendingAwait item (rc_run_id (ls_context st))) items),
                    ck_budget_left = map_option (\<lambda>d. max 0 (d - si_now inp)) (le_budget env),
                    ck_hard_left = map_option (\<lambda>d. max 0 (d - si_now inp)) (le_hard env)\<rparr>)"

definition handleAwaitQueue ::
  "loop_env \<Rightarrow> step_inputs \<Rightarrow> confirmation_await list \<Rightarrow> await_item list \<Rightarrow> step_batch \<Rightarrow> loop_state \<Rightarrow>
   (step_error, checkpoint) result" where
  "handleAwaitQueue env inp confirmations items batch st =
     (if confirmations = [] \<and> items = [] \<and> sb_pending batch = [] then Inl EmptyAwaitQueue
      else case publish_await_items items of
             Inl err \<Rightarrow> Inl err
           | Inr u \<Rightarrow> suspendCheckpointRun env inp (batch\<lparr>sb_awaited := True\<rparr>) confirmations items [] st)"

definition new_batch :: "step_program \<Rightarrow> step_batch" where
  "new_batch program =
     \<lparr>sb_program = program, sb_records = [], sb_recorded = 0, sb_budget_cost = 0, sb_timed_out = False,
      sb_awaited = False, sb_finalize = None, sb_pending = []\<rparr>"

text \<open>A finished batch, or the checkpoint the run is suspended with.\<close>

definition await_or_finish ::
  "loop_env \<Rightarrow> step_inputs \<Rightarrow> confirmation_await list \<Rightarrow> await_item list \<Rightarrow> step_batch \<Rightarrow> loop_state \<Rightarrow>
   loop_state \<times> (step_error, step_batch + checkpoint) result" where
  "await_or_finish env inp confirmations items batch st =
     (case handleAwaitQueue env inp confirmations items batch st of
        Inl err \<Rightarrow> (let (st', e) = failCommittedStep env inp batch err st in (st', Inl e))
      | Inr ck \<Rightarrow> (st, Inr (Inr ck)))"

definition finish_denied_step ::
  "loop_env \<Rightarrow> step_batch \<Rightarrow> loop_state \<Rightarrow> (step_error, step_batch + checkpoint) result" where
  "finish_denied_step env batch st =
     (let (failures, resultErr) =
            stepToolRecordsAfterExecution (le_show env) (await_calls env (ls_context st) (sb_program batch)) [] (Some CapExhausted)
      in case resultErr of
           Some e \<Rightarrow> Inl e
         | None \<Rightarrow> Inr (Inl (prepareRecoveryRecords (batch\<lparr>sb_records := sb_records batch @ failures\<rparr>))))"

definition drain_step ::
  "loop_env \<Rightarrow> step_inputs \<Rightarrow> prepared_step \<Rightarrow> confirmation_await list \<Rightarrow> await_item list \<Rightarrow> step_batch \<Rightarrow> loop_state \<Rightarrow>
   loop_state \<times> (step_error, step_batch + checkpoint) result" where
  "drain_step env inp program confirmations items batch st =
     (let (st1, remaining, expiredRecords, expired, err) = resolveExpiredConfirmations env inp confirmations st;
          batch1 = batch\<lparr>sb_records := sb_records batch @ expiredRecords, sb_timed_out := sb_timed_out batch \<or> expired\<rparr>
      in case err of
           Some e \<Rightarrow> (let (st2, e') = failCommittedStep env inp batch1 e st1 in (st2, Inl e'))
         | None \<Rightarrow>
             (case (if remaining = [] \<and> sg_await_items program = [] \<and> items \<noteq> [] \<and> sb_pending batch1 = []
                    then recordUnrecordedStepToolResults inp batch1 st1 else (st1, Inr batch1)) of
                (st2, Inl e) \<Rightarrow> (st2, Inl e)
              | (st2, Inr batch2) \<Rightarrow>
                  if remaining \<noteq> [] \<or> items \<noteq> [] \<or> sb_pending batch2 \<noteq> []
                  then await_or_finish env inp remaining items batch2 st2
                  else (st2, Inr (Inl batch2))))"

definition executeStepProgram ::
  "loop_env \<Rightarrow> step_inputs \<Rightarrow> prepared_step \<Rightarrow> loop_state \<Rightarrow>
   loop_state \<times> (step_error, step_batch + checkpoint) result" where
  "executeStepProgram env inp program st =
     (let batch = new_batch (step_program.truncate program)
      in if sg_calls program \<noteq> []
         then (case executeToolStep env inp program batch st of
                 (st1, batch1, Inl err) \<Rightarrow> (let (st2, e) = failCommittedStep env inp batch1 err st1 in (st2, Inl e))
               | (st1, batch1, Inr (confirmations, items)) \<Rightarrow>
                   if sb_finalize batch1 \<noteq> None then (st1, finish_denied_step env batch1 st1)
                   else drain_step env inp program confirmations items batch1 st1)
         else if sg_await_items program = [] then (st, Inl NoExecutableWork)
         else await_or_finish env inp [] (sg_await_items program) batch st)"

subsection \<open>Advancing\<close>

fun missing_of :: "tool_result list \<Rightarrow> (tool_result \<times> string list) option" where
  "missing_of [] = None"
| "missing_of (tr # results) =
     (case rs_failure tr of
        None \<Rightarrow> missing_of results
      | Some f \<Rightarrow>
          if fl_action f \<noteq> RecoveryCorrectCall then missing_of results
          else (let missing = map fst (filter (\<lambda>issue. snd issue = ''missing_field'') (fl_issues f))
                in if missing \<noteq> [] then Some (tr, missing) else missing_of results))"

fun missing_lines :: "loop_env \<Rightarrow> string \<Rightarrow> string list \<Rightarrow> (step_error, string) result" where
  "missing_lines env tool [] = Inr []"
| "missing_lines env tool (field # others) =
     (case le_field_description env tool field of
        None \<Rightarrow> Inl (MissingDescription tool field)
      | Some description \<Rightarrow>
          if description = [] then Inl (MissingDescription tool field)
          else (case missing_lines env tool others of
                  Inl err \<Rightarrow> Inl err
                | Inr rest \<Rightarrow> Inr ([CHR 0x0A, CHR 0x0A] @ ''- '' @ [CHR 0x60] @ field @ [CHR 0x60] @ '': '' @ description @ rest)))"

definition missingFieldsQuestion :: "loop_env \<Rightarrow> string \<Rightarrow> string list \<Rightarrow> (step_error, string) result" where
  "missingFieldsQuestion env tool missing =
     (if toolSpec (le_table env) tool = None then Inl (UnknownTool tool)
      else case missing_lines env tool missing of
             Inl err \<Rightarrow> Inl err
           | Inr rest \<Rightarrow> Inr (''I need a little more information before I can continue:'' @ rest))"

datatype missing_decision = MissingNone | MissingFinalize | MissingAwait await_item

definition applyMissingFieldsPolicy ::
  "loop_env \<Rightarrow> run_context \<Rightarrow> tool_result list \<Rightarrow> (step_error, missing_decision) result" where
  "applyMissingFieldsPolicy env ctx results =
     (case le_missing_fields env of
        None \<Rightarrow> Inr MissingNone
      | Some action \<Rightarrow>
          (case missing_of results of
             None \<Rightarrow> Inr MissingNone
           | Some (tr, missing) \<Rightarrow>
               (case action of
                  MissingFieldsFinalize \<Rightarrow> Inr MissingFinalize
                | MissingFieldsAwaitClarification \<Rightarrow>
                    (case missingFieldsQuestion env (rs_name tr) missing of
                       Inl err \<Rightarrow> Inl err
                     | Inr question \<Rightarrow>
                         Inr (MissingAwait (clarification_item
                           \<lparr>ac_id = generateDeterministicAwaitID (rc_run_id ctx) (rc_turn_id ctx) (rs_name tr) (rs_tool_call_id tr),
                            ac_question = question\<rparr>)))
                | MissingFieldsResume \<Rightarrow> Inr MissingNone)))"

definition stepToolResults :: "step_record list \<Rightarrow> tool_result list" where
  "stepToolResults records = List.map_filter sr_result records"

definition classifyStep :: "loop_env \<Rightarrow> step_batch \<Rightarrow> (step_error, step_transition) result" where
  "classifyStep env batch =
     (if sb_records batch = [] then Inr TransitionResume
      else classifyToolRecords (le_table env) (sb_records batch) (sg_result (sb_program batch)) (sb_awaited batch))"

text \<open>\<open>None\<close> as output: the run goes on with the next planner result.\<close>

definition resumePlanner ::
  "loop_env \<Rightarrow> step_inputs \<Rightarrow> step_batch \<Rightarrow> loop_state \<Rightarrow> loop_state \<times> (step_error, loop_output option) result" where
  "resumePlanner env inp batch st =
     (let failed = (dominantRecoveryAction (sb_records batch) \<noteq> None);
          pendingRecovery = pendingRecoveryOutputs (sb_records batch) @ ls_pending_recovery st;
          request = \<lparr>rq_recovery_ids = map to_tool_call_id pendingRecovery,
                     rq_synthesis_only = (\<not> failed \<and> pr_synthesize_after_tools (sg_result (sb_program batch))),
                     rq_attempt = ls_next_attempt st\<rparr>;
          st' = st\<lparr>ls_context := (ls_context st)\<lparr>rc_attempt := ls_next_attempt st\<rparr>,
                   ls_next_attempt := ls_next_attempt st + 1\<rparr>
      in case si_plan inp request of
           Inl PlanDeadlineExceeded \<Rightarrow>
             if le_budget env \<noteq> None then (st', Inr (Some (Finalized TerminationReasonTimeBudget [])))
             else (st', Inl (StepErr ''planner activity deadline exceeded'' []))
         | Inl (PlanFailed err) \<Rightarrow> (st', Inl err)
         | Inr None \<Rightarrow> (st', Inl NilResumeResult)
         | Inr (Some (result, catalog)) \<Rightarrow>
             (st'\<lparr>ls_result := result, ls_committed := False, ls_pending_recovery := pendingRecovery,
                  ls_catalog := catalog\<rparr>, Inr None))"

definition afterClassification ::
  "loop_env \<Rightarrow> step_inputs \<Rightarrow> step_batch \<Rightarrow> loop_state \<Rightarrow> loop_state \<times> (step_error, loop_output option) result" where
  "afterClassification env inp batch st =
     (let (progress, failed) = budgetedBatchOutcome (le_table env) (sb_records batch);
          (caps, exhausted) = applyFailureStreak (ls_caps st) progress failed;
          st1 = st\<lparr>ls_caps := caps\<rparr>
      in if exhausted then (st1, Inr (Some (Finalized TerminationReasonFailureCap [])))
         else case applyMissingFieldsPolicy env (ls_context st1) (stepToolResults (sb_records batch)) of
                Inl err \<Rightarrow> (st1, Inl err)
              | Inr MissingFinalize \<Rightarrow> (st1, Inr (Some (Finalized TerminationReasonToolFailure [])))
              | Inr (MissingAwait item) \<Rightarrow>
                  (case publishAwaitToolUses item of
                     Inl err \<Rightarrow> (st1, Inl err)
                   | Inr u \<Rightarrow>
                       (case suspendCheckpointRun env inp (batch\<lparr>sb_awaited := True\<rparr>) [] [item] [] st1 of
                          Inl err \<Rightarrow> (st1, Inl err)
                        | Inr ck \<Rightarrow> (st1, Inr (Some (Suspended ck)))))
              | Inr MissingNone \<Rightarrow>
                  if dominantRecoveryAction (sb_records batch) = Some RecoveryFinish
                  then (st1, Inr (Some (Finalized TerminationReasonToolFailure (dominantRecoveryOutputs (sb_records batch)))))
                  else resumePlanner env inp batch st1)"

definition advanceStep ::
  "loop_env \<Rightarrow> step_inputs \<Rightarrow> step_batch \<Rightarrow> loop_state \<Rightarrow> loop_state \<times> (step_error, loop_output option) result" where
  "advanceStep env inp batch0 st0 =
     (case recordUnrecordedStepToolResults inp batch0 st0 of
        (st, Inl err) \<Rightarrow> (st, Inl err)
      | (st, Inr batch) \<Rightarrow>
          (case sb_finalize batch of
             Some reason \<Rightarrow> (st, Inr (Some (Finalized reason [])))
           | None \<Rightarrow>
               if sb_timed_out batch then (st, Inr (Some (Finalized TerminationReasonTimeBudget [])))
               else if sg_kind (sb_program batch) = StepToolTerminal
               then (case validateToolTerminalBatch (sb_records batch) of
                       Inl err \<Rightarrow> (st, Inl err)
                     | Inr u \<Rightarrow> (st, Inr (Some (FinishedCurrent (ls_result st)))))
               else
                 (let caps = ls_caps st;
                      st1 = st\<lparr>ls_caps := caps\<lparr>RemainingToolCalls :=
                                decrementCap (RemainingToolCalls caps) (sb_budget_cost batch)\<rparr>\<rparr>
                  in case classifyStep env batch of
                       Inl err \<Rightarrow> (st1, Inl err)
                     | Inr TransitionFinishTerminal \<Rightarrow> (st1, Inr (Some FinishedTerminal))
                     | Inr TransitionFinishCurrent \<Rightarrow> (st1, Inr (Some (FinishedCurrent (ls_result st1))))
                     | Inr TransitionResume \<Rightarrow> afterClassification env inp batch st1)))"

subsection \<open>The loop\<close>

definition commitSelectedModelResponse :: "plan_result \<Rightarrow> loop_state \<Rightarrow> loop_state \<times> (step_error, unit) result" where
  "commitSelectedModelResponse result st =
     (if ls_committed st then (st, Inl CommittedTwice) else (st\<lparr>ls_committed := True\<rparr>, Inr ()))"

definition stamp_program :: "loop_env \<Rightarrow> run_context \<Rightarrow> step_program \<Rightarrow> step_program" where
  "stamp_program env ctx program =
     (if sg_calls program \<noteq> []
      then (let calls = prepareAllowedCallsMetadata (le_sha256hex env) (le_agent_id env) ctx (le_parent env) (sg_calls program)
            in program\<lparr>sg_calls := calls, sg_result := (sg_result program)\<lparr>pr_tool_calls := calls\<rparr>\<rparr>)
      else program)"

definition execute_committed ::
  "loop_env \<Rightarrow> step_inputs \<Rightarrow> prepared_step \<Rightarrow> loop_state \<Rightarrow> loop_state \<times> (step_error, loop_output option) result" where
  "execute_committed env inp program st =
     (case commitSelectedModelResponse (sg_result program) st of
        (st1, Inl err) \<Rightarrow> (st1, Inl err)
      | (st1, Inr u) \<Rightarrow>
          if sg_kind program = StepTerminal then (st1, Inr (Some (FinishedCurrent (ls_result st1))))
          else (case executeStepProgram env inp program st1 of
                  (st2, Inl err) \<Rightarrow> (st2, Inl err)
                | (st2, Inr (Inr ck)) \<Rightarrow> (st2, Inr (Some (Suspended ck)))
                | (st2, Inr (Inl batch)) \<Rightarrow> advanceStep env inp batch st2))"

definition runStep ::
  "loop_env \<Rightarrow> step_inputs \<Rightarrow> step_program \<Rightarrow> loop_state \<Rightarrow> loop_state \<times> (step_error, loop_output option) result" where
  "runStep env inp program0 st0 =
     (case validateRecoveryCatalog (ls_catalog st0) (sg_result program0) of
        Inl err \<Rightarrow> (st0, Inl err)
      | Inr u \<Rightarrow>
          (let program = stamp_program env (ls_context st0) program0;
               st = (if pr_await (sg_result program0) = None then st0\<lparr>ls_pending_recovery := [], ls_catalog := None\<rparr>
                     else st0)\<lparr>ls_result := sg_result program\<rparr>
           in case validatePlanResultToolCallIDs (sg_result program) of
                Inl err \<Rightarrow> (st, Inl err)
              | Inr u \<Rightarrow>
                  (case check_await_tools (le_table env) (awaitToolRequests (sg_await_items program)) of
                     Inl err \<Rightarrow> (st, Inl err)
                   | Inr u \<Rightarrow>
                       if sg_kind program = StepTools \<and> hasBudgetedToolCalls (le_table env) (sg_calls program) \<and>
                          \<not> hasBookkeepingToolCalls (le_table env) (sg_calls program) \<and> shouldFinalize env (si_now inp)
                       then (st, Inr (Some (Finalized TerminationReasonTimeBudget [])))
                       else case (if sg_calls program \<noteq> [] then prepareToolStep env program st
                                  else (st, Inr (prepared_of program [] [] [] 0 False))) of
                              (st1, Inl err) \<Rightarrow> (st1, Inl err)
                            | (st1, Inr prepared) \<Rightarrow> execute_committed env inp prepared st1)))"

text \<open>One iteration of \<open>run\<close>, and the loop over the inputs of the world; a run whose inputs are used up is still running.\<close>

definition run_iteration ::
  "loop_env \<Rightarrow> step_inputs \<Rightarrow> loop_state \<Rightarrow> loop_state \<times> (step_error, loop_output option) result" where
  "run_iteration env inp st =
     (case rewriteRecoveryCatalogToolCalls (pe_marshal (le_policy env)) (ls_catalog st) (ls_result st) of
        Inl err \<Rightarrow> (st, Inl (PolicyErr err))
      | Inr result \<Rightarrow>
          (let st' = st\<lparr>ls_result := result\<rparr>
           in case normalizeStep (le_table env) (Some result) of
                Inl err \<Rightarrow> (st', Inl err)
              | Inr program \<Rightarrow> runStep env inp program st'))"

fun run :: "loop_env \<Rightarrow> step_inputs list \<Rightarrow> loop_state \<Rightarrow> loop_state \<times> (step_error, loop_output option) result" where
  "run env [] st = (st, Inr None)"
| "run env (inp # inps) st =
     (case run_iteration env inp st of
        (st', Inl err) \<Rightarrow> (st', Inl err)
      | (st', Inr (Some out)) \<Rightarrow> (st', Inr (Some out))
      | (st', Inr None) \<Rightarrow> run env inps st')"

subsection \<open>Continuing a suspended run\<close>

record provided_result =
  pv_name :: string
  pv_tool_call_id :: string
  pv_value :: string

record confirmation_decision =
  cd_id :: string
  cd_approved :: bool
  cd_requested_by :: string

text \<open>Exactly one of the three parts of a response may be set; \<open>pv_value\<close> is the encoded success or failure.\<close>

record pending_response =
  rp_clarification :: "(string \<times> string) option"
  rp_confirmation :: "confirmation_decision option"
  rp_tool_results :: "(string \<times> provided_result option list) option"

text \<open>
  What the world answers while a response is consumed: \<open>ci_decode\<close> decodes an external result,
  \<open>ci_answer\<close> encodes a clarification answer, \<open>ci_child\<close> runs a suspended agent tool to its result or
  to its next suspension, \<open>ci_publish\<close> stores the authorization.
\<close>

record continuation_inputs =
  ci_step :: step_inputs
  ci_decode :: "tool_request \<Rightarrow> provided_result \<Rightarrow> (step_error, tool_result) result"
  ci_answer :: "string \<Rightarrow> string"
  ci_child :: "tool_request \<Rightarrow> pending_response \<Rightarrow> (step_error, string + tool_result) result"
  ci_publish :: "(step_error, unit) result"

abbreviation AwaitResultsInvalid :: "string \<Rightarrow> step_error" where
  "AwaitResultsInvalid what \<equiv> StepErr ''await: invalid tool results'' [what]"

fun index_provided ::
  "string set \<Rightarrow> (string \<rightharpoonup> provided_result) \<Rightarrow> provided_result option list \<Rightarrow>
   (step_error, string \<rightharpoonup> provided_result) result" where
  "index_provided expected byID [] = Inr byID"
| "index_provided expected byID (item # items) =
     (case item of
        None \<Rightarrow> Inl (AwaitResultsInvalid ''nil tool result'')
      | Some p \<Rightarrow>
          if pv_tool_call_id p = [] then Inl (AwaitResultsInvalid (pv_name p))
          else if pv_tool_call_id p \<notin> expected then Inl (AwaitResultsInvalid (pv_tool_call_id p))
          else if byID (pv_tool_call_id p) \<noteq> None then Inl (AwaitResultsInvalid (pv_tool_call_id p))
          else index_provided expected (byID(pv_tool_call_id p \<mapsto> p)) items)"

definition provided_record :: "tool_request \<Rightarrow> tool_result \<Rightarrow> step_record" where
  "provided_record call res =
     \<lparr>sr_call = call, sr_result = Some res, sr_clarification = None, sr_child_suspension = None,
      sr_result_published = True, sr_schedule_required = False, sr_schedule_exact = True, sr_requires_resume = False\<rparr>"

fun decodeProvidedToolRecords ::
  "loop_env \<Rightarrow> continuation_inputs \<Rightarrow> (string \<rightharpoonup> provided_result) \<Rightarrow> tool_request list \<Rightarrow>
   (step_error, step_record list) result" where
  "decodeProvidedToolRecords env cin provided [] = Inr []"
| "decodeProvidedToolRecords env cin provided (call # calls) =
     (case provided (tr_tool_call_id call) of
        None \<Rightarrow> Inl (AwaitResultsInvalid (tr_tool_call_id call))
      | Some item \<Rightarrow>
          if pv_name item \<noteq> tr_name call then Inl (AwaitResultsInvalid (pv_name item))
          else if toolSpec (le_table env) (tr_name call) = None then Inl (UnknownTool (tr_name call))
          else (case ci_decode cin call item of
                  Inl err \<Rightarrow> Inl err
                | Inr res \<Rightarrow>
                    (case decodeProvidedToolRecords env cin provided calls of
                       Inl err \<Rightarrow> Inl err
                     | Inr records \<Rightarrow> Inr (provided_record call res # records))))"

definition consumeProvidedToolResultRecords ::
  "loop_env \<Rightarrow> continuation_inputs \<Rightarrow> tool_request list \<Rightarrow> provided_result option list \<Rightarrow>
   (step_error, step_record list) result" where
  "consumeProvidedToolResultRecords env cin allowed results =
     (let expected = set (map tr_tool_call_id allowed)
      in if results = [] then Inl (AwaitResultsInvalid ''no tool results provided'')
         else case index_provided expected Map.empty results of
                Inl err \<Rightarrow> Inl err
              | Inr byID \<Rightarrow>
                  if card (dom byID) \<noteq> card expected then Inl (AwaitResultsInvalid ''ids did not match'')
                  else decodeProvidedToolRecords env cin byID allowed)"

definition awaited_calls :: "loop_env \<Rightarrow> run_context \<Rightarrow> string \<Rightarrow> await_item \<Rightarrow> tool_request list" where
  "awaited_calls env ctx callRunID item =
     map (\<lambda>call. call\<lparr>tr_run_id := callRunID\<rparr>)
       (prepareAllowedCallsMetadata (le_sha256hex env) (le_agent_id env) ctx (le_parent env) (awaitItemRequests item))"

text \<open>The transcript message of a free-form answer is not modelled: such an answer adds no record.\<close>

definition consumeClarificationResponse ::
  "loop_env \<Rightarrow> continuation_inputs \<Rightarrow> run_context \<Rightarrow> await_item \<Rightarrow> string \<Rightarrow> string \<times> string \<Rightarrow>
   (step_error, step_record list) result" where
  "consumeClarificationResponse env cin ctx item callRunID ans =
     (case aw_kind item of
        AwaitItemKindClarification \<Rightarrow>
          (case aw_clarification item of
             None \<Rightarrow> Inl AwaitUseInvalid
           | Some c \<Rightarrow> if fst ans \<noteq> ac_id c then Inl ResponseMismatch else Inr [])
      | AwaitItemKindToolClarification \<Rightarrow>
          (case aw_tool_clarification item of
             None \<Rightarrow> Inl AwaitUseInvalid
           | Some c \<Rightarrow>
               if fst ans \<noteq> at_id c then Inl ResponseMismatch
               else consumeProvidedToolResultRecords env cin (awaited_calls env ctx callRunID item)
                      [Some \<lparr>pv_name = at_tool_name c, pv_tool_call_id = at_tool_call_id c, pv_value = ci_answer cin (snd ans)\<rparr>])
      | _ \<Rightarrow> Inl ResponseMismatch)"

definition consumeToolResultsResponse ::
  "loop_env \<Rightarrow> continuation_inputs \<Rightarrow> run_context \<Rightarrow> await_item \<Rightarrow> string \<Rightarrow> string \<times> provided_result option list \<Rightarrow>
   (step_error, step_record list) result" where
  "consumeToolResultsResponse env cin ctx item callRunID rs =
     (let consume = (\<lambda>awaitID. if fst rs \<noteq> awaitID then Inl ResponseMismatch
                               else consumeProvidedToolResultRecords env cin (awaited_calls env ctx callRunID item) (snd rs))
      in case aw_kind item of
           AwaitItemKindQuestions \<Rightarrow> (case aw_questions item of None \<Rightarrow> Inl AwaitUseInvalid | Some q \<Rightarrow> consume (aq_id q))
         | AwaitItemKindExternalTools \<Rightarrow>
             (case aw_external_tools item of
                None \<Rightarrow> Inl AwaitUseInvalid
              | Some e \<Rightarrow>
                  if list_ex (\<lambda>i. ai_tool_call_id i = []) (ae_items e) then Inl AwaitUseInvalid else consume (ae_id e))
         | _ \<Rightarrow> Inl ResponseMismatch)"

definition applyAwaitResponse ::
  "loop_env \<Rightarrow> continuation_inputs \<Rightarrow> run_context \<Rightarrow> await_item \<Rightarrow> string \<Rightarrow> pending_response \<Rightarrow>
   (step_error, step_record list) result" where
  "applyAwaitResponse env cin ctx item callRunID response =
     (case aw_kind item of
        AwaitItemKindOther k \<Rightarrow> Inl AwaitUseInvalid
      | kind \<Rightarrow>
          if kind = AwaitItemKindClarification \<or> kind = AwaitItemKindToolClarification
          then (case (rp_clarification response, rp_confirmation response, rp_tool_results response) of
                  (Some ans, None, None) \<Rightarrow>
                    consumeClarificationResponse env cin ctx item callRunID ans
                | _ \<Rightarrow> Inl ResponseMismatch)
          else (case (rp_clarification response, rp_confirmation response, rp_tool_results response) of
                  (None, None, Some rs) \<Rightarrow>
                    consumeToolResultsResponse env cin ctx item callRunID rs
                | _ \<Rightarrow> Inl ResponseMismatch))"

text \<open>
  The record of a refused call, with the flags it has once its lifecycle events are stored; when storing
  them fails the continuation ends with the error and the record is dropped.
\<close>

definition denied_record :: "confirmation_await \<Rightarrow> step_record" where
  "denied_record c =
     \<lparr>sr_call = cf_call c,
      sr_result = Some \<lparr>rs_name = tr_name (cf_call c), rs_tool_call_id = tr_tool_call_id (cf_call c),
                        rs_result = cp_denied_result (cf_plan c), rs_failure = None\<rparr>,
      sr_clarification = None, sr_child_suspension = None, sr_result_published = True, sr_schedule_required = False,
      sr_schedule_exact = True, sr_requires_resume = True\<rparr>"

definition resolveConfirmationDecision ::
  "loop_env \<Rightarrow> continuation_inputs \<Rightarrow> confirmation_await \<Rightarrow> confirmation_decision \<Rightarrow> loop_state \<Rightarrow>
   loop_state \<times> step_record list \<times> bool \<times> (step_error, await_item list) result" where
  "resolveConfirmationDecision env cin c verdict st =
     (if cd_id verdict \<noteq> cf_await_id c then (st, [], False, Inl ResponseMismatch)
      else if cd_requested_by verdict = [] then (st, [], False, Inl ResponseMismatch)
      else if \<not> cd_approved verdict
      then (st, [denied_record c], False, (case ci_publish cin of Inl err \<Rightarrow> Inl err | Inr u \<Rightarrow> Inr []))
      else
        (case ci_publish cin of
           Inl err \<Rightarrow> (st, [], False, Inl err)
         | Inr u \<Rightarrow>
             (let call = cf_call c;
                  finishBy = (if isBookkeeping (le_table env) (tr_name call) then le_hard env else le_budget env);
                  (outcomes, timedOut, executionErr) =
                    executeGroupedToolCalls (si_exec (ci_step cin)) finishBy
                      (groupToolCallsByTimeout (le_tool_timeouts env) (le_default_timeout env) [call]);
                  (records, resultErr) = stepToolRecordsAfterExecution (le_show env) [call] outcomes executionErr;
                  st' = st\<lparr>ls_dispatched := ls_dispatched st @ [call]\<rparr>
              in case join_errors executionErr resultErr of
                   Some err \<Rightarrow> (st', records, timedOut, Inl err)
                 | None \<Rightarrow> (st', records, timedOut, Inr (toolClarificationAwaitItems (toolClarificationsFromRecords records))))))"

fun update_first :: "('a \<Rightarrow> bool) \<Rightarrow> ('a \<Rightarrow> 'a) \<Rightarrow> 'a list \<Rightarrow> 'a list" where
  "update_first P f [] = []"
| "update_first P f (x # xs) = (if P x then f x # xs else x # update_first P f xs)"

definition applyChildContinuation ::
  "continuation_inputs \<Rightarrow> step_batch \<Rightarrow> string \<Rightarrow> string \<Rightarrow> pending_response \<Rightarrow>
   step_batch \<times> (step_error, pending_input list) result" where
  "applyChildContinuation cin batch callID suspension response =
     (let owner = (\<lambda>record. tr_tool_call_id (sr_call record) = callID)
      in case find owner (sb_records batch) of
           None \<Rightarrow> (batch, Inl ResponseMismatch)
         | Some record \<Rightarrow>
             if sr_child_suspension record \<noteq> Some suspension then (batch, Inl ResponseMismatch)
             else (case ci_child cin (sr_call record) response of
                     Inl err \<Rightarrow> (batch, Inl err)
                   | Inr (Inl next_suspension) \<Rightarrow>
                       (batch\<lparr>sb_records := update_first owner (\<lambda>r. r\<lparr>sr_child_suspension := Some next_suspension\<rparr>) (sb_records batch)\<rparr>,
                        Inr [PendingChild callID next_suspension])
                   | Inr (Inr res) \<Rightarrow>
                       (batch\<lparr>sb_records := update_first owner (\<lambda>r. r\<lparr>sr_result := Some res, sr_child_suspension := None,
                                              sr_requires_resume := True\<rparr>) (sb_records batch)\<rparr>, Inr [])))"

definition consumeCheckpointInput ::
  "loop_env \<Rightarrow> continuation_inputs \<Rightarrow> step_batch \<Rightarrow> pending_input \<Rightarrow> pending_response \<Rightarrow> loop_state \<Rightarrow>
   loop_state \<times> step_batch \<times> (step_error, pending_input list) result" where
  "consumeCheckpointInput env cin batch pending response st =
     (case pending of
        PendingChild callID suspension \<Rightarrow>
          (let (batch', r) = applyChildContinuation cin batch callID suspension response in (st, batch', r))
      | PendingConfirmation c \<Rightarrow>
          (case (rp_clarification response, rp_confirmation response, rp_tool_results response) of
             (None, Some verdict, None) \<Rightarrow>
               (let (st', records, timedOut, r) = resolveConfirmationDecision env cin c verdict st;
                    batch' = batch\<lparr>sb_records := sb_records batch @ records, sb_timed_out := sb_timed_out batch \<or> timedOut\<rparr>
                in (st', batch',
                    (case r of
                       Inl err \<Rightarrow> Inl err
                     | Inr items \<Rightarrow>
                         (case publish_await_items items of
                            Inl err \<Rightarrow> Inl err
                          | Inr u \<Rightarrow> Inr (map (\<lambda>item. PendingAwait item []) items)))))
           | _ \<Rightarrow> (st, batch, Inl ResponseMismatch))
      | PendingAwait item callRunID \<Rightarrow>
          (case applyAwaitResponse env cin (ls_context st) item callRunID response of
             Inl err \<Rightarrow> (st, batch, Inl err)
           | Inr records \<Rightarrow> (st, batch\<lparr>sb_records := sb_records batch @ records\<rparr>, Inr [])))"

definition consumePendingInput ::
  "loop_env \<Rightarrow> continuation_inputs \<Rightarrow> step_batch \<Rightarrow> pending_input list \<Rightarrow> pending_response \<Rightarrow> loop_state \<Rightarrow>
   loop_state \<times> step_batch \<times> (step_error, pending_input list) result" where
  "consumePendingInput env cin batch pending response st =
     (case pending of
        [] \<Rightarrow> (st, batch, Inl ResponseMismatch)
      | current # others \<Rightarrow>
          (case consumeCheckpointInput env cin batch current response st of
             (st', batch', Inl err) \<Rightarrow> (st', batch', Inl err)
           | (st', batch', Inr generated) \<Rightarrow> (st', batch', Inr (others @ generated))))"

definition retargetToolRequest :: "loop_env \<Rightarrow> run_context \<Rightarrow> (string \<rightharpoonup> string) \<Rightarrow> tool_request \<Rightarrow> tool_request" where
  "retargetToolRequest env ctx labels call =
     call\<lparr>tr_agent_id := le_agent_id env, tr_run_id := rc_run_id ctx, tr_session_id := rc_session_id ctx,
          tr_turn_id := rc_turn_id ctx,
          tr_parent_tool_call_id := (case le_parent env of None \<Rightarrow> [] | Some p \<Rightarrow> p), tr_labels := labels\<rparr>"

definition restorePendingInput :: "loop_env \<Rightarrow> run_context \<Rightarrow> (string \<rightharpoonup> string) \<Rightarrow> pending_input \<Rightarrow> pending_input" where
  "restorePendingInput env ctx labels p =
     (case p of
        PendingConfirmation c \<Rightarrow> PendingConfirmation (c\<lparr>cf_call := retargetToolRequest env ctx labels (cf_call c)\<rparr>)
      | _ \<Rightarrow> p)"

text \<open>
  The encoding of results in the checkpoint is not modelled: a record comes back as it was stored, except that
  an agent call whose child is suspended has an empty result.
\<close>

definition restored_record :: "step_record \<Rightarrow> step_record" where
  "restored_record record =
     (if sr_child_suspension record = None then record
      else record\<lparr>sr_result := Some \<lparr>rs_name = tr_name (sr_call record), rs_tool_call_id = tr_tool_call_id (sr_call record),
                                      rs_result = [], rs_failure = None\<rparr>\<rparr>)"

definition restoreCheckpointBatch :: "loop_env \<Rightarrow> run_context \<Rightarrow> (string \<rightharpoonup> string) \<Rightarrow> step_batch \<Rightarrow> step_batch" where
  "restoreCheckpointBatch env ctx labels batch =
     (let retarget = map (retargetToolRequest env ctx labels);
          program = sb_program batch;
          result = sg_result program
      in batch\<lparr>sb_program := program\<lparr>sg_result := result\<lparr>pr_tool_calls := retarget (pr_tool_calls result)\<rparr>,
                                     sg_calls := retarget (sg_calls program)\<rparr>,
               sb_records := map restored_record (sb_records batch), sb_awaited := True, sb_pending := []\<rparr>)"

text \<open>\<open>runID\<close> and \<open>turnID\<close> identify the run that continues; the session is the same.\<close>

definition resumeSuspendedWorkflow ::
  "loop_env \<Rightarrow> continuation_inputs \<Rightarrow> step_inputs list \<Rightarrow> checkpoint \<Rightarrow> string \<Rightarrow> string \<Rightarrow> pending_response \<Rightarrow>
   loop_state \<times> (step_error, loop_output option) result" where
  "resumeSuspendedWorkflow env0 cin inps ck runID turnID response =
     (let now = si_now (ci_step cin);
          env = env0\<lparr>le_budget := map_option (\<lambda>left. now + left) (ck_budget_left ck),
                     le_hard := map_option (\<lambda>left. now + left) (ck_hard_left ck)\<rparr>;
          ctx = (ls_context (ck_state ck))\<lparr>rc_run_id := runID, rc_turn_id := turnID\<rparr>;
          labels = ls_labels (ck_state ck);
          batch = restoreCheckpointBatch env ctx labels (ck_batch ck);
          st = (ck_state ck)\<lparr>ls_context := ctx, ls_result := sg_result (sb_program batch)\<rparr>;
          pending = map (restorePendingInput env ctx labels) (ck_pending ck)
      in case consumePendingInput env cin batch pending response st of
           (st1, batch1, Inl err) \<Rightarrow> (st1, Inl err)
         | (st1, batch1, Inr remaining) \<Rightarrow>
             if remaining \<noteq> []
             then (case suspendCheckpointRun env (ci_step cin) batch1 [] [] remaining st1 of
                     Inl err \<Rightarrow> (st1, Inl err)
                   | Inr ck' \<Rightarrow> (st1, Inr (Some (Suspended ck'))))
             else (case advanceStep env (ci_step cin) batch1 st1 of
                     (st2, Inr None) \<Rightarrow> run env inps st2
                   | r \<Rightarrow> r))"

end
