(* ===== verification/Loop_Budget.thy ===== *)
theory Loop_Budget
  imports Workflow_Loop
begin

section \<open>The tool budget over a whole run\<close>

text \<open>
  Invariants of \<open>Workflow_Loop\<close>: the calls of one deadline class are grouped by timeout without loss,
  and over a run with any number of suspensions and continuations the number of budgeted tool calls
  handed to the execution layer never exceeds the budget the run started with.
\<close>

subsection \<open>Grouping by timeout\<close>

text \<open>The reference: one group per timeout, in order of first appearance, each with its calls in order.\<close>

definition timeout_groups :: "(tool_request \<Rightarrow> int) \<Rightarrow> tool_request list \<Rightarrow> (int \<times> tool_request list) list" where
  "timeout_groups timeout calls =
     map (\<lambda>t. (t, filter (\<lambda>call. timeout call = t) calls)) (rev (remdups (rev (map timeout calls))))"

lemma timeout_groups_snoc:
  "timeout_groups timeout (calls @ [call]) = add_to_group (timeout call) call (timeout_groups timeout calls)"
proof (cases "timeout call \<in> timeout ` set calls")
  case True
  then have "timeout call \<in> fst ` set (timeout_groups timeout calls)"
    by (force simp: timeout_groups_def)
  with True show ?thesis by (simp add: timeout_groups_def add_to_group_def)
next
  case False
  then have "timeout call \<notin> fst ` set (timeout_groups timeout calls)"
    by (force simp: timeout_groups_def)
  moreover have "filter (\<lambda>c. timeout c = timeout call) calls = []"
    using False unfolding filter_empty_conv by (metis imageI)
  moreover have "filter (\<lambda>c. timeout c = t) (calls @ [call]) = filter (\<lambda>c. timeout c = t) calls" if "t \<in> timeout ` set calls" for t
    using that False by auto
  ultimately show ?thesis using False by (simp add: timeout_groups_def add_to_group_def)
qed

lemma foldl_groups:
  "foldl (\<lambda>groups call. add_to_group (timeout call) call groups) [] calls = timeout_groups timeout calls"
proof (induction calls rule: rev_induct)
  case Nil
  then show ?case by (simp add: timeout_groups_def)
next
  case (snoc call calls)
  then show ?case by (simp add: timeout_groups_snoc)
qed

lemma remdups_replicate: "remdups (replicate (Suc n) a) = [a]"
  by (induction n) simp_all

lemma remdups_constant: "xs \<noteq> [] \<Longrightarrow> remdups (map (\<lambda>x. a) xs) = [a]"
  using remdups_replicate [of "length (tl xs)" a] by (cases xs) (simp_all add: map_replicate_const)

text \<open>
  Grouping by timeout. A non-empty batch is split into one group per effective timeout, in
  the order the timeouts first appear, each group holding exactly the calls with that timeout in their
  original order; without per-tool timeouts this is the single group of the default timeout.
\<close>

theorem groups_by_timeout:
  assumes "calls \<noteq> []"
  shows "groupToolCallsByTimeout rules defaultTimeout calls = timeout_groups (call_timeout rules defaultTimeout) calls"
proof (cases "rules = []")
  case True
  have "call_timeout [] defaultTimeout = (\<lambda>call. defaultTimeout)"
    by (simp add: fun_eq_iff call_timeout_def resolve_timeout_def prefix_rules_def)
  moreover have "remdups (rev (map (\<lambda>call. defaultTimeout) calls)) = [defaultTimeout]"
    using assms remdups_constant [of "rev calls"] by (simp add: rev_map)
  ultimately show ?thesis using True by (simp add: groupToolCallsByTimeout_def timeout_groups_def)
next
  case False
  then show ?thesis by (simp add: groupToolCallsByTimeout_def foldl_groups)
qed

theorem groups_by_timeout_witness:
  "groupToolCallsByTimeout [(''a.*'', 5), (''a.x'', 7)] 9 [new_request ''a.y'' ''1'' [], new_request ''b'' ''2'' [], new_request ''a.x'' ''3'' []] =
     timeout_groups (call_timeout [(''a.*'', 5), (''a.x'', 7)] 9)
       [new_request ''a.y'' ''1'' [], new_request ''b'' ''2'' [], new_request ''a.x'' ''3'' []]"
  by (rule groups_by_timeout) simp

subsection \<open>Counting budgeted calls\<close>

definition budgeted :: "tool_table \<Rightarrow> tool_request list \<Rightarrow> int" where
  "budgeted tbl calls = int (length (filter (\<lambda>call. \<not> isBookkeeping tbl (tr_name call)) calls))"

lemma budgeted_simps [simp]:
  "budgeted tbl [] = 0"
  "budgeted tbl (call # calls) = (if isBookkeeping tbl (tr_name call) then 0 else 1) + budgeted tbl calls"
  "budgeted tbl (xs @ ys) = budgeted tbl xs + budgeted tbl ys"
  by (simp_all add: budgeted_def)

lemma budgeted_nonneg [simp]: "0 \<le> budgeted tbl calls"
  by (simp add: budgeted_def)

lemma budgeted_map:
  "(\<And>call. call \<in> set calls \<Longrightarrow> tr_name (f call) = tr_name call) \<Longrightarrow> budgeted tbl (map f calls) = budgeted tbl calls"
  by (induction calls) auto

lemma splitConfirmation_budget:
  "splitConfirmationCalls env ctx calls = Inr (now, later) \<Longrightarrow>
   budgeted tbl now + budgeted tbl (map cf_call later) = budgeted tbl calls"
  by (induction calls arbitrary: now later) (auto split: sum.splits option.splits prod.splits)

lemma filter_budget:
  "budgeted tbl (map cf_call (filter P cs)) + budgeted tbl (map cf_call (filter (\<lambda>c. \<not> P c \<and> Q c) cs)) +
   budgeted tbl (map cf_call (filter (\<lambda>c. \<not> P c \<and> \<not> Q c) cs)) = budgeted tbl (map cf_call cs)"
  by (induction cs) auto

fun confirmation_calls :: "pending_input list \<Rightarrow> tool_request list" where
  "confirmation_calls [] = []"
| "confirmation_calls (PendingConfirmation c # ps) = cf_call c # confirmation_calls ps"
| "confirmation_calls (p # ps) = confirmation_calls ps"

lemma confirmation_calls_append [simp]: "confirmation_calls (ps @ qs) = confirmation_calls ps @ confirmation_calls qs"
  by (induction ps rule: confirmation_calls.induct) auto

lemma confirmation_calls_map [simp]:
  "confirmation_calls (map PendingConfirmation cs) = map cf_call cs"
  "confirmation_calls (map (\<lambda>item. PendingAwait item (f item)) items) = []"
  by (induction cs, auto, induction items, auto)

lemma child_inputs_confirmations [simp]: "child_inputs valid records = Inr ps \<Longrightarrow> confirmation_calls ps = []"
  by (induction records arbitrary: ps) (auto split: option.splits if_splits sum.splits)

subsection \<open>The budget invariant\<close>

text \<open>
  Between steps (\<open>idle\<close>) the calls made and the calls left stay within the budget \<open>b\<close>; during a step of
  cost \<open>c\<close> (\<open>inflight\<close>) the calls made, the confirmations still pending and what the step leaves over do.
\<close>

definition capped :: "loop_state \<Rightarrow> bool" where
  "capped st \<longleftrightarrow> 0 < MaxToolCalls (ls_caps st) \<and> 0 \<le> RemainingToolCalls (ls_caps st)"

definition idle :: "tool_table \<Rightarrow> int \<Rightarrow> loop_state \<Rightarrow> bool" where
  "idle tbl b st \<longleftrightarrow> capped st \<and> budgeted tbl (ls_dispatched st) + RemainingToolCalls (ls_caps st) \<le> b"

definition inflight :: "tool_table \<Rightarrow> int \<Rightarrow> int \<Rightarrow> tool_request list \<Rightarrow> loop_state \<Rightarrow> bool" where
  "inflight tbl b c waiting st \<longleftrightarrow> capped st \<and> 0 \<le> c \<and>
     budgeted tbl (ls_dispatched st) + budgeted tbl waiting + max 0 (RemainingToolCalls (ls_caps st) - c) \<le> b"

definition within :: "tool_table \<Rightarrow> int \<Rightarrow> loop_state \<Rightarrow> bool" where
  "within tbl b st \<longleftrightarrow> budgeted tbl (ls_dispatched st) \<le> b"

definition saved_ok :: "tool_table \<Rightarrow> int \<Rightarrow> checkpoint \<Rightarrow> bool" where
  "saved_ok tbl b ck \<longleftrightarrow>
     inflight tbl b (sb_budget_cost (ck_batch ck)) (confirmation_calls (ck_pending ck)) (ck_state ck)"

fun outcome_ok :: "tool_table \<Rightarrow> int \<Rightarrow> loop_state \<times> (step_error, loop_output option) result \<Rightarrow> bool" where
  "outcome_ok tbl b (st, Inr None) = idle tbl b st"
| "outcome_ok tbl b (st, Inr (Some (Suspended ck))) = (saved_ok tbl b ck \<and> within tbl b st)"
| "outcome_ok tbl b (st, r) = within tbl b st"

lemma idle_within: "idle tbl b st \<Longrightarrow> within tbl b st"
  by (simp add: idle_def within_def capped_def)

lemma inflight_weaken: "inflight tbl b c waiting st \<Longrightarrow> inflight tbl b c [] st"
  unfolding inflight_def budgeted_simps using budgeted_nonneg [of tbl waiting] by linarith

lemma inflight_within: "inflight tbl b c waiting st \<Longrightarrow> within tbl b st"
  using inflight_weaken [of tbl b c waiting st] by (auto simp: inflight_def within_def max_def split: if_splits)

lemma idle_inflight: "idle tbl b st \<Longrightarrow> 0 \<le> c \<Longrightarrow> inflight tbl b c [] st"
  by (simp add: idle_def inflight_def capped_def max_def)

lemma inflight_charged:
  assumes "inflight tbl b c [] st"
  shows "idle tbl b (st\<lparr>ls_caps := (ls_caps st)\<lparr>RemainingToolCalls := decrementCap (RemainingToolCalls (ls_caps st)) c\<rparr>\<rparr>)"
  using assms by (auto simp: inflight_def idle_def capped_def decrementCap_def)

subsection \<open>Preparation and execution keep the invariant\<close>

text \<open>What the theorem needs of a policy engine: it never decides a negative limit (which would mean no limit).\<close>

definition decisions_ok :: "loop_env \<Rightarrow> bool" where
  "decisions_ok env \<longleftrightarrow>
     (case pe_decide (le_policy env) of None \<Rightarrow> True | Some decide \<Rightarrow> \<forall>i d. decide i = Inr d \<longrightarrow> 0 \<le> MaxToolCalls (d_caps d))"

lemma applied_caps_tighten:
  assumes "applyRuntimePolicy (le_policy env) tbl labels calls caps = (labels', Inr (out, caps'))"
    and "decisions_ok env" "0 < MaxToolCalls caps"
  shows "0 < MaxToolCalls caps' \<and> RemainingToolCalls caps' \<le> RemainingToolCalls caps"
proof (cases "pe_decide (le_policy env)")
  case None
  with assms show ?thesis by (simp add: applyRuntimePolicy_def)
next
  case (Some decide)
  then obtain i d where "decide i = Inr d" "caps' = mergeCaps caps (d_caps d)"
    using assms(1) by (auto simp: applyRuntimePolicy_def Let_def split: sum.splits if_splits)
  with Some assms(2,3) show ?thesis
    by (fastforce simp: decisions_ok_def mergeCaps_def mergeCapDown_def)
qed

lemma admit_ok:
  assumes "admitToolBatch tbl calls caps = Inr (cost, admitted)"
  shows "cost = budgeted tbl calls \<and> 0 \<le> RemainingToolCalls caps \<and>
    (admitted \<longrightarrow> 0 < MaxToolCalls caps \<longrightarrow> cost \<le> RemainingToolCalls caps)"
  using assms by (auto simp: admitToolBatch_def budgeted_def Let_def split: if_splits)

lemma prepare_admitted_ok:
  assumes "prepare_admitted env program allowed cost ctx = Inr p"
  shows "pg_budget_cost p = cost \<and> pg_admitted p \<and> pg_allowed p = allowed \<and>
    budgeted tbl (pg_immediate p) + budgeted tbl (map cf_call (pg_confirmations p)) = budgeted tbl allowed \<and>
    sg_calls p = sg_calls program \<and> sg_await_items p = sg_await_items program \<and> sg_kind p = sg_kind program \<and>
    sg_result p = sg_result program"
  using assms splitConfirmation_budget [of env ctx allowed _ _ tbl]
  by (auto simp: prepare_admitted_def prepared_of_def split: sum.splits if_splits)

lemma prepare_budget:
  assumes "prepareToolStep env program st = (st', r)" "decisions_ok env" "idle (le_table env) b st"
  shows "within (le_table env) b st' \<and>
    (\<forall>p. r = Inr p \<longrightarrow> idle (le_table env) b st' \<and> 0 \<le> pg_budget_cost p \<and>
       (pg_admitted p \<longrightarrow> pg_budget_cost p \<le> RemainingToolCalls (ls_caps st') \<and>
          budgeted (le_table env) (pg_immediate p) + budgeted (le_table env) (map cf_call (pg_confirmations p)) =
            pg_budget_cost p))"
proof -
  let ?tbl = "le_table env"
  have within: "within ?tbl b st" using assms(3) by (rule idle_within)
  have disp: "ls_dispatched st' = ls_dispatched st"
    using assms(1) by (auto simp: prepareToolStep_def Let_def split: sum.splits prod.splits if_splits)
  show ?thesis
  proof (cases r)
    case (Inl e)
    with within show ?thesis using disp by (simp add: within_def)
  next
    case (Inr p)
    with assms(1) obtain labels calls policed caps where
      policy: "applyRuntimePolicy (le_policy env) ?tbl (ls_labels st) calls (ls_caps st) = (labels, Inr (policed, caps))"
      and st': "ls_caps st' = caps"
      and admit: "admitToolBatch ?tbl (pg_allowed p) caps = Inr (pg_budget_cost p, pg_admitted p)"
      and split: "pg_admitted p \<Longrightarrow> budgeted ?tbl (pg_immediate p) + budgeted ?tbl (map cf_call (pg_confirmations p)) =
          budgeted ?tbl (pg_allowed p)"
      by (auto simp: prepareToolStep_def Let_def prepared_of_def dest!: prepare_admitted_ok [where tbl = ?tbl]
          split: sum.splits prod.splits if_splits)
    have "0 < MaxToolCalls caps \<and> RemainingToolCalls caps \<le> RemainingToolCalls (ls_caps st)"
      using applied_caps_tighten [OF policy assms(2)] assms(3) by (simp add: idle_def capped_def)
    with admit_ok [OF admit] split assms(3) disp st' Inr within show ?thesis
      by (auto simp: idle_def capped_def within_def)
  qed
qed

text \<open>Executing and resolving calls moves budgeted calls from waiting to dispatched.\<close>

lemma executeToolStep_budget:
  assumes "executeToolStep env inp p batch st = (st', batch', r)" "idle (le_table env) b st" "sb_budget_cost batch = 0"
    and "pg_admitted p \<Longrightarrow> pg_budget_cost p \<le> RemainingToolCalls (ls_caps st) \<and>
          budgeted (le_table env) (pg_immediate p) + budgeted (le_table env) (map cf_call (pg_confirmations p)) = pg_budget_cost p"
  shows "inflight (le_table env) b (sb_budget_cost batch') [] st' \<and>
    (\<forall>confirmations items. r = Inr (confirmations, items) \<longrightarrow>
       inflight (le_table env) b (sb_budget_cost batch') (map cf_call confirmations) st')"
proof (cases "pg_admitted p")
  case False
  with assms(1,3) have "st' = st" "sb_budget_cost batch' = 0" "r = Inr ([], [])"
    by (auto simp: executeToolStep_def)
  with assms(2) show ?thesis by (simp add: idle_inflight)
next
  case True
  from assms(1) True have st': "ls_caps st' = ls_caps st" "ls_dispatched st' = ls_dispatched st @ pg_immediate p"
      and cost: "sb_budget_cost batch' = pg_budget_cost p"
    using assms(3) by (auto simp: executeToolStep_def Let_def case_prod_beta split: option.splits sum.splits)
  have r: "confirmations = pg_confirmations p" if "r = Inr (confirmations, items)" for confirmations items
    using assms(1) True that
    by (auto simp: executeToolStep_def step_await_items_def Let_def case_prod_beta split: option.splits sum.splits if_splits)
  have full: "inflight (le_table env) b (sb_budget_cost batch') (map cf_call (pg_confirmations p)) st'"
    using assms(2) assms(4) [OF True] budgeted_nonneg [of "le_table env" "pg_immediate p"]
      budgeted_nonneg [of "le_table env" "map cf_call (pg_confirmations p)"]
    unfolding inflight_def idle_def capped_def st' cost budgeted_simps by linarith
  with inflight_weaken [OF full] r show ?thesis by blast
qed

lemma resolveExpired_budget:
  assumes "resolveExpiredConfirmations env inp confirmations st = (st', remaining, records, expired, err)"
    and "inflight (le_table env) b c (map cf_call confirmations) st"
  shows "inflight (le_table env) b c (map cf_call remaining) st'"
proof -
  let ?b = "bookkeeping_confirmation env"
  let ?o = "confirmation_open env (si_now inp)"
  have remaining: "remaining = filter ?o confirmations"
    using assms(1) by (auto simp: resolveExpiredConfirmations_def Let_def case_prod_beta split: if_splits)
  have st': "ls_caps st' = ls_caps st" "ls_dispatched st' = ls_dispatched st @
      map cf_call (filter (\<lambda>c. \<not> ?o c \<and> \<not> ?b c) confirmations) @ map cf_call (filter (\<lambda>c. \<not> ?o c \<and> ?b c) confirmations)"
    using assms(1) by (auto simp: resolveExpiredConfirmations_def Let_def case_prod_beta split: if_splits)
  show ?thesis
    using assms(2) filter_budget [of "le_table env" ?o confirmations ?b]
    unfolding inflight_def capped_def st' remaining budgeted_simps by linarith
qed

text \<open>Recording, failing and suspending leave caps and dispatched calls alone.\<close>

definition same_budget :: "loop_state \<Rightarrow> loop_state \<Rightarrow> bool" where
  "same_budget st' st \<longleftrightarrow> ls_caps st' = ls_caps st \<and> ls_dispatched st' = ls_dispatched st"

lemma same_budget_keeps:
  "same_budget st' st \<Longrightarrow> idle tbl b st' = idle tbl b st"
  "same_budget st' st \<Longrightarrow> inflight tbl b c w st' = inflight tbl b c w st"
  "same_budget st' st \<Longrightarrow> within tbl b st' = within tbl b st"
  by (simp_all add: same_budget_def idle_def inflight_def within_def capped_def)

lemma record_frame:
  assumes "recordUnrecordedStepToolResults inp batch st = (st', r)"
  shows "same_budget st' st \<and> (\<forall>b. r = Inr b \<longrightarrow> sb_budget_cost b = sb_budget_cost batch \<and> sb_program b = sb_program batch \<and>
    sb_pending b = sb_pending batch \<and> sb_finalize b = sb_finalize batch)"
  using assms by (auto simp: recordUnrecordedStepToolResults_def same_budget_def split: if_splits sum.splits)

lemma same_budget_refl [simp]: "same_budget st st"
  by (simp add: same_budget_def)

lemma record_error_frame: "recordToolResultsBeforeError inp batch e st = (st', e') \<Longrightarrow> same_budget st' st"
  by (cases "recordUnrecordedStepToolResults inp batch st")
     (auto simp: recordToolResultsBeforeError_def dest: record_frame split: if_splits sum.splits)

lemma fail_frame: "failCommittedStep env inp batch e st = (st', e') \<Longrightarrow> same_budget st' st"
  unfolding failCommittedStep_def Let_def case_prod_beta by (rule record_error_frame)

lemma suspend_saved:
  assumes "suspendCheckpointRun env inp batch cs items [] st = Inr ck"
    and "inflight tbl b (sb_budget_cost batch) (map cf_call cs @ confirmation_calls (sb_pending batch)) st"
  shows "saved_ok tbl b ck"
  using assms by (auto simp: suspendCheckpointRun_def saved_ok_def split: if_splits sum.splits)

lemma await_or_finish_ok:
  assumes "await_or_finish env inp cs items batch st = (st', r)"
    and "inflight tbl b (sb_budget_cost batch) (map cf_call cs) st" "confirmation_calls (sb_pending batch) = []"
  shows "within tbl b st' \<and> (\<forall>ck. r = Inr (Inr ck) \<longrightarrow> saved_ok tbl b ck) \<and> (\<forall>batch'. r \<noteq> Inr (Inl batch'))"
proof (cases "handleAwaitQueue env inp cs items batch st")
  case (Inl e)
  obtain st2 e2 where fail: "failCommittedStep env inp batch e st = (st2, e2)" by fastforce
  with Inl assms(1) have "same_budget st' st" "\<exists>e. r = Inl e"
    using fail_frame [OF fail] by (auto simp: await_or_finish_def)
  with inflight_within [OF assms(2)] show ?thesis by (auto simp: same_budget_keeps)
next
  case (Inr ck)
  then have "suspendCheckpointRun env inp (batch\<lparr>sb_awaited := True\<rparr>) cs items [] st = Inr ck"
    by (auto simp: handleAwaitQueue_def split: if_splits sum.splits)
  then have "saved_ok tbl b ck" by (rule suspend_saved) (use assms(2,3) in simp)
  with Inr assms(1) inflight_within [OF assms(2)] show ?thesis by (auto simp: await_or_finish_def)
qed

lemma drain_ok:
  assumes "drain_step env inp p cs items batch st = (st', r)"
    and "inflight (le_table env) b (sb_budget_cost batch) (map cf_call cs) st" "confirmation_calls (sb_pending batch) = []"
  shows "within (le_table env) b st' \<and> (\<forall>ck. r = Inr (Inr ck) \<longrightarrow> saved_ok (le_table env) b ck) \<and>
    (\<forall>batch'. r = Inr (Inl batch') \<longrightarrow>
       inflight (le_table env) b (sb_budget_cost batch') [] st' \<and> confirmation_calls (sb_pending batch') = [])"
proof -
  obtain st1 remaining records expired err where
    x: "resolveExpiredConfirmations env inp cs st = (st1, remaining, records, expired, err)" by (rule prod_cases5)
  define batch1 where "batch1 = batch\<lparr>sb_records := sb_records batch @ records, sb_timed_out := sb_timed_out batch \<or> expired\<rparr>"
  have batch1: "sb_budget_cost batch1 = sb_budget_cost batch" "sb_pending batch1 = sb_pending batch"
    by (simp_all add: batch1_def)
  from resolveExpired_budget [OF x assms(2)]
  have st1: "inflight (le_table env) b (sb_budget_cost batch1) (map cf_call remaining) st1" by (simp add: batch1)
  obtain st2 r2 where step: "(if remaining = [] \<and> sg_await_items p = [] \<and> items \<noteq> [] \<and> sb_pending batch1 = []
      then recordUnrecordedStepToolResults inp batch1 st1 else (st1, Inr batch1)) = (st2, r2)" by (rule prod.exhaust)
  have frame: "same_budget st2 st1 \<and> (\<forall>b. r2 = Inr b \<longrightarrow> sb_budget_cost b = sb_budget_cost batch1 \<and> sb_pending b = sb_pending batch1)"
  proof (cases "remaining = [] \<and> sg_await_items p = [] \<and> items \<noteq> [] \<and> sb_pending batch1 = []")
    case True
    then have "recordUnrecordedStepToolResults inp batch1 st1 = (st2, r2)" using step by (simp only: if_True simp_thms)
    from record_frame [OF this] show ?thesis by blast
  next
    case False
    then have "st1 = st2" "r2 = Inr batch1" using step by (simp_all only: if_False simp_thms prod.inject)
    then show ?thesis by simp
  qed
  have drain: "drain_step env inp p cs items batch st =
      (case err of
         Some e \<Rightarrow> (let (st2, e') = failCommittedStep env inp batch1 e st1 in (st2, Inl e'))
       | None \<Rightarrow> (case (st2, r2) of
           (st2, Inl e) \<Rightarrow> (st2, Inl e)
         | (st2, Inr batch2) \<Rightarrow>
             if remaining \<noteq> [] \<or> items \<noteq> [] \<or> sb_pending batch2 \<noteq> []
             then await_or_finish env inp remaining items batch2 st2 else (st2, Inr (Inl batch2))))"
    unfolding drain_step_def x Let_def prod.case batch1_def [symmetric] step ..
  show ?thesis
  proof (cases err)
    case (Some e)
    obtain st3 e' where fail: "failCommittedStep env inp batch1 e st1 = (st3, e')" by fastforce
    with Some assms(1) have "st' = st3" "r = Inl e'" by (simp_all add: drain)
    with fail_frame [OF fail] inflight_within [OF st1] show ?thesis by (simp add: same_budget_keeps)
  next
    case None
    show ?thesis
    proof (cases r2)
      case (Inl e)
      with None assms(1) have "st' = st2" "r = Inl e" by (simp_all add: drain)
      with same_budget_keeps(3) [OF conjunct1 [OF frame]] inflight_within [OF st1] show ?thesis by simp
    next
      case (Inr batch2)
      with frame st1 have st2: "inflight (le_table env) b (sb_budget_cost batch2) (map cf_call remaining) st2"
          "confirmation_calls (sb_pending batch2) = []"
        using batch1 assms(3) same_budget_keeps(2) [OF conjunct1 [OF frame]] by simp_all
      show ?thesis
      proof (cases "remaining \<noteq> [] \<or> items \<noteq> [] \<or> sb_pending batch2 \<noteq> []")
        case True
        with None Inr assms(1) have "await_or_finish env inp remaining items batch2 st2 = (st', r)" by (simp add: drain)
        from await_or_finish_ok [OF this st2] show ?thesis by blast
      next
        case False
        with None Inr assms(1) have "st' = st2" "r = Inr (Inl batch2)" by (simp_all add: drain)
        with st2 inflight_within [OF st2(1)] inflight_weaken [OF st2(1)] show ?thesis by simp
      qed
    qed
  qed
qed

lemma executeToolStep_pending:
  "executeToolStep env inp p batch st = (st', batch', r) \<Longrightarrow> confirmation_calls (sb_pending batch) = [] \<Longrightarrow>
   confirmation_calls (sb_pending batch') = []"
  by (auto simp: executeToolStep_def Let_def case_prod_beta split: if_splits option.splits sum.splits)

lemma executeStepProgram_ok:
  assumes "executeStepProgram env inp p st = (st', r)" "idle (le_table env) b st"
    and "pg_admitted p \<Longrightarrow> pg_budget_cost p \<le> RemainingToolCalls (ls_caps st) \<and>
          budgeted (le_table env) (pg_immediate p) + budgeted (le_table env) (map cf_call (pg_confirmations p)) = pg_budget_cost p"
  shows "within (le_table env) b st' \<and> (\<forall>ck. r = Inr (Inr ck) \<longrightarrow> saved_ok (le_table env) b ck) \<and>
    (\<forall>batch'. r = Inr (Inl batch') \<longrightarrow>
       inflight (le_table env) b (sb_budget_cost batch') [] st' \<and> confirmation_calls (sb_pending batch') = [])"
proof (cases "sg_calls p = []")
  case True
  let ?batch = "new_batch (step_program.truncate p)"
  show ?thesis
  proof (cases "sg_await_items p = []")
    case True
    with \<open>sg_calls p = []\<close> assms(1) idle_within [OF assms(2)] show ?thesis by (auto simp: executeStepProgram_def)
  next
    case False
    with True assms(1) have "await_or_finish env inp [] (sg_await_items p) ?batch st = (st', r)"
      by (simp add: executeStepProgram_def)
    from await_or_finish_ok [OF this, of "le_table env" b] idle_inflight [OF assms(2), of 0] show ?thesis
      by (simp add: new_batch_def)
  qed
next
  case False
  obtain st1 batch1 r1 where x: "executeToolStep env inp p (new_batch (step_program.truncate p)) st = (st1, batch1, r1)"
    by (rule prod_cases3)
  have new: "sb_budget_cost (new_batch q) = 0" "confirmation_calls (sb_pending (new_batch q)) = []" for q
    by (simp_all add: new_batch_def)
  note st1 = executeToolStep_budget [OF x assms(2) new(1) assms(3), simplified]
  show ?thesis
  proof (cases r1)
    case (Inl e)
    obtain st2 e' where fail: "failCommittedStep env inp batch1 e st1 = (st2, e')" by fastforce
    with False x Inl assms(1) have "st' = st2" "r = Inl e'" by (simp_all add: executeStepProgram_def)
    with fail_frame [OF fail] st1 show ?thesis by (auto simp: same_budget_keeps dest: inflight_within)
  next
    case (Inr ci)
    obtain cs items where ci: "ci = (cs, items)" by fastforce
    show ?thesis
    proof (cases "sb_finalize batch1 = None")
      case True
      with False x Inr ci assms(1) have "drain_step env inp p cs items batch1 st1 = (st', r)"
        by (simp add: executeStepProgram_def)
      from drain_ok [OF this] st1 Inr ci executeToolStep_pending [OF x new(2)] show ?thesis by blast
    next
      case some: False
      with False x Inr ci assms(1) have "st' = st1" "r = finish_denied_step env batch1 st1"
        by (auto simp: executeStepProgram_def)
      with st1 executeToolStep_pending [OF x new(2)] show ?thesis
        by (auto simp: finish_denied_step_def prepareRecoveryRecords_def Let_def case_prod_beta
            dest: inflight_within split: option.splits)
    qed
  qed
qed

subsection \<open>Advancing keeps the invariant\<close>

lemma failureStreak_caps:
  "applyFailureStreak caps progress failed = (caps', x) \<Longrightarrow>
   MaxToolCalls caps' = MaxToolCalls caps \<and> RemainingToolCalls caps' = RemainingToolCalls caps"
  by (auto simp: applyFailureStreak_def Let_def split: if_splits)

lemma resumePlanner_ok:
  assumes "idle tbl b st"
  shows "outcome_ok tbl b (resumePlanner env inp batch st)"
proof -
  have idle: "idle tbl b st'" if "ls_caps st' = ls_caps st" "ls_dispatched st' = ls_dispatched st" for st'
    using that assms by (simp add: idle_def capped_def)
  show ?thesis
    unfolding resumePlanner_def Let_def
    by (auto intro!: idle idle_within split: sum.split plan_error.split option.split)
qed

lemma afterClassification_ok:
  assumes "idle tbl b st" "0 \<le> sb_budget_cost batch" "confirmation_calls (sb_pending batch) = []"
  shows "outcome_ok tbl b (afterClassification env inp batch st)"
proof -
  obtain progress failed where outcome: "budgetedBatchOutcome (le_table env) (sb_records batch) = (progress, failed)"
    by (rule prod.exhaust)
  obtain caps exhausted where streak: "applyFailureStreak (ls_caps st) progress failed = (caps, exhausted)"
    by (rule prod.exhaust)
  define st1 where "st1 = st\<lparr>ls_caps := caps\<rparr>"
  have idle: "idle tbl b st1"
    using assms(1) failureStreak_caps [OF streak] by (simp add: st1_def idle_def capped_def)
  have saved: "saved_ok tbl b ck"
    if "suspendCheckpointRun env inp (batch\<lparr>sb_awaited := True\<rparr>) [] [item] [] st1 = Inr ck" for item ck
    using that by (rule suspend_saved) (use idle_inflight [OF idle assms(2)] assms(3) in simp)
  show ?thesis
    unfolding afterClassification_def outcome prod.case Let_def streak st1_def [symmetric]
    using idle idle_within [OF idle] saved resumePlanner_ok [OF idle, of env inp batch]
    by (auto split: sum.split missing_decision.split)
qed

lemma advanceStep_ok:
  assumes "inflight tbl b (sb_budget_cost batch0) [] st0" "confirmation_calls (sb_pending batch0) = []"
  shows "outcome_ok tbl b (advanceStep env inp batch0 st0)"
proof -
  obtain st r where x: "recordUnrecordedStepToolResults inp batch0 st0 = (st, r)" by (rule prod.exhaust)
  note frame = record_frame [OF x]
  have within: "within tbl b st"
    using inflight_within [OF assms(1)] same_budget_keeps(3) [OF conjunct1 [OF frame]] by simp
  show ?thesis
  proof (cases r)
    case (Inl e)
    with within show ?thesis by (simp add: advanceStep_def x)
  next
    case (Inr batch)
    with frame assms have batch: "inflight tbl b (sb_budget_cost batch) [] st" "confirmation_calls (sb_pending batch) = []"
      using same_budget_keeps(2) [OF conjunct1 [OF frame]] by simp_all
    define st1 where "st1 = st\<lparr>ls_caps := (ls_caps st)\<lparr>RemainingToolCalls :=
        decrementCap (RemainingToolCalls (ls_caps st)) (sb_budget_cost batch)\<rparr>\<rparr>"
    have idle: "idle tbl b st1" unfolding st1_def by (rule inflight_charged [OF batch(1)])
    have after: "outcome_ok tbl b (afterClassification env inp batch st1)"
      by (rule afterClassification_ok [OF idle _ batch(2)]) (use batch(1) in \<open>simp add: inflight_def\<close>)
    show ?thesis
      unfolding advanceStep_def x Inr prod.case sum.case Let_def st1_def [symmetric]
      using within idle_within [OF idle] after by (auto split: option.split sum.split step_transition.split)
  qed
qed

lemma execute_committed_ok:
  assumes "idle (le_table env) b st"
    and "pg_admitted p \<Longrightarrow> pg_budget_cost p \<le> RemainingToolCalls (ls_caps st) \<and>
          budgeted (le_table env) (pg_immediate p) + budgeted (le_table env) (map cf_call (pg_confirmations p)) = pg_budget_cost p"
  shows "outcome_ok (le_table env) b (execute_committed env inp p st)"
proof -
  obtain st2 r where x: "executeStepProgram env inp p (st\<lparr>ls_committed := True\<rparr>) = (st2, r)" by (rule prod.exhaust)
  have same: "same_budget (st\<lparr>ls_committed := True\<rparr>) st" by (simp add: same_budget_def)
  have idle: "idle (le_table env) b (st\<lparr>ls_committed := True\<rparr>)"
    using assms(1) by (simp add: same_budget_keeps(1) [OF same])
  have step: "within (le_table env) b st2 \<and> (\<forall>ck. r = Inr (Inr ck) \<longrightarrow> saved_ok (le_table env) b ck) \<and>
    (\<forall>batch'. r = Inr (Inl batch') \<longrightarrow>
       inflight (le_table env) b (sb_budget_cost batch') [] st2 \<and> confirmation_calls (sb_pending batch') = [])"
    by (rule executeStepProgram_ok [OF x idle]) (use assms(2) in simp)
  show ?thesis
    using idle_within [OF assms(1)] idle_within [OF idle] step advanceStep_ok [of "le_table env" b _ st2 env inp]
    by (auto simp: execute_committed_def commitSelectedModelResponse_def x split: sum.split)
qed

lemma runStep_ok:
  assumes "idle (le_table env) b st0" "decisions_ok env"
  shows "outcome_ok (le_table env) b (runStep env inp program0 st0)"
proof -
  define program where "program = stamp_program env (ls_context st0) program0"
  define st where "st = (if pr_await (sg_result program0) = None then st0\<lparr>ls_pending_recovery := [], ls_catalog := None\<rparr>
      else st0)\<lparr>ls_result := sg_result program\<rparr>"
  have idle: "idle (le_table env) b st"
    using assms(1) by (simp add: st_def idle_def capped_def)
  obtain st1 r where x: "(if sg_calls program \<noteq> [] then prepareToolStep env program st
      else (st, Inr (prepared_of program [] [] [] 0 False))) = (st1, r)" by (rule prod.exhaust)
  have prep: "within (le_table env) b st1 \<and>
    (\<forall>p. r = Inr p \<longrightarrow> idle (le_table env) b st1 \<and>
       (pg_admitted p \<longrightarrow> pg_budget_cost p \<le> RemainingToolCalls (ls_caps st1) \<and>
          budgeted (le_table env) (pg_immediate p) + budgeted (le_table env) (map cf_call (pg_confirmations p)) =
            pg_budget_cost p))"
  proof (cases "sg_calls program = []")
    case True
    with x idle idle_within [OF idle] show ?thesis by (auto simp: prepared_of_def)
  next
    case False
    with x have "prepareToolStep env program st = (st1, r)" by simp
    from prepare_budget [OF this assms(2) idle] show ?thesis by blast
  qed
  show ?thesis
    unfolding runStep_def Let_def program_def [symmetric] st_def [symmetric] x
    using idle_within [OF assms(1)] idle_within [OF idle] prep execute_committed_ok [of env b st1 _ inp]
    by (auto split: sum.split)
qed

lemma run_iteration_ok:
  assumes "idle (le_table env) b st" "decisions_ok env"
  shows "outcome_ok (le_table env) b (run_iteration env inp st)"
proof -
  have "idle (le_table env) b (st\<lparr>ls_result := result\<rparr>)" for result
    using assms(1) by (simp add: idle_def capped_def)
  with assms runStep_ok [OF _ assms(2)] show ?thesis
    by (auto simp: run_iteration_def Let_def intro: idle_within split: sum.split)
qed

lemma run_ok: "idle (le_table env) b st \<Longrightarrow> decisions_ok env \<Longrightarrow> outcome_ok (le_table env) b (run env inps st)"
proof (induction inps arbitrary: st)
  case (Cons inp inps)
  from run_iteration_ok [OF Cons.prems, of inp] Cons.IH Cons.prems(2) show ?case
    by (cases "run_iteration env inp st") (auto split: sum.split option.split)
qed simp

subsection \<open>Continuing keeps the invariant\<close>

lemma inflight_dispatch:
  assumes "inflight tbl b c (call # waiting) st"
  shows "inflight tbl b c waiting (st\<lparr>ls_dispatched := ls_dispatched st @ [call]\<rparr>)" "inflight tbl b c waiting st"
  using assms by (auto simp: inflight_def capped_def split: if_splits)

lemma resolveConfirmation_ok:
  assumes "resolveConfirmationDecision env cin c verdict st = (st', records, timedOut, r)"
    and "inflight tbl b k (cf_call c # waiting) st"
  shows "inflight tbl b k waiting st'"
  using assms(1) inflight_dispatch [OF assms(2)]
  by (auto simp: resolveConfirmationDecision_def Let_def case_prod_beta split: if_splits sum.splits option.splits)

lemma consumeCheckpointInput_ok:
  assumes "consumeCheckpointInput env cin batch p response st = (st', batch', r)"
    and "inflight tbl b k (confirmation_calls (p # others)) st"
  shows "inflight tbl b k (confirmation_calls others) st' \<and> sb_budget_cost batch' = sb_budget_cost batch \<and>
    sb_pending batch' = sb_pending batch \<and> (\<forall>generated. r = Inr generated \<longrightarrow> confirmation_calls generated = [])"
proof (cases p)
  case (PendingConfirmation c)
  show ?thesis
  proof (cases "\<exists>verdict. (rp_clarification response, rp_confirmation response, rp_tool_results response) =
      (None, Some verdict, None)")
    case True
    then obtain verdict where v: "rp_clarification response = None" "rp_confirmation response = Some verdict"
        "rp_tool_results response = None" by auto
    obtain st1 records timedOut r1 where x: "resolveConfirmationDecision env cin c verdict st = (st1, records, timedOut, r1)"
      by (rule prod_cases4)
    have "inflight tbl b k (confirmation_calls others) st1"
      by (rule resolveConfirmation_ok [OF x]) (use assms(2) PendingConfirmation in simp)
    with assms(1) PendingConfirmation v x show ?thesis
      by (auto simp: consumeCheckpointInput_def split: sum.splits)
  next
    case False
    with assms(1) PendingConfirmation have "st' = st" "batch' = batch" "r = Inl ResponseMismatch"
      by (auto simp: consumeCheckpointInput_def split: option.splits)
    with assms(2) PendingConfirmation inflight_dispatch(2) [of tbl b k "cf_call c"] show ?thesis by simp
  qed
next
  case (PendingChild callID suspension)
  with assms show ?thesis
    by (auto simp: consumeCheckpointInput_def applyChildContinuation_def Let_def split: option.splits if_splits sum.splits)
next
  case (PendingAwait item callRunID)
  with assms show ?thesis
    by (auto simp: consumeCheckpointInput_def split: sum.splits)
qed

lemma restorePending_budget:
  "budgeted tbl (confirmation_calls (map (restorePendingInput env ctx labels) ps)) = budgeted tbl (confirmation_calls ps)"
  by (induction ps rule: confirmation_calls.induct) (simp_all add: restorePendingInput_def retargetToolRequest_def)

lemma resume_ok:
  assumes "saved_ok (le_table env0) b ck" "decisions_ok env0"
  shows "outcome_ok (le_table env0) b (resumeSuspendedWorkflow env0 cin inps ck runID turnID response)"
proof -
  define env where "env = env0\<lparr>le_budget := map_option (\<lambda>left. si_now (ci_step cin) + left) (ck_budget_left ck),
      le_hard := map_option (\<lambda>left. si_now (ci_step cin) + left) (ck_hard_left ck)\<rparr>"
  define ctx where "ctx = (ls_context (ck_state ck))\<lparr>rc_run_id := runID, rc_turn_id := turnID\<rparr>"
  define batch where "batch = restoreCheckpointBatch env ctx (ls_labels (ck_state ck)) (ck_batch ck)"
  define st where "st = (ck_state ck)\<lparr>ls_context := ctx, ls_result := sg_result (sb_program batch)\<rparr>"
  define pending where "pending = map (restorePendingInput env ctx (ls_labels (ck_state ck))) (ck_pending ck)"
  obtain st1 batch1 r where x: "consumePendingInput env cin batch pending response st = (st1, batch1, r)"
    by (rule prod_cases3)
  have tbl: "le_table env = le_table env0" "decisions_ok env" using assms(2) by (simp_all add: env_def decisions_ok_def)
  have batch: "sb_budget_cost batch = sb_budget_cost (ck_batch ck)" "sb_pending batch = []"
    by (simp_all add: batch_def restoreCheckpointBatch_def Let_def)
  have inflight: "inflight (le_table env) b (sb_budget_cost batch) (confirmation_calls pending) st"
    using assms(1) restorePending_budget [of "le_table env" env ctx "ls_labels (ck_state ck)" "ck_pending ck"]
    by (simp add: saved_ok_def inflight_def capped_def st_def pending_def batch tbl)
  have step: "within (le_table env) b st1 \<and> (\<forall>remaining. r = Inr remaining \<longrightarrow>
      inflight (le_table env) b (sb_budget_cost batch1) (confirmation_calls remaining) st1 \<and> sb_pending batch1 = [])"
  proof (cases pending)
    case Nil
    with x inflight_within [OF inflight] show ?thesis by (auto simp: consumePendingInput_def)
  next
    case (Cons p others)
    obtain st2 batch2 r2 where y: "consumeCheckpointInput env cin batch p response st = (st2, batch2, r2)" by (rule prod_cases3)
    from consumeCheckpointInput_ok [OF y inflight [unfolded Cons]]
    have "inflight (le_table env) b (sb_budget_cost batch) (confirmation_calls others) st2"
        "sb_budget_cost batch2 = sb_budget_cost batch" "sb_pending batch2 = []"
        "\<And>generated. r2 = Inr generated \<Longrightarrow> confirmation_calls generated = []"
      using batch by auto
    with x y Cons show ?thesis
      by (auto simp: consumePendingInput_def dest: inflight_within split: sum.splits)
  qed
  have suspended: "saved_ok (le_table env) b ck'"
    if "suspendCheckpointRun env (ci_step cin) batch1 [] [] remaining st1 = Inr ck'" "r = Inr remaining" "remaining \<noteq> []" for ck' remaining
    using that step by (auto simp: suspendCheckpointRun_def saved_ok_def split: if_splits sum.splits)
  have advanced: "outcome_ok (le_table env) b (advanceStep env (ci_step cin) batch1 st1)" if "r = Inr []"
    by (rule advanceStep_ok) (use step that in auto)
  obtain st3 r3 where z: "advanceStep env (ci_step cin) batch1 st1 = (st3, r3)" by (rule prod.exhaust)
  have final: "outcome_ok (le_table env) b (case (st3, r3) of (st2, Inr None) \<Rightarrow> run env inps st2 | r \<Rightarrow> r)" if "r = Inr []"
    using advanced [OF that] run_ok [OF _ tbl(2), of b st3 inps] unfolding z
    by (auto split: sum.split option.split)
  have "outcome_ok (le_table env) b (resumeSuspendedWorkflow env0 cin inps ck runID turnID response)"
    unfolding resumeSuspendedWorkflow_def Let_def env_def [symmetric] ctx_def [symmetric] batch_def [symmetric]
      st_def [symmetric] pending_def [symmetric] x z
    using step suspended final by (auto simp: z split: sum.split)
  then show ?thesis by (simp add: tbl)
qed

subsection \<open>Whole runs\<close>

text \<open>
  A run and everything it becomes: started from a state, and continued from its latest checkpoint under
  new run and turn identifiers with any response, while the world answers as it likes.
\<close>

inductive run_history :: "loop_env \<Rightarrow> loop_state \<Rightarrow> loop_state \<times> (step_error, loop_output option) result \<Rightarrow> bool"
  for env :: loop_env and st0 :: loop_state where
  started: "run_history env st0 (run env inps st0)"
| continued: "run_history env st0 (st, Inr (Some (Suspended ck))) \<Longrightarrow>
    run_history env st0 (resumeSuspendedWorkflow env cin inps ck runID turnID response)"

lemma history_ok:
  "run_history env st0 r \<Longrightarrow> idle (le_table env) b st0 \<Longrightarrow> decisions_ok env \<Longrightarrow> outcome_ok (le_table env) b r"
  by (induction rule: run_history.induct) (auto intro: run_ok resume_ok)

lemma outcome_within: "outcome_ok tbl b (st, r) \<Longrightarrow> within tbl b st"
  by (cases "(tbl, b, st, r)" rule: outcome_ok.cases) (auto intro: idle_within)

text \<open>
  Property C23. The tool budget holds for the whole run. For a run that starts with a positive limit on
  tool calls, under a policy engine that never decides a negative limit: whatever the planner, the tools,
  the users and the clock do, over any number of suspensions and continuations, the number of budgeted
  calls handed to the execution layer, confirmed calls included, never exceeds the budget at the start.
\<close>

theorem tool_budget_respected:
  assumes "run_history env st0 (st, r)" "decisions_ok env"
    and "0 < MaxToolCalls (ls_caps st0)" "0 \<le> RemainingToolCalls (ls_caps st0)" "ls_dispatched st0 = []"
  shows "budgeted (le_table env) (ls_dispatched st) \<le> RemainingToolCalls (ls_caps st0)"
proof -
  have "idle (le_table env) (RemainingToolCalls (ls_caps st0)) st0"
    using assms(3-5) by (simp add: idle_def capped_def)
  from outcome_within [OF history_ok [OF assms(1) this assms(2)]] show ?thesis by (simp add: within_def)
qed

end
