(* ===== verification/Loop_Clarification.thy ===== *)
theory Loop_Clarification
  imports Loop_Budget
begin

section \<open>Asking the user for missing fields\<close>

text \<open>
  The policy \<open>MissingFieldsAwaitClarification\<close> suspends a run with a question for the fields a failed call
  lacks. This theory follows such a run through its continuation, and evaluates one run of the loop.
\<close>

subsection \<open>One run, evaluated\<close>

text \<open>
  An example: one tool with a required field, one call that lacks it, and the policy to ask the user. The
  planner answers every turn with the same call.
\<close>

definition example_missing :: tool_failure where
  "example_missing = \<lparr>fl_kind = FailureInvalidCall, fl_error = ''bad'', fl_action = RecoveryCorrectCall,
     fl_issues = [(''id'', ''missing_field'')]\<rparr>"

definition example_plan :: plan_result where
  "example_plan = \<lparr>pr_tool_calls = [new_request ''a.read'' ''c1'' ''{}''], pr_synthesize_after_tools = False,
     pr_final_response = None, pr_final_tool_result = None, pr_await = None, pr_expected_children = 0\<rparr>"

definition example_exec :: executor where
  "example_exec finishBy timeout calls =
     (map (\<lambda>call. Some \<lparr>xo_result = Some \<lparr>rs_name = tr_name call, rs_tool_call_id = tr_tool_call_id call, rs_result = [],
                                     rs_failure = Some example_missing\<rparr>,
                     xo_clarification = None, xo_child_suspension = None, xo_result_published = True,
                     xo_schedule_published = True\<rparr>) calls, False, None)"

definition example_inputs :: step_inputs where
  "example_inputs = \<lparr>si_now = 0, si_exec = example_exec, si_suspension_ok = (\<lambda>s. True), si_record = Inr (),
     si_persist = Inr (), si_plan = (\<lambda>request. Inr (Some (example_plan, None)))\<rparr>"

definition example_env :: "missing_fields_action option \<Rightarrow> loop_env" where
  "example_env missing = \<lparr>le_table = example_table,
     le_policy = \<lparr>pe_title = id, pe_marshal = (\<lambda>n p. Inr n), pe_decide = None, pe_publish = Inr ()\<rparr>,
     le_overrides = None, le_tool_timeouts = [], le_default_timeout = 60, le_sha256hex = id, le_show = (\<lambda>e. ''error''),
     le_agent_id = ''agent'', le_parent = None, le_parent_context = False, le_confirmation = (\<lambda>call. Inr None),
     le_budget = None, le_hard = None, le_missing_fields = missing,
     le_field_description = (\<lambda>tool field. Some ''The record to read.'')\<rparr>"

definition example_start :: "int \<Rightarrow> loop_state" where
  "example_start budget = \<lparr>ls_caps = initialCaps budget 0, ls_result = example_plan, ls_committed = False,
     ls_next_attempt = 2, ls_pending_recovery = [], ls_catalog = None,
     ls_context = \<lparr>rc_run_id = ''r1'', rc_session_id = ''s'', rc_turn_id = ''t1'', rc_attempt = 1\<rparr>,
     ls_labels = Map.empty, ls_dispatched = [], ls_recorded = []\<rparr>"

lemmas example_defs = example_missing_def example_plan_def example_exec_def example_inputs_def example_env_def example_start_def


lemma example_env_simps [simp]:
  "le_table (example_env m) = example_table" "le_policy (example_env m) = \<lparr>pe_title = id, pe_marshal = (\<lambda>n p. Inr n), pe_decide = None, pe_publish = Inr ()\<rparr>"
  "le_overrides (example_env m) = None" "le_tool_timeouts (example_env m) = []" "le_default_timeout (example_env m) = 60"
  "le_agent_id (example_env m) = ''agent''" "le_parent (example_env m) = None" "le_confirmation (example_env m) = (\<lambda>call. Inr None)"
  "le_budget (example_env m) = None" "le_hard (example_env m) = None" "le_missing_fields (example_env m) = m"
  "le_field_description (example_env m) = (\<lambda>tool field. Some ''The record to read.'')" "le_sha256hex (example_env m) = id"
  by (simp_all add: example_env_def)

lemma example_inputs_simps [simp]:
  "si_now example_inputs = 0" "si_exec example_inputs = example_exec" "si_suspension_ok example_inputs = (\<lambda>s. True)"
  "si_record example_inputs = Inr ()" "si_persist example_inputs = Inr ()"
  by (simp_all add: example_inputs_def)

lemma example_spec [simp]:
  "toolSpec example_table ''a.read'' = Some \<lparr>sp_name = ''a.read'', sp_description = [], sp_tags = [''safe''],
     sp_terminal_run = False, sp_bookkeeping = False\<rparr>"
  "isBookkeeping example_table ''a.read'' = False"
  by (simp_all add: toolSpec_def isBookkeeping_def)
     (simp add: example_table_def example_specs_def canonicalToolMetadata_def toolBudgetClass_def)

definition example_tool_call :: tool_request where
  "example_tool_call = (new_request ''a.read'' ''c1'' ''{}'')\<lparr>tr_run_id := ''r1'', tr_agent_id := ''agent'', tr_session_id := ''s'', tr_turn_id := ''t1''\<rparr>"

definition example_program :: "tool_request list \<Rightarrow> step_program" where
  "example_program calls = \<lparr>sg_result = example_plan\<lparr>pr_tool_calls := calls\<rparr>, sg_calls = calls, sg_await_items = [], sg_kind = StepTools\<rparr>"

lemma example_normal: "normalizeStep example_table (Some example_plan) = Inr (example_program [new_request ''a.read'' ''c1'' ''{}''])"
  by (simp add: normalizeStep_def example_plan_def example_program_def)

lemma example_stamp:
  "stamp_program (example_env m) (ls_context (example_start n)) (example_program [new_request ''a.read'' ''c1'' ''{}'']) =
   example_program [example_tool_call]"
  by (simp add: stamp_program_def example_program_def example_start_def prepareAllowedCallsMetadata_def prepare_call_def
      example_tool_call_def new_request_def Let_def)

lemma example_tool_call_simps [simp]:
  "tr_name example_tool_call = ''a.read''" "tr_tool_call_id example_tool_call = ''c1''"
  "example_tool_call\<lparr>tr_labels := Map.empty\<rparr> = example_tool_call" "tr_labels example_tool_call = Map.empty"
  by (simp_all add: example_tool_call_def new_request_def)

lemma example_program_simps [simp]:
  "sg_calls (example_program calls) = calls" "sg_kind (example_program calls) = StepTools"
  "sg_await_items (example_program calls) = []" "pr_await (sg_result (example_program calls)) = None"
  by (simp_all add: example_program_def example_plan_def)

definition example_record :: step_record where
  "example_record = \<lparr>sr_call = example_tool_call,
     sr_result = Some \<lparr>rs_name = ''a.read'', rs_tool_call_id = ''c1'', rs_result = [], rs_failure = Some example_missing\<rparr>,
     sr_clarification = None, sr_child_suspension = None, sr_result_published = True, sr_schedule_required = False,
     sr_schedule_exact = True, sr_requires_resume = False\<rparr>"

definition example_state :: "int \<Rightarrow> loop_state" where
  "example_state n = (example_start n)\<lparr>ls_result := sg_result (example_program [example_tool_call])\<rparr>"

lemma example_prepare:
  assumes "1 \<le> n"
  shows "prepareToolStep (example_env m) (example_program [example_tool_call]) (example_state n) =
    (example_state n, Inr (prepared_of (example_program [example_tool_call]) [example_tool_call] [example_tool_call] [] 1 True))"
  using assms
  by (simp add: prepareToolStep_def rewriteUnknownToolCalls_def applyPerRunOverrides_def compileToolPolicy_def
      policy_isZero_def applyRuntimePolicy_def mergeLabels_def check_allowed_batch_def validateTerminalRunBatch_def
      awaitToolRequests_def admitToolBatch_def prepare_admitted_def example_program_def example_state_def example_start_def
      initialCaps_def Let_def)

definition example_batch_done :: "bool \<Rightarrow> nat \<Rightarrow> step_batch" where
  "example_batch_done awaited recorded = \<lparr>sb_program = example_program [example_tool_call], sb_records = [example_record], sb_recorded = recorded,
     sb_budget_cost = 1, sb_timed_out = False, sb_awaited = awaited, sb_finalize = None, sb_pending = []\<rparr>"

lemma example_execute:
  "executeStepProgram (example_env m) example_inputs
     (prepared_of (example_program [example_tool_call]) [example_tool_call] [example_tool_call] [] 1 True) st =
   (st\<lparr>ls_dispatched := ls_dispatched st @ [example_tool_call]\<rparr>, Inr (Inl (example_batch_done False 0)))"
  by (simp add: executeStepProgram_def prepared_of_def executeToolStep_def executeImmediateToolCalls_def
      executeImmediateToolClass_def groupToolCallsByTimeout_def executeGroupedToolCalls_def join_errors_def example_exec_def
      stepToolRecordsAfterExecution_def collect_outcome_def validateStepToolRecord_def record_of_def example_program_def
      new_batch_def step_program.truncate_def step_await_items_def toolClarificationsFromRecords_def
      toolClarificationAwaitItems_def drain_step_def resolveExpiredConfirmations_def example_batch_done_def example_record_def Let_def)

subsection \<open>The question is asked again\<close>

text \<open>
  A batch that the loop stops at for missing fields: all its results are recorded, no agent call is
  suspended, one of its calls is budgeted, and a failure that asks for a corrected call names missing fields.
\<close>

definition stuck_batch :: "loop_env \<Rightarrow> string \<Rightarrow> step_batch \<Rightarrow> bool" where
  "stuck_batch env question batch \<longleftrightarrow>
     sb_finalize batch = None \<and> \<not> sb_timed_out batch \<and> sg_kind (sb_program batch) = StepTools \<and>
     sb_recorded batch = length (sb_records batch) \<and>
     list_all (\<lambda>record. sr_child_suspension record = None) (sb_records batch) \<and>
     list_ex (\<lambda>record. \<not> isBookkeeping (le_table env) (tr_name (sr_call record))) (sb_records batch) \<and>
     (\<exists>tr missing. missing_of (stepToolResults (sb_records batch)) = Some (tr, missing) \<and>
        missingFieldsQuestion env (rs_name tr) missing = Inr question)"

text \<open>A run suspended with the question for missing fields.\<close>

definition asking :: "loop_env \<Rightarrow> string \<Rightarrow> string \<Rightarrow> checkpoint \<Rightarrow> bool" where
  "asking env awaitID question ck \<longleftrightarrow>
     stuck_batch env question (ck_batch ck) \<and>
     rc_session_id (ls_context (ck_state ck)) \<noteq> [] \<and>
     (\<exists>callRunID. ck_pending ck =
        [PendingAwait (clarification_item \<lparr>ac_id = awaitID, ac_question = question\<rparr>) callRunID])"

text \<open>
  The limit on consecutive failures leaves more than \<open>n\<close> failures: there is no limit, or the batch also has a
  success, which resets the count, or the count is high enough.
\<close>

definition failures_left :: "loop_env \<Rightarrow> step_batch \<Rightarrow> caps_state \<Rightarrow> int \<Rightarrow> bool" where
  "failures_left env batch caps n \<longleftrightarrow>
     MaxConsecutiveFailedToolCalls caps \<le> 0 \<or> fst (budgetedBatchOutcome (le_table env) (sb_records batch)) \<or>
     n < RemainingConsecutiveFailedToolCalls caps"

lemma restored_records:
  "list_all (\<lambda>record. sr_child_suspension record = None) records \<Longrightarrow> map restored_record records = records"
  by (induction records) (simp_all add: restored_record_def)

lemma recorded_again:
  assumes "sb_recorded batch = length (sb_records batch)" "si_record inp = Inr ()"
  shows "recordUnrecordedStepToolResults inp batch st = (st, Inr batch)"
proof -
  have "take_records ids Map.empty = ([], Map.empty)" for ids
    by (induction ids) simp_all
  then show ?thesis using assms by (simp add: recordUnrecordedStepToolResults_def canonicalStepToolRecords_def)
qed

lemma streak_left:
  assumes "MaxConsecutiveFailedToolCalls caps \<le> 0 \<or> progress \<or> n + 1 < RemainingConsecutiveFailedToolCalls caps" "0 \<le> n"
  obtains caps' where "applyFailureStreak caps progress failed = (caps', False)"
    "RemainingToolCalls caps' = RemainingToolCalls caps" "MaxConsecutiveFailedToolCalls caps' = MaxConsecutiveFailedToolCalls caps"
    "MaxConsecutiveFailedToolCalls caps \<le> 0 \<or> progress \<or> n < RemainingConsecutiveFailedToolCalls caps'"
proof (cases "\<not> progress \<and> failed")
  case True
  with assms show ?thesis
    by (intro that [of "fst (applyFailureStreak caps progress failed)"]) (auto simp: applyFailureStreak_def decrementCap_def Let_def)
next
  case False
  with assms show ?thesis by (intro that [of "fst (applyFailureStreak caps progress failed)"]) (auto simp: applyFailureStreak_def)
qed

lemma advance_asks:
  assumes "stuck_batch env question batch" "le_missing_fields env = Some MissingFieldsAwaitClarification"
    and "failures_left env batch (ls_caps st) (n + 1)" "0 \<le> n" "rc_session_id (ls_context st) \<noteq> []"
    and "si_record inp = Inr ()" "si_persist inp = Inr ()" "sb_pending batch = []"
  obtains st' ck awaitID where "advanceStep env inp batch st = (st', Inr (Some (Suspended ck)))" "asking env awaitID question ck"
    "RemainingToolCalls (ls_caps (ck_state ck)) = decrementCap (RemainingToolCalls (ls_caps st)) (sb_budget_cost batch)"
    "sb_budget_cost (ck_batch ck) = sb_budget_cost batch" "ls_dispatched (ck_state ck) = ls_dispatched st"
    "st' = ck_state ck" "sb_pending (ck_batch ck) = []" "ls_recorded st' = ls_recorded st"
    "failures_left env (ck_batch ck) (ls_caps (ck_state ck)) n"
proof -
  let ?results = "stepToolResults (sb_records batch)"
  obtain tr missing where missing: "missing_of ?results = Some (tr, missing)"
      "missingFieldsQuestion env (rs_name tr) missing = Inr question"
    using assms(1) by (auto simp: stuck_batch_def)
  define st1 where "st1 = st\<lparr>ls_caps := (ls_caps st)\<lparr>RemainingToolCalls :=
      decrementCap (RemainingToolCalls (ls_caps st)) (sb_budget_cost batch)\<rparr>\<rparr>"
  obtain progress failed where outcome: "budgetedBatchOutcome (le_table env) (sb_records batch) = (progress, failed)"
    by (rule prod.exhaust)
  obtain caps' where streak: "applyFailureStreak (ls_caps st1) progress failed = (caps', False)"
      "RemainingToolCalls caps' = RemainingToolCalls (ls_caps st1)"
      "MaxConsecutiveFailedToolCalls caps' = MaxConsecutiveFailedToolCalls (ls_caps st1)"
      "MaxConsecutiveFailedToolCalls (ls_caps st1) \<le> 0 \<or> progress \<or> n < RemainingConsecutiveFailedToolCalls caps'"
    by (rule streak_left [of "ls_caps st1" progress n failed])
      (use assms(3,4) outcome in \<open>simp_all add: st1_def failures_left_def\<close>)
  define st2 where "st2 = st1\<lparr>ls_caps := caps'\<rparr>"
  define awaitID where
    "awaitID = generateDeterministicAwaitID (rc_run_id (ls_context st2)) (rc_turn_id (ls_context st2)) (rs_name tr) (rs_tool_call_id tr)"
  let ?item = "clarification_item \<lparr>ac_id = awaitID, ac_question = question\<rparr>"
  obtain ck where ck: "suspendCheckpointRun env inp (batch\<lparr>sb_awaited := True\<rparr>) [] [?item] [] st2 = Inr ck"
      "ck_state ck = st2" "ck_batch ck = batch\<lparr>sb_awaited := True\<rparr>"
      "ck_pending ck = [PendingAwait ?item (rc_run_id (ls_context st2))]"
    using assms(5,7,8) by (simp add: suspendCheckpointRun_def st2_def st1_def)
  have after: "afterClassification env inp batch st1 = (st2, Inr (Some (Suspended ck)))"
    unfolding afterClassification_def outcome prod.case Let_def streak(1) st2_def [symmetric]
    using ck(1) missing assms(2)
    by (simp add: applyMissingFieldsPolicy_def publishAwaitToolUses_def awaitID_def clarification_item_def)
  have "classifyStep env batch = Inr TransitionResume"
    using assms(1) by (auto simp: classifyStep_def classifyToolRecords_def stuck_batch_def)
  then have "advanceStep env inp batch st = (st2, Inr (Some (Suspended ck)))"
    using assms(1) after recorded_again [of batch inp st] assms(6)
    by (simp add: advanceStep_def stuck_batch_def Let_def st1_def)
  moreover have "asking env awaitID question ck"
    using assms(1,5) by (simp add: asking_def ck stuck_batch_def st2_def st1_def)
  moreover have "failures_left env (ck_batch ck) (ls_caps (ck_state ck)) n"
    using streak(3,4) outcome by (simp add: failures_left_def ck st2_def)
  ultimately show thesis
    by (intro that [of st2 ck awaitID]) (simp_all add: ck st2_def st1_def streak assms(8))
qed

text \<open>
  Property C25. An answer never gets a run past the question for missing fields. Suspended with the question
  for the missing fields of a failed call and continued with any answer to it, while the limit on
  consecutive failures, if there is one, leaves another failure and the results and the suspension can be
  stored, the run is suspended again with the same question: no tool runs, nothing is recorded, the batch is
  charged to the tool budget once more, and it counts as one more failure. So with a limit the question is
  repeated until the limit is used up, and without one, or when the batch has a success, without end.
\<close>

theorem clarification_never_left:
  assumes "asking env awaitID question ck" "le_missing_fields env = Some MissingFieldsAwaitClarification"
    and "failures_left env (ck_batch ck) (ls_caps (ck_state ck)) (n + 1)" "0 \<le> n"
    and "si_record (ci_step cin) = Inr ()" "si_persist (ci_step cin) = Inr ()"
    and "rp_clarification response = Some (awaitID, answer)" "rp_confirmation response = None" "rp_tool_results response = None"
  shows "\<exists>awaitID' ck'.
    resumeSuspendedWorkflow env cin inps ck runID turnID response = (ck_state ck', Inr (Some (Suspended ck'))) \<and>
    asking env awaitID' question ck' \<and> failures_left env (ck_batch ck') (ls_caps (ck_state ck')) n \<and>
    ls_dispatched (ck_state ck') = ls_dispatched (ck_state ck) \<and> ls_recorded (ck_state ck') = ls_recorded (ck_state ck) \<and>
    RemainingToolCalls (ls_caps (ck_state ck')) =
      decrementCap (RemainingToolCalls (ls_caps (ck_state ck))) (sb_budget_cost (ck_batch ck))"
proof -
  define env' where "env' = env\<lparr>le_budget := map_option (\<lambda>left. si_now (ci_step cin) + left) (ck_budget_left ck),
      le_hard := map_option (\<lambda>left. si_now (ci_step cin) + left) (ck_hard_left ck)\<rparr>"
  define ctx where "ctx = (ls_context (ck_state ck))\<lparr>rc_run_id := runID, rc_turn_id := turnID\<rparr>"
  define batch where "batch = restoreCheckpointBatch env' ctx (ls_labels (ck_state ck)) (ck_batch ck)"
  define st where "st = (ck_state ck)\<lparr>ls_context := ctx, ls_result := sg_result (sb_program batch)\<rparr>"
  have question: "missingFieldsQuestion env' tool missing = missingFieldsQuestion env tool missing" for tool missing
  proof -
    have "le_field_description env' = le_field_description env" by (simp add: env'_def)
    then have "missing_lines env' tool missing = missing_lines env tool missing"
      by (induction missing) (simp_all split: option.split)
    then show ?thesis by (simp add: missingFieldsQuestion_def env'_def)
  qed
  have same: "stuck_batch env' q b = stuck_batch env q b" "asking env' i q c = asking env i q c" for q b i c
    by (simp_all add: stuck_batch_def asking_def question) (simp_all add: env'_def)
  have batch: "sb_budget_cost batch = sb_budget_cost (ck_batch ck)" "sb_pending batch = []"
      "sb_records batch = sb_records (ck_batch ck)" "stuck_batch env' question batch"
    using assms(1) by (simp_all add: same) (simp_all add: asking_def stuck_batch_def batch_def restoreCheckpointBatch_def restored_records Let_def)
  obtain callRunID where pending: "ck_pending ck =
      [PendingAwait (clarification_item \<lparr>ac_id = awaitID, ac_question = question\<rparr>) callRunID]"
    using assms(1) by (auto simp: asking_def)
  have consume: "consumePendingInput env' cin batch
      (map (restorePendingInput env' ctx (ls_labels (ck_state ck))) (ck_pending ck)) response st = (st, batch, Inr [])"
    using assms(7-9)
    by (simp add: pending restorePendingInput_def consumePendingInput_def consumeCheckpointInput_def applyAwaitResponse_def
        consumeClarificationResponse_def clarification_item_def)
  have start: "le_missing_fields env' = Some MissingFieldsAwaitClarification"
      "failures_left env' batch (ls_caps st) (n + 1)" "0 \<le> n" "rc_session_id (ls_context st) \<noteq> []"
    using assms(1-4) batch(3) by (simp_all add: env'_def st_def ctx_def asking_def failures_left_def)
  obtain st' ck' awaitID' where advance: "advanceStep env' (ci_step cin) batch st = (st', Inr (Some (Suspended ck')))"
      "asking env' awaitID' question ck'"
      "RemainingToolCalls (ls_caps (ck_state ck')) = decrementCap (RemainingToolCalls (ls_caps st)) (sb_budget_cost batch)"
      "ls_dispatched (ck_state ck') = ls_dispatched st" "st' = ck_state ck'" "ls_recorded st' = ls_recorded st"
      "failures_left env' (ck_batch ck') (ls_caps (ck_state ck')) n"
    by (rule advance_asks [OF batch(4) start assms(5,6) batch(2)]) blast
  have left: "failures_left env' b caps m = failures_left env b caps m" for b caps m
    by (simp add: failures_left_def env'_def)
  have "resumeSuspendedWorkflow env cin inps ck runID turnID response = (ck_state ck', Inr (Some (Suspended ck')))"
    unfolding resumeSuspendedWorkflow_def Let_def env'_def [symmetric] ctx_def [symmetric] batch_def [symmetric]
      st_def [symmetric] consume
    by (simp add: advance(1,5))
  with advance batch(1) show ?thesis
    by (intro exI [of _ awaitID'] exI [of _ ck']) (simp add: same st_def left)
qed

subsection \<open>The example run\<close>

lemma advance_recorded:
  assumes "recordUnrecordedStepToolResults inp batch st = (st', Inr batch')" "sb_recorded batch' = length (sb_records batch')"
    and "si_record inp = Inr ()"
  shows "advanceStep env inp batch st = advanceStep env inp batch' st'"
  using assms recorded_again [of batch' inp st'] by (simp add: advanceStep_def)

abbreviation asking_env :: loop_env where
  "asking_env \<equiv> example_env (Some MissingFieldsAwaitClarification)"

definition example_question :: string where
  "example_question = (case missingFieldsQuestion asking_env ''a.read'' [''id''] of Inl e \<Rightarrow> [] | Inr q \<Rightarrow> q)"

lemma example_stuck: "stuck_batch asking_env example_question (example_batch_done b 1)"
  by (simp add: stuck_batch_def example_batch_done_def example_program_def example_record_def stepToolResults_def
      example_missing_def example_question_def missingFieldsQuestion_def List.map_filter_def)

definition example_done :: "int \<Rightarrow> loop_state" where
  "example_done n = (example_state n)\<lparr>ls_committed := True, ls_dispatched := [example_tool_call], ls_recorded := [example_record]\<rparr>"

lemma example_iteration:
  assumes "1 \<le> n"
  shows "run_iteration (example_env m) example_inputs (example_start n) =
    advanceStep (example_env m) example_inputs (example_batch_done False 1) (example_done n)"
proof -
  let ?st = "(example_state n)\<lparr>ls_committed := True, ls_dispatched := [example_tool_call]\<rparr>"
  let ?p = "prepared_of (example_program [example_tool_call]) [example_tool_call] [example_tool_call] [] 1 True"
  have "recordUnrecordedStepToolResults example_inputs (example_batch_done False 0) ?st =
      (example_done n, Inr (example_batch_done False 1))"
    by (simp add: recordUnrecordedStepToolResults_def example_batch_done_def canonicalStepToolRecords_def example_done_def
        example_record_def example_state_def example_start_def Let_def)
  then have recorded: "advanceStep (example_env m) example_inputs (example_batch_done False 0) ?st =
      advanceStep (example_env m) example_inputs (example_batch_done False 1) (example_done n)"
    by (rule advance_recorded) (simp_all add: example_batch_done_def)
  have "validateRecoveryCatalog (ls_catalog (example_start n)) r = Inr ()" for r
    by (simp add: example_start_def validateRecoveryCatalog_def)
  moreover have "validatePlanResultToolCallIDs (sg_result (example_program [example_tool_call])) = Inr ()"
    by (simp add: validatePlanResultToolCallIDs_def planResultModelToolCalls_def example_program_def example_plan_def)
  moreover have "(example_start n)\<lparr>ls_pending_recovery := [], ls_catalog := None, ls_result := sg_result (example_program [example_tool_call])\<rparr> =
      example_state n"
    by (simp add: example_start_def example_state_def)
  moreover have "shouldFinalize (example_env m) 0 = False" by (simp add: shouldFinalize_def deadline_open_def)
  moreover have "execute_committed (example_env m) example_inputs ?p (example_state n) =
      advanceStep (example_env m) example_inputs (example_batch_done False 0) ?st"
  proof -
    have "ls_committed (example_state n) = False" "ls_dispatched (example_state n) = []"
      by (simp_all add: example_state_def example_start_def)
    then show ?thesis
      by (simp add: execute_committed_def commitSelectedModelResponse_def example_execute) (simp add: prepared_of_def)
  qed
  ultimately have "runStep (example_env m) example_inputs (example_program [new_request ''a.read'' ''c1'' ''{}'']) (example_start n) =
      advanceStep (example_env m) example_inputs (example_batch_done False 0) ?st"
    using example_prepare [OF assms] by (simp add: runStep_def example_stamp awaitToolRequests_def Let_def)
  moreover have start: "ls_catalog (example_start n) = None" "ls_result (example_start n) = example_plan"
      "(example_start n)\<lparr>ls_result := example_plan\<rparr> = example_start n"
    by (simp_all add: example_start_def)
  ultimately show ?thesis
    by (simp add: run_iteration_def rewriteRecoveryCatalogToolCalls_def example_normal Let_def recorded start)
qed

lemma example_asking_run:
  assumes "1 \<le> n"
  obtains st ck awaitID where "run asking_env [example_inputs] (example_start n) = (st, Inr (Some (Suspended ck)))"
    "asking asking_env awaitID example_question ck" "ls_dispatched st = [example_tool_call]"
    "RemainingToolCalls (ls_caps (ck_state ck)) = n - 1" "sb_budget_cost (ck_batch ck) = 1" "st = ck_state ck"
    "failures_left asking_env (ck_batch ck) (ls_caps (ck_state ck)) 1"
proof -
  obtain st ck awaitID where advance:
      "advanceStep asking_env example_inputs (example_batch_done False 1) (example_done n) = (st, Inr (Some (Suspended ck)))"
      "asking asking_env awaitID example_question ck"
      "RemainingToolCalls (ls_caps (ck_state ck)) =
         decrementCap (RemainingToolCalls (ls_caps (example_done n))) (sb_budget_cost (example_batch_done False 1))"
      "sb_budget_cost (ck_batch ck) = sb_budget_cost (example_batch_done False 1)"
      "ls_dispatched (ck_state ck) = ls_dispatched (example_done n)" "st = ck_state ck"
      "failures_left asking_env (ck_batch ck) (ls_caps (ck_state ck)) 1"
    by (rule advance_asks [OF example_stuck, where st = "example_done n" and n = 1 and inp = example_inputs])
       (simp_all add: example_done_def example_state_def example_start_def initialCaps_def example_batch_done_def failures_left_def)
  then have "run asking_env [example_inputs] (example_start n) = (st, Inr (Some (Suspended ck)))"
    by (simp add: example_iteration [OF assms])
  with advance assms show thesis
    by (intro that [of st ck awaitID])
       (simp_all add: decrementCap_def example_batch_done_def example_done_def example_state_def example_start_def initialCaps_def)
qed

theorem tool_budget_respected_witness:
  "\<exists>st r. run_history asking_env (example_start 1) (st, r) \<and> length (ls_dispatched st) = 1 \<and>
     budgeted example_table (ls_dispatched st) \<le> 1"
proof -
  obtain st ck awaitID where run: "run asking_env [example_inputs] (example_start 1) = (st, Inr (Some (Suspended ck)))"
      "ls_dispatched st = [example_tool_call]"
    by (rule example_asking_run [of 1]) simp_all
  have history: "run_history asking_env (example_start 1) (st, Inr (Some (Suspended ck)))"
    using run_history.started [of asking_env "example_start 1" "[example_inputs]"] run by simp
  have "budgeted example_table (ls_dispatched st) \<le> 1"
    using tool_budget_respected [OF history] by (simp add: decisions_ok_def example_start_def initialCaps_def)
  with history run(2) show ?thesis by auto
qed

definition example_answer :: "string \<Rightarrow> pending_response" where
  "example_answer i = \<lparr>rp_clarification = Some (i, ''42''), rp_confirmation = None, rp_tool_results = None\<rparr>"

definition example_continuation :: continuation_inputs where
  "example_continuation = \<lparr>ci_step = example_inputs, ci_decode = (\<lambda>call p. Inl EmptyAwait), ci_answer = id,
     ci_child = (\<lambda>call r. Inl EmptyAwait), ci_publish = Inr ()\<rparr>"

theorem clarification_never_left_witness:
  "\<exists>st ck awaitID awaitID' ck'.
     run asking_env [example_inputs] (example_start 3) = (st, Inr (Some (Suspended ck))) \<and>
     asking asking_env awaitID example_question ck \<and> RemainingToolCalls (ls_caps (ck_state ck)) = 2 \<and>
     resumeSuspendedWorkflow asking_env example_continuation [example_inputs] ck ''r2'' ''t2'' (example_answer awaitID) =
       (ck_state ck', Inr (Some (Suspended ck'))) \<and>
     asking asking_env awaitID' example_question ck' \<and> RemainingToolCalls (ls_caps (ck_state ck')) = 1"
proof -
  obtain st ck awaitID where run: "run asking_env [example_inputs] (example_start 3) = (st, Inr (Some (Suspended ck)))"
      "asking asking_env awaitID example_question ck" "RemainingToolCalls (ls_caps (ck_state ck)) = 2"
      "sb_budget_cost (ck_batch ck) = 1" "failures_left asking_env (ck_batch ck) (ls_caps (ck_state ck)) (0 + 1)"
    by (rule example_asking_run [of 3]) simp_all
  obtain awaitID' ck' where
      "resumeSuspendedWorkflow asking_env example_continuation [example_inputs] ck ''r2'' ''t2'' (example_answer awaitID) =
         (ck_state ck', Inr (Some (Suspended ck')))"
      "asking asking_env awaitID' example_question ck'" "RemainingToolCalls (ls_caps (ck_state ck')) = 1"
    using clarification_never_left [OF run(2) _ run(5), where cin = example_continuation and response = "example_answer awaitID"
        and answer = "''42''" and inps = "[example_inputs]" and runID = "''r2''" and turnID = "''t2''"] run(3,4)
    by (auto simp: example_continuation_def example_answer_def decrementCap_def)
  with run show ?thesis by blast
qed

end
