(* ===== verification/Loop_Answers.thy ===== *)
theory Loop_Answers
  imports Loop_Clarification
begin

section \<open>Every committed call is answered before the planner goes on\<close>

text \<open>
  The transcript contract of \<open>Workflow_Loop\<close>: policy and availability rewrites keep the identity of a
  call, execution and expiry close every call, and recording restores the provider's order, so the
  planner is asked again only with exactly one result for each call of its last response.
\<close>

abbreviation request_ids :: "tool_request list \<Rightarrow> string list" where
  "request_ids calls \<equiv> map tr_tool_call_id calls"

abbreviation record_ids :: "step_record list \<Rightarrow> string list" where
  "record_ids records \<equiv> map call_id records"

subsection \<open>Rewriting keeps identities\<close>

lemma rewritten_id: "rewriteToolCallUnavailable marshal call = Inr c \<Longrightarrow> tr_tool_call_id c = tr_tool_call_id call"
  by (auto simp: rewriteToolCallUnavailable_def Let_def split: sum.splits if_splits)

lemma traverse_ids:
  assumes "traverse f xs = Inr ys" "\<And>x y. x \<in> set xs \<Longrightarrow> f x = Inr y \<Longrightarrow> tr_tool_call_id y = g x"
  shows "request_ids ys = map g xs"
  using assms unfolding traverse_eq_Inr
  by (induction xs arbitrary: ys) (auto simp: list_all2_Cons1)

lemma rewriteUnknown_ids:
  "rewriteUnknownToolCalls marshal tbl calls = Inr out \<Longrightarrow> request_ids out = request_ids calls"
  unfolding rewriteUnknownToolCalls_def by (erule traverse_ids) (auto dest: rewritten_id split: if_splits)

lemma overrides_ids:
  assumes "applyPerRunOverrides title marshal tbl overrides calls = Inr out"
  shows "request_ids out = request_ids calls"
proof (cases "calls = [] \<or> policy_isZero (compileToolPolicy overrides)")
  case True
  with assms show ?thesis by (auto simp: applyPerRunOverrides_def Let_def)
next
  case False
  with assms have "request_ids out = map (\<lambda>x. tr_tool_call_id (fst x)) (zip calls (toolMetadata title tbl calls))"
    by (intro traverse_ids [of "\<lambda>(call, meta). if allowsTool (compileToolPolicy overrides) (tr_name call) (md_tags meta) then Inr call
          else rewriteToolCallUnavailable marshal call"])
       (auto simp: applyPerRunOverrides_def Let_def dest: rewritten_id split: if_splits)
  also have "\<dots> = request_ids calls"
    by (simp add: map_fst_zip flip: map_map [unfolded comp_def])
  finally show ?thesis .
qed

lemma policy_ids:
  assumes "applyRuntimePolicy env tbl labels calls caps = (labels', Inr (out, caps'))"
  shows "request_ids out = request_ids calls"
proof (cases "out = calls")
  case False
  with assms obtain allowed where "rewritePolicyDeniedToolCalls (pe_marshal env) calls allowed = Inr out"
    by (auto simp: applyRuntimePolicy_def Let_def split: option.splits sum.splits if_splits)
  then show ?thesis
    unfolding rewritePolicyDeniedToolCalls_def by (rule traverse_ids) (auto dest: rewritten_id split: if_splits)
qed simp

lemma split_ids:
  "splitConfirmationCalls env ctx calls = Inr (now, later) \<Longrightarrow> mset now + mset (map cf_call later) = mset calls"
  by (induction calls arbitrary: now later) (auto split: sum.splits option.splits)

lemma prepare_ids:
  assumes "prepareToolStep env program st = (st', Inr p)"
  shows "request_ids (pg_allowed p) = request_ids (sg_calls program) \<and> sg_calls p = sg_calls program \<and>
    ls_recorded st' = ls_recorded st \<and>
    (pg_admitted p \<longrightarrow> mset (pg_immediate p) + mset (map cf_call (pg_confirmations p)) = mset (pg_allowed p))"
proof -
  let ?tbl = "le_table env"
  from assms obtain known candidates labels policed caps where
    known: "rewriteUnknownToolCalls (pe_marshal (le_policy env)) ?tbl (sg_calls program) = Inr known"
      "applyPerRunOverrides (pe_title (le_policy env)) (pe_marshal (le_policy env)) ?tbl (le_overrides env) known = Inr candidates"
      "applyRuntimePolicy (le_policy env) ?tbl (ls_labels st) candidates (ls_caps st) = (labels, Inr (policed, caps))"
    and p: "pg_allowed p = map (\<lambda>call. call\<lparr>tr_labels := mergeLabels labels (tr_labels call)\<rparr>) policed"
      "ls_recorded st' = ls_recorded st" "sg_calls p = sg_calls program"
      "pg_admitted p \<longrightarrow> mset (pg_immediate p) + mset (map cf_call (pg_confirmations p)) = mset (pg_allowed p)"
    by (auto simp: prepareToolStep_def prepare_admitted_def prepared_of_def Let_def dest!: split_ids
        split: sum.splits prod.splits if_splits)
  from rewriteUnknown_ids [OF known(1)] overrides_ids [OF known(2)] policy_ids [OF known(3)]
  have "request_ids (pg_allowed p) = request_ids (sg_calls program)" by (simp add: p(1) comp_def)
  with p show ?thesis by simp
qed

lemma plan_ids:
  assumes "validatePlanResultToolCallIDs r = Inr u"
  shows "distinct (request_ids (pr_tool_calls r)) \<and> [] \<notin> set (request_ids (pr_tool_calls r))"
proof -
  have ids: "validateCallIDs seen calls = Inr u \<Longrightarrow>
      distinct (map fst calls) \<and> [] \<notin> set (map fst calls) \<and> set (map fst calls) \<inter> seen = {}" for seen calls
    by (induction seen calls rule: validateCallIDs.induct) (auto split: if_splits)
  from ids [of "{}" "planResultModelToolCalls r"] assms show ?thesis
    by (auto simp: validatePlanResultToolCallIDs_def planResultModelToolCalls_def comp_def)
qed

subsection \<open>Execution closes every call\<close>

lemma mset_mapI: "mset xs = mset ys \<Longrightarrow> mset (map f xs) = mset (map f ys)"
  by (metis mset_map)

definition answered :: "step_record \<Rightarrow> bool" where
  "answered r \<longleftrightarrow> (\<exists>res. sr_result r = Some res \<and> rs_tool_call_id res = call_id r)"

lemma closes:
  assumes "stepToolRecordsAfterExecution show calls outcomes err = (records, resultErr)"
    and "distinct (request_ids calls)" "[] \<notin> set (request_ids calls)"
  shows "map sr_call records = calls \<and> (\<forall>r \<in> set records. answered r)"
  using records_close_calls [OF assms(2,3,1)] by (auto simp: answered_def)

text \<open>A step that ends with a batch has executed its immediate calls and its expired confirmations.\<close>

lemma executed_records:
  assumes "executeToolStep env inp p (new_batch q) st = (st', batch, Inr (cs, items))" "pg_admitted p"
    and "distinct (request_ids (pg_immediate p))" "[] \<notin> set (request_ids (pg_immediate p))"
  shows "map sr_call (sb_records batch) = pg_immediate p \<and> (\<forall>r \<in> set (sb_records batch). answered r) \<and>
    cs = pg_confirmations p \<and> sb_recorded batch = 0 \<and> sb_program batch = q \<and> ls_recorded st' = ls_recorded st"
proof -
  obtain outcomes timedOut executionErr where
    x: "executeImmediateToolCalls env (si_exec inp) (pg_immediate p) = (outcomes, timedOut, executionErr)" by (rule prod_cases3)
  obtain records resultErr where
    y: "stepToolRecordsAfterExecution (le_show env) (pg_immediate p) outcomes executionErr = (records, resultErr)"
    by (rule prod.exhaust)
  have "sb_records batch = records \<and> cs = pg_confirmations p \<and> sb_recorded batch = 0 \<and> sb_program batch = q \<and>
      ls_recorded st' = ls_recorded st"
    using assms(1,2)
    by (auto simp: executeToolStep_def x y step_await_items_def new_batch_def Let_def split: option.splits sum.splits if_splits)
  with closes [OF y assms(3,4)] show ?thesis by simp
qed

lemma resolved_records:
  assumes "resolveExpiredConfirmations env inp cs st = (st', [], records, expired, None)"
    and "distinct (request_ids (map cf_call cs))" "[] \<notin> set (request_ids (map cf_call cs))"
  shows "mset (map sr_call records) = mset (map cf_call cs) \<and> (\<forall>r \<in> set records. answered r) \<and> ls_recorded st' = ls_recorded st"
proof -
  let ?b = "bookkeeping_confirmation env"
  let ?o = "confirmation_open env (si_now inp)"
  let ?calls = "map cf_call (filter (\<lambda>c. \<not> ?o c \<and> \<not> ?b c) cs) @ map cf_call (filter (\<lambda>c. \<not> ?o c \<and> ?b c) cs)"
  have none: "filter ?o cs = []"
    using assms(1) by (auto simp: resolveExpiredConfirmations_def Let_def case_prod_beta split: if_splits)
  then have all: "\<forall>c \<in> set cs. \<not> ?o c" by (simp add: filter_empty_conv)
  then have calls: "mset ?calls = mset (map cf_call cs)"
    by (induction cs) auto
  show ?thesis
  proof (cases "?calls = []")
    case True
    with assms(1) have "records = []" "st' = st"
      by (auto simp: resolveExpiredConfirmations_def Let_def)
    with True calls show ?thesis by simp
  next
    case False
    then obtain outcomes executionErr resultErr where
      y: "stepToolRecordsAfterExecution (le_show env) ?calls outcomes executionErr = (records, resultErr)"
      and st': "ls_recorded st' = ls_recorded st"
      using assms(1) by (auto simp: resolveExpiredConfirmations_def Let_def split: prod.splits)
    have ids: "mset (request_ids ?calls) = mset (request_ids (map cf_call cs))"
      by (rule mset_mapI [OF calls])
    have "distinct (request_ids ?calls)" "[] \<notin> set (request_ids ?calls)"
      using assms(2,3) by (simp_all only: mset_eq_imp_distinct_iff [OF ids] mset_eq_setD [OF ids] not_False_eq_True)
    from closes [OF y this] calls st' show ?thesis by simp
  qed
qed

lemma drained_records:
  assumes "drain_step env inp p cs items batch st = (st', Inr (Inl batch'))"
    and "distinct (request_ids (map cf_call cs))" "[] \<notin> set (request_ids (map cf_call cs))"
  shows "\<exists>records. sb_records batch' = sb_records batch @ records \<and> mset (map sr_call records) = mset (map cf_call cs) \<and>
    (\<forall>r \<in> set records. answered r) \<and> sb_recorded batch' = sb_recorded batch \<and> sb_program batch' = sb_program batch \<and>
    ls_recorded st' = ls_recorded st"
proof -
  obtain st1 remaining records expired err where
    x: "resolveExpiredConfirmations env inp cs st = (st1, remaining, records, expired, err)" by (rule prod_cases5)
  have never: "await_or_finish env inp a b c d \<noteq> (st', Inr (Inl batch'))" for a b c d
    by (auto simp: await_or_finish_def split: sum.split prod.splits)
  from assms(1) never have *: "err = None" "remaining = []" "items = []"
      "batch' = batch\<lparr>sb_records := sb_records batch @ records, sb_timed_out := sb_timed_out batch \<or> expired\<rparr>" "st' = st1"
    by (auto simp: drain_step_def x Let_def split: option.splits if_splits sum.splits prod.splits)
  from resolved_records [OF x [unfolded *] assms(2,3)] * show ?thesis
    by (intro exI [of _ records]) simp
qed

subsection \<open>Recording in the provider's order\<close>

lemma ordered_ids:
  assumes "mset (record_ids records) = mset (request_ids calls)" "distinct (request_ids calls)"
    and "canonicalStepToolRecords calls records = Inr out"
  shows "record_ids out = request_ids calls \<and> set out = set records"
proof -
  from canonical_records [OF assms(2), of records out] assms(3)
  have out: "out = in_call_order calls records" "mset out = mset records" by auto
  have known: "filter (\<lambda>r. call_id r \<notin> set (request_ids calls)) records = []"
    using mset_eq_setD [OF assms(1)] by (auto simp: filter_empty_conv)
  have distinct: "distinct (record_ids records)"
    using assms(1,2) by (metis mset_eq_imp_distinct_iff)
  have one: "record_ids (filter (\<lambda>r. call_id r = i) records) = [i]" if "i \<in> set (record_ids records)" for i
    using that distinct
  proof (induction records)
    case (Cons r records)
    have "filter (\<lambda>r. call_id r = i) records = []" if "i \<notin> set (record_ids records)"
      using that by (auto simp: filter_empty_conv)
    with Cons show ?case by (cases "call_id r = i") auto
  qed simp
  have each: "record_ids (filter (\<lambda>r. call_id r = tr_tool_call_id c) records) = [tr_tool_call_id c]" if "c \<in> set calls" for c
    by (rule one) (use that mset_eq_setD [OF assms(1)] in auto)
  have "record_ids (concat (map (\<lambda>c. filter (\<lambda>r. call_id r = tr_tool_call_id c) records) calls)) = request_ids calls"
    using each by (induction calls) (auto simp: map_concat)
  then have "record_ids out = request_ids calls" by (simp only: out(1) in_call_order_def known append_Nil2)
  with mset_eq_setD [OF out(2)] show ?thesis by simp
qed

lemma resumePlanner_recorded: "resumePlanner env inp batch st = (st', r) \<Longrightarrow> ls_recorded st' = ls_recorded st"
  by (auto simp: resumePlanner_def Let_def split: sum.splits plan_error.splits option.splits if_splits)

lemma afterClassification_recorded:
  assumes "afterClassification env inp batch st = (st', r)"
  shows "ls_recorded st' = ls_recorded st"
proof -
  obtain progress failed where outcome: "budgetedBatchOutcome (le_table env) (sb_records batch) = (progress, failed)"
    by (rule prod.exhaust)
  obtain caps exhausted where streak: "applyFailureStreak (ls_caps st) progress failed = (caps, exhausted)"
    by (rule prod.exhaust)
  have "ls_recorded s = ls_recorded st" if "resumePlanner env inp batch (st\<lparr>ls_caps := caps\<rparr>) = (s, x)" for s x
    using resumePlanner_recorded [OF that] by simp
  with assms show ?thesis
    unfolding afterClassification_def outcome prod.case Let_def streak
    by (auto split: if_splits sum.splits missing_decision.splits)
qed

lemma resumed_recorded:
  assumes "advanceStep env inp batch st = (st', Inr None)" "sb_recorded batch = 0"
  shows "\<exists>out. canonicalStepToolRecords (sg_calls (sb_program batch)) (sb_records batch) = Inr out \<and>
    ls_recorded st' = ls_recorded st @ out \<and> sb_finalize batch = None"
proof -
  obtain st1 r where x: "recordUnrecordedStepToolResults inp batch st = (st1, r)" by (rule prod.exhaust)
  with assms(1) obtain batch1 where r: "r = Inr batch1" by (cases r) (auto simp: advanceStep_def)
  obtain out where out: "canonicalStepToolRecords (sg_calls (sb_program batch)) (sb_records batch) = Inr out"
      "ls_recorded st1 = ls_recorded st @ out" "sb_finalize batch1 = sb_finalize batch"
    using x r assms(2) by (auto simp: recordUnrecordedStepToolResults_def split: if_splits sum.splits)
  define st2 where "st2 = st1\<lparr>ls_caps := (ls_caps st1)\<lparr>RemainingToolCalls :=
      decrementCap (RemainingToolCalls (ls_caps st1)) (sb_budget_cost batch1)\<rparr>\<rparr>"
  have "sb_finalize batch1 = None \<and> afterClassification env inp batch1 st2 = (st', Inr None)"
    using assms(1) unfolding advanceStep_def x r prod.case sum.case Let_def st2_def [symmetric]
    by (auto split: option.splits if_splits sum.splits step_transition.splits)
  with afterClassification_recorded [of env inp batch1 st2 st'] out show ?thesis
    by (intro exI [of _ out]) (simp add: st2_def)
qed

text \<open>Ids of a part of a batch with distinct, non-empty ids.\<close>

lemma part_ids:
  assumes "mset now + mset later = mset calls" "distinct (request_ids calls)" "[] \<notin> set (request_ids calls)"
  shows "distinct (request_ids now) \<and> [] \<notin> set (request_ids now) \<and> distinct (request_ids later) \<and> [] \<notin> set (request_ids later)"
proof -
  have ids: "mset (request_ids (now @ later)) = mset (request_ids calls)"
    by (rule mset_mapI) (simp add: assms(1))
  have "distinct (request_ids (now @ later))" "[] \<notin> set (request_ids (now @ later))"
    using assms(2,3) by (simp_all only: mset_eq_imp_distinct_iff [OF ids] mset_eq_setD [OF ids] not_False_eq_True)
  then show ?thesis by simp
qed

lemma committed_answers:
  assumes "execute_committed env inp p st = (st', Inr None)" "sg_calls p \<noteq> []"
    and "request_ids (pg_allowed p) = request_ids (sg_calls p)"
    and "pg_admitted p \<longrightarrow> mset (pg_immediate p) + mset (map cf_call (pg_confirmations p)) = mset (pg_allowed p)"
    and "distinct (request_ids (sg_calls p))" "[] \<notin> set (request_ids (sg_calls p))"
  shows "\<exists>new. ls_recorded st' = ls_recorded st @ new \<and> record_ids new = request_ids (sg_calls p) \<and> (\<forall>r \<in> set new. answered r)"
proof -
  let ?st = "st\<lparr>ls_committed := True\<rparr>"
  obtain st1 batch1 r1 where x: "executeToolStep env inp p (new_batch (step_program.truncate p)) ?st = (st1, batch1, r1)"
    by (rule prod_cases3)
  obtain st2 batch2 where y: "executeStepProgram env inp p ?st = (st2, Inr (Inl batch2))"
      and advance: "advanceStep env inp batch2 st2 = (st', Inr None)"
    using assms(1) by (auto simp: execute_committed_def commitSelectedModelResponse_def split: if_splits prod.splits sum.splits)
  obtain cs items where r1: "r1 = Inr (cs, items)"
    using y x assms(2) by (cases r1) (auto simp: executeStepProgram_def Let_def split: prod.splits)
  have admitted: "pg_admitted p"
  proof (rule ccontr)
    assume "\<not> pg_admitted p"
    with x have "sb_finalize batch1 \<noteq> None" by (auto simp: executeToolStep_def)
    with y x r1 assms(2) have "sb_finalize batch2 \<noteq> None"
      by (auto simp: executeStepProgram_def finish_denied_step_def prepareRecoveryRecords_def Let_def
          split: option.splits prod.splits)
    moreover have "sb_recorded batch2 = 0"
      using y x r1 assms(2) \<open>\<not> pg_admitted p\<close> \<open>sb_finalize batch1 \<noteq> None\<close>
      by (auto simp: executeStepProgram_def finish_denied_step_def prepareRecoveryRecords_def executeToolStep_def new_batch_def
          Let_def split: option.splits prod.splits)
    ultimately show False using resumed_recorded [OF advance] by auto
  qed
  then have split: "mset (pg_immediate p) + mset (map cf_call (pg_confirmations p)) = mset (pg_allowed p)"
    using assms(4) by simp
  note parts = part_ids [OF split, unfolded assms(3), OF assms(5,6)]
  from executed_records [OF x [unfolded r1] admitted] parts
  have first: "map sr_call (sb_records batch1) = pg_immediate p" "\<forall>r \<in> set (sb_records batch1). answered r"
      "cs = pg_confirmations p" "sb_recorded batch1 = 0" "sb_program batch1 = step_program.truncate p"
      "ls_recorded st1 = ls_recorded st"
    by auto
  have "sb_finalize batch1 = None"
    using x r1 admitted
    by (auto simp: executeToolStep_def new_batch_def Let_def split: prod.splits option.splits sum.splits)
  with y x r1 assms(2) have drain: "drain_step env inp p cs items batch1 st1 = (st2, Inr (Inl batch2))"
    by (simp add: executeStepProgram_def)
  from drained_records [OF drain] parts first(3) obtain records where
    last: "sb_records batch2 = sb_records batch1 @ records" "mset (map sr_call records) = mset (map cf_call cs)"
      "\<forall>r \<in> set records. answered r" "sb_recorded batch2 = 0" "sb_program batch2 = step_program.truncate p"
      "ls_recorded st2 = ls_recorded st"
    using first by auto
  have "mset (map sr_call (sb_records batch2)) = mset (pg_allowed p)"
    using split first(1,3) last(1,2) by (metis map_append mset_append)
  then have "mset (record_ids (sb_records batch2)) = mset (request_ids (pg_allowed p))"
    using mset_mapI [of "map sr_call (sb_records batch2)" "pg_allowed p" tr_tool_call_id] by (simp add: comp_def)
  then have ids: "mset (record_ids (sb_records batch2)) = mset (request_ids (sg_calls p))" by (simp only: assms(3))
  from resumed_recorded [OF advance last(4)] obtain out where
    out: "canonicalStepToolRecords (sg_calls p) (sb_records batch2) = Inr out" "ls_recorded st' = ls_recorded st @ out"
    by (auto simp: last(5,6) step_program.truncate_def)
  from ordered_ids [OF ids assms(5) out(1)] out(2) first(2) last(1,3) show ?thesis
    by (intro exI [of _ out]) auto
qed

text \<open>
  Property C24. The planner is asked again only with every call answered. If an iteration of the loop goes
  on to the next planner turn, it has recorded, after the results already recorded, exactly one result
  for each call of the response it executed, in the order the provider gave the calls and under their
  identifiers, whatever policy rewrote, whatever the tools returned and whichever confirmations expired.
  Continuations of suspended runs and the finalization turn are not iterations and not covered.
\<close>

theorem planner_resumes_with_all_results:
  assumes "run_iteration env inp st = (st', Inr None)"
  shows "\<exists>result program new.
    rewriteRecoveryCatalogToolCalls (pe_marshal (le_policy env)) (ls_catalog st) (ls_result st) = Inr result \<and>
    normalizeStep (le_table env) (Some result) = Inr program \<and>
    ls_recorded st' = ls_recorded st @ new \<and>
    map (\<lambda>r. tr_tool_call_id (sr_call r)) new =
      map tr_tool_call_id (sg_calls (stamp_program env (ls_context st) program)) \<and>
    (\<forall>r \<in> set new. \<exists>res. sr_result r = Some res \<and> rs_tool_call_id res = tr_tool_call_id (sr_call r))"
proof -
  obtain result program0 where result: "rewriteRecoveryCatalogToolCalls (pe_marshal (le_policy env)) (ls_catalog st) (ls_result st) = Inr result"
      "normalizeStep (le_table env) (Some result) = Inr program0"
      and step: "runStep env inp program0 (st\<lparr>ls_result := result\<rparr>) = (st', Inr None)"
    using assms by (auto simp: run_iteration_def Let_def split: sum.splits)
  define program where "program = stamp_program env (ls_context st) program0"
  from step obtain st1 st2 p where ids: "validatePlanResultToolCallIDs (sg_result program) = Inr ()"
    and prepare: "(if sg_calls program \<noteq> [] then prepareToolStep env program st1
        else (st1, Inr (prepared_of program [] [] [] 0 False))) = (st2, Inr p)"
    and exec: "execute_committed env inp p st2 = (st', Inr None)" and st1: "ls_recorded st1 = ls_recorded st"
    by (auto simp: runStep_def Let_def program_def split: sum.splits if_splits prod.splits)
  have calls: "sg_calls program \<noteq> []"
  proof
    assume none: "sg_calls program = []"
    with prepare have "p = prepared_of program [] [] [] 0 False" by simp
    with exec none show False
      by (auto simp: execute_committed_def commitSelectedModelResponse_def prepared_of_def executeStepProgram_def
          await_or_finish_def Let_def split: if_splits prod.splits sum.splits)
  qed
  then have "pr_tool_calls (sg_result program) = sg_calls program"
    by (auto simp: program_def stamp_program_def Let_def split: if_splits)
  with plan_ids [OF ids] have distinct: "distinct (request_ids (sg_calls program))" "[] \<notin> set (request_ids (sg_calls program))"
    by simp_all
  from prepare calls have "prepareToolStep env program st1 = (st2, Inr p)" by simp
  from prepare_ids [OF this] have p: "request_ids (pg_allowed p) = request_ids (sg_calls p)" "sg_calls p = sg_calls program"
      "pg_admitted p \<longrightarrow> mset (pg_immediate p) + mset (map cf_call (pg_confirmations p)) = mset (pg_allowed p)"
      "ls_recorded st2 = ls_recorded st"
    using st1 by auto
  from committed_answers [OF exec _ p(1,3)] calls distinct p(2) obtain new where
    "ls_recorded st' = ls_recorded st @ new" "record_ids new = request_ids (sg_calls program)" "\<forall>r \<in> set new. answered r"
    by (auto simp: p(4))
  with result show ?thesis
    by (intro exI [of _ result] exI [of _ program0] exI [of _ new]) (simp add: program_def answered_def)
qed

theorem planner_resumes_with_all_results_witness:
  "\<exists>st. run_iteration (example_env None) example_inputs (example_start 3) = (st, Inr None) \<and>
     (\<exists>new. ls_recorded st = new \<and> map (\<lambda>r. tr_tool_call_id (sr_call r)) new = [''c1''])"
proof -
  have "\<exists>st. run_iteration (example_env None) example_inputs (example_start 3) = (st, Inr None)"
  proof -
    have "recordUnrecordedStepToolResults example_inputs (example_batch_done False 1) (example_done 3) =
        (example_done 3, Inr (example_batch_done False 1))"
      by (rule recorded_again) (simp_all add: example_batch_done_def)
    moreover have "classifyStep (example_env None) (example_batch_done False 1) = Inr TransitionResume"
      by (simp add: classifyStep_def classifyToolRecords_def example_batch_done_def example_record_def)
    moreover have "\<exists>st'. afterClassification (example_env None) example_inputs (example_batch_done False 1) st = (st', Inr None)"
      if caps: "MaxConsecutiveFailedToolCalls (ls_caps st) \<le> 0" for st
    proof -
      obtain progress failed where outcome:
          "budgetedBatchOutcome example_table (sb_records (example_batch_done False 1)) = (progress, failed)" by (rule prod.exhaust)
      obtain caps where streak: "applyFailureStreak (ls_caps st) progress failed = (caps, False)"
        by (rule streak_left [of "ls_caps st" progress 0 failed]) (use caps in auto)
      have "dominantRecoveryAction (sb_records (example_batch_done False 1)) = Some RecoveryCorrectCall"
        by (simp add: dominantRecoveryAction_def example_batch_done_def example_record_def example_missing_def
            record_failure_def strongerRecoveryAction_def)
      then show ?thesis
        by (simp add: afterClassification_def outcome [simplified] streak applyMissingFieldsPolicy_def resumePlanner_def
            example_inputs_def Let_def)
    qed
    moreover have "MaxConsecutiveFailedToolCalls (ls_caps (example_done 3)) = 0"
      by (simp add: example_done_def example_state_def example_start_def initialCaps_def)
    moreover have "sb_finalize (example_batch_done False 1) = None" "\<not> sb_timed_out (example_batch_done False 1)"
        "sg_kind (sb_program (example_batch_done False 1)) = StepTools"
      by (simp_all add: example_batch_done_def)
    ultimately show ?thesis by (simp add: example_iteration advanceStep_def Let_def)
  qed
  then obtain st where run: "run_iteration (example_env None) example_inputs (example_start 3) = (st, Inr None)" by blast
  have start: "ls_catalog (example_start 3) = None" "ls_result (example_start 3) = example_plan" "ls_recorded (example_start 3) = []"
    by (simp_all add: example_start_def)
  obtain result program new where
      result: "rewriteRecoveryCatalogToolCalls (pe_marshal (le_policy (example_env None))) (ls_catalog (example_start 3))
          (ls_result (example_start 3)) = Inr result"
      and program: "normalizeStep (le_table (example_env None)) (Some result) = Inr program"
      and new: "ls_recorded st = ls_recorded (example_start 3) @ new"
        "record_ids new = request_ids (sg_calls (stamp_program (example_env None) (ls_context (example_start 3)) program))"
    using planner_resumes_with_all_results [OF run] by blast
  have "result = example_plan" using result by (simp add: start rewriteRecoveryCatalogToolCalls_def)
  with program have "program = example_program [new_request ''a.read'' ''c1'' ''{}'']" by (simp add: example_normal)
  with new start have "ls_recorded st = new" "record_ids new = [''c1'']" by (simp_all add: example_stamp)
  with run show ?thesis by (intro exI [of _ st] conjI exI [of _ new])
qed

end
