(* ===== verification/Json_Text.thy ===== *)
theory Json_Text
  imports Go_Prelude
begin

section \<open>JSON texts\<close>

text \<open>
  What the message codec uses of \<open>unicode/utf8\<close>, \<open>encoding/base64\<close> and \<open>encoding/json\<close>: runes of a
  byte string, the standard base64 alphabet, and JSON documents with the printer of \<open>json.Marshal\<close>
  (compact, HTML characters and line separators escaped, bytes that are not UTF-8 replaced) and the
  parser behind \<open>json.Unmarshal\<close> and \<open>json.Valid\<close>. The parser takes fuel; the length of the text is
  enough, since every nested call consumes a byte. The nesting limit of 10000 is not modelled. The
  lemmas show that a printed document parses back to the document it was printed from.
\<close>

subsection \<open>Runes\<close>

abbreviation byte :: "char \<Rightarrow> nat" where "byte \<equiv> of_char"

definition cont_byte :: "char \<Rightarrow> bool" where
  "cont_byte c \<longleftrightarrow> 128 \<le> byte c \<and> byte c \<le> 191"

text \<open>The length of the UTF-8 encoded rune a string starts with; 0 when it starts with none.\<close>

fun rune_len :: "string \<Rightarrow> nat" where
  "rune_len [] = 0"
| "rune_len (a # s) =
     (if byte a < 128 then 1
      else if 194 \<le> byte a \<and> byte a \<le> 223 then
        (case s of b # _ \<Rightarrow> if cont_byte b then 2 else 0 | [] \<Rightarrow> 0)
      else if 224 \<le> byte a \<and> byte a \<le> 239 then
        (case s of
           b # c # _ \<Rightarrow>
             if cont_byte b \<and> cont_byte c \<and> (byte a = 224 \<longrightarrow> 160 \<le> byte b) \<and> (byte a = 237 \<longrightarrow> byte b \<le> 159) then 3 else 0
         | _ \<Rightarrow> 0)
      else if 240 \<le> byte a \<and> byte a \<le> 244 then
        (case s of
           b # c # d # _ \<Rightarrow>
             if cont_byte b \<and> cont_byte c \<and> cont_byte d \<and> (byte a = 240 \<longrightarrow> 144 \<le> byte b) \<and> (byte a = 244 \<longrightarrow> byte b \<le> 143)
             then 4 else 0
         | _ \<Rightarrow> 0)
      else 0)"

definition valid_rune :: "string \<Rightarrow> bool" where
  "valid_rune r \<longleftrightarrow> r \<noteq> [] \<and> rune_len r = length r"

text \<open>Iteration over the runes of a string: a byte that starts no rune is a piece of its own.\<close>

function runes :: "string \<Rightarrow> string list" where
  "runes [] = []"
| "runes (a # s) = (let n = max 1 (rune_len (a # s)) in take n (a # s) # runes (drop n (a # s)))"
  by pat_completeness auto
termination
  by (relation "measure length") (auto simp: Let_def)

declare runes.simps(2) [simp del]

definition rune_error :: string where "rune_error = map char_of [239, 191, 189 :: nat]"

definition fix_rune :: "string \<Rightarrow> string" where
  "fix_rune r = (if valid_rune r then r else rune_error)"

definition to_valid_utf8 :: "string \<Rightarrow> string" where
  "to_valid_utf8 s = concat (map fix_rune (runes s))"

definition valid_utf8 :: "string \<Rightarrow> bool" where
  "valid_utf8 s \<longleftrightarrow> list_all valid_rune (runes s)"

lemma rune_len_le: "rune_len s \<le> length s"
  by (cases s rule: rune_len.cases) (auto split: list.splits)

lemma rune_len_take: "rune_len s = n \<Longrightarrow> 0 < n \<Longrightarrow> rune_len (take n s @ t) = n"
  by (cases s rule: rune_len.cases) (auto split: list.splits if_splits)

lemma valid_rune_append: "valid_rune r \<Longrightarrow> rune_len (r @ t) = length r"
  using rune_len_take [of r "length r" t] by (auto simp: valid_rune_def)

lemma valid_rune_take: "0 < rune_len s \<Longrightarrow> valid_rune (take (rune_len s) s)"
  using rune_len_take [of s _ "[]"] rune_len_le [of s] by (auto simp: valid_rune_def)

lemma runes_append: "valid_rune r \<Longrightarrow> runes (r @ s) = r # runes s"
proof -
  assume r: "valid_rune r"
  then obtain a r' where a: "r = a # r'" by (cases r) (auto simp: valid_rune_def)
  from valid_rune_append [OF r, of s] have "rune_len (a # r' @ s) = Suc (length r')" by (simp add: a)
  then show ?thesis by (simp add: a runes.simps(2) Let_def)
qed

lemma concat_runes: "concat (runes s) = s"
  by (induction s rule: runes.induct) (simp_all add: runes.simps(2) Let_def)

lemma runes_concat: "list_all valid_rune rs \<Longrightarrow> runes (concat rs) = rs"
  by (induction rs) (simp_all add: runes_append)

lemma valid_rune_error: "valid_rune rune_error"
  by (simp add: valid_rune_def rune_error_def cont_byte_def)

lemma valid_fix_rune [simp]: "valid_rune (fix_rune r)"
  by (simp add: fix_rune_def valid_rune_error)

lemma valid_to_valid [simp]: "valid_utf8 (to_valid_utf8 s)"
proof -
  have "runes (to_valid_utf8 s) = map fix_rune (runes s)"
    unfolding to_valid_utf8_def by (rule runes_concat) (simp add: list_all_iff)
  then show ?thesis by (simp add: valid_utf8_def list_all_iff)
qed

lemma to_valid_id [simp]: "valid_utf8 s \<Longrightarrow> to_valid_utf8 s = s"
proof -
  assume s: "valid_utf8 s"
  then have "map fix_rune (runes s) = runes s"
    by (intro map_idI) (simp add: valid_utf8_def list_all_iff fix_rune_def)
  then show ?thesis by (simp add: to_valid_utf8_def concat_runes)
qed

lemma valid_utf8_Nil [simp]: "valid_utf8 []"
  by (simp add: valid_utf8_def)

lemma valid_utf8_append: "valid_rune r \<Longrightarrow> valid_utf8 (r @ s) \<longleftrightarrow> valid_utf8 s"
  by (simp add: valid_utf8_def runes_append)

lemma ascii_valid: "list_all (\<lambda>c. byte c < 128) s \<Longrightarrow> valid_utf8 s"
proof (induction s)
  case (Cons c s)
  then have "valid_rune [c]" by (simp add: valid_rune_def)
  with Cons show ?case using valid_utf8_append [of "[c]" s] by simp
qed simp

subsection \<open>Base64\<close>

definition b64_char :: "nat \<Rightarrow> char" where
  "b64_char n = char_of (if n < 26 then 65 + n else if n < 52 then 71 + n else if n < 62 then n - 4 else if n = 62 then 43 else 47)"

definition b64_value :: "char \<Rightarrow> nat option" where
  "b64_value c =
     (if 65 \<le> byte c \<and> byte c \<le> 90 then Some (byte c - 65)
      else if 97 \<le> byte c \<and> byte c \<le> 122 then Some (byte c - 71)
      else if 48 \<le> byte c \<and> byte c \<le> 57 then Some (byte c + 4)
      else if byte c = 43 then Some 62
      else if byte c = 47 then Some 63 else None)"

abbreviation pad_char :: char where "pad_char \<equiv> CHR ''=''"

fun base64_encode :: "string \<Rightarrow> string" where
  "base64_encode [] = []"
| "base64_encode [a] = [b64_char (byte a div 4), b64_char (byte a mod 4 * 16), pad_char, pad_char]"
| "base64_encode [a, b] =
     [b64_char (byte a div 4), b64_char (byte a mod 4 * 16 + byte b div 16), b64_char (byte b mod 16 * 4), pad_char]"
| "base64_encode (a # b # c # s) =
     [b64_char (byte a div 4), b64_char (byte a mod 4 * 16 + byte b div 16),
      b64_char (byte b mod 16 * 4 + byte c div 64), b64_char (byte c mod 64)] @ base64_encode s"

definition b64_bytes :: "nat \<Rightarrow> nat \<Rightarrow> nat \<Rightarrow> nat \<Rightarrow> string" where
  "b64_bytes w x y z = map char_of [w * 4 + x div 16, x mod 16 * 16 + y div 4, y mod 4 * 64 + z]"

fun b64_quanta :: "string \<Rightarrow> string option" where
  "b64_quanta [] = Some []"
| "b64_quanta (w # x # y # z # s) =
     (case (b64_value w, b64_value x) of
        (Some w', Some x') \<Rightarrow>
          if s = [] \<and> y = pad_char \<and> z = pad_char then Some (take 1 (b64_bytes w' x' 0 0))
          else (case b64_value y of
                  None \<Rightarrow> None
                | Some y' \<Rightarrow>
                    if s = [] \<and> z = pad_char then Some (take 2 (b64_bytes w' x' y' 0))
                    else (case b64_value z of
                            None \<Rightarrow> None
                          | Some z' \<Rightarrow> map_option ((@) (b64_bytes w' x' y' z')) (b64_quanta s)))
      | _ \<Rightarrow> None)"
| "b64_quanta _ = None"

definition base64_decode :: "string \<Rightarrow> string option" where
  "base64_decode s = b64_quanta (filter (\<lambda>c. c \<noteq> CHR 0x0A \<and> c \<noteq> CHR 0x0D) s)"

lemma b64_value_char [simp]: "n < 64 \<Longrightarrow> b64_value (b64_char n) = Some n"
  by (auto simp: b64_char_def b64_value_def)

lemma byte_less: "byte c < 256"
  by (rule nat_of_char_less_256)

definition b64_plain :: "char \<Rightarrow> bool" where
  "b64_plain c \<longleftrightarrow> c = pad_char \<or> b64_value c \<noteq> None"

lemma b64_plain_char [simp]: "n < 64 \<Longrightarrow> b64_plain (b64_char n)" "b64_plain pad_char"
  by (simp_all add: b64_plain_def)

lemma b64_char_not [simp]:
  assumes "n < 64"
  shows "b64_char n \<noteq> pad_char"
  using b64_value_char [OF assms] by (auto simp: b64_value_def)

lemma b64_plainD:
  assumes "b64_plain c"
  shows "byte c < 128" "32 < byte c" "c \<notin> {CHR 0x0A, CHR 0x0D, CHR 0x22, CHR 0x5C, CHR 0x3C, CHR 0x3E, CHR 0x26}"
  using assms by (auto simp: b64_plain_def b64_value_def split: if_splits)

lemma sextets [simp]:
  fixes a b :: nat
  shows "b < 16 \<Longrightarrow> (a * 16 + b) div 16 = a" "b < 16 \<Longrightarrow> (a * 16 + b) mod 16 = b"
    "b < 4 \<Longrightarrow> (a * 4 + b) div 4 = a" "b < 4 \<Longrightarrow> (a * 4 + b) mod 4 = b"
  by simp_all

lemma byte_parts [simp]:
  "byte c div 4 < 64" "byte c mod 4 * 16 < 64" "byte c div 16 < 16" "byte c div 64 < 4" "byte c mod 16 * 4 < 64"
  using byte_less [of c] by (simp_all add: less_mult_imp_div_less)

lemma byte_joins [simp]:
  "byte a mod 4 * 16 + byte b div 16 < 64" "byte b mod 16 * 4 + byte c div 64 < 64"
proof -
  have "byte a mod 4 < 4" "byte b mod 16 < 16" by simp_all
  with byte_parts(3) [of b] byte_parts(4) [of c]
  show "byte a mod 4 * 16 + byte b div 16 < 64" "byte b mod 16 * 4 + byte c div 64 < 64" by linarith+
qed

lemma byte_sums [simp]:
  "byte c div 4 * 4 + byte c mod 4 = byte c" "byte c div 16 * 16 + byte c mod 16 = byte c" "byte c div 64 * 64 + byte c mod 64 = byte c"
  by presburger+

lemma quanta_encode: "b64_quanta (base64_encode s) = Some s"
  by (induction s rule: base64_encode.induct) (simp_all add: b64_bytes_def)

lemma base64_encode_plain: "list_all b64_plain (base64_encode s)"
  by (induction s rule: base64_encode.induct) simp_all

lemma base64_roundtrip [simp]: "base64_decode (base64_encode s) = Some s"
proof -
  have "filter (\<lambda>c. c \<noteq> CHR 0x0A \<and> c \<noteq> CHR 0x0D) (base64_encode s) = base64_encode s"
    using base64_encode_plain [of s] b64_plainD(3) by (auto simp: filter_id_conv list_all_iff)
  then show ?thesis by (simp add: base64_decode_def quanta_encode)
qed

subsection \<open>Strings\<close>

abbreviation quote_char :: char where "quote_char \<equiv> CHR 0x22"
abbreviation escape_char :: char where "escape_char \<equiv> CHR 0x5C"

definition hex_char :: "nat \<Rightarrow> char" where
  "hex_char n = char_of (if n < 10 then 48 + n else 87 + n)"

definition hex_val :: "char \<Rightarrow> nat option" where
  "hex_val c =
     (if 48 \<le> byte c \<and> byte c \<le> 57 then Some (byte c - 48)
      else if 97 \<le> byte c \<and> byte c \<le> 102 then Some (byte c - 87)
      else if 65 \<le> byte c \<and> byte c \<le> 70 then Some (byte c - 55) else None)"

text \<open>How \<open>json.Marshal\<close> writes one rune inside a string literal.\<close>

definition short_escapes :: "(char \<times> char) list" where
  "short_escapes = [(quote_char, quote_char), (escape_char, escape_char), (CHR 0x08, CHR ''b''), (CHR 0x0C, CHR ''f''),
     (CHR 0x0A, CHR ''n''), (CHR 0x0D, CHR ''r''), (CHR 0x09, CHR ''t'')]"

definition esc_ascii :: "char \<Rightarrow> string" where
  "esc_ascii c =
     (case map_of short_escapes c of
        Some e \<Rightarrow> [escape_char, e]
      | None \<Rightarrow>
          if byte c < 32 \<or> c = CHR ''<'' \<or> c = CHR ''>'' \<or> c = CHR ''&''
          then [escape_char, CHR ''u'', CHR ''0'', CHR ''0'', hex_char (byte c div 16), hex_char (byte c mod 16)]
          else [c])"

definition line_separator :: string where "line_separator = map char_of [226, 128, 168 :: nat]"
definition paragraph_separator :: string where "paragraph_separator = map char_of [226, 128, 169 :: nat]"

definition esc_rune :: "string \<Rightarrow> string" where
  "esc_rune r =
     (if \<not> valid_rune r then escape_char # ''ufffd''
      else if r = line_separator then escape_char # ''u2028''
      else if r = paragraph_separator then escape_char # ''u2029''
      else if length r = 1 then esc_ascii (hd r) else r)"

definition json_string :: "string \<Rightarrow> string" where
  "json_string s = quote_char # concat (map esc_rune (runes s)) @ [quote_char]"

text \<open>Reading a string literal after its opening quote; \<open>unescape\<close> also says how much of the text it used.\<close>

definition hex4 :: "string \<Rightarrow> nat option" where
  "hex4 s =
     (case s of
        a # b # c # d # _ \<Rightarrow>
          (case (hex_val a, hex_val b, hex_val c, hex_val d) of
             (Some w, Some x, Some y, Some z) \<Rightarrow> Some (w * 4096 + x * 256 + y * 16 + z)
           | _ \<Rightarrow> None)
      | _ \<Rightarrow> None)"

definition utf8_encode :: "nat \<Rightarrow> string" where
  "utf8_encode u = map char_of
     (if u < 128 then [u]
      else if u < 2048 then [192 + u div 64, 128 + u mod 64]
      else if u < 65536 then [224 + u div 4096, 128 + u div 64 mod 64, 128 + u mod 64]
      else [240 + u div 262144, 128 + u div 4096 mod 64, 128 + u div 64 mod 64, 128 + u mod 64])"

definition surrogate_pair :: "nat \<Rightarrow> string \<Rightarrow> nat option" where
  "surrogate_pair u t =
     (case t of
        a # b # t' \<Rightarrow>
          if a = escape_char \<and> b = CHR ''u''
          then (case hex4 t' of
                  None \<Rightarrow> None
                | Some v \<Rightarrow> if u < 56320 \<and> 56320 \<le> v \<and> v < 57344 then Some (65536 + (u - 55296) * 1024 + (v - 56320)) else None)
          else None
      | _ \<Rightarrow> None)"

definition unescape :: "string \<Rightarrow> (string \<times> nat) option" where
  "unescape s =
     (case s of
        [] \<Rightarrow> None
      | e # t \<Rightarrow>
          if e = CHR ''u'' then
            (case hex4 t of
               None \<Rightarrow> None
             | Some u \<Rightarrow>
                 if 55296 \<le> u \<and> u < 57344
                 then (case surrogate_pair u (drop 4 t) of Some v \<Rightarrow> Some (utf8_encode v, 11) | None \<Rightarrow> Some (rune_error, 5))
                 else Some (utf8_encode u, 5))
          else if e = CHR ''/'' then Some ([e], 1)
          else (case find (\<lambda>p. snd p = e) short_escapes of None \<Rightarrow> None | Some p \<Rightarrow> Some ([fst p], 1)))"

abbreviation prepend :: "string \<Rightarrow> (string \<times> string) option \<Rightarrow> (string \<times> string) option" where
  "prepend bs \<equiv> map_option (map_prod ((@) bs) id)"

function parse_body :: "string \<Rightarrow> (string \<times> string) option" where
  "parse_body [] = None"
| "parse_body (c # s) =
     (if c = quote_char then Some ([], s)
      else if c = escape_char
      then (case unescape s of None \<Rightarrow> None | Some (bs, k) \<Rightarrow> prepend bs (parse_body (drop k s)))
      else if byte c < 32 then None
      else prepend [c] (parse_body s))"
  by pat_completeness auto
termination
  by (relation "measure length") auto

definition parse_string :: "string \<Rightarrow> (string \<times> string) option" where
  "parse_string s = map_option (map_prod to_valid_utf8 id) (parse_body s)"

lemma valid_rune_cases:
  assumes "valid_rune r"
  obtains c where "r = [c]" "byte c < 128" | "list_all (\<lambda>c. 128 \<le> byte c) r" "length r \<noteq> 1"
  using assms
  by (cases r rule: rune_len.cases) (auto simp: valid_rune_def cont_byte_def split: if_splits list.splits)

lemma hex_val_char [simp]: "n < 16 \<Longrightarrow> hex_val (hex_char n) = Some n"
  by (auto simp: hex_val_def hex_char_def)

lemma parse_verbatim:
  "list_all (\<lambda>c. 32 \<le> byte c \<and> c \<noteq> quote_char \<and> c \<noteq> escape_char) r \<Longrightarrow> parse_body (r @ t) = prepend r (parse_body t)"
  by (induction r; cases "parse_body t") auto

lemma parse_ascii: "byte c < 128 \<Longrightarrow> parse_body (esc_ascii c @ t) = prepend [c] (parse_body t)"
proof (cases "map_of short_escapes c")
  case None
  assume c: "byte c < 128"
  have ext: "c \<noteq> quote_char" "c \<noteq> escape_char" using None by (auto simp: short_escapes_def split: if_splits)
  show ?thesis
  proof (cases "byte c < 32 \<or> c = CHR ''<'' \<or> c = CHR ''>'' \<or> c = CHR ''&''")
    case True
    have "byte c div 16 * 16 + byte c mod 16 = byte c" by simp
    with c True None show ?thesis
      by (simp add: esc_ascii_def unescape_def hex4_def hex_val_def [of "CHR ''0''"] utf8_encode_def less_mult_imp_div_less)
  next
    case False
    with None ext show ?thesis by (simp add: esc_ascii_def)
  qed
next
  case (Some e)
  then show ?thesis
    by (auto simp: esc_ascii_def short_escapes_def unescape_def split: if_splits)
qed

lemma unescape_hex:
  "unescape (CHR ''u'' # a # b # c # d # t) =
     (case (hex_val a, hex_val b, hex_val c, hex_val d) of
        (Some w, Some x, Some y, Some z) \<Rightarrow>
          (let u = w * 4096 + x * 256 + y * 16 + z
           in if 55296 \<le> u \<and> u < 57344
              then (case surrogate_pair u t of Some v \<Rightarrow> Some (utf8_encode v, 11) | None \<Rightarrow> Some (rune_error, 5))
              else Some (utf8_encode u, 5))
      | _ \<Rightarrow> None)"
  by (simp add: unescape_def hex4_def Let_def split: option.split)

lemma parse_rune: "parse_body (esc_rune r @ t) = prepend (fix_rune r) (parse_body t)"
proof (cases "valid_rune r")
  case False
  then show ?thesis
    by (simp add: esc_rune_def fix_rune_def unescape_hex hex_val_def utf8_encode_def rune_error_def)
next
  case True
  show ?thesis
  proof (cases "r = line_separator \<or> r = paragraph_separator")
    case sep: True
    with True show ?thesis
      by (auto simp: esc_rune_def fix_rune_def unescape_hex hex_val_def utf8_encode_def line_separator_def paragraph_separator_def)
  next
    case False
    from True show ?thesis
    proof (cases rule: valid_rune_cases)
      case (1 c)
      with True False show ?thesis by (simp add: esc_rune_def fix_rune_def parse_ascii)
    next
      case 2
      then have "list_all (\<lambda>c. 32 \<le> byte c \<and> c \<noteq> quote_char \<and> c \<noteq> escape_char) r"
        by (auto simp: list_all_iff)
      with 2 True False show ?thesis by (simp add: esc_rune_def fix_rune_def parse_verbatim)
    qed
  qed
qed

lemma parse_body_string: "parse_body (concat (map esc_rune rs) @ quote_char # t) = Some (concat (map fix_rune rs), t)"
  by (induction rs) (simp_all add: parse_rune)

lemma parse_json_string: "parse_string (tl (json_string s) @ t) = Some (to_valid_utf8 s, t)"
  using parse_body_string [of "runes s" t] by (simp add: parse_string_def json_string_def to_valid_utf8_def [symmetric])

subsection \<open>Documents\<close>

datatype json = JNull | JBool bool | JNum string | JStr string | JArr "json list" | JObj "(string \<times> json) list"

definition number_char :: "char \<Rightarrow> bool" where
  "number_char c \<longleftrightarrow> is_digit c \<or> c \<in> {CHR ''-'', CHR ''+'', CHR ''.'', CHR ''e'', CHR ''E''}"

definition number_exp :: "string \<Rightarrow> bool" where
  "number_exp s \<longleftrightarrow>
     (case s of
        [] \<Rightarrow> True
      | c # t \<Rightarrow>
          (c = CHR ''e'' \<or> c = CHR ''E'') \<and>
          (let ds = (case t of d # u \<Rightarrow> if d = CHR ''+'' \<or> d = CHR ''-'' then u else t | [] \<Rightarrow> [])
           in ds \<noteq> [] \<and> list_all is_digit ds))"

definition number_frac :: "string \<Rightarrow> bool" where
  "number_frac s \<longleftrightarrow>
     (case s of
        [] \<Rightarrow> True
      | c # t \<Rightarrow> if c = CHR ''.'' then t \<noteq> [] \<and> is_digit (hd t) \<and> number_exp (dropWhile is_digit t) else number_exp s)"

definition valid_number :: "string \<Rightarrow> bool" where
  "valid_number s \<longleftrightarrow>
     (let t = (case s of c # u \<Rightarrow> if c = CHR ''-'' then u else s | [] \<Rightarrow> []);
          ds = takeWhile is_digit t
      in list_all number_char s \<and> ds \<noteq> [] \<and> (hd ds = CHR ''0'' \<longrightarrow> length ds = 1) \<and> number_frac (dropWhile is_digit t))"

definition json_array :: "string list \<Rightarrow> string" where
  "json_array ts = CHR ''['' # strings_join ts '','' @ '']''"

definition json_object :: "(string \<times> string) list \<Rightarrow> string" where
  "json_object kts = CHR ''{'' # strings_join (map (\<lambda>kt. json_string (fst kt) @ CHR '':'' # snd kt) kts) '','' @ ''}''"

fun json_print :: "json \<Rightarrow> string"
  and print_elems :: "json list \<Rightarrow> string list"
  and print_members :: "(string \<times> json) list \<Rightarrow> (string \<times> string) list" where
  "json_print JNull = ''null''"
| "json_print (JBool b) = (if b then ''true'' else ''false'')"
| "json_print (JNum s) = s"
| "json_print (JStr s) = json_string s"
| "json_print (JArr vs) = json_array (print_elems vs)"
| "json_print (JObj kvs) = json_object (print_members kvs)"
| "print_elems [] = []"
| "print_elems (v # vs) = json_print v # print_elems vs"
| "print_members [] = []"
| "print_members ((k, v) # kvs) = (k, json_print v) # print_members kvs"

definition json_space :: "char \<Rightarrow> bool" where
  "json_space c \<longleftrightarrow> c \<in> {CHR '' '', CHR 0x09, CHR 0x0A, CHR 0x0D}"

abbreviation skip_ws :: "string \<Rightarrow> string" where "skip_ws \<equiv> dropWhile json_space"

text \<open>The text of the value that was read at the start of \<open>s\<close>, when \<open>r\<close> is what follows it.\<close>

definition consumed :: "string \<Rightarrow> string \<Rightarrow> string" where
  "consumed s r = take (length (skip_ws s) - length r) (skip_ws s)"

definition parse_scalar :: "string \<Rightarrow> (json \<times> string) option" where
  "parse_scalar s =
     (if take 4 s = ''null'' then Some (JNull, drop 4 s)
      else if take 4 s = ''true'' then Some (JBool True, drop 4 s)
      else if take 5 s = ''false'' then Some (JBool False, drop 5 s)
      else if valid_number (takeWhile number_char s) then Some (JNum (takeWhile number_char s), dropWhile number_char s)
      else None)"

fun parse_value :: "nat \<Rightarrow> string \<Rightarrow> (json \<times> string) option"
  and parse_elems :: "nat \<Rightarrow> string \<Rightarrow> ((string \<times> json) list \<times> string) option"
  and parse_members :: "nat \<Rightarrow> string \<Rightarrow> ((string \<times> string \<times> json) list \<times> string) option" where
  "parse_value 0 s = None"
| "parse_value (Suc n) s =
     (case skip_ws s of
        [] \<Rightarrow> None
      | c # t \<Rightarrow>
          if c = CHR ''{'' then
            (case skip_ws t of
               [] \<Rightarrow> None
             | d # r \<Rightarrow> if d = CHR ''}'' then Some (JObj [], r)
                        else map_option (map_prod (\<lambda>ms. JObj (map (\<lambda>m. (fst m, snd (snd m))) ms)) id) (parse_members n t))
          else if c = CHR ''['' then
            (case skip_ws t of
               [] \<Rightarrow> None
             | d # r \<Rightarrow> if d = CHR '']'' then Some (JArr [], r)
                        else map_option (map_prod (\<lambda>vs. JArr (map snd vs)) id) (parse_elems n t))
          else if c = quote_char then map_option (map_prod JStr id) (parse_string t)
          else parse_scalar (c # t))"
| "parse_elems 0 s = None"
| "parse_elems (Suc n) s =
     (case parse_value n s of
        None \<Rightarrow> None
      | Some (v, r) \<Rightarrow>
          (case skip_ws r of
             [] \<Rightarrow> None
           | c # t \<Rightarrow>
               if c = CHR '']'' then Some ([(consumed s r, v)], t)
               else if c = CHR '','' then map_option (map_prod ((#) (consumed s r, v)) id) (parse_elems n t)
               else None))"
| "parse_members 0 s = None"
| "parse_members (Suc n) s =
     (case skip_ws s of
        [] \<Rightarrow> None
      | q # t \<Rightarrow>
          if q \<noteq> quote_char then None
          else (case parse_string t of
                  None \<Rightarrow> None
                | Some (k, r) \<Rightarrow>
                    (case skip_ws r of
                       [] \<Rightarrow> None
                     | c # u \<Rightarrow>
                         if c \<noteq> CHR '':'' then None
                         else (case parse_value n u of
                                 None \<Rightarrow> None
                               | Some (v, r') \<Rightarrow>
                                   (case skip_ws r' of
                                      [] \<Rightarrow> None
                                    | d # w \<Rightarrow>
                                        if d = CHR ''}'' then Some ([(k, consumed u r', v)], w)
                                        else if d = CHR '','' then map_option (map_prod ((#) (k, consumed u r', v)) id) (parse_members n w)
                                        else None)))))"

definition json_parse :: "string \<Rightarrow> json option" where
  "json_parse s =
     (case parse_value (Suc (length s)) s of
        None \<Rightarrow> None
      | Some (v, r) \<Rightarrow> if skip_ws r = [] then Some v else None)"

abbreviation json_valid :: "string \<Rightarrow> bool" where
  "json_valid s \<equiv> json_parse s \<noteq> None"

text \<open>Decoding into \<open>map[string]json.RawMessage\<close> and \<open>[]json.RawMessage\<close>: the texts of the members or elements.\<close>

definition object_members :: "string \<Rightarrow> (string \<times> string) list option" where
  "object_members s =
     (case skip_ws s of
        [] \<Rightarrow> None
      | c # t \<Rightarrow>
          if c \<noteq> CHR ''{'' \<or> \<not> json_valid s then None
          else (case skip_ws t of
                  [] \<Rightarrow> None
                | d # r \<Rightarrow> if d = CHR ''}'' then Some []
                           else map_option (\<lambda>m. map (\<lambda>x. (fst x, fst (snd x))) (fst m)) (parse_members (length s) t)))"

definition array_elems :: "string \<Rightarrow> string list option" where
  "array_elems s =
     (case skip_ws s of
        [] \<Rightarrow> None
      | c # t \<Rightarrow>
          if c \<noteq> CHR ''['' \<or> \<not> json_valid s then None
          else (case skip_ws t of
                  [] \<Rightarrow> None
                | d # r \<Rightarrow> if d = CHR '']'' then Some [] else map_option (\<lambda>m. map fst (fst m)) (parse_elems (length s) t)))"

subsection \<open>Printed documents parse\<close>

definition stops :: "string \<Rightarrow> bool" where
  "stops r \<longleftrightarrow> (case r of [] \<Rightarrow> True | c # _ \<Rightarrow> \<not> number_char c)"

definition text_of :: "string \<Rightarrow> json \<Rightarrow> bool" where
  "text_of t v \<longleftrightarrow> (case t of [] \<Rightarrow> False | c # _ \<Rightarrow> \<not> json_space c \<and> c \<noteq> CHR '']'') \<and>
     (\<forall>n r. length t \<le> n \<longrightarrow> stops r \<longrightarrow> parse_value n (t @ r) = Some (v, r))"

lemma stops_simps [simp]: "stops []" "stops (c # r) \<longleftrightarrow> \<not> number_char c"
  by (simp_all add: stops_def)

lemma text_ofI:
  assumes "\<not> json_space c" "c \<noteq> CHR '']''" "\<And>n r. length t \<le> n \<Longrightarrow> stops r \<Longrightarrow> parse_value (Suc n) (c # t @ r) = Some (v, r)"
  shows "text_of (c # t) v"
proof -
  have "parse_value n (c # t @ r) = Some (v, r)" if "Suc (length t) \<le> n" "stops r" for n r
    using that assms(3) [of "n - 1" r] by (cases n) (simp_all del: parse_value.simps)
  with assms(1,2) show ?thesis by (auto simp: text_of_def simp del: parse_value.simps)
qed

lemma text_ofD:
  assumes "text_of t v"
  shows "t \<noteq> []" "\<not> json_space (hd t)" "hd t \<noteq> CHR '']''" "length t \<le> n \<Longrightarrow> stops r \<Longrightarrow> parse_value n (t @ r) = Some (v, r)"
  using assms by (auto simp: text_of_def split: list.splits)


lemma text_null: "text_of ''null'' JNull"
  by (rule text_ofI) (simp_all add: json_space_def parse_scalar_def)

lemma text_bool: "text_of (if b then ''true'' else ''false'') (JBool b)"
  by (cases b) (auto intro!: text_ofI simp: json_space_def parse_scalar_def)

lemma takeWhile_number:
  assumes "list_all number_char s" "stops r"
  shows "takeWhile number_char (s @ r) = s" "dropWhile number_char (s @ r) = r"
  using assms by (cases r; induction s; simp)+

lemma number_start:
  assumes "valid_number s"
  obtains c u where "s = c # u" "c = CHR ''-'' \<or> is_digit c"
  using assms by (cases s) (auto simp: valid_number_def Let_def split: if_splits)

lemma text_number: "valid_number s \<Longrightarrow> text_of s (JNum s)"
proof -
  assume s: "valid_number s"
  then obtain c u where cu: "s = c # u" "c = CHR ''-'' \<or> is_digit c" by (rule number_start)
  from s have num: "list_all number_char s" by (simp add: valid_number_def Let_def)
  have c: "\<not> json_space c" "c \<notin> {CHR ''{'', CHR ''['', CHR '']'', quote_char, CHR ''n'', CHR ''t'', CHR ''f''}"
    using cu(2) by (auto simp: json_space_def is_digit_def)
  have "parse_scalar (c # u @ r) = Some (JNum s, r)" if "stops r" for r
    using takeWhile_number [OF num that] s c cu(1) by (simp add: parse_scalar_def)
  with c show ?thesis unfolding cu(1) by (intro text_ofI) simp_all
qed

lemma text_string: "text_of (json_string s) (JStr (to_valid_utf8 s))"
  unfolding json_string_def
  by (rule text_ofI) (use parse_json_string [of s] in \<open>simp_all add: json_space_def json_string_def\<close>)

lemma consumed_text: "text_of t v \<Longrightarrow> consumed (t @ r) r = t"
  using text_ofD(1,2) [of t v] by (cases t) (simp_all add: consumed_def)

lemma separators [simp]:
  "\<not> number_char (CHR '','')" "\<not> number_char (CHR '']'')" "\<not> number_char (CHR ''}'')" "\<not> number_char (CHR '':'')"
  "\<not> json_space (CHR '','')" "\<not> json_space (CHR '']'')" "\<not> json_space (CHR ''}'')" "\<not> json_space (CHR '':'')"
  "\<not> json_space quote_char" "\<not> json_space (CHR ''['')" "\<not> json_space (CHR ''{'')"
  by (simp_all add: number_char_def json_space_def is_digit_def)

lemma parse_elems_texts:
  "list_all2 text_of ts vs \<Longrightarrow> ts \<noteq> [] \<Longrightarrow> Suc (length (strings_join ts '','')) \<le> n \<Longrightarrow>
   parse_elems n (strings_join ts '','' @ CHR '']'' # r) = Some (zip ts vs, r)"
proof (induction ts vs arbitrary: n rule: list_all2_induct)
  case (Cons t ts v vs)
  from Cons.prems(2) obtain m where n: "n = Suc m" by (cases n) auto
  show ?case
  proof (cases ts)
    case Nil
    with Cons n show ?thesis
      using text_ofD(4) [OF Cons.hyps(1), of m "CHR '']'' # r"] consumed_text [OF Cons.hyps(1), of "CHR '']'' # r"] by simp
  next
    case (Cons t' ts')
    with Cons.prems(2) n have m: "length t \<le> m" "Suc (length (strings_join ts '','')) \<le> m" by simp_all
    let ?r = "CHR '','' # strings_join ts '','' @ CHR '']'' # r"
    have "strings_join (t # ts) '','' @ CHR '']'' # r = t @ ?r" using Cons by simp
    then show ?thesis
      using text_ofD(4) [OF Cons.hyps(1) m(1), of ?r] consumed_text [OF Cons.hyps(1), of ?r] Cons.IH [OF _ m(2)] local.Cons n by simp
  qed
qed simp

lemma strings_join_head: "ts \<noteq> [] \<Longrightarrow> hd ts \<noteq> [] \<Longrightarrow> \<exists>u. strings_join ts sep = hd (hd ts) # u"
  by (cases "(ts, sep)" rule: strings_join.cases) (auto simp: neq_Nil_conv)

lemma text_array: "list_all2 text_of ts vs \<Longrightarrow> text_of (json_array ts) (JArr vs)"
proof (cases ts)
  case Nil
  moreover assume "list_all2 text_of ts vs"
  ultimately show ?thesis by (auto simp: json_array_def intro!: text_ofI)
next
  case (Cons t ts')
  moreover assume all: "list_all2 text_of ts vs"
  ultimately obtain v where t: "text_of t v" by (cases vs) auto
  from strings_join_head [of ts "'',''"] text_ofD(1-3) [OF t] Cons obtain u where
    u: "strings_join ts '','' = hd t # u" "\<not> json_space (hd t)" "hd t \<noteq> CHR '']''" by auto
  show ?thesis
    unfolding json_array_def
  proof (rule text_ofI)
    fix n r
    assume "length (strings_join ts '','' @ '']'') \<le> n"
    with parse_elems_texts [OF all, of n r] Cons
    have "parse_elems n (strings_join ts '','' @ CHR '']'' # r) = Some (zip ts vs, r)" by simp
    moreover have "map snd (zip ts vs) = vs" using all by (simp add: list_all2_lengthD map_snd_zip)
    ultimately show "parse_value (Suc n) (CHR ''['' # (strings_join ts '','' @ '']'') @ r) = Some (JArr vs, r)"
      using u by simp
  qed simp_all
qed

abbreviation member_text :: "string \<times> string \<Rightarrow> string" where
  "member_text kt \<equiv> json_string (fst kt) @ CHR '':'' # snd kt"

definition read_member :: "string \<times> string \<Rightarrow> json \<Rightarrow> string \<times> string \<times> json" where
  "read_member kt v = (to_valid_utf8 (fst kt), snd kt, v)"

lemma parse_member:
  assumes "text_of (snd kt) v" "stops r" "length (member_text kt) \<le> n" "r = d # w" "\<not> json_space d"
  shows "parse_members (Suc n) (member_text kt @ r) =
    (if d = CHR ''}'' then Some ([read_member kt v], w)
     else if d = CHR '','' then map_option (map_prod ((#) (read_member kt v)) id) (parse_members n w) else None)"
proof -
  have len: "length (snd kt) \<le> n" using assms(3) by simp
  have "skip_ws (member_text kt @ r) = quote_char # tl (json_string (fst kt)) @ CHR '':'' # snd kt @ r"
    by (simp add: json_string_def)
  moreover have "parse_string (tl (json_string (fst kt)) @ CHR '':'' # snd kt @ r) = Some (to_valid_utf8 (fst kt), CHR '':'' # snd kt @ r)"
    by (rule parse_json_string)
  moreover have "parse_value n (snd kt @ r) = Some (v, r)" by (rule text_ofD(4) [OF assms(1) len assms(2)])
  moreover have "consumed (snd kt @ r) r = snd kt" by (rule consumed_text [OF assms(1)])
  moreover have "skip_ws r = d # w" using assms(4,5) by simp
  ultimately show ?thesis by (simp add: read_member_def)
qed

lemma parse_members_texts:
  "list_all2 (\<lambda>kt v. text_of (snd kt) v) kts vs \<Longrightarrow> kts \<noteq> [] \<Longrightarrow> Suc (length (strings_join (map member_text kts) '','')) \<le> n \<Longrightarrow>
   parse_members n (strings_join (map member_text kts) '','' @ CHR ''}'' # r) = Some (map2 read_member kts vs, r)"
proof (induction kts vs arbitrary: n rule: list_all2_induct)
  case (Cons kt kts v vs)
  from Cons.prems(2) obtain m where n: "n = Suc m" by (cases n) auto
  show ?case
  proof (cases kts)
    case Nil
    with Cons n show ?thesis
      using parse_member [OF Cons.hyps(1), of "CHR ''}'' # r" m "CHR ''}''" r] by simp
  next
    case (Cons kt' kts')
    with Cons.prems(2) n have m: "length (member_text kt) \<le> m" "Suc (length (strings_join (map member_text kts) '','')) \<le> m" by simp_all
    let ?w = "strings_join (map member_text kts) '','' @ CHR ''}'' # r"
    have "strings_join (map member_text (kt # kts)) '','' @ CHR ''}'' # r = member_text kt @ CHR '','' # ?w" using Cons by simp
    then show ?thesis
      using parse_member [OF Cons.hyps(1) _ m(1), of "CHR '','' # ?w" "CHR '',''" ?w] Cons.IH [OF _ m(2)] local.Cons n by simp
  qed
qed simp

lemma member_join_head: "kts \<noteq> [] \<Longrightarrow> \<exists>u. strings_join (map member_text kts) sep = quote_char # u"
  using strings_join_head [of "map member_text kts" sep] by (cases kts) (auto simp: json_string_def)

lemma text_object:
  assumes "list_all2 (\<lambda>kt v. text_of (snd kt) v) kts vs"
  shows "text_of (json_object kts) (JObj (zip (map (to_valid_utf8 \<circ> fst) kts) vs))"
proof (cases "kts = []")
  case True
  then show ?thesis by (auto simp: json_object_def intro!: text_ofI)
next
  case False
  then obtain u where u: "strings_join (map member_text kts) '','' = quote_char # u" using member_join_head by blast
  have shape: "map (\<lambda>m. (fst m, snd (snd m))) (map2 read_member kts vs) = zip (map (to_valid_utf8 \<circ> fst) kts) vs"
    using assms by (induction kts vs rule: list_all2_induct) (simp_all add: read_member_def)
  show ?thesis
    unfolding json_object_def
  proof (rule text_ofI)
    fix n r
    assume "length (strings_join (map member_text kts) '','' @ ''}'') \<le> n"
    with parse_members_texts [OF assms False, of n r]
    have "parse_members n (strings_join (map member_text kts) '','' @ CHR ''}'' # r) = Some (map2 read_member kts vs, r)" by simp
    with u shape show "parse_value (Suc n) (CHR ''{'' # (strings_join (map member_text kts) '','' @ ''}'') @ r) =
        Some (JObj (zip (map (to_valid_utf8 \<circ> fst) kts) vs), r)" by simp
  qed simp_all
qed

text \<open>What a printed document is read as: the same document, with its strings made UTF-8.\<close>

fun coerce :: "json \<Rightarrow> json" where
  "coerce (JStr s) = JStr (to_valid_utf8 s)"
| "coerce (JArr vs) = JArr (map coerce vs)"
| "coerce (JObj kvs) = JObj (map (\<lambda>(k, v). (to_valid_utf8 k, coerce v)) kvs)"
| "coerce v = v"

fun numbers_ok :: "json \<Rightarrow> bool" where
  "numbers_ok (JNum s) \<longleftrightarrow> valid_number s"
| "numbers_ok (JArr vs) \<longleftrightarrow> (\<forall>v \<in> set vs. numbers_ok v)"
| "numbers_ok (JObj kvs) \<longleftrightarrow> (\<forall>kv \<in> set kvs. numbers_ok (snd kv))"
| "numbers_ok v \<longleftrightarrow> True"

lemma text_print:
  shows "numbers_ok v \<Longrightarrow> text_of (json_print v) (coerce v)"
    and "list_all numbers_ok vs \<Longrightarrow> list_all2 text_of (print_elems vs) (map coerce vs)"
    and "list_all (\<lambda>kv. numbers_ok (snd kv)) kvs \<Longrightarrow>
      list_all2 (\<lambda>kt v. text_of (snd kt) v) (print_members kvs) (map (\<lambda>kv. coerce (snd kv)) kvs) \<and>
      map fst (print_members kvs) = map fst kvs"
proof (induction v and vs and kvs rule: json_print_print_elems_print_members.induct)
  case (5 vs)
  then show ?case by (simp add: list_all_iff text_array)
next
  case (6 kvs)
  then have IH: "list_all2 (\<lambda>kt v. text_of (snd kt) v) (print_members kvs) (map (\<lambda>kv. coerce (snd kv)) kvs)"
      "map fst (print_members kvs) = map fst kvs"
    by (simp_all add: list_all_iff)
  have "zip (map (to_valid_utf8 \<circ> fst) (print_members kvs)) (map (\<lambda>kv. coerce (snd kv)) kvs) =
      map (\<lambda>(k, v). (to_valid_utf8 k, coerce v)) kvs"
    by (simp add: IH(2) flip: map_map) (induction kvs, auto)
  with text_object [OF IH(1)] show ?case by simp
next
  case (2 b)
  from text_bool [of b] show ?case by simp
qed (simp_all add: text_null text_number text_string)

lemma json_parse_text: "text_of t v \<Longrightarrow> json_parse t = Some v"
  using text_ofD(4) [of t v "Suc (length t)" "[]"] by (simp add: json_parse_def del: parse_value.simps)

lemma object_members_text:
  assumes "list_all2 (\<lambda>kt v. text_of (snd kt) v) kts vs"
  shows "object_members (json_object kts) = Some (map (\<lambda>kt. (to_valid_utf8 (fst kt), snd kt)) kts)"
proof (cases "kts = []")
  case True
  with json_parse_text [OF text_object [OF assms]] show ?thesis by (simp add: object_members_def json_object_def)
next
  case False
  then obtain u where u: "strings_join (map member_text kts) '','' = quote_char # u" using member_join_head by blast
  have shape: "map (\<lambda>x. (fst x, fst (snd x))) (map2 read_member kts vs) = map (\<lambda>kt. (to_valid_utf8 (fst kt), snd kt)) kts"
    using assms by (induction kts vs rule: list_all2_induct) (simp_all add: read_member_def)
  from parse_members_texts [OF assms False, of "length (json_object kts)" "[]"]
  have "parse_members (length (json_object kts)) (strings_join (map member_text kts) '','' @ ''}'') = Some (map2 read_member kts vs, [])"
    by (simp add: json_object_def)
  with u shape json_parse_text [OF text_object [OF assms]] show ?thesis
    by (simp add: object_members_def json_object_def)
qed

lemma array_elems_text:
  assumes "list_all2 text_of ts vs"
  shows "array_elems (json_array ts) = Some ts"
proof (cases ts)
  case Nil
  with json_parse_text [OF text_array [OF assms]] show ?thesis by (simp add: array_elems_def json_array_def)
next
  case (Cons t ts')
  with assms obtain v where t: "text_of t v" by (cases vs) auto
  from strings_join_head [of ts "'',''"] text_ofD(1-3) [OF t] Cons obtain u where
    u: "strings_join ts '','' = hd t # u" "\<not> json_space (hd t)" "hd t \<noteq> CHR '']''" by auto
  from parse_elems_texts [OF assms, of "length (json_array ts)" "[]"] Cons
  have "parse_elems (length (json_array ts)) (strings_join ts '','' @ '']'') = Some (zip ts vs, [])"
    by (simp add: json_array_def)
  moreover have "map fst (zip ts vs) = ts" using assms by (simp add: list_all2_lengthD)
  ultimately show ?thesis using u json_parse_text [OF text_array [OF assms]]
    by (simp add: array_elems_def json_array_def)
qed

subsection \<open>Enough fuel\<close>

lemma parse_body_shorter: "parse_body s = Some (b, r) \<Longrightarrow> length r < length s"
proof (induction s arbitrary: b rule: parse_body.induct)
  case (2 c s)
  then show ?case by (auto split: if_splits option.splits) (fastforce+)?
qed simp

lemma parse_string_shorter: "parse_string s = Some (b, r) \<Longrightarrow> length r < length s"
  using parse_body_shorter by (auto simp: parse_string_def)

lemma parse_scalar_shorter: "parse_scalar s = Some (v, r) \<Longrightarrow> length r < length s"
proof -
  assume *: "parse_scalar s = Some (v, r)"
  have "length (takeWhile number_char s) + length (dropWhile number_char s) = length s"
    by (simp flip: length_append)
  moreover have "valid_number u \<Longrightarrow> 0 < length u" for u by (erule number_start) simp
  ultimately show ?thesis using * by (cases s) (auto simp: parse_scalar_def split: if_splits)
qed

lemma skip_ws_shorter: "skip_ws s = c # t \<Longrightarrow> length t < length s"
  by (metis length_Cons length_dropWhile_le Suc_le_eq)

lemmas shorter = parse_string_shorter parse_scalar_shorter skip_ws_shorter

lemma elems_Some:
  "parse_elems (Suc n) s = Some (vs, r) \<longleftrightarrow>
   (\<exists>v r0 c t. parse_value n s = Some (v, r0) \<and> skip_ws r0 = c # t \<and>
      (c = CHR '']'' \<and> vs = [(consumed s r0, v)] \<and> r = t \<or>
       c = CHR '','' \<and> (\<exists>ws. parse_elems n t = Some (ws, r) \<and> vs = (consumed s r0, v) # ws)))"
  by (auto simp del: dropWhile_eq_Nil_conv split: option.splits list.splits if_splits)

lemma members_Some:
  "parse_members (Suc n) s = Some (ms, r) \<longleftrightarrow>
   (\<exists>t k r1 u v r0 d w. skip_ws s = quote_char # t \<and> parse_string t = Some (k, r1) \<and> skip_ws r1 = CHR '':'' # u \<and>
      parse_value n u = Some (v, r0) \<and> skip_ws r0 = d # w \<and>
      (d = CHR ''}'' \<and> ms = [(k, consumed u r0, v)] \<and> r = w \<or>
       d = CHR '','' \<and> (\<exists>ns. parse_members n w = Some (ns, r) \<and> ms = (k, consumed u r0, v) # ns)))"
  by (auto simp del: dropWhile_eq_Nil_conv split: option.splits list.splits if_splits)

declare parse_elems.simps(2) [simp del] parse_members.simps(2) [simp del]

lemma fuel_enough:
  shows "parse_value n s = Some (v, r) \<Longrightarrow> length r < length s \<and> (\<forall>m. length s - length r \<le> m \<longrightarrow> parse_value m s = Some (v, r))"
    and "parse_elems n s = Some (vs, r) \<Longrightarrow> length r < length s \<and> (\<forall>m. length s - length r \<le> m \<longrightarrow> parse_elems m s = Some (vs, r))"
    and "parse_members n s = Some (ms, r) \<Longrightarrow> length r < length s \<and> (\<forall>m. length s - length r \<le> m \<longrightarrow> parse_members m s = Some (ms, r))"
proof (induction n s and n s and n s arbitrary: v r and vs r and ms r rule: parse_value_parse_elems_parse_members.induct)
  case (2 n s)
  from 2(3) obtain c t where c: "skip_ws s = c # t" by (auto split: list.splits)
  note len = skip_ws_shorter [OF c]
  have fuel: "\<exists>k. m = Suc k \<and> length t - length r \<le> k" if "length s - length r \<le> m" "length r < length s" for m
    using that len by (cases m) auto
  show ?case
  proof (cases "c = CHR ''{'' \<or> c = CHR ''[''")
    case False
    have "length r < Suc (length t)"
    proof (cases "c = quote_char")
      case True
      with 2(3) c show ?thesis by (auto dest: parse_string_shorter)
    next
      case other: False
      with 2(3) c False have "parse_scalar (c # t) = Some (v, r)" by simp
      from parse_scalar_shorter [OF this] show ?thesis by simp
    qed
    with len have "length r < length s" by simp
    with False 2(3) c show ?thesis by (auto dest: fuel)
  next
    case True
    from True 2(3) c obtain d u where d: "skip_ws t = d # u"
      by (auto simp del: dropWhile_eq_Nil_conv split: list.splits)
    note len' = skip_ws_shorter [OF d]
    show ?thesis
    proof (cases "c = CHR ''{'' \<and> d \<noteq> CHR ''}'' \<or> c = CHR ''['' \<and> d \<noteq> CHR '']''")
      case False
      with True 2(3) c d have "r = u" by (auto split: if_splits)
      with len len' have "length r < length s" by simp
      with True False 2(3) c d show ?thesis by (auto dest: fuel)
    next
      case nonempty: True
      from nonempty 2(3) c d have "(\<exists>ms. c = CHR ''{'' \<and> parse_members n t = Some (ms, r)) \<or> (\<exists>vs. c = CHR ''['' \<and> parse_elems n t = Some (vs, r))"
        by auto
      then show ?thesis
      proof (elim disjE exE conjE)
        fix ms assume ms: "c = CHR ''{''" "parse_members n t = Some (ms, r)"
        from "2.IH"(1) [OF c _ d _ ms(2)] nonempty ms(1)
        have "length r < length t" "\<And>m. length t - length r \<le> m \<Longrightarrow> parse_members m t = Some (ms, r)" by auto
        with len nonempty ms 2(3) c d show ?thesis by (auto dest!: fuel)
      next
        fix vs assume vs: "c = CHR ''[''" "parse_elems n t = Some (vs, r)"
        from "2.IH"(2) [OF c _ _ d _ vs(2)] nonempty vs(1)
        have "length r < length t" "\<And>m. length t - length r \<le> m \<Longrightarrow> parse_elems m t = Some (vs, r)" by auto
        with len nonempty vs 2(3) c d show ?thesis by (auto dest!: fuel)
      qed
    qed
  qed
next
  case (4 n s)
  from 4(3) obtain v0 r0 c t where v: "parse_value n s = Some (v0, r0)" "skip_ws r0 = c # t"
    by (auto simp: elems_Some)
  from 4(1) [OF v(1)] skip_ws_shorter [OF v(2)]
  have len: "length t < length r0" "length r0 < length s" and inner: "length s - length r0 \<le> m \<Longrightarrow> parse_value m s = Some (v0, r0)" for m
    by auto
  have step: "length r < length s \<and> (\<forall>m. length s - length r \<le> m \<longrightarrow> parse_elems m s = Some (vs, r))"
    if "length r \<le> length t" "\<And>m. length t - length r \<le> m \<Longrightarrow> parse_value m s = Some (v0, r0) \<Longrightarrow> parse_elems (Suc m) s = Some (vs, r)"
  proof (intro conjI allI impI)
    show "length r < length s" using that len by simp
    fix m assume "length s - length r \<le> m"
    with that(1) len obtain k where "m = Suc k" "length s - length r0 \<le> k" "length t - length r \<le> k" by (cases m) auto
    with that(2) inner show "parse_elems m s = Some (vs, r)" by blast
  qed
  from 4(3) v consider "c = CHR '']''" "vs = [(consumed s r0, v0)]" "r = t"
    | ws where "c = CHR '',''" "parse_elems n t = Some (ws, r)" "vs = (consumed s r0, v0) # ws"
    by (auto simp: elems_Some)
  then show ?case
  proof cases
    case 1
    with v show ?thesis by (intro step) (auto simp: elems_Some)
  next
    case 2
    from "4.IH"(2) [OF v(1) refl v(2) _ _ 2(2)] 2(1) have "length r < length t" "\<And>m. length t - length r \<le> m \<Longrightarrow> parse_elems m t = Some (ws, r)"
      by auto
    with 2 v show ?thesis by (intro step) (auto simp: elems_Some)
  qed
next
  case (6 n s)
  from 6(3) obtain t k r1 u v0 r0 d w where k: "skip_ws s = quote_char # t" "parse_string t = Some (k, r1)" "skip_ws r1 = CHR '':'' # u"
      and v: "parse_value n u = Some (v0, r0)" "skip_ws r0 = d # w"
    by (auto simp: members_Some)
  from 6(1) [OF k(1) _ k(2) refl k(3) _ v(1)] shorter(1) [OF k(2)] shorter(3) [OF k(1)] shorter(3) [OF k(3)] shorter(3) [OF v(2)]
  have len: "length w < length r0" "length r0 < length u" "length u < length s"
      and inner: "length u - length r0 \<le> m \<Longrightarrow> parse_value m u = Some (v0, r0)" for m
    by auto
  have step: "length r < length s \<and> (\<forall>m. length s - length r \<le> m \<longrightarrow> parse_members m s = Some (ms, r))"
    if "length r \<le> length w" "\<And>m. length w - length r \<le> m \<Longrightarrow> parse_value m u = Some (v0, r0) \<Longrightarrow> parse_members (Suc m) s = Some (ms, r)"
  proof (intro conjI allI impI)
    show "length r < length s" using that len by simp
    fix m assume "length s - length r \<le> m"
    with that(1) len obtain j where "m = Suc j" "length u - length r0 \<le> j" "length w - length r \<le> j" by (cases m) auto
    with that(2) inner show "parse_members m s = Some (ms, r)" by blast
  qed
  from 6(3) k v consider "d = CHR ''}''" "ms = [(k, consumed u r0, v0)]" "r = w"
    | ns where "d = CHR '',''" "parse_members n w = Some (ns, r)" "ms = (k, consumed u r0, v0) # ns"
    by (auto simp: members_Some)
  then show ?case
  proof cases
    case 1
    with k v show ?thesis by (intro step) (auto simp: members_Some)
  next
    case 2
    from "6.IH"(2) [OF k(1) _ k(2) refl k(3) _ v(1) refl v(2) _ _ 2(2)] 2(1)
    have "length r < length w" "\<And>m. length w - length r \<le> m \<Longrightarrow> parse_members m w = Some (ns, r)" by auto
    with 2 k v show ?thesis by (intro step) (auto simp: members_Some)
  qed
qed simp_all

lemma json_parse_complete:
  assumes "parse_value n s = Some (v, r)" "skip_ws r = []"
  shows "json_parse s = Some v"
proof -
  from fuel_enough(1) [OF assms(1)] have "parse_value (Suc (length s)) s = Some (v, r)"
    by (simp del: parse_value.simps)
  with assms(2) show ?thesis by (simp add: json_parse_def)
qed

subsection \<open>Compaction\<close>

text \<open>
  \<open>json.Marshal\<close> copies the output of a custom marshaler without the blanks outside its strings and
  with the HTML characters and line separators escaped. Its output for a printed document is the document.
\<close>

function compact :: "bool \<Rightarrow> bool \<Rightarrow> string \<Rightarrow> string" where
  "compact inside escaped [] = []"
| "compact inside escaped (c # s) =
     (if \<not> inside then (if json_space c then compact False False s else c # compact (c = quote_char) False s)
      else if escaped then c # compact True False s
      else if c = escape_char then c # compact True True s
      else if c = quote_char then c # compact False False s
      else if c = CHR ''<'' \<or> c = CHR ''>'' \<or> c = CHR ''&'' then esc_ascii c @ compact True False s
      else if take 3 (c # s) = line_separator then escape_char # ''u2028'' @ compact True False (drop 2 s)
      else if take 3 (c # s) = paragraph_separator then escape_char # ''u2029'' @ compact True False (drop 2 s)
      else c # compact True False s)"
  by pat_completeness auto
termination
  by (relation "measure (\<lambda>(inside, escaped, s). length s)") auto

definition json_compact :: "string \<Rightarrow> string" where
  "json_compact s = compact False False s"

definition plain_inside :: "char \<Rightarrow> bool" where
  "plain_inside c \<longleftrightarrow> c \<notin> {escape_char, quote_char, CHR ''<'', CHR ''>'', CHR ''&''} \<and> byte c \<noteq> 226"

lemma compact_plain:
  "list_all plain_inside r \<Longrightarrow> compact True False (r @ t) = r @ compact True False t"
  by (induction r) (auto simp: plain_inside_def line_separator_def paragraph_separator_def)

lemma compact_escape:
  "list_all plain_inside r \<Longrightarrow> compact True False (escape_char # e # r @ t) = escape_char # e # r @ compact True False t"
  by (simp add: compact_plain)

lemma plain_hex: "n < 16 \<Longrightarrow> plain_inside (hex_char n)"
  using hex_val_char [of n] by (auto simp: plain_inside_def hex_val_def split: if_splits)

lemma compact_ascii:
  assumes "byte c < 128"
  shows "compact True False (esc_ascii c @ t) = esc_ascii c @ compact True False t"
proof (cases "map_of short_escapes c")
  case (Some e)
  then show ?thesis by (simp add: esc_ascii_def)
next
  case None
  have ext: "c \<noteq> quote_char" "c \<noteq> escape_char" using None by (auto simp: short_escapes_def split: if_splits)
  have "list_all plain_inside [CHR ''0'', CHR ''0'', hex_char (byte c div 16), hex_char (byte c mod 16)]"
    by (simp add: plain_hex) (simp add: plain_inside_def)
  from compact_escape [OF this, of "CHR ''u''" t] compact_plain [of "[c]" t] None ext assms show ?thesis
    by (auto simp: esc_ascii_def plain_inside_def)
qed

lemma compact_rune: "compact True False (esc_rune r @ t) = esc_rune r @ compact True False t"
proof (cases "valid_rune r \<and> r \<noteq> line_separator \<and> r \<noteq> paragraph_separator")
  case False
  then show ?thesis
    using compact_escape [of "''fffd''" "CHR ''u''" t] compact_escape [of "''2028''" "CHR ''u''" t] compact_escape [of "''2029''" "CHR ''u''" t]
    by (auto simp: esc_rune_def plain_inside_def)
next
  case True
  then have "valid_rune r" by simp
  then show ?thesis
  proof (cases rule: valid_rune_cases)
    case (1 c)
    with True compact_ascii [of c t] show ?thesis by (simp add: esc_rune_def)
  next
    case 2
    with True have esc: "esc_rune r = r" by (simp add: esc_rune_def)
    obtain a r' where r: "r = a # r'" using \<open>valid_rune r\<close> by (cases r) (auto simp: valid_rune_def)
    have tail: "list_all plain_inside r'"
      using \<open>valid_rune r\<close> unfolding r
      by (auto simp: valid_rune_def plain_inside_def cont_byte_def split: if_splits list.splits)
    have first: "a \<notin> {escape_char, quote_char, CHR ''<'', CHR ''>'', CHR ''&''}" using 2 r by auto
    have sep: "take 3 (a # r' @ t) \<noteq> s" if "s \<in> {line_separator, paragraph_separator}" for s
    proof
      assume *: "take 3 (a # r' @ t) = s"
      then have "byte a = 226" using that by (auto simp: line_separator_def paragraph_separator_def)
      then have "length r' = 2" using \<open>valid_rune r\<close> unfolding r by (auto simp: valid_rune_def split: if_splits list.splits)
      with * that True r show False by auto
    qed
    have "compact True False (a # r' @ t) = a # compact True False (r' @ t)"
      using first sep [of line_separator] sep [of paragraph_separator] by (simp del: take_Suc_Cons)
    with esc r compact_plain [OF tail, of t] show ?thesis by simp
  qed
qed

lemma compact_string: "compact False False (json_string s @ t) = json_string s @ compact False False t"
proof -
  have "compact True False (concat (map esc_rune rs) @ quote_char # t) = concat (map esc_rune rs) @ quote_char # compact False False t" for rs
    by (induction rs) (simp_all add: compact_rune)
  then show ?thesis by (simp add: json_string_def)
qed

lemma compact_outside:
  "list_all (\<lambda>c. \<not> json_space c \<and> c \<noteq> quote_char) r \<Longrightarrow> compact False False (r @ t) = r @ compact False False t"
  by (induction r) simp_all

definition compacted :: "string \<Rightarrow> bool" where
  "compacted s \<longleftrightarrow> (\<forall>t. compact False False (s @ t) = s @ compact False False t)"

lemma compacted_join:
  "list_all compacted ts \<Longrightarrow> compacted (strings_join ts '','')"
  by (induction ts "'',''" rule: strings_join.induct) (simp_all add: compacted_def)

lemma compacted_print:
  shows "numbers_ok v \<Longrightarrow> compacted (json_print v)"
    and "list_all numbers_ok vs \<Longrightarrow> list_all compacted (print_elems vs)"
    and "list_all (\<lambda>kv. numbers_ok (snd kv)) kvs \<Longrightarrow> list_all (\<lambda>kt. compacted (snd kt)) (print_members kvs)"
proof (induction v and vs and kvs rule: json_print_print_elems_print_members.induct)
  case (3 s)
  then have "list_all number_char s" by (simp add: valid_number_def Let_def)
  then have "list_all (\<lambda>c. \<not> json_space c \<and> c \<noteq> quote_char) s"
    by (rule list.pred_mono_strong) (auto simp: number_char_def json_space_def is_digit_def)
  then show ?case by (simp add: compacted_def compact_outside)
next
  case (5 vs)
  then have "compacted (strings_join (print_elems vs) '','')" by (intro compacted_join) (simp add: list_all_iff)
  then show ?case by (simp add: compacted_def json_array_def)
next
  case (6 kvs)
  then have "list_all (\<lambda>kt. compacted (snd kt)) (print_members kvs)" by (simp add: list_all_iff)
  then have "list_all compacted (map (\<lambda>kt. json_string (fst kt) @ CHR '':'' # snd kt) (print_members kvs))"
    by (auto simp: list_all_iff compacted_def compact_string)
  from compacted_join [OF this] show ?case by (simp add: compacted_def json_object_def)
qed (simp_all add: compacted_def compact_outside compact_string, simp_all add: json_space_def)

lemma json_compact_print: "numbers_ok v \<Longrightarrow> json_compact (json_print v) = json_print v"
  using compacted_print(1) [of v] by (metis append_Nil2 compact.simps(1) compacted_def json_compact_def)

end
