(* ===== verification/Message_Json.thy ===== *)
theory Message_Json
  imports Model_Messages Json_Text
begin

section \<open>Message encoding\<close>

text \<open>
  \<open>runtime/agent/model/json.go\<close>, with the raw values of \<open>runtime/agent/rawjson\<close> and the transcript deltas
  of \<open>runtime/agent/transcript/runlog_delta.go\<close>: messages as JSON texts with a kind per part, decoded with
  exact field names. Encoders produce texts, decoders read texts, both over the documents of
  \<open>Json_Text\<close>. Nil and empty slices are the same list; \<open>ft\<close> renders floating point numbers. A field that
  occurs twice is decoded twice, the second value over the first, and \<open>null\<close> leaves a scalar field as it is;
  of a repeated object the last occurrence counts.
  The main lemma is the round trip of messages in canonical form, which is the form decoding produces.
\<close>

datatype json_error =
    ImageIncomplete
  | DocumentNameMissing
  | DocumentSourceCount
  | DocumentChunkEmpty nat
  | ToolUseIncomplete
  | ToolUseInputInvalid
  | ToolResultIncomplete
  | UnknownPartType
  | UnsupportedValue
  | RawMessageEmpty
  | RawMessageInvalid
  | EncodePart nat json_error
  | InvalidJSON
  | ObjectExpected
  | UnknownField string
  | KindMissing
  | UnknownKind string
  | WrongType
  | DecodePart nat json_error
  | InCitation nat json_error
  | NilMessage

subsection \<open>Encoding\<close>

abbreviation null_text :: string where "null_text \<equiv> ''null''"

definition bool_text :: "bool \<Rightarrow> string" where
  "bool_text b = (if b then ''true'' else ''false'')"

definition bytes_text :: "string \<Rightarrow> string" where
  "bytes_text b = (if b = [] then null_text else json_string (base64_encode b))"

definition strings_text :: "string list \<Rightarrow> string" where
  "strings_text ss = (if ss = [] then null_text else json_array (map json_string ss))"

fun span_text :: "span option \<Rightarrow> string" where
  "span_text None = null_text"
| "span_text (Some l) =
     json_object [(''document_index'', show_int (span_document_index l)), (''start'', show_int (span_start l)), (''end'', show_int (span_end l))]"

definition location_text :: "citation_location \<Rightarrow> string" where
  "location_text l =
     json_object [(''document_char'', span_text (loc_char l)), (''document_chunk'', span_text (loc_chunk l)),
                  (''document_page'', span_text (loc_page l))]"

definition citation_text :: "citation \<Rightarrow> string" where
  "citation_text c =
     json_object [(''title'', json_string (cit_title c)), (''source'', json_string (cit_source c)),
                  (''location'', location_text (cit_location c)), (''source_content'', strings_text (cit_source_content c))]"

definition citations_text :: "citation list \<Rightarrow> string" where
  "citations_text cs = (if cs = [] then null_text else json_array (map citation_text cs))"

text \<open>
  Values of type \<open>any\<close>: \<open>json.Marshal\<close> sorts the keys of maps. Kinds outside the JSON-compatible ones are
  refused.
\<close>

fun value_json :: "(int \<Rightarrow> int \<Rightarrow> string) \<Rightarrow> gvalue \<Rightarrow> json option"
  and values_json :: "(int \<Rightarrow> int \<Rightarrow> string) \<Rightarrow> gvalue list \<Rightarrow> json list option"
  and entries_json :: "(int \<Rightarrow> int \<Rightarrow> string) \<Rightarrow> (string \<times> gvalue) list \<Rightarrow> (string \<times> json) list option" where
  "value_json ft GNil = Some JNull"
| "value_json ft (GBool b) = Some (JBool b)"
| "value_json ft (GInt i) = Some (JNum (show_int i))"
| "value_json ft (GString s) = Some (JStr s)"
| "value_json ft (GNumber s) = (if s = [] then Some (JNum ''0'') else if valid_number s then Some (JNum s) else None)"
| "value_json ft (GFloat m e) = Some (JNum (ft m e))"
| "value_json ft GNonFinite = None"
| "value_json ft GNilSlice = Some JNull"
| "value_json ft (GSlice vs) = map_option JArr (values_json ft vs)"
| "value_json ft (GArray vs) = map_option JArr (values_json ft vs)"
| "value_json ft GNilMap = Some JNull"
| "value_json ft (GMap kvs) = map_option (\<lambda>es. JObj (sort_key fst es)) (entries_json ft kvs)"
| "value_json ft GBadKeyMap = None"
| "value_json ft (GOpaque kind) = None"
| "values_json ft [] = Some []"
| "values_json ft (v # vs) =
     (case value_json ft v of
        None \<Rightarrow> None
      | Some j \<Rightarrow> map_option ((#) j) (values_json ft vs))"
| "entries_json ft [] = Some []"
| "entries_json ft ((k, v) # kvs) =
     (case value_json ft v of
        None \<Rightarrow> None
      | Some j \<Rightarrow> map_option ((#) (k, j)) (entries_json ft kvs))"

definition value_text :: "(int \<Rightarrow> int \<Rightarrow> string) \<Rightarrow> gvalue \<Rightarrow> (json_error, string) result" where
  "value_text ft v = (case value_json ft v of None \<Rightarrow> Inl UnsupportedValue | Some j \<Rightarrow> Inr (json_print j))"

definition MarshalMetadata :: "(int \<Rightarrow> int \<Rightarrow> string) \<Rightarrow> (string \<times> gvalue) list \<Rightarrow> (json_error, string option) result" where
  "MarshalMetadata ft metadata =
     (if metadata = [] then Inr None
      else case value_text ft (GMap metadata) of Inl e \<Rightarrow> Inl e | Inr t \<Rightarrow> Inr (Some t))"

text \<open>\<open>rawjson.Message\<close>: \<open>None\<close> is nil. The encoder compacts what \<open>MarshalJSON\<close> returns.\<close>

definition raw_MarshalJSON :: "string option \<Rightarrow> (json_error, string) result" where
  "raw_MarshalJSON r =
     (case r of
        None \<Rightarrow> Inr null_text
      | Some data \<Rightarrow>
          if trim_space data = [] then Inl RawMessageEmpty
          else if \<not> json_valid data then Inl RawMessageInvalid
          else Inr (json_compact data))"

definition raw_UnmarshalJSON :: "string \<Rightarrow> (json_error, string option) result" where
  "raw_UnmarshalJSON data =
     (let trimmed = trim_space data
      in if trimmed = [] then Inl RawMessageEmpty
         else if trimmed = null_text then Inr None
         else if \<not> json_valid trimmed then Inl RawMessageInvalid
         else Inr (Some trimmed))"

definition source_count :: "document_part \<Rightarrow> nat" where
  "source_count d =
     (if doc_bytes d \<noteq> [] then 1 else 0) + (if doc_text d \<noteq> [] then 1 else 0) +
     (if doc_chunks d \<noteq> [] then 1 else 0) + (if doc_uri d \<noteq> [] then 1 else 0)"

fun empty_chunk :: "nat \<Rightarrow> string list \<Rightarrow> nat option" where
  "empty_chunk i [] = None"
| "empty_chunk i (chunk # chunks) = (if chunk = [] then Some i else empty_chunk (Suc i) chunks)"

definition validateDocumentPart :: "document_part \<Rightarrow> (json_error, unit) result" where
  "validateDocumentPart d =
     (if doc_name d = [] then Inl DocumentNameMissing
      else if source_count d \<noteq> 1 then Inl DocumentSourceCount
      else case empty_chunk 0 (doc_chunks d) of None \<Rightarrow> Inr () | Some i \<Rightarrow> Inl (DocumentChunkEmpty i))"

definition object_input :: "string \<Rightarrow> bool" where
  "object_input input \<longleftrightarrow>
     (let data = trim_space input in json_valid data \<and> data \<noteq> [] \<and> hd data = CHR ''{'')"

fun encodeMessagePart :: "(int \<Rightarrow> int \<Rightarrow> string) \<Rightarrow> part \<Rightarrow> (json_error, string) result" where
  "encodeMessagePart ft (ThinkingPart v) =
     Inr (json_object [(''kind'', json_string ''thinking''), (''text'', json_string (th_text v)),
       (''signature'', json_string (th_signature v)), (''redacted'', bytes_text (th_redacted v)),
       (''index'', show_int (th_index v)), (''final'', bool_text (th_final v))])"
| "encodeMessagePart ft (TextPart s) = Inr (json_object [(''kind'', json_string ''text''), (''text'', json_string s)])"
| "encodeMessagePart ft (ImagePart f b) =
     (if f = [] \<or> b = [] then Inl ImageIncomplete
      else Inr (json_object [(''kind'', json_string ''image''), (''format'', json_string f), (''bytes'', bytes_text b)]))"
| "encodeMessagePart ft (DocumentPart d) =
     (case validateDocumentPart d of
        Inl e \<Rightarrow> Inl e
      | Inr u \<Rightarrow>
          Inr (json_object [(''kind'', json_string ''document''), (''name'', json_string (doc_name d)),
            (''format'', json_string (doc_format d)), (''bytes'', bytes_text (doc_bytes d)), (''text'', json_string (doc_text d)),
            (''chunks'', strings_text (doc_chunks d)), (''uri'', json_string (doc_uri d)),
            (''context'', json_string (doc_context d)), (''cite'', bool_text (doc_cite d))]))"
| "encodeMessagePart ft (CitationsPart t cs) =
     Inr (json_object [(''kind'', json_string ''citations''), (''text'', json_string t), (''citations'', citations_text cs)])"
| "encodeMessagePart ft (ToolUsePart v) =
     (if tu_id v = [] \<or> tu_name v = [] then Inl ToolUseIncomplete
      else if \<not> object_input (tu_input v) then Inl ToolUseInputInvalid
      else case raw_MarshalJSON (Some (tu_input v)) of
             Inl e \<Rightarrow> Inl e
           | Inr input \<Rightarrow>
               Inr (json_object [(''kind'', json_string ''tool_use''), (''id'', json_string (tu_id v)), (''name'', json_string (tu_name v)),
                 (''input'', input), (''thought_signature'', json_string (tu_thought_signature v))]))"
| "encodeMessagePart ft (ToolResultPart v) =
     (if tr_tool_use_id v = [] then Inl ToolResultIncomplete
      else case value_text ft (tr_content v) of
             Inl e \<Rightarrow> Inl e
           | Inr content \<Rightarrow>
               Inr (json_object [(''kind'', json_string ''tool_result''), (''tool_use_id'', json_string (tr_tool_use_id v)),
                 (''content'', content), (''is_error'', bool_text (tr_is_error v))]))"
| "encodeMessagePart ft CacheCheckpointPart = Inr (json_object [(''kind'', json_string ''cache_checkpoint'')])"
| "encodeMessagePart ft NilPart = Inl UnknownPartType"

fun encode_parts :: "(int \<Rightarrow> int \<Rightarrow> string) \<Rightarrow> nat \<Rightarrow> part list \<Rightarrow> (json_error, string list) result" where
  "encode_parts ft i [] = Inr []"
| "encode_parts ft i (p # ps) =
     (case encodeMessagePart ft p of
        Inl e \<Rightarrow> Inl (EncodePart i e)
      | Inr t \<Rightarrow> (case encode_parts ft (Suc i) ps of Inl e \<Rightarrow> Inl e | Inr ts \<Rightarrow> Inr (t # ts)))"

definition meta_text :: "(int \<Rightarrow> int \<Rightarrow> string) \<Rightarrow> (string \<times> gvalue) list option \<Rightarrow> (json_error, string) result" where
  "meta_text ft m = (case m of None \<Rightarrow> Inr null_text | Some kvs \<Rightarrow> value_text ft (GMap kvs))"

definition Message_MarshalJSON :: "(int \<Rightarrow> int \<Rightarrow> string) \<Rightarrow> message \<Rightarrow> (json_error, string) result" where
  "Message_MarshalJSON ft m =
     (case encode_parts ft 0 (m_parts m) of
        Inl e \<Rightarrow> Inl e
      | Inr ts \<Rightarrow>
          (case meta_text ft (m_meta m) of
             Inl e \<Rightarrow> Inl e
           | Inr meta \<Rightarrow>
               Inr (json_object [(''role'', json_string (role_name (m_role m))),
                 (''parts'', if ts = [] then null_text else json_array ts), (''meta'', meta)])))"

subsection \<open>Decoding\<close>

text \<open>
  One decoder per Go type, from the current value of the target and a text. \<open>decode_field\<close> runs it over
  every occurrence of a field.
\<close>

type_synonym 'a decoder = "'a \<Rightarrow> string \<Rightarrow> (json_error, 'a) result"

definition decode_field :: "'a decoder \<Rightarrow> 'a \<Rightarrow> (string \<times> string) list \<Rightarrow> string \<Rightarrow> (json_error, 'a) result" where
  "decode_field d init members k =
     foldl (\<lambda>acc m. case acc of Inl e \<Rightarrow> Inl e | Inr x \<Rightarrow> d x (snd m)) (Inr init) (filter (\<lambda>m. fst m = k) members)"

definition dec_string :: "string decoder" where
  "dec_string cur raw =
     (case json_parse raw of Some JNull \<Rightarrow> Inr cur | Some (JStr s) \<Rightarrow> Inr s | _ \<Rightarrow> Inl WrongType)"

definition dec_bool :: "bool decoder" where
  "dec_bool cur raw =
     (case json_parse raw of Some JNull \<Rightarrow> Inr cur | Some (JBool b) \<Rightarrow> Inr b | _ \<Rightarrow> Inl WrongType)"

definition dec_int :: "int decoder" where
  "dec_int cur raw =
     (case json_parse raw of
        Some JNull \<Rightarrow> Inr cur
      | Some (JNum s) \<Rightarrow> (case parse_int64 s of None \<Rightarrow> Inl WrongType | Some i \<Rightarrow> Inr i)
      | _ \<Rightarrow> Inl WrongType)"

fun json_byte :: "json \<Rightarrow> (json_error, char) result" where
  "json_byte JNull = Inr (CHR 0x00)"
| "json_byte (JNum s) =
     (case undec s of None \<Rightarrow> Inl WrongType | Some n \<Rightarrow> if n < 256 then Inr (char_of n) else Inl WrongType)"
| "json_byte _ = Inl WrongType"

definition dec_bytes :: "string decoder" where
  "dec_bytes cur raw =
     (case json_parse raw of
        Some JNull \<Rightarrow> Inr []
      | Some (JStr s) \<Rightarrow> (case base64_decode s of None \<Rightarrow> Inl WrongType | Some b \<Rightarrow> Inr b)
      | Some (JArr vs) \<Rightarrow> traverse json_byte vs
      | _ \<Rightarrow> Inl WrongType)"

definition dec_list :: "(string \<Rightarrow> (json_error, 'a) result) \<Rightarrow> 'a list decoder" where
  "dec_list d cur raw =
     (case json_parse raw of
        Some JNull \<Rightarrow> Inr []
      | _ \<Rightarrow> (case array_elems raw of None \<Rightarrow> Inl WrongType | Some ts \<Rightarrow> traverse d ts))"

definition dec_strings :: "string list decoder" where
  "dec_strings = dec_list (dec_string [])"

definition dec_raw :: "string decoder" where
  "dec_raw cur raw = Inr raw"

text \<open>The members of a Go map: the last value of a key wins; the list representing the map is sorted.\<close>

definition map_entries :: "(string \<times> 'a) list \<Rightarrow> (string \<times> 'a) list" where
  "map_entries kvs = map (\<lambda>k. (k, the (map_of (rev kvs) k))) (sort (remdups (map fst kvs)))"

fun json_value_of :: "json \<Rightarrow> gvalue" where
  "json_value_of JNull = GNil"
| "json_value_of (JBool b) = GBool b"
| "json_value_of (JNum s) = GNumber s"
| "json_value_of (JStr s) = GString s"
| "json_value_of (JArr vs) = GSlice (map json_value_of vs)"
| "json_value_of (JObj kvs) = GMap (map_entries (map (\<lambda>(k, v). (k, json_value_of v)) kvs))"

definition dec_any :: "gvalue decoder" where
  "dec_any cur raw = (case json_parse raw of None \<Rightarrow> Inl InvalidJSON | Some j \<Rightarrow> Inr (json_value_of j))"

definition dec_meta :: "(string \<times> gvalue) list option decoder" where
  "dec_meta cur raw =
     (case json_parse raw of
        Some JNull \<Rightarrow> Inr None
      | Some (JObj kvs) \<Rightarrow>
          Inr (Some (map_entries ((case cur of None \<Rightarrow> [] | Some m \<Rightarrow> m) @ map (\<lambda>(k, v). (k, json_value_of v)) kvs)))
      | _ \<Rightarrow> Inl WrongType)"

definition UnmarshalMetadata :: "string option \<Rightarrow> (json_error, (string \<times> gvalue) list option) result" where
  "UnmarshalMetadata data =
     (case data of
        None \<Rightarrow> Inr None
      | Some d \<Rightarrow>
          (let trimmed = trim_space d
           in if trimmed = [] then Inl RawMessageEmpty
              else if hd trimmed \<noteq> CHR ''{'' then Inl ObjectExpected
              else case dec_meta None trimmed of
                     Inl e \<Rightarrow> Inl e
                   | Inr m \<Rightarrow> Inr (if m = Some [] then None else m)))"

definition validateExactJSONKeys :: "string \<Rightarrow> string list \<Rightarrow> (json_error, (string \<times> string) list) result" where
  "validateExactJSONKeys data allowed =
     (case json_parse data of
        None \<Rightarrow> Inl InvalidJSON
      | Some JNull \<Rightarrow> Inl ObjectExpected
      | Some j \<Rightarrow>
          (case object_members data of
             None \<Rightarrow> Inl WrongType
           | Some members \<Rightarrow>
               (case filter (\<lambda>k. k \<notin> set allowed) (sort (map fst members)) of
                  [] \<Rightarrow> Inr members
                | k # _ \<Rightarrow> Inl (UnknownField k))))"

definition dec_span :: "span option decoder" where
  "dec_span cur raw =
     (if json_parse raw = Some JNull then Inr None
      else case validateExactJSONKeys raw [''document_index'', ''start'', ''end''] of
             Inl e \<Rightarrow> Inl e
           | Inr members \<Rightarrow>
               (case (decode_field dec_int 0 members ''document_index'', decode_field dec_int 0 members ''start'', decode_field dec_int 0 members ''end'') of
                  (Inr i, Inr s, Inr e) \<Rightarrow> Inr (Some \<lparr>span_document_index = i, span_start = s, span_end = e\<rparr>)
                | _ \<Rightarrow> Inl WrongType))"

definition dec_location :: "string \<Rightarrow> (json_error, citation_location) result" where
  "dec_location raw =
     (case validateExactJSONKeys raw [''document_char'', ''document_chunk'', ''document_page''] of
        Inl e \<Rightarrow> Inl e
      | Inr members \<Rightarrow>
          (case (decode_field dec_span None members ''document_char'', decode_field dec_span None members ''document_chunk'',
                 decode_field dec_span None members ''document_page'') of
             (Inr a, Inr b, Inr c) \<Rightarrow> Inr \<lparr>loc_char = a, loc_chunk = b, loc_page = c\<rparr>
           | _ \<Rightarrow> Inl WrongType))"

text \<open>The struct decoder and \<open>validateCitationJSON\<close> together: a citation has exactly the known fields and a location object.\<close>

definition dec_citation :: "string \<Rightarrow> (json_error, citation) result" where
  "dec_citation raw =
     (case validateExactJSONKeys raw [''title'', ''source'', ''location'', ''source_content''] of
        Inl e \<Rightarrow> Inl e
      | Inr members \<Rightarrow>
          (case decode_field dec_raw [] members ''location'' of
             Inl e \<Rightarrow> Inl e
           | Inr rawLocation \<Rightarrow>
               (case (decode_field dec_string [] members ''title'', decode_field dec_string [] members ''source'',
                      dec_location rawLocation, decode_field dec_strings [] members ''source_content'') of
                  (Inr t, Inr s, Inr l, Inr c) \<Rightarrow> Inr \<lparr>cit_title = t, cit_source = s, cit_location = l, cit_source_content = c\<rparr>
                | _ \<Rightarrow> Inl WrongType)))"

definition decode_thinking :: "(string \<times> string) list \<Rightarrow> (json_error, part) result" where
  "decode_thinking ms =
     (case (decode_field dec_string [] ms ''text'', decode_field dec_string [] ms ''signature'', decode_field dec_bytes [] ms ''redacted'',
            decode_field dec_int 0 ms ''index'', decode_field dec_bool False ms ''final'') of
        (Inr t, Inr s, Inr r, Inr i, Inr f) \<Rightarrow>
          Inr (ThinkingPart \<lparr>th_text = t, th_signature = s, th_redacted = r, th_index = i, th_final = f\<rparr>)
      | _ \<Rightarrow> Inl WrongType)"

definition decode_image :: "(string \<times> string) list \<Rightarrow> (json_error, part) result" where
  "decode_image ms =
     (case (decode_field dec_string [] ms ''format'', decode_field dec_bytes [] ms ''bytes'') of
        (Inr f, Inr b) \<Rightarrow> if f = [] \<or> b = [] then Inl ImageIncomplete else Inr (ImagePart f b)
      | _ \<Rightarrow> Inl WrongType)"

definition decode_document :: "(string \<times> string) list \<Rightarrow> (json_error, part) result" where
  "decode_document ms =
     (let str = decode_field dec_string [] ms
      in case (str ''name'', str ''format'', decode_field dec_bytes [] ms ''bytes'', str ''text'', decode_field dec_strings [] ms ''chunks'',
               str ''uri'', str ''context'', decode_field dec_bool False ms ''cite'') of
           (Inr n, Inr f, Inr b, Inr t, Inr cs, Inr u, Inr c, Inr ci) \<Rightarrow>
             (let d = \<lparr>doc_name = n, doc_format = f, doc_bytes = b, doc_text = t, doc_chunks = cs, doc_uri = u, doc_context = c, doc_cite = ci\<rparr>
              in case validateDocumentPart d of Inl e \<Rightarrow> Inl e | Inr v \<Rightarrow> Inr (DocumentPart d))
         | _ \<Rightarrow> Inl WrongType)"

definition decode_citations :: "(string \<times> string) list \<Rightarrow> (json_error, part) result" where
  "decode_citations ms =
     (case (decode_field dec_string [] ms ''text'', decode_field (dec_list dec_citation) [] ms ''citations'') of
        (Inr t, Inr cs) \<Rightarrow> Inr (CitationsPart t cs)
      | _ \<Rightarrow> Inl WrongType)"

definition decode_tool_use :: "(string \<times> string) list \<Rightarrow> (json_error, part) result" where
  "decode_tool_use ms =
     (case (decode_field dec_string [] ms ''id'', decode_field dec_string [] ms ''name'', decode_field dec_raw [] ms ''input'',
            decode_field dec_string [] ms ''thought_signature'') of
        (Inr i, Inr n, Inr input, Inr s) \<Rightarrow>
          if i = [] \<or> n = [] then Inl ToolUseIncomplete
          else if \<not> object_input input then Inl ToolUseInputInvalid
          else Inr (ToolUsePart \<lparr>tu_id = i, tu_name = n, tu_input = input, tu_thought_signature = s\<rparr>)
      | _ \<Rightarrow> Inl WrongType)"

definition decode_tool_result :: "(string \<times> string) list \<Rightarrow> (json_error, part) result" where
  "decode_tool_result ms =
     (case (decode_field dec_string [] ms ''tool_use_id'', decode_field dec_any GNil ms ''content'', decode_field dec_bool False ms ''is_error'') of
        (Inr i, Inr c, Inr e) \<Rightarrow>
          if i = [] then Inl ToolResultIncomplete
          else Inr (ToolResultPart \<lparr>tr_tool_use_id = i, tr_content = c, tr_is_error = e\<rparr>)
      | _ \<Rightarrow> Inl WrongType)"

definition decode_text :: "(string \<times> string) list \<Rightarrow> (json_error, part) result" where
  "decode_text ms = (case decode_field dec_string [] ms ''text'' of Inl e \<Rightarrow> Inl e | Inr s \<Rightarrow> Inr (TextPart s))"

text \<open>The kinds with the fields they allow and their decoders.\<close>

definition part_kinds :: "(string \<times> string list \<times> ((string \<times> string) list \<Rightarrow> (json_error, part) result)) list" where
  "part_kinds =
     [(''thinking'', [''kind'', ''text'', ''signature'', ''redacted'', ''index'', ''final''], decode_thinking),
      (''text'', [''kind'', ''text''], decode_text),
      (''image'', [''kind'', ''format'', ''bytes''], decode_image),
      (''document'', [''kind'', ''name'', ''format'', ''bytes'', ''text'', ''chunks'', ''uri'', ''context'', ''cite''], decode_document),
      (''citations'', [''kind'', ''text'', ''citations''], decode_citations),
      (''tool_use'', [''kind'', ''id'', ''name'', ''input'', ''thought_signature''], decode_tool_use),
      (''tool_result'', [''kind'', ''tool_use_id'', ''content'', ''is_error''], decode_tool_result),
      (''cache_checkpoint'', [''kind''], \<lambda>ms. Inr CacheCheckpointPart)]"

definition decodeMessagePart :: "string \<Rightarrow> (json_error, part) result" where
  "decodeMessagePart raw =
     (case json_parse raw of
        None \<Rightarrow> Inl InvalidJSON
      | Some JNull \<Rightarrow> Inl KindMissing
      | Some j \<Rightarrow>
          (case object_members raw of
             None \<Rightarrow> Inl WrongType
           | Some envelope \<Rightarrow>
               (case map_of (rev envelope) ''kind'' of
                  None \<Rightarrow> Inl KindMissing
                | Some rawKind \<Rightarrow>
                    (case dec_string [] rawKind of
                       Inl e \<Rightarrow> Inl e
                     | Inr kind \<Rightarrow>
                         if kind = [] then Inl KindMissing
                         else (case map_of part_kinds kind of
                                 None \<Rightarrow> Inl (UnknownKind kind)
                               | Some (allowed, decode) \<Rightarrow>
                                   (case validateExactJSONKeys raw allowed of
                                      Inl e \<Rightarrow> Inl e
                                    | Inr members \<Rightarrow>
                                        (case decode_field dec_string [] members ''kind'' of
                                           Inl e \<Rightarrow> Inl e
                                         | Inr k \<Rightarrow> decode members)))))))"

fun decode_parts :: "nat \<Rightarrow> string list \<Rightarrow> (json_error, part list) result" where
  "decode_parts i [] = Inr []"
| "decode_parts i (raw # raws) =
     (case decodeMessagePart raw of
        Inl e \<Rightarrow> Inl (DecodePart i e)
      | Inr p \<Rightarrow> (case decode_parts (Suc i) raws of Inl e \<Rightarrow> Inl e | Inr ps \<Rightarrow> Inr (p # ps)))"

definition role_of_name :: "string \<Rightarrow> conversation_role" where
  "role_of_name s =
     (if s = ''system'' then RoleSystem else if s = ''user'' then RoleUser else if s = ''assistant'' then RoleAssistant
      else RoleOther s)"

definition Message_UnmarshalJSON :: "string \<Rightarrow> (json_error, message) result" where
  "Message_UnmarshalJSON data =
     (case validateExactJSONKeys data [''role'', ''parts'', ''meta''] of
        Inl e \<Rightarrow> Inl e
      | Inr members \<Rightarrow>
          (case (decode_field dec_string [] members ''role'', decode_field (dec_list (dec_raw [])) [] members ''parts'',
                 decode_field dec_meta None members ''meta'') of
             (Inr role, Inr raws, Inr meta) \<Rightarrow>
               (case decode_parts 0 raws of
                  Inl e \<Rightarrow> Inl e
                | Inr ps \<Rightarrow> Inr \<lparr>m_role = role_of_name role, m_parts = ps, m_meta = meta\<rparr>)
           | _ \<Rightarrow> Inl WrongType))"

subsection \<open>Transcript deltas\<close>

fun delta_texts :: "(int \<Rightarrow> int \<Rightarrow> string) \<Rightarrow> transcript \<Rightarrow> (json_error, string list) result" where
  "delta_texts ft [] = Inr []"
| "delta_texts ft (m # ms) =
     (case (case m of None \<Rightarrow> Inr null_text | Some msg \<Rightarrow> Message_MarshalJSON ft msg) of
        Inl e \<Rightarrow> Inl e
      | Inr t \<Rightarrow> (case delta_texts ft ms of Inl e \<Rightarrow> Inl e | Inr ts \<Rightarrow> Inr (t # ts)))"

definition EncodeRunLogDelta :: "(int \<Rightarrow> int \<Rightarrow> string) \<Rightarrow> transcript \<Rightarrow> (json_error, string) result" where
  "EncodeRunLogDelta ft messages =
     (case delta_texts ft messages of
        Inl e \<Rightarrow> Inl e
      | Inr ts \<Rightarrow> Inr (if ts = [] then null_text else json_array ts))"

definition dec_message :: "string \<Rightarrow> (json_error, message option) result" where
  "dec_message raw =
     (if json_parse raw = Some JNull then Inr None
      else case Message_UnmarshalJSON raw of Inl e \<Rightarrow> Inl e | Inr m \<Rightarrow> Inr (Some m))"

definition DecodeRunLogDelta :: "string \<Rightarrow> (json_error, transcript) result" where
  "DecodeRunLogDelta payload = dec_list dec_message [] payload"

subsection \<open>Reading what was written\<close>

definition is_text :: "string \<Rightarrow> bool" where
  "is_text t \<longleftrightarrow> (\<exists>v. text_of t v)"

lemma is_textI: "text_of t v \<Longrightarrow> is_text t"
  by (auto simp: is_text_def)

lemma list_all2_texts: "list_all is_text ts \<Longrightarrow> \<exists>vs. list_all2 text_of ts vs"
  by (induction ts) (auto simp: is_text_def intro: exI [of _ "_ # _"])

lemma list_all2_members: "list_all (\<lambda>kt. is_text (snd kt)) kts \<Longrightarrow> \<exists>vs. list_all2 (\<lambda>kt v. text_of (snd kt) v) kts vs"
  by (induction kts) (auto simp: is_text_def intro: exI [of _ "_ # _"])

lemma is_text_array: "list_all is_text ts \<Longrightarrow> is_text (json_array ts)"
  using list_all2_texts text_array is_textI by blast

lemma is_text_object: "list_all (\<lambda>kt. is_text (snd kt)) kts \<Longrightarrow> is_text (json_object kts)"
  using list_all2_members text_object is_textI by blast

lemma is_text_string: "is_text (json_string s)"
  using text_string is_textI by blast

lemma valid_number_dec: "valid_number (dec n)" "valid_number (CHR ''-'' # dec n)"
proof -
  have digits: "list_all is_digit (dec n)" using dec_all_digits [of n] by (simp add: list_all_iff)
  then have taken: "takeWhile is_digit (dec n) = dec n" "dropWhile is_digit (dec n) = []"
    by (simp_all add: list_all_iff takeWhile_eq_all_conv)
  have chars: "list_all number_char (dec n)" using digits by (simp add: list_all_iff number_char_def)
  have zero: "hd (dec n) = CHR ''0'' \<longrightarrow> length (dec n) = 1"
  proof -
    have "of_char (digit_char 0) = (of_char (CHR ''0'') :: nat)" by simp
    then have "digit_char 0 = CHR ''0''" by (simp only: of_char_eq_iff)
    with dec_no_leading_zero [of n] show ?thesis by simp
  qed
  obtain c u where c: "dec n = c # u" by (cases "dec n") auto
  with digits have minus: "c \<noteq> CHR ''-''" by (auto simp: is_digit_def)
  have frac: "number_frac []" by (simp add: number_frac_def)
  have "valid_number (c # u)" "valid_number (CHR ''-'' # c # u)"
    using taken chars zero frac minus unfolding c by (simp_all add: valid_number_def number_char_def)
  then show "valid_number (dec n)" "valid_number (CHR ''-'' # dec n)" by (simp_all add: c)
qed

lemma valid_number_int: "valid_number (show_int i)"
  by (simp add: show_int_def valid_number_dec)

lemma parse_int64_show: "int64_range i \<Longrightarrow> parse_int64 (show_int i) = Some i"
  using parse_int64_dec [of "nat i"] by (auto simp: show_int_def int64_range_def parse_int64_def)

lemma is_text_scalars:
  "is_text null_text" "is_text (bool_text b)" "is_text (show_int i)" "is_text (bytes_text s)" "is_text (strings_text ss)"
  using text_null text_bool [of b] text_number [OF valid_number_int [of i]] is_text_string
  by (auto simp: bool_text_def bytes_text_def strings_text_def list_all_iff intro!: is_text_array intro: is_textI)

lemmas is_text_rules = is_text_scalars is_text_string is_text_object is_text_array

lemma is_text_citation: "is_text (span_text l)" "is_text (location_text loc)" "is_text (citation_text c)" "is_text (citations_text cs)"
proof -
  show span: "is_text (span_text l)" for l by (cases l) (simp_all add: is_text_rules)
  show location: "is_text (location_text loc)" for loc by (simp add: location_text_def is_text_rules span)
  show citation: "is_text (citation_text c)" for c by (simp add: citation_text_def is_text_rules location)
  show "is_text (citations_text cs)" by (simp add: citations_text_def is_text_rules citation list_all_iff)
qed

lemma object_read:
  assumes "list_all (\<lambda>kt. is_text (snd kt) \<and> valid_utf8 (fst kt)) kts"
  obtains kvs where "object_members (json_object kts) = Some kts" "json_parse (json_object kts) = Some (JObj kvs)"
proof -
  from assms have "list_all (\<lambda>kt. is_text (snd kt)) kts" by (simp add: list_all_iff)
  then obtain vs where vs: "list_all2 (\<lambda>kt v. text_of (snd kt) v) kts vs" using list_all2_members by blast
  have "map (\<lambda>kt. (to_valid_utf8 (fst kt), snd kt)) kts = kts"
    using assms by (intro map_idI) (simp add: list_all_iff)
  with object_members_text [OF vs] json_parse_text [OF text_object [OF vs]] show thesis
    by (intro that) simp_all
qed

lemma exact_keys:
  assumes "list_all (\<lambda>kt. is_text (snd kt) \<and> list_all (\<lambda>c. byte c < 128) (fst kt)) kts" "set (map fst kts) \<subseteq> set allowed"
  shows "validateExactJSONKeys (json_object kts) allowed = Inr kts"
proof -
  from assms(1) have "list_all (\<lambda>kt. is_text (snd kt) \<and> valid_utf8 (fst kt)) kts"
    by (auto simp: list_all_iff intro: ascii_valid)
  from object_read [OF this] obtain kvs where
    "object_members (json_object kts) = Some kts" "json_parse (json_object kts) = Some (JObj kvs)" .
  moreover have "filter (\<lambda>k. k \<notin> set allowed) (sort (map fst kts)) = []"
    using assms(2) by (auto simp: filter_empty_conv)
  ultimately show ?thesis by (simp add: validateExactJSONKeys_def)
qed

lemma decode_field_simps [simp]:
  "decode_field d x [] k = Inr x"
  "decode_field d x ((k', raw) # ms) k =
     (if k' = k then (case d x raw of Inl e \<Rightarrow> Inl e | Inr y \<Rightarrow> decode_field d y ms k) else decode_field d x ms k)"
proof -
  have "foldl (\<lambda>acc m. case acc of Inl e \<Rightarrow> Inl e | Inr x \<Rightarrow> d x (snd m)) (Inl e) ms = Inl e"
    for e and ms :: "(string \<times> string) list"
    by (induction ms) simp_all
  then show "decode_field d x ((k', raw) # ms) k =
     (if k' = k then (case d x raw of Inl e \<Rightarrow> Inl e | Inr y \<Rightarrow> decode_field d y ms k) else decode_field d x ms k)"
    by (simp add: decode_field_def split: sum.split)
qed (simp add: decode_field_def)

lemma base64_valid [simp]: "valid_utf8 (base64_encode s)"
  using base64_encode_plain [of s] by (intro ascii_valid) (auto simp: list_all_iff dest: b64_plainD(1))

lemma dec_scalars [simp]:
  "dec_string cur (json_string s) = Inr (to_valid_utf8 s)"
  "dec_bool b0 (bool_text b) = Inr b"
  "int64_range i \<Longrightarrow> dec_int i0 (show_int i) = Inr i"
  "dec_bytes cur (bytes_text s) = Inr s"
  using json_parse_text [OF text_string] json_parse_text [OF text_bool [of b]] json_parse_text [OF text_number [OF valid_number_int [of i]]]
    json_parse_text [OF text_null]
  by (auto simp: dec_string_def dec_bool_def dec_int_def dec_bytes_def bool_text_def bytes_text_def parse_int64_show)

lemma dec_list_array:
  assumes "list_all is_text (map f xs)" "\<And>x. x \<in> set xs \<Longrightarrow> d (f x) = Inr (g x)"
  shows "dec_list d cur (if xs = [] then null_text else json_array (map f xs)) = Inr (map g xs)"
proof (cases "xs = []")
  case True
  then show ?thesis using json_parse_text [OF text_null] by (simp add: dec_list_def)
next
  case False
  from list_all2_texts [OF assms(1)] obtain vs where vs: "list_all2 text_of (map f xs) vs" by blast
  have "traverse d (map f xs) = Inr (map g xs)"
    using assms(2) by (induction xs) simp_all
  with False json_parse_text [OF text_array [OF vs]] array_elems_text [OF vs] show ?thesis by (simp add: dec_list_def)
qed

lemma dec_strings_text [simp]: "dec_strings cur (strings_text ss) = Inr (map to_valid_utf8 ss)"
  using dec_list_array [of json_string ss "dec_string []" to_valid_utf8 cur]
  by (simp add: dec_strings_def strings_text_def list_all_iff is_text_string)

subsection \<open>Canonical messages\<close>

text \<open>
  The form decoding produces: UTF-8 strings, numbers as \<open>json.Number\<close>, maps listed by key, integers in
  range, tool inputs compact, and the required fields of every part present.
\<close>

fun canonical_value :: "gvalue \<Rightarrow> bool" where
  "canonical_value GNil \<longleftrightarrow> True"
| "canonical_value (GBool b) \<longleftrightarrow> True"
| "canonical_value (GString s) \<longleftrightarrow> valid_utf8 s"
| "canonical_value (GNumber s) \<longleftrightarrow> valid_number s"
| "canonical_value (GSlice vs) \<longleftrightarrow> (\<forall>v \<in> set vs. canonical_value v)"
| "canonical_value (GMap kvs) \<longleftrightarrow>
     sorted (map fst kvs) \<and> distinct (map fst kvs) \<and> (\<forall>kv \<in> set kvs. valid_utf8 (fst kv) \<and> canonical_value (snd kv))"
| "canonical_value _ \<longleftrightarrow> False"

definition canonical_span :: "span option \<Rightarrow> bool" where
  "canonical_span l \<longleftrightarrow> (case l of None \<Rightarrow> True | Some s \<Rightarrow>
     int64_range (span_document_index s) \<and> int64_range (span_start s) \<and> int64_range (span_end s))"

definition canonical_citation :: "citation \<Rightarrow> bool" where
  "canonical_citation c \<longleftrightarrow>
     valid_utf8 (cit_title c) \<and> valid_utf8 (cit_source c) \<and> list_all valid_utf8 (cit_source_content c) \<and>
     canonical_span (loc_char (cit_location c)) \<and> canonical_span (loc_chunk (cit_location c)) \<and> canonical_span (loc_page (cit_location c))"

definition canonical_input :: "string \<Rightarrow> bool" where
  "canonical_input input \<longleftrightarrow> (\<exists>kvs. input = json_print (JObj kvs) \<and> numbers_ok (JObj kvs))"

fun canonical_part :: "part \<Rightarrow> bool" where
  "canonical_part (TextPart s) \<longleftrightarrow> valid_utf8 s"
| "canonical_part (ImagePart f b) \<longleftrightarrow> f \<noteq> [] \<and> b \<noteq> [] \<and> valid_utf8 f"
| "canonical_part (DocumentPart d) \<longleftrightarrow>
     validateDocumentPart d = Inr () \<and> list_all valid_utf8 (doc_chunks d) \<and>
     list_all valid_utf8 [doc_name d, doc_format d, doc_text d, doc_uri d, doc_context d]"
| "canonical_part (CitationsPart t cs) \<longleftrightarrow> valid_utf8 t \<and> list_all canonical_citation cs"
| "canonical_part (ThinkingPart v) \<longleftrightarrow> valid_utf8 (th_text v) \<and> valid_utf8 (th_signature v) \<and> int64_range (th_index v)"
| "canonical_part (ToolUsePart v) \<longleftrightarrow>
     tu_id v \<noteq> [] \<and> tu_name v \<noteq> [] \<and> list_all valid_utf8 [tu_id v, tu_name v, tu_thought_signature v] \<and> canonical_input (tu_input v)"
| "canonical_part (ToolResultPart v) \<longleftrightarrow> tr_tool_use_id v \<noteq> [] \<and> valid_utf8 (tr_tool_use_id v) \<and> canonical_value (tr_content v)"
| "canonical_part CacheCheckpointPart \<longleftrightarrow> True"
| "canonical_part NilPart \<longleftrightarrow> False"

definition canonical_message :: "message \<Rightarrow> bool" where
  "canonical_message m \<longleftrightarrow>
     valid_utf8 (role_name (m_role m)) \<and> role_of_name (role_name (m_role m)) = m_role m \<and>
     list_all canonical_part (m_parts m) \<and>
     (case m_meta m of None \<Rightarrow> True | Some kvs \<Rightarrow> canonical_value (GMap kvs))"

lemma sort_key_fst_id: "sorted (map fst kvs) \<Longrightarrow> sort_key fst kvs = kvs"
  by (simp add: sort_key_id_if_sorted)

lemma map_entries_id:
  assumes "sorted (map fst kvs)" "distinct (map fst kvs)"
  shows "map_entries kvs = kvs"
proof -
  have "(k, the (map_of (rev kvs) k)) = (k, v)" if "(k, v) \<in> set kvs" for k v
    using that assms(2) map_of_is_SomeI [of "rev kvs" k v] by (simp add: rev_map [symmetric])
  then have "map (\<lambda>kv. (fst kv, the (map_of (rev kvs) (fst kv)))) kvs = kvs"
    by (intro map_idI) auto
  with assms show ?thesis
    by (simp add: map_entries_def distinct_remdups_id sorted_sort_id comp_def)
qed

lemma canonical_values:
  shows "canonical_value v \<Longrightarrow> \<exists>j. value_json ft v = Some j \<and> numbers_ok j \<and> coerce j = j \<and> json_value_of j = v"
    and "list_all canonical_value vs \<Longrightarrow>
      \<exists>js. values_json ft vs = Some js \<and> list_all numbers_ok js \<and> map coerce js = js \<and> map json_value_of js = vs"
    and "list_all (\<lambda>kv. valid_utf8 (fst kv) \<and> canonical_value (snd kv)) kvs \<Longrightarrow>
      \<exists>es. entries_json ft kvs = Some es \<and> list_all (\<lambda>e. numbers_ok (snd e)) es \<and> map fst es = map fst kvs \<and>
        map (\<lambda>(k, v). (to_valid_utf8 k, coerce v)) es = es \<and> map (\<lambda>(k, v). (k, json_value_of v)) es = kvs"
proof (induction ft v and ft vs and ft kvs rule: value_json_values_json_entries_json.induct)
  case (9 ft vs)
  then show ?case by (fastforce simp: list_all_iff)
next
  case (12 ft kvs)
  then obtain es where "entries_json ft kvs = Some es" "list_all (\<lambda>e. numbers_ok (snd e)) es" "map fst es = map fst kvs"
      "map (\<lambda>(k, v). (to_valid_utf8 k, coerce v)) es = es" "map (\<lambda>(k, v). (k, json_value_of v)) es = kvs"
    by (auto simp: list_all_iff)
  moreover from 12(2) have sorted: "sorted (map fst kvs)" "distinct (map fst kvs)" by simp_all
  moreover have "sort_key fst es = es" by (rule sort_key_fst_id) (simp only: calculation(3) sorted)
  moreover have "map_entries kvs = kvs" by (rule map_entries_id [OF sorted])
  ultimately show ?case by (auto simp: list_all_iff)
next
  case (16 ft v vs)
  then show ?case by force
next
  case (18 ft k v kvs)
  then show ?case by force
qed (auto simp: valid_number_def)

lemma value_text_canonical:
  assumes "canonical_value v"
  obtains t where "value_text ft v = Inr t" "is_text t" "dec_any cur t = Inr v"
proof -
  from canonical_values(1) [OF assms, of ft] obtain j where
    j: "value_json ft v = Some j" "numbers_ok j" "coerce j = j" "json_value_of j = v" by blast
  from text_print(1) [OF j(2)] j have "text_of (json_print j) j" by simp
  with j json_parse_text [OF this] show thesis
    by (intro that [of "json_print j"]) (auto simp: value_text_def dec_any_def is_text_def)
qed

lemma dec_span_text: "canonical_span l \<Longrightarrow> dec_span cur (span_text l) = Inr l"
proof (cases l)
  case None
  then show ?thesis using json_parse_text [OF text_null] by (simp add: dec_span_def)
next
  case (Some s)
  let ?kts = "[(''document_index'', show_int (span_document_index s)), (''start'', show_int (span_start s)), (''end'', show_int (span_end s))]"
  assume "canonical_span l"
  then have "int64_range (span_document_index s)" "int64_range (span_start s)" "int64_range (span_end s)"
    by (simp_all add: canonical_span_def Some)
  moreover have "validateExactJSONKeys (json_object ?kts) [''document_index'', ''start'', ''end''] = Inr ?kts"
    by (rule exact_keys) (simp_all add: is_text_rules)
  moreover have "\<exists>kvs. json_parse (json_object ?kts) = Some (JObj kvs)"
    by (rule object_read [of ?kts]) (auto simp: is_text_rules intro!: ascii_valid)
  ultimately show ?thesis by (auto simp: dec_span_def Some)
qed

lemma dec_location_text:
  assumes "canonical_span (loc_char l)" "canonical_span (loc_chunk l)" "canonical_span (loc_page l)"
  shows "dec_location (location_text l) = Inr l"
proof -
  let ?kts = "[(''document_char'', span_text (loc_char l)), (''document_chunk'', span_text (loc_chunk l)), (''document_page'', span_text (loc_page l))]"
  have "validateExactJSONKeys (json_object ?kts) [''document_char'', ''document_chunk'', ''document_page''] = Inr ?kts"
    by (rule exact_keys) (simp_all add: is_text_citation)
  with assms show ?thesis by (simp add: dec_location_def location_text_def dec_span_text)
qed

lemma valid_strings_id: "list_all valid_utf8 ss \<Longrightarrow> map to_valid_utf8 ss = ss"
  by (rule map_idI) (simp add: list_all_iff)

lemma dec_citation_text: "canonical_citation c \<Longrightarrow> dec_citation (citation_text c) = Inr c"
proof -
  let ?kts = "[(''title'', json_string (cit_title c)), (''source'', json_string (cit_source c)),
     (''location'', location_text (cit_location c)), (''source_content'', strings_text (cit_source_content c))]"
  assume "canonical_citation c"
  then have c: "valid_utf8 (cit_title c)" "valid_utf8 (cit_source c)" "list_all valid_utf8 (cit_source_content c)"
      "dec_location (location_text (cit_location c)) = Inr (cit_location c)"
    by (simp_all add: canonical_citation_def dec_location_text)
  have "validateExactJSONKeys (json_object ?kts) [''title'', ''source'', ''location'', ''source_content''] = Inr ?kts"
    by (rule exact_keys) (simp_all add: is_text_rules is_text_citation)
  with c show ?thesis by (simp add: dec_citation_def citation_text_def dec_raw_def valid_strings_id)
qed

lemma dec_citations_text:
  "list_all canonical_citation cs \<Longrightarrow> dec_list dec_citation cur (citations_text cs) = Inr cs"
  using dec_list_array [of citation_text cs dec_citation id cur]
  by (simp add: citations_text_def list_all_iff is_text_citation dec_citation_text)

text \<open>A part text is a canonical object: its kind selects the decoder.\<close>

lemma decode_part_object:
  assumes "kts = (''kind'', json_string kind) # kvs0" "list_all (\<lambda>kt. is_text (snd kt)) kvs0"
    and "''kind'' \<notin> set (map fst kvs0)" "set (map fst kts) \<subseteq> set allowed" "map_of part_kinds kind = Some (allowed, decode)"
  shows "decodeMessagePart (json_object kts) = decode kts"
proof -
  from assms(5) have kind: "kind \<in> set (map fst part_kinds)" "(kind, allowed, decode) \<in> set part_kinds"
    by (auto dest: map_of_SomeD simp: rev_image_eqI)
  then have ascii: "list_all (\<lambda>c. byte c < 128) kind" "kind \<noteq> []" "\<forall>k \<in> set allowed. list_all (\<lambda>c. byte c < 128) k"
    by (auto simp: part_kinds_def)
  have texts: "list_all (\<lambda>kt. is_text (snd kt) \<and> list_all (\<lambda>c. byte c < 128) (fst kt)) kts"
    using assms(1,2,4) ascii by (auto simp: list_all_iff is_text_string)
  then have "list_all (\<lambda>kt. is_text (snd kt) \<and> valid_utf8 (fst kt)) kts"
    by (auto simp: list_all_iff intro: ascii_valid)
  from object_read [OF this] obtain kvs where
    read: "object_members (json_object kts) = Some kts" "json_parse (json_object kts) = Some (JObj kvs)" .
  have last: "map_of (rev kts) ''kind'' = Some (json_string kind)"
    using assms(1,3) by (simp add: map_add_Some_iff map_of_eq_None_iff)
  have kindOf: "dec_string [] (json_string kind) = Inr kind" "decode_field dec_string [] kts ''kind'' = Inr kind"
  proof -
    show *: "dec_string [] (json_string kind) = Inr kind" using ascii(1) by (simp add: ascii_valid)
    have "filter (\<lambda>m. fst m = ''kind'') kvs0 = []" using assms(3) by (force simp: filter_empty_conv)
    with * show "decode_field dec_string [] kts ''kind'' = Inr kind" by (simp add: assms(1)) (simp add: decode_field_def)
  qed
  show ?thesis
    by (simp add: decodeMessagePart_def read last kindOf to_valid_id [OF ascii_valid [OF ascii(1)]] ascii(2) assms(5) exact_keys [OF texts assms(4)])
qed

lemma trim_space_object: "trim_space (CHR ''{'' # s @ ''}'') = CHR ''{'' # s @ ''}''"
proof -
  have "strip_runes space_runes (CHR ''{'' # s @ ''}'') = CHR ''{'' # s @ ''}''"
    by (rule strip_runes_none) (simp add: space_runes_def)
  moreover have "strip_runes (map rev space_runes) (CHR ''}'' # rev s @ ''{'') = CHR ''}'' # rev s @ ''{''"
    by (rule strip_runes_none) (simp add: space_runes_def)
  ultimately show ?thesis by (simp add: trim_space_def)
qed

lemma canonical_input_facts:
  assumes "canonical_input input"
  shows "object_input input" "raw_MarshalJSON (Some input) = Inr input" "is_text input"
proof -
  from assms obtain kvs where kvs: "input = json_print (JObj kvs)" "numbers_ok (JObj kvs)" by (auto simp: canonical_input_def)
  have printed: "text_of input (coerce (JObj kvs))" unfolding kvs(1) by (rule text_print(1) [OF kvs(2)])
  then show "is_text input" by (rule is_textI)
  have trim: "trim_space input = input" "input \<noteq> []" "hd input = CHR ''{''"
    by (simp_all add: kvs(1) json_object_def trim_space_object)
  have "json_compact input = input" unfolding kvs(1) by (rule json_compact_print [OF kvs(2)])
  with trim json_parse_text [OF printed] show "object_input input" "raw_MarshalJSON (Some input) = Inr input"
    by (simp_all add: object_input_def raw_MarshalJSON_def)
qed

lemma document_eta [simp]:
  "\<lparr>doc_name = doc_name d, doc_format = doc_format d, doc_bytes = doc_bytes d, doc_text = doc_text d,
    doc_chunks = doc_chunks d, doc_uri = doc_uri d, doc_context = doc_context d, doc_cite = doc_cite d\<rparr> = d"
  by (cases d) simp

lemma part_roundtrip:
  assumes "canonical_part p"
  obtains t where "encodeMessagePart ft p = Inr t" "is_text t" "decodeMessagePart t = Inr p"
proof (cases p)
  case (TextPart s)
  let ?kts = "[(''kind'', json_string ''text''), (''text'', json_string s)]"
  have "decodeMessagePart (json_object ?kts) = decode_text ?kts"
    by (rule decode_part_object [OF refl]) (simp_all add: part_kinds_def is_text_rules)
  with assms TextPart that [of "json_object ?kts"] show ?thesis by (simp add: decode_text_def is_text_rules)
next
  case (ImagePart f b)
  let ?kts = "[(''kind'', json_string ''image''), (''format'', json_string f), (''bytes'', bytes_text b)]"
  have "decodeMessagePart (json_object ?kts) = decode_image ?kts"
    by (rule decode_part_object [OF refl]) (simp_all add: part_kinds_def is_text_rules)
  with assms ImagePart that [of "json_object ?kts"] show ?thesis by (simp add: decode_image_def is_text_rules)
next
  case (DocumentPart d)
  let ?kts = "[(''kind'', json_string ''document''), (''name'', json_string (doc_name d)),
            (''format'', json_string (doc_format d)), (''bytes'', bytes_text (doc_bytes d)), (''text'', json_string (doc_text d)),
            (''chunks'', strings_text (doc_chunks d)), (''uri'', json_string (doc_uri d)),
            (''context'', json_string (doc_context d)), (''cite'', bool_text (doc_cite d))]"
  have "decodeMessagePart (json_object ?kts) = decode_document ?kts"
    by (rule decode_part_object [OF refl]) (simp_all add: part_kinds_def is_text_rules)
  with assms DocumentPart that [of "json_object ?kts"] show ?thesis
    by (simp add: decode_document_def is_text_rules valid_strings_id Let_def)
next
  case (CitationsPart s cs)
  let ?kts = "[(''kind'', json_string ''citations''), (''text'', json_string s), (''citations'', citations_text cs)]"
  have "decodeMessagePart (json_object ?kts) = decode_citations ?kts"
    by (rule decode_part_object [OF refl]) (simp_all add: part_kinds_def is_text_rules is_text_citation)
  with assms CitationsPart that [of "json_object ?kts"] show ?thesis
    by (simp add: decode_citations_def is_text_rules is_text_citation dec_citations_text)
next
  case (ThinkingPart v)
  let ?kts = "[(''kind'', json_string ''thinking''), (''text'', json_string (th_text v)),
       (''signature'', json_string (th_signature v)), (''redacted'', bytes_text (th_redacted v)),
       (''index'', show_int (th_index v)), (''final'', bool_text (th_final v))]"
  have "decodeMessagePart (json_object ?kts) = decode_thinking ?kts"
    by (rule decode_part_object [OF refl]) (simp_all add: part_kinds_def is_text_rules)
  with assms ThinkingPart that [of "json_object ?kts"] show ?thesis by (simp add: decode_thinking_def is_text_rules)
next
  case (ToolUsePart v)
  let ?kts = "[(''kind'', json_string ''tool_use''), (''id'', json_string (tu_id v)), (''name'', json_string (tu_name v)),
                 (''input'', tu_input v), (''thought_signature'', json_string (tu_thought_signature v))]"
  from assms ToolUsePart canonical_input_facts [of "tu_input v"]
  have input: "object_input (tu_input v)" "raw_MarshalJSON (Some (tu_input v)) = Inr (tu_input v)" "is_text (tu_input v)" by simp_all
  then have "decodeMessagePart (json_object ?kts) = decode_tool_use ?kts"
    by (intro decode_part_object [OF refl]) (simp_all add: part_kinds_def is_text_rules)
  with assms ToolUsePart input that [of "json_object ?kts"] show ?thesis
    by (simp add: decode_tool_use_def is_text_rules dec_raw_def)
next
  case (ToolResultPart v)
  from assms ToolResultPart have "canonical_value (tr_content v)" by simp
  then obtain c where c: "value_text ft (tr_content v) = Inr c" "is_text c" "dec_any GNil c = Inr (tr_content v)"
    by (rule value_text_canonical)
  let ?kts = "[(''kind'', json_string ''tool_result''), (''tool_use_id'', json_string (tr_tool_use_id v)),
                 (''content'', c), (''is_error'', bool_text (tr_is_error v))]"
  have "decodeMessagePart (json_object ?kts) = decode_tool_result ?kts"
    using c(2) by (intro decode_part_object [OF refl]) (simp_all add: part_kinds_def is_text_rules)
  with assms ToolResultPart c that [of "json_object ?kts"] show ?thesis
    by (simp add: decode_tool_result_def is_text_rules)
next
  case CacheCheckpointPart
  let ?kts = "[(''kind'', json_string ''cache_checkpoint'')]"
  have "decodeMessagePart (json_object ?kts) = (\<lambda>ms. Inr CacheCheckpointPart) ?kts"
    by (rule decode_part_object [OF refl]) (simp_all add: part_kinds_def)
  with CacheCheckpointPart that [of "json_object ?kts"] show ?thesis by (simp add: is_text_rules)
next
  case NilPart
  with assms show ?thesis by simp
qed

lemma parts_roundtrip:
  "list_all canonical_part ps \<Longrightarrow>
   \<exists>ts. encode_parts ft i ps = Inr ts \<and> list_all is_text ts \<and> decode_parts i ts = Inr ps"
proof (induction ps arbitrary: i)
  case (Cons p ps)
  then obtain ts where "encode_parts ft (Suc i) ps = Inr ts" "list_all is_text ts" "decode_parts (Suc i) ts = Inr ps" by fastforce
  moreover obtain t where "encodeMessagePart ft p = Inr t" "is_text t" "decodeMessagePart t = Inr p"
    using Cons.prems part_roundtrip [of p ft] by auto
  ultimately show ?case by (intro exI [of _ "t # ts"]) simp
qed simp

lemma meta_roundtrip:
  assumes "case m of None \<Rightarrow> True | Some kvs \<Rightarrow> canonical_value (GMap kvs)"
  obtains t where "meta_text ft m = Inr t" "is_text t" "dec_meta None t = Inr m"
proof (cases m)
  case None
  with that [of null_text] json_parse_text [OF text_null] show ?thesis
    by (simp add: meta_text_def dec_meta_def is_text_rules)
next
  case (Some kvs)
  with assms have kvs: "canonical_value (GMap kvs)" by simp
  from canonical_values(1) [OF this, of ft] obtain j where
    j: "value_json ft (GMap kvs) = Some j" "numbers_ok j" "coerce j = j" "json_value_of j = GMap kvs" by blast
  then obtain es where es: "j = JObj es" by (auto simp: map_option_case split: option.splits)
  with j(4) have entries: "map_entries (map (\<lambda>(k, v). (k, json_value_of v)) es) = kvs" by simp
  from text_print(1) [OF j(2)] j have "text_of (json_print j) j" by simp
  with j(1) json_parse_text [OF this] entries Some es show ?thesis
    by (intro that [of "json_print j"]) (auto simp: meta_text_def value_text_def dec_meta_def is_text_def)
qed

lemma message_object:
  assumes "canonical_message m"
  obtains kts where "Message_MarshalJSON ft m = Inr (json_object kts)" "is_text (json_object kts)"
    "Message_UnmarshalJSON (json_object kts) = Inr m"
    "list_all (\<lambda>kt. is_text (snd kt) \<and> valid_utf8 (fst kt)) kts"
proof -
  have m: "valid_utf8 (role_name (m_role m))" "role_of_name (role_name (m_role m)) = m_role m"
      "list_all canonical_part (m_parts m)" "case m_meta m of None \<Rightarrow> True | Some kvs \<Rightarrow> canonical_value (GMap kvs)"
    using assms by (simp_all add: canonical_message_def)
  from parts_roundtrip [OF m(3), of ft 0] obtain ts where
    ts: "encode_parts ft 0 (m_parts m) = Inr ts" "list_all is_text ts" "decode_parts 0 ts = Inr (m_parts m)" by blast
  from meta_roundtrip [OF m(4), of ft] obtain meta where
    meta: "meta_text ft (m_meta m) = Inr meta" "is_text meta" "dec_meta None meta = Inr (m_meta m)" .
  let ?parts = "if ts = [] then null_text else json_array ts"
  let ?kts = "[(''role'', json_string (role_name (m_role m))), (''parts'', ?parts), (''meta'', meta)]"
  have texts: "is_text ?parts" using ts(2) by (simp add: is_text_rules)
  have decoded: "dec_list (dec_raw []) [] ?parts = Inr ts"
    using dec_list_array [of id ts "dec_raw []" id "[]"] ts(2) by (simp add: dec_raw_def list.map_id cong: if_cong)
  have "validateExactJSONKeys (json_object ?kts) [''role'', ''parts'', ''meta''] = Inr ?kts"
    by (rule exact_keys) (use texts meta(2) in \<open>simp_all add: is_text_rules\<close>)
  then have "Message_UnmarshalJSON (json_object ?kts) = Inr m"
    using m(1,2) meta(3) decoded ts(3) by (simp add: Message_UnmarshalJSON_def)
  moreover have "list_all (\<lambda>kt. is_text (snd kt) \<and> valid_utf8 (fst kt)) ?kts"
    using texts meta(2) by (simp add: is_text_rules ascii_valid)
  moreover have "Message_MarshalJSON ft m = Inr (json_object ?kts)"
    using ts(1) meta(1) by (simp add: Message_MarshalJSON_def)
  ultimately show thesis using texts meta(2) by (intro that [of ?kts]) (simp_all add: is_text_rules)
qed

text \<open>
  Property C26. Messages survive their encoding. Every message in canonical form is encoded without an
  error, and its text is decoded to exactly that message: role, every part with its concrete type and all
  its fields, metadata, numbers digit for digit, bytes and tool inputs unchanged.
\<close>

theorem message_json_roundtrip:
  assumes "canonical_message m"
  shows "\<exists>t. Message_MarshalJSON ft m = Inr t \<and> Message_UnmarshalJSON t = Inr m"
  using message_object [OF assms, of ft] by metis

definition example_tool_message :: message where
  "example_tool_message =
     \<lparr>m_role = RoleAssistant,
      m_parts = [ThinkingPart \<lparr>th_text = ''a<b'', th_signature = ''s'', th_redacted = [], th_index = 0, th_final = True\<rparr>,
                 ToolUsePart \<lparr>tu_id = ''c1'', tu_name = ''read'', tu_input = ''{}'', tu_thought_signature = []\<rparr>],
      m_meta = Some [(''n'', GNumber ''12'')]\<rparr>"

lemma example_canonical: "canonical_message example_tool_message"
proof -
  have "''{}'' = json_print (JObj [])" by (simp add: json_object_def)
  then have "canonical_input ''{}''" unfolding canonical_input_def by (intro exI [of _ "[]"]) simp
  moreover have "valid_number ''12''"
    by (simp add: valid_number_def number_char_def is_digit_def number_frac_def)
  ultimately show ?thesis
    by (simp add: canonical_message_def example_tool_message_def role_of_name_def int64_range_def ascii_valid)
qed

theorem message_json_roundtrip_witness:
  "\<exists>t. Message_MarshalJSON (\<lambda>m e. ''0'') example_tool_message = Inr t \<and> Message_UnmarshalJSON t = Inr example_tool_message"
  by (rule message_json_roundtrip [OF example_canonical])

lemma json_parse_null: "json_parse null_text = Some JNull"
  by (rule json_parse_text [OF text_null])

lemma delta_roundtrip:
  assumes "list_all (\<lambda>m. case m of None \<Rightarrow> True | Some msg \<Rightarrow> canonical_message msg) ms"
  obtains t where "EncodeRunLogDelta ft ms = Inr t" "DecodeRunLogDelta t = Inr ms"
proof -
  have each: "\<exists>t. (case m of None \<Rightarrow> Inr null_text | Some msg \<Rightarrow> Message_MarshalJSON ft msg) = Inr t \<and> is_text t \<and> dec_message t = Inr m"
    if canonical: "case m of None \<Rightarrow> True | Some msg \<Rightarrow> canonical_message msg" for m
  proof (cases m)
    case None
    then show ?thesis by (simp add: is_text_rules dec_message_def json_parse_null)
  next
    case (Some msg)
    with canonical have "canonical_message msg" by simp
    from message_object [OF this, of ft] obtain kts where
      kts: "Message_MarshalJSON ft msg = Inr (json_object kts)" "is_text (json_object kts)"
        "Message_UnmarshalJSON (json_object kts) = Inr msg" "list_all (\<lambda>kt. is_text (snd kt) \<and> valid_utf8 (fst kt)) kts" .
    from object_read [OF kts(4)] obtain kvs where "json_parse (json_object kts) = Some (JObj kvs)" by metis
    with kts Some show ?thesis by (intro exI [of _ "json_object kts"]) (simp add: dec_message_def)
  qed
  have "\<exists>ts. delta_texts ft ms = Inr ts \<and> list_all is_text ts \<and> traverse dec_message ts = Inr ms"
    using assms
  proof (induction ms)
    case (Cons m ms)
    then obtain ts where "delta_texts ft ms = Inr ts" "list_all is_text ts" "traverse dec_message ts = Inr ms" by auto
    moreover from Cons.prems each [of m] obtain t where
      "(case m of None \<Rightarrow> Inr null_text | Some msg \<Rightarrow> Message_MarshalJSON ft msg) = Inr t" "is_text t" "dec_message t = Inr m" by auto
    ultimately show ?case by (intro exI [of _ "t # ts"]) simp
  qed simp
  then obtain ts where ts: "delta_texts ft ms = Inr ts" "list_all is_text ts" "traverse dec_message ts = Inr ms" by blast
  from list_all2_texts [OF ts(2)] obtain vs where vs: "list_all2 text_of ts vs" by blast
  have "dec_list dec_message [] (if ts = [] then null_text else json_array ts) = Inr ms"
    using ts(3) json_parse_null json_parse_text [OF text_array [OF vs]] array_elems_text [OF vs] by (auto simp: dec_list_def)
  with ts(1) show thesis by (intro that) (simp_all add: EncodeRunLogDelta_def DecodeRunLogDelta_def)
qed

end
