(* ===== verification/Record_Activity.thy ===== *)
theory Record_Activity
  imports Message_Json Run_Log Session_Store
begin

section \<open>Recording runtime events\<close>

text \<open>
  The record activity of \<open>runtime/agent/runtime/hook_activity.go\<close>, the publication of transcript deltas in
  \<open>helpers.go\<close>, the storage of suspensions in \<open>run_suspension.go\<close> and the replay of a transcript from the
  run log in \<open>runtime/agent/transcript/runlog_replay.go\<close>. The activity writes the run log, projects run
  status into the session store and emits to the stream of an active session. Its collaborators are
  arguments: the codec of hook events, the hint renderer, the checkpoint decoder and the stream
  subscriber. Bus publication is best effort and workflow handles are process state; both are left out.
  The lemmas show that the log refines an append-only transcript per run.
\<close>

subsection \<open>Data\<close>

definition RunLogMessagesSeeded :: string where "RunLogMessagesSeeded = ''transcript_messages_seeded''"
definition RunLogMessagesAppended :: string where "RunLogMessagesAppended = ''transcript_messages_appended''"
definition runSuspensionRecordType :: string where "runSuspensionRecordType = ''runtime.run_suspension''"
definition ToolCallArgsDelta :: string where "ToolCallArgsDelta = ''tool_call_args_delta''"

definition maxHookPayloadBytes :: nat where "maxHookPayloadBytes = 1000000"

record record_input =
  ri_type :: string
  ri_key :: string
  ri_run_id :: string
  ri_agent_id :: string
  ri_session_id :: string
  ri_turn_id :: string
  ri_timestamp_ms :: int
  ri_payload :: string

text \<open>The events that change run metadata, with the fields they carry; all others are \<open>OtherEvent\<close>.\<close>

datatype hook_event =
    RunStartedEvent string "(string \<times> string) list"
  | PromptRenderedEvent prompt_ref
  | ChildRunLinkedEvent string string
  | RunSuspendedEvent
  | RunCompletedEvent string
  | ToolCallScheduledEvent
  | OtherEvent

datatype record_error =
    DeltaDecode json_error
  | DeltaEncode json_error
  | PayloadTooLarge nat
  | LogFailed runlog_error
  | SessionFailed session_error
  | StreamFailed
  | EventDecode
  | HintFailed
  | SuspensionFields
  | SuspensionEventFields
  | SuspensionDecode
  | CheckpointDecode
  | SuspensionIdentity
  | UnknownRunStatus

record stores =
  st_log :: log_store
  st_sessions :: store

record record_env =
  re_decode :: "record_input \<Rightarrow> hook_event option"
  re_enrich :: "record_input \<Rightarrow> string option option"
  re_suspension :: "string \<Rightarrow> string option"
  re_checkpoint :: "string \<Rightarrow> (string \<times> string \<times> string) option"
  re_subscriber :: bool
  re_emit :: "string \<Rightarrow> bool"

subsection \<open>Run metadata\<close>

definition appendUniquePromptRef :: "prompt_ref list \<Rightarrow> prompt_ref \<Rightarrow> prompt_ref list" where
  "appendUniquePromptRef existing ref = (if ref \<in> set existing then existing else existing @ [ref])"

definition new_run :: "int \<Rightarrow> record_input \<Rightarrow> string \<Rightarrow> (string \<times> string) list \<Rightarrow> prompt_ref list \<Rightarrow> run_meta" where
  "new_run now input session labels refs =
     \<lparr>rm_agent_id = ri_agent_id input, rm_run_id = ri_run_id input, rm_session_id = session,
      rm_status = RunStatusRunning, rm_started_at = ri_timestamp_ms input, rm_updated_at = now, rm_labels = labels,
      rm_prompt_refs = refs, rm_child_run_ids = [], rm_metadata = []\<rparr>"

definition updateRunStatus :: "int \<Rightarrow> string \<Rightarrow> run_status \<Rightarrow> store \<Rightarrow> store \<times> (record_error, unit) result" where
  "updateRunStatus now runID status s =
     (case LoadRun s runID of
        Inl e \<Rightarrow> (s, Inl (SessionFailed e))
      | Inr run \<Rightarrow>
          (case UpsertRun now (run\<lparr>rm_status := status, rm_updated_at := now\<rparr>) s of
             (s', Inl e) \<Rightarrow> (s', Inl (SessionFailed e))
           | (s', Inr u) \<Rightarrow> (s', Inr ())))"

definition load_or_create ::
  "int \<Rightarrow> string \<Rightarrow> run_meta \<Rightarrow> (run_meta \<Rightarrow> run_meta) \<Rightarrow> store \<Rightarrow> store \<times> (record_error, unit) result" where
  "load_or_create now runID fresh change s =
     (let upsert = (\<lambda>run. case UpsertRun now run s of
                            (s', Inl e) \<Rightarrow> (s', Inl (SessionFailed e))
                          | (s', Inr u) \<Rightarrow> (s', Inr ()))
      in case LoadRun s runID of
           Inl e \<Rightarrow> if e = ErrRunNotFound then upsert fresh else (s, Inl (SessionFailed e))
         | Inr run \<Rightarrow> upsert (change run))"

definition updateRunMetaFromHookEvent ::
  "int \<Rightarrow> record_input \<Rightarrow> hook_event \<Rightarrow> store \<Rightarrow> store \<times> (record_error, unit) result" where
  "updateRunMetaFromHookEvent now input evt s =
     (case evt of
        RunStartedEvent session labels \<Rightarrow>
          load_or_create now (ri_run_id input) (new_run now input session labels [])
            (\<lambda>run. run\<lparr>rm_status := RunStatusRunning, rm_updated_at := now, rm_labels := labels\<rparr>) s
      | PromptRenderedEvent ref \<Rightarrow>
          load_or_create now (ri_run_id input) (new_run now input (ri_session_id input) [] [ref])
            (\<lambda>run. run\<lparr>rm_updated_at := now, rm_prompt_refs := appendUniquePromptRef (rm_prompt_refs run) ref\<rparr>) s
      | ChildRunLinkedEvent agentID childID \<Rightarrow>
          (case LinkChildRun now (ri_run_id input)
                  \<lparr>rm_agent_id = agentID, rm_run_id = childID, rm_session_id = ri_session_id input, rm_status = RunStatusPending,
                   rm_started_at = 0, rm_updated_at = 0, rm_labels = [], rm_prompt_refs = [], rm_child_run_ids = [], rm_metadata = []\<rparr> s of
             (s', Inl e) \<Rightarrow> (s', Inl (SessionFailed e))
           | (s', Inr u) \<Rightarrow> (s', Inr ()))
      | RunSuspendedEvent \<Rightarrow> updateRunStatus now (ri_run_id input) RunStatusSuspended s
      | RunCompletedEvent status \<Rightarrow>
          if status = ''success'' then updateRunStatus now (ri_run_id input) RunStatusCompleted s
          else if status = ''failed'' then updateRunStatus now (ri_run_id input) RunStatusFailed s
          else if status = ''canceled'' then updateRunStatus now (ri_run_id input) RunStatusCanceled s
          else (s, Inl UnknownRunStatus)
      | _ \<Rightarrow> (s, Inr ()))"

subsection \<open>The activity\<close>

definition log_event :: "record_input \<Rightarrow> string \<Rightarrow> event" where
  "log_event input payload =
     \<lparr>ev_id = [], ev_key = ri_key input, ev_run_id = ri_run_id input, ev_agent_id = ri_agent_id input,
      ev_session_id = ri_session_id input, ev_turn_id = ri_turn_id input, ev_type = ri_type input,
      ev_payload = payload, ev_timestamp = ri_timestamp_ms input\<rparr>"

fun visible_text :: "part \<Rightarrow> string" where
  "visible_text (TextPart t) = t"
| "visible_text (CitationsPart t cs) = t"
| "visible_text p = []"

definition agentMessageText :: "message option \<Rightarrow> string" where
  "agentMessageText msg = (case msg of None \<Rightarrow> [] | Some m \<Rightarrow> concat (map visible_text (m_parts m)))"

definition committedAssistantTurnEventKey :: "string \<Rightarrow> nat \<Rightarrow> string" where
  "committedAssistantTurnEventKey base index = base @ ''/assistant/'' @ dec index"

fun emit_turns :: "record_env \<Rightarrow> string \<Rightarrow> nat \<Rightarrow> transcript \<Rightarrow> string list \<times> (record_error, unit) result" where
  "emit_turns env base i [] = ([], Inr ())"
| "emit_turns env base i (msg # msgs) =
     (case msg of
        None \<Rightarrow> emit_turns env base (Suc i) msgs
      | Some m \<Rightarrow>
          if m_role m \<noteq> RoleAssistant \<or> agentMessageText msg = [] then emit_turns env base (Suc i) msgs
          else (let k = committedAssistantTurnEventKey base i
                in if \<not> re_emit env k then ([], Inl StreamFailed)
                   else (let (ks, r) = emit_turns env base (Suc i) msgs in (k # ks, r))))"

text \<open>The keys emitted to the stream come second in the result.\<close>

definition appendTranscriptRunLogMessages ::
  "record_env \<Rightarrow> record_input \<Rightarrow> stores \<Rightarrow> stores \<times> string list \<times> (record_error, unit) result" where
  "appendTranscriptRunLogMessages env input s =
     (case DecodeRunLogDelta (ri_payload input) of
        Inl e \<Rightarrow> (s, [], Inl (DeltaDecode e))
      | Inr messages \<Rightarrow>
          (case Append (Some (log_event input (ri_payload input))) (st_log s) of
             (log, Inl e) \<Rightarrow> (s\<lparr>st_log := log\<rparr>, [], Inl (LogFailed e))
           | (log, Inr res) \<Rightarrow>
               (let s' = s\<lparr>st_log := log\<rparr>
                in if ri_session_id input = [] \<or> \<not> re_subscriber env then (s', [], Inr ())
                   else (case LoadSession (st_sessions s') (ri_session_id input) of
                           Inl e \<Rightarrow> (s', [], Inl (SessionFailed e))
                         | Inr sess \<Rightarrow>
                             if s_status sess = StatusEnded \<or> ri_type input \<noteq> RunLogMessagesAppended then (s', [], Inr ())
                             else (s', emit_turns env (ri_key input) 0 messages)))))"

definition saveRunSuspension :: "record_env \<Rightarrow> record_input \<Rightarrow> store \<Rightarrow> store \<times> (record_error, unit) result" where
  "saveRunSuspension env input s =
     (if ri_run_id input = [] \<or> ri_agent_id input = [] \<or> ri_session_id input = [] \<or> ri_payload input = [] then (s, Inl SuspensionFields)
      else if ri_key input \<noteq> [] \<or> ri_turn_id input \<noteq> [] \<or> ri_timestamp_ms input \<noteq> 0 then (s, Inl SuspensionEventFields)
      else case re_suspension env (ri_payload input) of
             None \<Rightarrow> (s, Inl SuspensionDecode)
           | Some sid \<Rightarrow>
               (case re_checkpoint env (ri_payload input) of
                  None \<Rightarrow> (s, Inl CheckpointDecode)
                | Some (agentID, sessionID, runID) \<Rightarrow>
                    if agentID \<noteq> ri_agent_id input \<or> sessionID \<noteq> ri_session_id input \<or> runID \<noteq> ri_run_id input
                    then (s, Inl SuspensionIdentity)
                    else (case SaveRunSuspension (ri_run_id input) \<lparr>su_id = sid, su_data = ri_payload input\<rparr> s of
                            (s', Inl e) \<Rightarrow> (s', Inl (SessionFailed e))
                          | (s', Inr u) \<Rightarrow> (s', Inr ()))))"

definition Runtime_LoadRunSuspension :: "record_env \<Rightarrow> string \<Rightarrow> store \<Rightarrow> (record_error, string) result" where
  "Runtime_LoadRunSuspension env runID s =
     (case LoadRunSuspension s runID of
        Inl e \<Rightarrow> Inl (SessionFailed e)
      | Inr stored \<Rightarrow>
          (case re_suspension env (su_data stored) of
             None \<Rightarrow> Inl SuspensionDecode
           | Some sid \<Rightarrow>
               if sid \<noteq> su_id stored then Inl SuspensionIdentity
               else (case re_checkpoint env (su_data stored) of
                       None \<Rightarrow> Inl CheckpointDecode
                     | Some (agentID, sessionID, owner) \<Rightarrow>
                         if owner \<noteq> runID then Inl SuspensionIdentity else Inr (su_data stored))))"

definition store_hook_event ::
  "int \<Rightarrow> record_input \<Rightarrow> hook_event \<Rightarrow> string \<Rightarrow> stores \<Rightarrow> stores \<times> (record_error, unit) result" where
  "store_hook_event now input evt payload s =
     (if ri_type input = ToolCallArgsDelta then (s, Inr ())
      else case Append (Some (log_event input payload)) (st_log s) of
             (log, Inl e) \<Rightarrow> (s\<lparr>st_log := log\<rparr>, Inl (LogFailed e))
           | (log, Inr res) \<Rightarrow>
               (let s' = s\<lparr>st_log := log\<rparr>
                in if ri_session_id input = [] then (s', Inr ())
                   else (case updateRunMetaFromHookEvent now input evt (st_sessions s') of
                           (ss, r) \<Rightarrow> (s'\<lparr>st_sessions := ss\<rparr>, r))))"

definition recordActivity ::
  "record_env \<Rightarrow> int \<Rightarrow> record_input \<Rightarrow> stores \<Rightarrow> stores \<times> string list \<times> (record_error, unit) result" where
  "recordActivity env now input s =
     (if ri_type input = runSuspensionRecordType
      then (case saveRunSuspension env input (st_sessions s) of (ss, r) \<Rightarrow> (s\<lparr>st_sessions := ss\<rparr>, [], r))
      else if ri_type input = RunLogMessagesSeeded \<or> ri_type input = RunLogMessagesAppended
      then appendTranscriptRunLogMessages env input s
      else case re_decode env input of
             None \<Rightarrow> (s, [], Inl EventDecode)
           | Some evt \<Rightarrow>
               (case (if evt = ToolCallScheduledEvent then re_enrich env input else Some None) of
                  None \<Rightarrow> (s, [], Inl HintFailed)
                | Some reencoded \<Rightarrow>
                    (let payload = (case reencoded of None \<Rightarrow> ri_payload input | Some p \<Rightarrow> p)
                     in case store_hook_event now input evt payload s of
                          (s', Inl e) \<Rightarrow> (s', [], Inl e)
                        | (s', Inr u) \<Rightarrow>
                            if ri_session_id input = [] \<or> \<not> re_subscriber env then (s', [], Inr ())
                            else (case LoadSession (st_sessions s') (ri_session_id input) of
                                    Inl e \<Rightarrow> (s', [], Inl (SessionFailed e))
                                  | Inr sess \<Rightarrow>
                                      if s_status sess = StatusEnded then (s', [], Inr ())
                                      else if \<not> re_emit env (ri_key input) then (s', [], Inl StreamFailed)
                                      else (s', [ri_key input], Inr ())))))"

text \<open>Outside a workflow the record is handed to the activity directly, inside one by its engine.\<close>

definition publishTranscriptMessages ::
  "(int \<Rightarrow> int \<Rightarrow> string) \<Rightarrow> record_env \<Rightarrow> int \<Rightarrow> record_input \<Rightarrow> transcript \<Rightarrow> stores \<Rightarrow>
   stores \<times> string list \<times> (record_error, unit) result" where
  "publishTranscriptMessages ft env now meta messages s =
     (case EncodeRunLogDelta ft messages of
        Inl e \<Rightarrow> (s, [], Inl (DeltaEncode e))
      | Inr payload \<Rightarrow>
          if length payload > maxHookPayloadBytes then (s, [], Inl (PayloadTooLarge (length payload)))
          else recordActivity env now (meta\<lparr>ri_payload := payload\<rparr>) s)"

subsection \<open>Replay\<close>

definition isTranscriptRunLogType :: "string \<Rightarrow> bool" where
  "isTranscriptRunLogType typ \<longleftrightarrow> typ = RunLogMessagesSeeded \<or> typ = RunLogMessagesAppended"

fun ReplayRunLogEvents :: "event list \<Rightarrow> (json_error, transcript \<times> bool) result" where
  "ReplayRunLogEvents [] = Inr ([], False)"
| "ReplayRunLogEvents (event # evs) =
     (if \<not> isTranscriptRunLogType (ev_type event) then ReplayRunLogEvents evs
      else case DecodeRunLogDelta (ev_payload event) of
             Inl e \<Rightarrow> Inl e
           | Inr delta \<Rightarrow>
               (case ReplayRunLogEvents evs of
                  Inl e \<Rightarrow> Inl e
                | Inr (messages, found) \<Rightarrow> Inr (delta @ messages, True)))"

datatype replay_error = ReplayRunIDRequired | ReplayList runlog_error | ReplayDecode json_error | NoTranscript

definition runlogReplayPageSize :: int where "runlogReplayPageSize = 512"

partial_function (option) replay_pages ::
  "(string \<Rightarrow> int \<Rightarrow> (runlog_error, page) result) \<Rightarrow> string \<Rightarrow> transcript \<Rightarrow> bool \<Rightarrow>
   (replay_error, transcript) result option" where
  "replay_pages fetch cursor messages found =
     (case fetch cursor runlogReplayPageSize of
        Inl e \<Rightarrow> Some (Inl (ReplayList e))
      | Inr p \<Rightarrow>
          (case ReplayRunLogEvents (pg_events p) of
             Inl e \<Rightarrow> Some (Inl (ReplayDecode e))
           | Inr (replayed, pageFound) \<Rightarrow>
               if pg_next_cursor p = []
               then Some (if found \<or> pageFound then Inr (messages @ replayed) else Inl NoTranscript)
               else replay_pages fetch (pg_next_cursor p) (messages @ replayed) (found \<or> pageFound)))"

definition BuildMessagesFromRunLog :: "log_store \<Rightarrow> string \<Rightarrow> (replay_error, transcript) result option" where
  "BuildMessagesFromRunLog s runID =
     (if runID = [] then Some (Inl ReplayRunIDRequired)
      else replay_pages (ListEvents s runID) [] [] False)"

subsection \<open>Sessions and streams\<close>

lemma load_or_create_ok: "store_ok s \<Longrightarrow> store_ok (fst (load_or_create now runID fresh change s))"
  using store_ok_UpsertRun
  by (auto simp: load_or_create_def Let_def split: sum.splits prod.splits) (metis fst_conv)+

lemma updateRunStatus_ok: "store_ok s \<Longrightarrow> store_ok (fst (updateRunStatus now runID status s))"
  using store_ok_UpsertRun
  by (auto simp: updateRunStatus_def split: sum.splits prod.splits) (metis fst_conv)+

lemma update_meta_ok: "store_ok s \<Longrightarrow> store_ok (fst (updateRunMetaFromHookEvent now input evt s))"
  using store_ok_LinkChildRun [of s]
  by (auto simp: updateRunMetaFromHookEvent_def load_or_create_ok updateRunStatus_ok
      split: hook_event.splits sum.splits prod.splits) (metis fst_conv)+

definition in_log :: "record_input \<Rightarrow> log_store \<Rightarrow> bool" where
  "in_log input log \<longleftrightarrow> ri_key input \<in> dom (eventsByKey log (ri_run_id input))"

lemma Append_in_log: "Append (Some (log_event input p)) log = (log', Inr res) \<Longrightarrow> in_log input log'"
  by (auto simp: Append_def in_log_def log_event_def Let_def split: if_splits option.splits)

text \<open>The keys of the assistant turns a delta commits, by position in the delta.\<close>

definition committed_turn :: "message option \<Rightarrow> bool" where
  "committed_turn msg \<longleftrightarrow> (case msg of None \<Rightarrow> False | Some m \<Rightarrow> m_role m = RoleAssistant \<and> agentMessageText msg \<noteq> [])"

definition committed_keys :: "string \<Rightarrow> nat \<Rightarrow> transcript \<Rightarrow> string list" where
  "committed_keys base i msgs =
     map (\<lambda>(j, msg). committedAssistantTurnEventKey base j) (filter (\<lambda>(j, msg). committed_turn msg) (enumerate i msgs))"

lemma emitted_keys:
  "emit_turns env base i msgs = (ks, r) \<Longrightarrow>
   \<exists>rest. committed_keys base i msgs = ks @ rest \<and> (is_ok r \<longrightarrow> rest = [])"
  by (induction env base i msgs arbitrary: ks r rule: emit_turns.induct)
    (fastforce simp: committed_keys_def committed_turn_def Let_def split: option.splits if_splits prod.splits)+

definition stream_legal :: "record_input \<Rightarrow> stores \<Rightarrow> bool" where
  "stream_legal input s \<longleftrightarrow>
     ri_session_id input \<noteq> [] \<and>
     (\<exists>sess. LoadSession (st_sessions s) (ri_session_id input) = Inr sess \<and> s_status sess \<noteq> StatusEnded) \<and>
     (ri_type input \<noteq> ToolCallArgsDelta \<longrightarrow> in_log input (st_log s)) \<and>
     ri_type input \<notin> {runSuspensionRecordType, RunLogMessagesSeeded}"

lemma transcript_stream:
  assumes "appendTranscriptRunLogMessages env input s = (s', ks, r)" "ks \<noteq> []"
  shows "stream_legal input s' \<and>
    (\<exists>ms rest. DecodeRunLogDelta (ri_payload input) = Inr ms \<and> committed_keys (ri_key input) 0 ms = ks @ rest \<and>
       (is_ok r \<longrightarrow> rest = []))"
proof -
  from assms obtain ms log res where step: "DecodeRunLogDelta (ri_payload input) = Inr ms"
    "Append (Some (log_event input (ri_payload input))) (st_log s) = (log, Inr res)" "s' = s\<lparr>st_log := log\<rparr>"
    "ri_session_id input \<noteq> []" "ri_type input = RunLogMessagesAppended" "emit_turns env (ri_key input) 0 ms = (ks, r)"
    and "\<exists>sess. LoadSession (st_sessions s') (ri_session_id input) = Inr sess \<and> s_status sess \<noteq> StatusEnded"
    by (auto simp: appendTranscriptRunLogMessages_def Let_def split: sum.splits prod.splits if_splits)
  moreover have "RunLogMessagesAppended \<noteq> runSuspensionRecordType" "RunLogMessagesAppended \<noteq> RunLogMessagesSeeded"
    by (simp_all add: RunLogMessagesAppended_def RunLogMessagesSeeded_def runSuspensionRecordType_def)
  ultimately show ?thesis
    using Append_in_log [OF step(2)] emitted_keys [OF step(6)] by (simp add: stream_legal_def)
qed

lemma hook_stream:
  assumes "recordActivity env now input s = (s', ks, r)" "ks \<noteq> []"
    and "ri_type input \<notin> {runSuspensionRecordType, RunLogMessagesSeeded, RunLogMessagesAppended}"
  shows "stream_legal input s'"
proof -
  from assms obtain evt p where "store_hook_event now input evt p s = (s', Inr ())" "ri_session_id input \<noteq> []"
    and "\<exists>sess. LoadSession (st_sessions s') (ri_session_id input) = Inr sess \<and> s_status sess \<noteq> StatusEnded"
    by (auto simp: recordActivity_def Let_def split: option.splits sum.splits prod.splits if_splits)
  moreover from this(1) have "ri_type input \<noteq> ToolCallArgsDelta \<longrightarrow> in_log input (st_log s')"
    by (auto simp: store_hook_event_def Let_def Append_in_log split: sum.splits prod.splits if_splits)
  ultimately show ?thesis using assms(3) by (simp add: stream_legal_def)
qed

lemma store_hook_event_ok:
  assumes "store_hook_event now input evt p s = (s', r)" "store_ok (st_sessions s)"
  shows "store_ok (st_sessions s')"
  using assms update_meta_ok [of "st_sessions s" now input evt]
  by (auto simp: store_hook_event_def Let_def split: sum.splits prod.splits if_splits)

lemma saveRunSuspension_ok: "store_ok s \<Longrightarrow> store_ok (fst (saveRunSuspension env input s))"
  using store_ok_SaveRunSuspension [of s "ri_run_id input"]
  by (auto simp: saveRunSuspension_def split: sum.splits prod.splits option.splits) (metis fst_conv)+

lemma recordActivity_store_ok:
  assumes "recordActivity env now input s = (s', ks, r)" "store_ok (st_sessions s)"
  shows "store_ok (st_sessions s')"
proof (cases "ri_type input \<in> {runSuspensionRecordType, RunLogMessagesSeeded, RunLogMessagesAppended}")
  case True
  then show ?thesis
    using assms saveRunSuspension_ok [of "st_sessions s" env input]
    by (auto simp: recordActivity_def appendTranscriptRunLogMessages_def Let_def split: sum.splits prod.splits if_splits)
next
  case False
  then have "s' = s \<or> (\<exists>evt p r'. store_hook_event now input evt p s = (s', r'))"
    using assms(1)
    by (auto simp: recordActivity_def Let_def split: option.splits sum.splits prod.splits if_splits)
  then show ?thesis using store_hook_event_ok assms(2) by blast
qed

text \<open>
  Property C28. Streaming follows the log and the session. Whenever the record activity emits to the
  stream, the run has a session that is stored and not ended, the record is already in the run log
  unless it is an argument delta, and it is neither a suspension nor a seed. An appended delta emits
  the keys of its assistant turns in order, all of them on success and the first ones when the stream
  fails. The session store keeps its invariant whatever the activity returns.
\<close>

theorem stream_follows_log:
  assumes "recordActivity env now input s = (s', ks, r)"
  shows "(ks \<noteq> [] \<longrightarrow> stream_legal input s') \<and>
    (ks \<noteq> [] \<and> ri_type input = RunLogMessagesAppended \<longrightarrow>
      (\<exists>ms rest. DecodeRunLogDelta (ri_payload input) = Inr ms \<and> committed_keys (ri_key input) 0 ms = ks @ rest \<and>
         (is_ok r \<longrightarrow> rest = []))) \<and>
    (store_ok (st_sessions s) \<longrightarrow> store_ok (st_sessions s'))"
proof (cases "ri_type input = RunLogMessagesSeeded \<or> ri_type input = RunLogMessagesAppended")
  case True
  then have "appendTranscriptRunLogMessages env input s = (s', ks, r)"
    using assms by (auto simp: recordActivity_def RunLogMessagesAppended_def RunLogMessagesSeeded_def runSuspensionRecordType_def)
  then show ?thesis using transcript_stream recordActivity_store_ok [OF assms] by blast
next
  case False
  have "ks = []" if "ri_type input = runSuspensionRecordType"
    using assms that by (auto simp: recordActivity_def split: prod.splits)
  then show ?thesis using False hook_stream [OF assms] recordActivity_store_ok [OF assms] by auto
qed

definition example_meta :: "string \<Rightarrow> string \<Rightarrow> record_input" where
  "example_meta typ k = \<lparr>ri_type = typ, ri_key = k, ri_run_id = ''r'', ri_agent_id = ''a'', ri_session_id = [],
     ri_turn_id = [], ri_timestamp_ms = 1, ri_payload = []\<rparr>"

definition example_env :: record_env where
  "example_env = \<lparr>re_decode = (\<lambda>_. Some OtherEvent), re_enrich = (\<lambda>_. Some None), re_suspension = (\<lambda>_. None), re_checkpoint = (\<lambda>_. None),
     re_subscriber = False, re_emit = (\<lambda>_. True)\<rparr>"

theorem stream_follows_log_witness:
  "let env = example_env\<lparr>re_subscriber := True\<rparr>;
       input = (example_meta ''planner_note'' ''k'')\<lparr>ri_session_id := ''s''\<rparr>;
       s = \<lparr>st_log = NewLog, st_sessions = fst (CreateSession ''s'' 1 New)\<rparr>;
       (s', ks, r) = recordActivity env 5 input s
   in ks = [''k''] \<and> r = Inr () \<and> stream_legal input s' \<and> store_ok (st_sessions s')"
proof -
  let ?env = "example_env\<lparr>re_subscriber := True\<rparr>" and ?input = "(example_meta ''planner_note'' ''k'')\<lparr>ri_session_id := ''s''\<rparr>"
    and ?s = "\<lparr>st_log = NewLog, st_sessions = fst (CreateSession ''s'' 1 New)\<rparr>"
  have ran: "snd (recordActivity ?env 5 ?input ?s) = ([''k''], Inr ())"
    by (simp add: recordActivity_def store_hook_event_def example_env_def example_meta_def RunLogMessagesSeeded_def
      RunLogMessagesAppended_def runSuspensionRecordType_def ToolCallArgsDelta_def Append_def log_event_def NewLog_def
      updateRunMetaFromHookEvent_def CreateSession_def New_def LoadSession_def Let_def)
  obtain s' where s': "recordActivity ?env 5 ?input ?s = (s', [''k''], Inr ())"
    using ran by (cases "recordActivity ?env 5 ?input ?s") auto
  have "store_ok New" by (simp add: store_ok_def New_def)
  then have "store_ok (st_sessions ?s)" by (simp add: store_ok_CreateSession)
  with stream_follows_log [OF s'] s' show ?thesis by simp
qed

subsection \<open>Stored suspensions\<close>

lemma saved_suspension_loads:
  assumes "saveRunSuspension env input s = (s', Inr ())"
  shows "Runtime_LoadRunSuspension env (ri_run_id input) s' = Inr (ri_payload input)"
  using assms
  by (auto simp: saveRunSuspension_def Runtime_LoadRunSuspension_def SaveRunSuspension_def LoadRunSuspension_def Let_def
    split: if_splits option.splits prod.splits sum.splits)

subsection \<open>The log refines a transcript per run\<close>

text \<open>
  The abstract store has, per run, the keys recorded so far and the transcript, \<open>None\<close> until the first
  seed or delta. Recording a key twice has no effect.
\<close>

type_synonym run_spec = "string set \<times> transcript option"

definition spec_record :: "string \<Rightarrow> string \<Rightarrow> transcript option \<Rightarrow> (string \<Rightarrow> run_spec) \<Rightarrow> string \<Rightarrow> run_spec" where
  "spec_record runID k delta a =
     (if k \<in> fst (a runID) then a
      else a(runID := (insert k (fst (a runID)),
                       case delta of
                         None \<Rightarrow> snd (a runID)
                       | Some ms \<Rightarrow> Some ((case snd (a runID) of None \<Rightarrow> [] | Some t \<Rightarrow> t) @ ms))))"

definition spec_read :: "(string \<Rightarrow> run_spec) \<Rightarrow> string \<Rightarrow> (replay_error, transcript) result" where
  "spec_read a runID = (case snd (a runID) of None \<Rightarrow> Inl NoTranscript | Some ms \<Rightarrow> Inr ms)"

definition run_view :: "log_store \<Rightarrow> string \<Rightarrow> run_spec" where
  "run_view s r =
     (dom (eventsByKey s r),
      case ReplayRunLogEvents (events s r) of Inl e \<Rightarrow> None | Inr (ms, found) \<Rightarrow> if found then Some ms else None)"

definition readable_log :: "log_store \<Rightarrow> bool" where
  "readable_log s \<longleftrightarrow> log_ok s \<and> (\<forall>r. \<exists>ms found. ReplayRunLogEvents (events s r) = Inr (ms, found) \<and> (\<not> found \<longrightarrow> ms = []))"

text \<open>What a record adds to the transcript of its run.\<close>

definition delta_of :: "record_input \<Rightarrow> transcript option" where
  "delta_of input =
     (if isTranscriptRunLogType (ri_type input)
      then (case DecodeRunLogDelta (ri_payload input) of Inl e \<Rightarrow> None | Inr ms \<Rightarrow> Some ms) else None)"

lemma replay_append:
  "ReplayRunLogEvents (xs @ ys) =
     (case ReplayRunLogEvents xs of
        Inl e \<Rightarrow> Inl e
      | Inr (a, f) \<Rightarrow> (case ReplayRunLogEvents ys of Inl e \<Rightarrow> Inl e | Inr (b, g) \<Rightarrow> Inr (a @ b, f \<or> g)))"
  by (induction xs) (auto split: sum.splits)

lemma replay_append_Inr:
  assumes "ReplayRunLogEvents (xs @ ys) = Inr (ms, seen)"
  obtains a f b g where "ReplayRunLogEvents xs = Inr (a, f)" "ReplayRunLogEvents ys = Inr (b, g)"
    "ms = a @ b" "seen \<longleftrightarrow> f \<or> g"
proof -
  obtain a f where xs: "ReplayRunLogEvents xs = Inr (a, f)"
    using assms by (auto simp: replay_append split: sum.splits)
  obtain b g where ys: "ReplayRunLogEvents ys = Inr (b, g)"
    using assms xs by (auto simp: replay_append split: sum.splits)
  show thesis using assms that [OF xs ys] by (simp add: replay_append xs ys)
qed

lemma readable_events:
  assumes "readable_log s"
  obtains ms found where "ReplayRunLogEvents (events s r) = Inr (ms, found)" "\<not> found \<longrightarrow> ms = []"
  using assms unfolding readable_log_def by blast

lemma Append_view:
  assumes "readable_log s" "Append (Some e) s = (s', r)"
    and "isTranscriptRunLogType (ev_type e) \<longrightarrow> (\<exists>ms. DecodeRunLogDelta (ev_payload e) = Inr ms)"
    and delta: "delta = (if isTranscriptRunLogType (ev_type e)
      then (case DecodeRunLogDelta (ev_payload e) of Inl e \<Rightarrow> None | Inr ms \<Rightarrow> Some ms) else None)"
  shows "readable_log s' \<and>
    run_view s' = (if is_ok r then spec_record (ev_run_id e) (ev_key e) delta (run_view s) else run_view s)"
proof (cases "ev_run_id e \<noteq> [] \<and> ev_key e \<noteq> [] \<and> eventsByKey s (ev_run_id e) (ev_key e) = None")
  case False
  with assms(2) have "s' = s" "is_ok r \<Longrightarrow> ev_key e \<in> dom (eventsByKey s (ev_run_id e))"
    by (auto simp: Append_def split: if_splits option.splits)
  with assms(1) show ?thesis by (auto simp: spec_record_def run_view_def)
next
  case True
  obtain seq where s': "s' = s\<lparr>nextSeq := (nextSeq s)(ev_run_id e := seq),
      events := (events s)(ev_run_id e := events s (ev_run_id e) @ [e\<lparr>ev_id := dec seq\<rparr>]),
      eventsByKey := (eventsByKey s)(ev_run_id e := (eventsByKey s (ev_run_id e))(ev_key e \<mapsto> e\<lparr>ev_id := dec seq\<rparr>)),
      sessionEvents := (if ev_session_id e \<noteq> []
        then (sessionEvents s)(ev_session_id e := sessionEvents s (ev_session_id e) @ [e\<lparr>ev_id := dec seq\<rparr>])
        else sessionEvents s)\<rparr>" "is_ok r"
    using True assms(2) by (auto simp: Append_def Let_def)
  have ok: "log_ok s'" using log_ok_Append [of s "Some e"] assms(1,2) by (simp add: readable_log_def)
  have new: "events s' q = (if q = ev_run_id e then events s q @ [e\<lparr>ev_id := dec seq\<rparr>] else events s q)"
      "dom (eventsByKey s' q) = (if q = ev_run_id e then insert (ev_key e) (dom (eventsByKey s q)) else dom (eventsByKey s q))" for q
    using s'(1) by auto
  have fresh: "ev_key e \<notin> dom (eventsByKey s (ev_run_id e))" using True by auto
  obtain ms found where old: "ReplayRunLogEvents (events s (ev_run_id e)) = Inr (ms, found)" "\<not> found \<longrightarrow> ms = []"
    using assms(1) by (rule readable_events)
  have replayed: "ReplayRunLogEvents (events s' (ev_run_id e)) =
      Inr (ms @ (case delta of None \<Rightarrow> [] | Some d \<Rightarrow> d), found \<or> delta \<noteq> None)"
    using assms(3) old by (auto simp: new replay_append delta split: sum.splits)
  have "readable_log s'"
    unfolding readable_log_def
  proof (intro conjI allI ok)
    fix q show "\<exists>ms found. ReplayRunLogEvents (events s' q) = Inr (ms, found) \<and> (\<not> found \<longrightarrow> ms = [])"
      using replayed old assms(1) by (cases "q = ev_run_id e") (auto simp: new(1) readable_log_def)
  qed
  moreover have "run_view s' = spec_record (ev_run_id e) (ev_key e) delta (run_view s)"
  proof
    fix q show "run_view s' q = spec_record (ev_run_id e) (ev_key e) delta (run_view s) q"
      using replayed old fresh
      by (cases "q = ev_run_id e") (auto simp: new run_view_def spec_record_def split: option.splits)
  qed
  ultimately show ?thesis using s'(2) by simp
qed

text \<open>A record either leaves the view of the log alone or records its key and its delta.\<close>

definition recorded :: "record_input \<Rightarrow> log_store \<Rightarrow> log_store \<Rightarrow> bool \<Rightarrow> bool" where
  "recorded input s s' must \<longleftrightarrow> readable_log s' \<and>
     (run_view s' = spec_record (ri_run_id input) (ri_key input) (delta_of input) (run_view s) \<or>
      \<not> must \<and> run_view s' = run_view s)"

lemma recorded_refl: "readable_log s \<Longrightarrow> recorded input s s False"
  by (simp add: recorded_def)

lemma recorded_Append:
  assumes "readable_log s" "Append (Some (log_event input p)) s = (s', r)"
    and "isTranscriptRunLogType (ri_type input) \<longrightarrow> p = ri_payload input \<and> (\<exists>ms. DecodeRunLogDelta p = Inr ms)"
  shows "recorded input s s' (is_ok r)"
proof -
  have "readable_log s' \<and> run_view s' =
      (if is_ok r then spec_record (ri_run_id input) (ri_key input) (delta_of input) (run_view s) else run_view s)"
    using Append_view [OF assms(1,2), of "delta_of input"] assms(3)
    by (auto simp: log_event_def delta_of_def)
  then show ?thesis by (simp add: recorded_def split: if_splits)
qed

lemma recorded_mono: "recorded input s s' b \<Longrightarrow> (c \<longrightarrow> b) \<Longrightarrow> recorded input s s' c"
  by (auto simp: recorded_def)

lemma recorded_transcript:
  assumes "readable_log (st_log s)" "isTranscriptRunLogType (ri_type input)"
    and "appendTranscriptRunLogMessages env input s = (s', ks, r)"
  shows "recorded input (st_log s) (st_log s') (is_ok r) \<and> st_sessions s' = st_sessions s"
proof (cases "DecodeRunLogDelta (ri_payload input)")
  case (Inl e)
  then show ?thesis using assms(1,3) recorded_refl [of "st_log s"] by (auto simp: appendTranscriptRunLogMessages_def)
next
  case (Inr ms)
  obtain log res where app: "Append (Some (log_event input (ri_payload input))) (st_log s) = (log, res)"
    by (rule prod.exhaust)
  from recorded_Append [OF assms(1) this] Inr have rec: "recorded input (st_log s) log (is_ok res)" by simp
  show ?thesis
  proof (cases res)
    case l: (Inl e)
    then show ?thesis using rec Inr app assms(3) by (auto simp: appendTranscriptRunLogMessages_def)
  next
    case r: (Inr a)
    then have "recorded input (st_log s) log True" using rec by simp
    moreover have "s' = s\<lparr>st_log := log\<rparr>"
      using Inr app assms(3) r
      by (auto simp: appendTranscriptRunLogMessages_def Let_def split: if_splits sum.splits)
    ultimately show ?thesis by (auto intro: recorded_mono)
  qed
qed

lemma recorded_hook:
  assumes "readable_log (st_log s)" "\<not> isTranscriptRunLogType (ri_type input)"
    and "store_hook_event now input evt p s = (s', r)"
  shows "recorded input (st_log s) (st_log s') (is_ok r \<and> ri_type input \<noteq> ToolCallArgsDelta)"
proof (cases "ri_type input = ToolCallArgsDelta")
  case True
  then show ?thesis using assms(1,3) by (auto simp: store_hook_event_def recorded_refl)
next
  case False
  obtain log res where app: "Append (Some (log_event input p)) (st_log s) = (log, res)" by (rule prod.exhaust)
  from recorded_Append [OF assms(1) this] assms(2) have rec: "recorded input (st_log s) log (is_ok res)" by simp
  show ?thesis
  proof (cases res)
    case l: (Inl e)
    then show ?thesis using rec app assms(3) False by (auto simp: store_hook_event_def)
  next
    case r: (Inr a)
    then have "recorded input (st_log s) log True" using rec by simp
    moreover have "st_log s' = log"
      using app assms(3) r False by (auto simp: store_hook_event_def Let_def split: if_splits prod.splits)
    ultimately show ?thesis by (auto intro: recorded_mono)
  qed
qed

definition logged_type :: "string \<Rightarrow> bool" where
  "logged_type typ \<longleftrightarrow> typ \<noteq> runSuspensionRecordType \<and> typ \<noteq> ToolCallArgsDelta"

lemma recorded_activity:
  assumes "readable_log (st_log s)" "recordActivity env now input s = (s', ks, r)"
  shows "recorded input (st_log s) (st_log s') (is_ok r \<and> logged_type (ri_type input))"
proof (cases "ri_type input = runSuspensionRecordType \<or> isTranscriptRunLogType (ri_type input)")
  case True
  then show ?thesis
    using assms recorded_transcript [OF assms(1), of input env s' ks r]
    by (auto simp: recordActivity_def isTranscriptRunLogType_def logged_type_def recorded_refl recorded_def
          split: prod.splits if_splits)
next
  case False
  then have nt: "\<not> isTranscriptRunLogType (ri_type input)" by simp
  consider "s' = s" "\<not> is_ok r"
    | evt p r' where "store_hook_event now input evt p s = (s', r')" "is_ok r \<longrightarrow> is_ok r'"
    using assms(2) False
    by (auto simp: recordActivity_def isTranscriptRunLogType_def Let_def
          split: prod.splits if_splits option.splits sum.splits)
  then show ?thesis
  proof cases
    case 1 then show ?thesis using assms(1) by (simp add: recorded_refl)
  next
    case 2 then show ?thesis using recorded_hook [OF assms(1) nt 2(1)] recorded_mono by (auto simp: logged_type_def)
  qed
qed

subsection \<open>Replay returns the transcript\<close>

context pager
begin

lemma replay_pages_from:
  assumes "invar s" "int (length (contents s)) + runlogReplayPageSize < 2 ^ 63"
    and "ReplayRunLogEvents (drop n (contents s)) = Inr (rest, seen)"
    and "cursor_at c n" "n \<le> length (contents s)"
  shows "replay_pages (fetch s) c messages found =
    Some (if found \<or> seen then Inr (messages @ rest) else Inl NoTranscript)"
  using assms(3-5)
proof (induction "length (contents s) - n" arbitrary: c n messages found rest seen rule: less_induct)
  case less
  have pos: "0 < runlogReplayPageSize" by (simp add: runlogReplayPageSize_def)
  obtain p where p: "fetch s c runlogReplayPageSize = Inr p" "page_of (contents s) n runlogReplayPageSize p"
    using fetch_page [OF assms(1) pos assms(2) less.prems(2,3)] by blast
  let ?n = "n + nat runlogReplayPageSize"
  have split: "drop n (contents s) = pg_events p @ drop ?n (contents s)"
    using p(2) append_take_drop_id [of "nat runlogReplayPageSize" "drop n (contents s)"]
    by (simp add: page_of_def add.commute)
  obtain a f b g where r: "ReplayRunLogEvents (pg_events p) = Inr (a, f)"
      "ReplayRunLogEvents (drop ?n (contents s)) = Inr (b, g)" "rest = a @ b" "seen \<longleftrightarrow> f \<or> g"
    using less.prems(1) unfolding split by (rule replay_append_Inr)
  show ?case
  proof (cases "int n + runlogReplayPageSize < int (length (contents s))")
    case True
    have "replay_pages (fetch s) (pg_next_cursor p) (messages @ a) (found \<or> f) =
        Some (if (found \<or> f) \<or> g then Inr ((messages @ a) @ b) else Inl NoTranscript)"
      using p(2) True pos r(2) by (intro less.hyps) (auto simp: page_of_def)
    then show ?thesis
      using p True r by (subst replay_pages.simps) (simp add: page_of_def)
  next
    case False
    then have "b = []" "\<not> g" using r(2) pos by (simp_all add: nat_le_iff)
    then show ?thesis
      using p r False by (subst replay_pages.simps) (simp add: page_of_def)
  qed
qed

end

lemma build_reads_view:
  assumes "readable_log s" "runID \<noteq> []" "int (length (events s runID)) + runlogReplayPageSize < 2 ^ 63"
  shows "BuildMessagesFromRunLog s runID = Some (spec_read (run_view s) runID)"
proof -
  obtain ms found where old: "ReplayRunLogEvents (events s runID) = Inr (ms, found)" "\<not> found \<longrightarrow> ms = []"
    using assms(1) by (rule readable_events)
  have "replay_pages (ListEvents (fst (s, runID)) (snd (s, runID))) [] [] False =
      Some (if False \<or> found then Inr ([] @ ms) else Inl NoTranscript)"
    using assms old
    by (intro run_pager.replay_pages_from) (auto simp: run_readable_def run_contents_def readable_log_def cursor_at_def)
  then show ?thesis using assms(2) old by (simp add: BuildMessagesFromRunLog_def spec_read_def run_view_def)
qed

subsection \<open>Simulation\<close>

text \<open>The operations of the log: a publication of messages and any other record.\<close>

datatype log_op = PublishOp record_input transcript | RecordOp record_input

fun exec_log_op ::
  "(int \<Rightarrow> int \<Rightarrow> string) \<Rightarrow> record_env \<Rightarrow> int \<Rightarrow> log_op \<Rightarrow> stores \<Rightarrow> stores \<times> string list \<times> (record_error, unit) result" where
  "exec_log_op ft env now (PublishOp meta ms) s = publishTranscriptMessages ft env now meta ms s"
| "exec_log_op ft env now (RecordOp input) s = recordActivity env now input s"

text \<open>
  \<open>world n\<close> holds the collaborators and the clock at operation \<open>n\<close>, so that a stream that fails can accept
  the same key when it is retried.
\<close>

fun exec_log_ops ::
  "(int \<Rightarrow> int \<Rightarrow> string) \<Rightarrow> (nat \<Rightarrow> record_env \<times> int) \<Rightarrow> nat \<Rightarrow> log_op list \<Rightarrow> stores \<Rightarrow> stores \<times> bool list" where
  "exec_log_ops ft world n [] s = (s, [])"
| "exec_log_ops ft world n (op # ops) s =
     (let (s', ks, r) = exec_log_op ft (fst (world n)) (snd (world n)) op s;
          (t, oks) = exec_log_ops ft world (Suc n) ops s'
      in (t, is_ok r # oks))"

fun op_input :: "log_op \<Rightarrow> record_input" where
  "op_input (PublishOp meta ms) = meta"
| "op_input (RecordOp input) = input"

fun op_delta :: "log_op \<Rightarrow> transcript option" where
  "op_delta (PublishOp meta ms) = Some ms"
| "op_delta (RecordOp input) = delta_of input"

fun op_ok :: "log_op \<Rightarrow> bool" where
  "op_ok (PublishOp meta ms) \<longleftrightarrow> isTranscriptRunLogType (ri_type meta) \<and>
     list_all (\<lambda>m. case m of None \<Rightarrow> True | Some msg \<Rightarrow> canonical_message msg) ms"
| "op_ok (RecordOp input) \<longleftrightarrow> True"

text \<open>
  A reported success takes effect; a failure, such as one of the stream after the append, may have
  taken effect, and the retry with the same key then has none.
\<close>

inductive spec_run :: "(log_op \<times> bool) list \<Rightarrow> (string \<Rightarrow> run_spec) \<Rightarrow> (string \<Rightarrow> run_spec) \<Rightarrow> bool" where
  finished: "spec_run [] a a"
| effect: "spec_run ops (spec_record (ri_run_id (op_input op)) (ri_key (op_input op)) (op_delta op) a) b \<Longrightarrow>
    spec_run ((op, ok) # ops) a b"
| no_effect: "\<not> ok \<or> \<not> logged_type (ri_type (op_input op)) \<Longrightarrow> spec_run ops a b \<Longrightarrow> spec_run ((op, ok) # ops) a b"

inductive_simps spec_run_simps: "spec_run [] a b" "spec_run ((op, ok) # ops) a b"

lemma exec_log_op_view:
  assumes "readable_log (st_log s)" "op_ok op" "exec_log_op ft env now op s = (s', ks, r)"
  shows "readable_log (st_log s') \<and>
    (run_view (st_log s') = spec_record (ri_run_id (op_input op)) (ri_key (op_input op)) (op_delta op) (run_view (st_log s)) \<or>
     (\<not> is_ok r \<or> \<not> logged_type (ri_type (op_input op))) \<and> run_view (st_log s') = run_view (st_log s))"
proof (cases op)
  case (RecordOp input)
  with assms recorded_activity [of s env now input s' ks r] show ?thesis by (auto simp: recorded_def)
next
  case (PublishOp meta ms)
  from assms(2) PublishOp obtain t where t: "EncodeRunLogDelta ft ms = Inr t" "DecodeRunLogDelta t = Inr ms"
    using delta_roundtrip [of ms ft] by auto
  show ?thesis
  proof (cases "length t > maxHookPayloadBytes")
    case True
    with t PublishOp assms show ?thesis by (auto simp: publishTranscriptMessages_def)
  next
    case False
    have "delta_of (meta\<lparr>ri_payload := t\<rparr>) = Some ms"
      using t(2) assms(2) PublishOp by (simp add: delta_of_def)
    moreover have "recordActivity env now (meta\<lparr>ri_payload := t\<rparr>) s = (s', ks, r)"
      using False t(1) PublishOp assms(3) by (simp add: publishTranscriptMessages_def)
    ultimately show ?thesis
      using recorded_activity [OF assms(1)] PublishOp by (fastforce simp: recorded_def)
  qed
qed

lemma exec_log_ops_view:
  "readable_log (st_log s) \<Longrightarrow> list_all op_ok ops \<Longrightarrow> exec_log_ops ft world n ops s = (t, oks) \<Longrightarrow>
   readable_log (st_log t) \<and> spec_run (zip ops oks) (run_view (st_log s)) (run_view (st_log t))"
proof (induction ops arbitrary: n s oks)
  case (Cons op ops)
  obtain s' ks r where s': "exec_log_op ft (fst (world n)) (snd (world n)) op s = (s', ks, r)" by (metis prod.exhaust)
  obtain oks' where oks: "exec_log_ops ft world (Suc n) ops s' = (t, oks')" "oks = is_ok r # oks'"
    using Cons.prems(3) s' by (auto split: prod.splits)
  have "op_ok op" "list_all op_ok ops" using Cons.prems(2) by simp_all
  note step = exec_log_op_view [OF Cons.prems(1) this(1) s'] and rest = Cons.IH [OF _ this(2) oks(1)]
  then show ?case unfolding oks(2) by (auto simp: spec_run_simps)
qed (simp add: spec_run.finished)

lemma readable_new: "readable_log NewLog"
  by (simp add: readable_log_def log_ok_New) (simp add: NewLog_def ex_bool_eq)

text \<open>
  Property C27. The run log refines an append-only transcript per run. Take any sequence of records and
  of publications of canonical messages, whatever each of them returns and whatever the collaborators answer
  at each step, from an empty log. The outcome
  is one the abstract store allows: a reported success appends the delta to the transcript of its run
  unless its key is already recorded, a failure does so or nothing, and no other run changes. Replaying
  the log of any run page by page ends and returns the abstract transcript, or the missing-transcript
  error when there is none.
\<close>

theorem transcript_log_refines:
  assumes "list_all op_ok ops" "exec_log_ops ft world 0 ops \<lparr>st_log = NewLog, st_sessions = ss\<rparr> = (t, oks)"
  shows "\<exists>a. spec_run (zip ops oks) (\<lambda>_. ({}, None)) a \<and>
    (\<forall>runID. runID \<noteq> [] \<and> int (length (events (st_log t) runID)) + 512 < 2 ^ 63 \<longrightarrow>
       BuildMessagesFromRunLog (st_log t) runID = Some (spec_read a runID))"
proof (intro exI conjI allI impI)
  have view: "readable_log (st_log t) \<and> spec_run (zip ops oks) (run_view NewLog) (run_view (st_log t))"
    using exec_log_ops_view [OF _ assms] readable_new by simp
  have "run_view NewLog = (\<lambda>_. ({}, None))" by (simp add: run_view_def NewLog_def fun_eq_iff)
  with view show "spec_run (zip ops oks) (\<lambda>_. ({}, None)) (run_view (st_log t))" by simp
  fix runID assume "runID \<noteq> [] \<and> int (length (events (st_log t) runID)) + 512 < 2 ^ 63"
  then show "BuildMessagesFromRunLog (st_log t) runID = Some (spec_read (run_view (st_log t)) runID)"
    using view build_reads_view by (simp add: runlogReplayPageSize_def)
qed

definition example_say :: "conversation_role \<Rightarrow> string \<Rightarrow> message option" where
  "example_say r t = Some \<lparr>m_role = r, m_parts = [TextPart t], m_meta = None\<rparr>"

text \<open>A seed, a retry of it, a hook event and an appended turn.\<close>

definition example_log_ops :: "log_op list" where
  "example_log_ops =
     [PublishOp (example_meta RunLogMessagesSeeded ''k1'') [example_say RoleUser ''hi''],
      PublishOp (example_meta RunLogMessagesSeeded ''k1'') [example_say RoleUser ''hi''],
      RecordOp (example_meta ''planner_note'' ''k2''),
      PublishOp (example_meta RunLogMessagesAppended ''k3'') [example_say RoleAssistant ''hi'']]"

lemma example_ops_ok: "list_all op_ok example_log_ops"
  by (simp add: example_log_ops_def example_say_def example_meta_def isTranscriptRunLogType_def canonical_message_def
      role_of_name_def ascii_valid)

lemma length_esc_rune: "r \<noteq> [] \<Longrightarrow> length (esc_rune r) \<le> 6 * length r"
  by (cases r) (auto simp: esc_rune_def esc_ascii_def split: option.splits)

lemma length_json_string: "length (json_string s) \<le> 6 * length s + 2"
proof -
  have "length (concat (map esc_rune (runes s))) \<le> 6 * length s"
  proof (induction s rule: runes.induct)
    case (2 a s)
    let ?n = "max 1 (rune_len (a # s))"
    have "length (esc_rune (take ?n (a # s))) \<le> 6 * length (take ?n (a # s))" by (rule length_esc_rune) simp
    moreover have "length (concat (map esc_rune (runes (drop ?n (a # s))))) \<le> 6 * length (drop ?n (a # s))"
      by (rule 2) simp
    moreover have "length (take ?n (a # s)) + length (drop ?n (a # s)) = length (a # s)"
      by (simp flip: length_append)
    ultimately show ?case by (simp add: runes.simps(2) Let_def del: length_take length_drop rune_len.simps)
  qed simp
  then show ?thesis by (simp add: json_string_def)
qed

lemma example_payload:
  assumes "r = RoleUser \<or> r = RoleAssistant"
  obtains p where "EncodeRunLogDelta ft [example_say r ''hi''] = Inr p" "\<not> length p > maxHookPayloadBytes"
    "DecodeRunLogDelta p = Inr [example_say r ''hi'']"
proof -
  let ?p = "json_array [json_object [(''role'', json_string (role_name r)), (''parts'', json_array
     [json_object [(''kind'', json_string ''text''), (''text'', json_string ''hi'')]]), (''meta'', null_text)]]"
  have enc: "EncodeRunLogDelta ft [example_say r ''hi''] = Inr ?p"
    by (simp add: EncodeRunLogDelta_def example_say_def Message_MarshalJSON_def meta_text_def)
  have "length (role_name r) \<le> 9" using assms by auto
  with length_json_string [of "role_name r"] have "length (json_string (role_name r)) \<le> 100" by simp
  moreover note length_json_string [of "''hi''"] length_json_string [of "''text''"] length_json_string [of "''kind''"]
    length_json_string [of "''role''"] length_json_string [of "''parts''"] length_json_string [of "''meta''"]
  ultimately have "length ?p \<le> maxHookPayloadBytes"
    by (simp add: json_array_def json_object_def maxHookPayloadBytes_def)
  moreover from assms have "list_all (\<lambda>m. case m of None \<Rightarrow> True | Some msg \<Rightarrow> canonical_message msg) [example_say r ''hi'']"
    by (auto simp: example_say_def canonical_message_def role_of_name_def ascii_valid)
  then obtain t where "EncodeRunLogDelta ft [example_say r ''hi''] = Inr t" "DecodeRunLogDelta t = Inr [example_say r ''hi'']"
    by (rule delta_roundtrip)
  ultimately show thesis using enc that by simp
qed

lemma Append_fresh:
  assumes "ev_run_id e \<noteq> []" "ev_key e \<noteq> []" "eventsByKey s (ev_run_id e) (ev_key e) = None"
  obtains s' i where "Append (Some e) s = (s', Inr \<lparr>ar_id = i, ar_inserted = True\<rparr>)"
    "eventsByKey s' = (eventsByKey s)(ev_run_id e := (eventsByKey s (ev_run_id e))(ev_key e \<mapsto> e\<lparr>ev_id := i\<rparr>))"
    "events s' = (events s)(ev_run_id e := events s (ev_run_id e) @ [e\<lparr>ev_id := i\<rparr>])"
  using assms by (simp add: Append_def Let_def)

lemma example_publish:
  assumes "isTranscriptRunLogType typ" "EncodeRunLogDelta ft ms = Inr u" "\<not> length u > maxHookPayloadBytes"
    "DecodeRunLogDelta u = Inr ms" "Append (Some (log_event (example_meta typ k) u)) (st_log s) = (log, Inr res)"
  shows "exec_log_op ft example_env now (PublishOp (example_meta typ k) ms) s = (s\<lparr>st_log := log\<rparr>, [], Inr ())"
proof -
  have "log_event (example_meta typ k\<lparr>ri_payload := u\<rparr>) u = log_event (example_meta typ k) u"
    by (simp add: log_event_def)
  moreover have "ri_session_id (example_meta typ k) = []" "ri_type (example_meta typ k) = typ" by (simp_all add: example_meta_def)
  moreover have "typ \<noteq> runSuspensionRecordType"
    using assms(1) by (auto simp: isTranscriptRunLogType_def RunLogMessagesSeeded_def RunLogMessagesAppended_def runSuspensionRecordType_def)
  ultimately show ?thesis
    using assms by (auto simp: publishTranscriptMessages_def recordActivity_def appendTranscriptRunLogMessages_def isTranscriptRunLogType_def)
qed

lemma example_oks:
  "\<exists>t. exec_log_ops ft (\<lambda>_. (example_env, 0)) 0 example_log_ops \<lparr>st_log = NewLog, st_sessions = New\<rparr> = (t, [True, True, True, True]) \<and>
     length (events (st_log t) ''r'') = 3"
proof -
  let ?seed = "example_meta RunLogMessagesSeeded ''k1''" and ?turn = "example_meta RunLogMessagesAppended ''k3''"
    and ?ev = "example_meta ''planner_note'' ''k2''" and ?s = "\<lparr>st_log = NewLog, st_sessions = New\<rparr>"
  have ids: "ev_run_id (log_event (example_meta ty k) p) = ''r''" "ev_key (log_event (example_meta ty k) p) = k" for ty k and p :: string
    by (simp_all add: log_event_def example_meta_def)
  have types: "isTranscriptRunLogType RunLogMessagesSeeded" "isTranscriptRunLogType RunLogMessagesAppended"
    by (simp_all add: isTranscriptRunLogType_def)
  obtain u where u: "EncodeRunLogDelta ft [example_say RoleUser ''hi''] = Inr u" "\<not> length u > maxHookPayloadBytes"
    "DecodeRunLogDelta u = Inr [example_say RoleUser ''hi'']" by (rule example_payload [of RoleUser ft]) simp
  obtain v where v: "EncodeRunLogDelta ft [example_say RoleAssistant ''hi''] = Inr v" "\<not> length v > maxHookPayloadBytes"
    "DecodeRunLogDelta v = Inr [example_say RoleAssistant ''hi'']" by (rule example_payload [of RoleAssistant ft]) simp
  obtain l1 i1 where l1: "Append (Some (log_event ?seed u)) NewLog = (l1, Inr \<lparr>ar_id = i1, ar_inserted = True\<rparr>)"
    "eventsByKey l1 ''r'' = [''k1'' \<mapsto> (log_event ?seed u)\<lparr>ev_id := i1\<rparr>]" "length (events l1 ''r'') = 1"
    by (rule Append_fresh [of "log_event ?seed u" NewLog]) (auto simp: ids NewLog_def)
  then have retry: "\<exists>res. Append (Some (log_event ?seed u)) l1 = (l1, Inr res)"
    by (simp add: Append_def ids sameEventBody_def)
  obtain l2 i2 where l2: "Append (Some (log_event ?ev [])) l1 = (l2, Inr \<lparr>ar_id = i2, ar_inserted = True\<rparr>)"
    "dom (eventsByKey l2 ''r'') = {''k1'', ''k2''}" "length (events l2 ''r'') = 2"
    by (rule Append_fresh [of "log_event ?ev []" l1]) (use l1 in \<open>auto simp: ids\<close>)
  obtain l3 i3 where l3: "Append (Some (log_event ?turn v)) l2 = (l3, Inr \<lparr>ar_id = i3, ar_inserted = True\<rparr>)"
    "length (events l3 ''r'') = 3"
  proof (rule Append_fresh [of "log_event ?turn v" l2])
    have "''k3'' \<notin> dom (eventsByKey l2 ''r'')" using l2(2) by simp
    then show "eventsByKey l2 (ev_run_id (log_event ?turn v)) (ev_key (log_event ?turn v)) = None" by (simp add: ids domIff)
  qed (simp_all add: ids l2(3))
  have "exec_log_op ft example_env 0 (RecordOp ?ev) (?s\<lparr>st_log := l1\<rparr>) = (?s\<lparr>st_log := l2\<rparr>, [], Inr ())"
    using l2(1) by (simp add: recordActivity_def store_hook_event_def example_env_def example_meta_def RunLogMessagesSeeded_def
      RunLogMessagesAppended_def runSuspensionRecordType_def ToolCallArgsDelta_def)
  moreover note example_publish [OF types(1) u, of "''k1''" ?s l1] example_publish [OF types(1) u, of "''k1''" "?s\<lparr>st_log := l1\<rparr>" l1]
    example_publish [OF types(2) v, of "''k3''" "?s\<lparr>st_log := l2\<rparr>" l3]
  ultimately show ?thesis using l1(1) retry l3 by (auto simp: example_log_ops_def)
qed

theorem transcript_log_refines_witness:
  "\<exists>t. exec_log_ops (\<lambda>m e. ''0'') (\<lambda>_. (example_env, 0)) 0 example_log_ops \<lparr>st_log = NewLog, st_sessions = New\<rparr> = (t, [True, True, True, True]) \<and>
     BuildMessagesFromRunLog (st_log t) ''r'' = Some (Inr [example_say RoleUser ''hi'', example_say RoleAssistant ''hi''])"
proof -
  obtain t where t: "exec_log_ops (\<lambda>m e. ''0'') (\<lambda>_. (example_env, 0)) 0 example_log_ops \<lparr>st_log = NewLog, st_sessions = New\<rparr> =
      (t, [True, True, True, True])" "length (events (st_log t) ''r'') = 3" using example_oks by blast
  from transcript_log_refines [OF example_ops_ok t(1)] t(2) obtain a where
    a: "spec_run (zip example_log_ops [True, True, True, True]) (\<lambda>_. ({}, None)) a"
       "BuildMessagesFromRunLog (st_log t) ''r'' = Some (spec_read a ''r'')" by auto
  from a(1) have "spec_read a ''r'' = Inr [example_say RoleUser ''hi'', example_say RoleAssistant ''hi'']"
    by (auto simp: example_log_ops_def spec_run_simps example_meta_def logged_type_def spec_record_def spec_read_def
      delta_of_def isTranscriptRunLogType_def RunLogMessagesSeeded_def RunLogMessagesAppended_def
      runSuspensionRecordType_def ToolCallArgsDelta_def)
  with a(2) t(1) show ?thesis by auto
qed

end
