(* ===== verification/Response_Contract.thy ===== *)
theory Response_Contract
  imports Message_Json
begin

section \<open>Requests and responses of models\<close>

text \<open>
  The provider-neutral contract of \<open>runtime/agent/model\<close>: the response validators of \<open>validation.go\<close>, the
  copy of a response in \<open>clone.go\<close>, and from \<open>model.go\<close> the projection of requests for token counting, the
  local token estimator and the tool input contracts. A chunk is an interface value with one constructor
  per variant and \<open>NilChunk\<close>; the variants are closed, so the branch for foreign types cannot be reached.
  Panics are errors. Fields of a request that no function here reads or changes are left out. \<open>sprint\<close> is
  the length of \<open>fmt.Sprint\<close>, used for values JSON cannot encode.
  The lemmas show that an accepted response can be copied and stored, that its tool calls are well formed,
  and how estimates are bounded.
\<close>

subsection \<open>Data\<close>

record model_tool_call =
  mc_name :: string
  mc_payload :: string
  mc_id :: string
  mc_thought_signature :: string

record token_usage =
  us_model :: string
  us_model_class :: string
  us_input :: int
  us_output :: int
  us_total :: int
  us_cache_read :: int
  us_cache_write :: int

record response =
  rs_content :: "message list"
  rs_usage :: token_usage
  rs_stop_reason :: string

text \<open>Deltas carry the name, the identifier of the call and the fragment.\<close>

datatype chunk =
    TextChunk message
  | ThinkingChunk message
  | ToolCallChunk model_tool_call
  | ToolCallDeltaChunk string string string
  | CompletionChunk string string
  | CompletionDeltaChunk string string
  | UsageChunk token_usage
  | StopChunk string
  | NilChunk

datatype response_error =
    ResponseNil
  | NoContent
  | AtContent nat response_error
  | AtPart nat response_error
  | RoleNotAssistant conversation_role
  | NoParts
  | MetadataNotCloneable clone_error
  | MetadataNotJSON json_error
  | TextEmpty
  | DraftThinking
  | ThinkingMixed
  | UnsupportedPart
  | NotPlaintextDraft
  | CitationTextEmpty
  | CitationListEmpty
  | CitationLocations nat
  | CitationAnonymous nat
  | CallIDMissing
  | CallNameMissing
  | CallPayloadInvalid
  | CallPayloadNotObject
  | CallDuplicate string
  | UsageNegative
  | UsageClass string
  | StopReasonMissing
  | DeltaNameMissing
  | DeltaIDMissing
  | DeltaEmpty
  | CompletionPayloadInvalid
  | ChunkNil

subsection \<open>Validation\<close>

definition validateThinkingPart :: "thinking_part \<Rightarrow> (response_error, unit) result" where
  "validateThinkingPart p =
     (if (th_text p \<noteq> [] \<or> th_signature p \<noteq> []) = (th_redacted p \<noteq> []) then Inl ThinkingMixed else Inr ())"

definition validateToolCall :: "model_tool_call \<Rightarrow> (response_error, unit) result" where
  "validateToolCall call =
     (if mc_id call = [] then Inl CallIDMissing
      else if mc_name call = [] then Inl CallNameMissing
      else if \<not> json_valid (mc_payload call) then Inl CallPayloadInvalid
      else let data = trim_space (mc_payload call)
           in if data = [] \<or> hd data \<noteq> CHR ''{'' then Inl CallPayloadNotObject else Inr ())"

definition location_count :: "citation_location \<Rightarrow> nat" where
  "location_count l =
     (if loc_char l \<noteq> None then 1 else 0) + (if loc_chunk l \<noteq> None then 1 else 0) + (if loc_page l \<noteq> None then 1 else 0)"

fun validate_citations :: "nat \<Rightarrow> citation list \<Rightarrow> (response_error, unit) result" where
  "validate_citations i [] = Inr ()"
| "validate_citations i (c # cs) =
     (let locations = location_count (cit_location c)
      in if locations > 1 then Inl (CitationLocations i)
         else if cit_title c = [] \<and> cit_source c = [] \<and> cit_source_content c = [] \<and> locations = 0 then Inl (CitationAnonymous i)
         else validate_citations (Suc i) cs)"

definition ValidateCitationsPart :: "string \<Rightarrow> citation list \<Rightarrow> (response_error, unit) result" where
  "ValidateCitationsPart t cs =
     (if t = [] then Inl CitationTextEmpty
      else if cs = [] then Inl CitationListEmpty
      else validate_citations 0 cs)"

definition model_classes :: "string list" where
  "model_classes = [[], ''default'', ''high-reasoning'', ''small'']"

definition validateTokenUsage :: "token_usage \<Rightarrow> (response_error, unit) result" where
  "validateTokenUsage u =
     (if us_input u < 0 \<or> us_output u < 0 \<or> us_total u < 0 \<or> us_cache_read u < 0 \<or> us_cache_write u < 0
      then Inl UsageNegative
      else if us_model_class u \<notin> set model_classes then Inl (UsageClass (us_model_class u))
      else Inr ())"

fun response_part :: "part \<Rightarrow> (response_error, unit) result" where
  "response_part (TextPart t) = (if t = [] then Inl TextEmpty else Inr ())"
| "response_part (CitationsPart t cs) = ValidateCitationsPart t cs"
| "response_part (ToolUsePart u) = Inr ()"
| "response_part (ThinkingPart p) = (if \<not> th_final p then Inl DraftThinking else validateThinkingPart p)"
| "response_part p = Inl UnsupportedPart"

fun thinking_chunk_part :: "part \<Rightarrow> (response_error, unit) result" where
  "thinking_chunk_part (ThinkingPart p) =
     (if th_final p then validateThinkingPart p
      else if th_text p = [] \<or> th_signature p \<noteq> [] \<or> th_redacted p \<noteq> [] then Inl NotPlaintextDraft
      else Inr ())"
| "thinking_chunk_part p = Inl UnsupportedPart"

fun text_chunk_part :: "part \<Rightarrow> (response_error, unit) result" where
  "text_chunk_part (TextPart t) = (if t = [] then Inl TextEmpty else Inr ())"
| "text_chunk_part (CitationsPart t cs) = ValidateCitationsPart t cs"
| "text_chunk_part p = Inl UnsupportedPart"

text \<open>Checking a slice in order and reporting the index of the first failure.\<close>

fun check_all :: "(nat \<Rightarrow> response_error \<Rightarrow> response_error) \<Rightarrow> ('a \<Rightarrow> (response_error, unit) result) \<Rightarrow> nat \<Rightarrow> 'a list \<Rightarrow>
    (response_error, unit) result" where
  "check_all at f i [] = Inr ()"
| "check_all at f i (x # xs) = (case f x of Inl e \<Rightarrow> Inl (at i e) | Inr u \<Rightarrow> check_all at f (Suc i) xs)"

definition metadata_of :: "message \<Rightarrow> (string \<times> gvalue) list" where
  "metadata_of m = (case m_meta m of None \<Rightarrow> [] | Some kvs \<Rightarrow> kvs)"

definition validateResponseMessage :: "(int \<Rightarrow> int \<Rightarrow> string) \<Rightarrow> message \<Rightarrow> (response_error, unit) result" where
  "validateResponseMessage ft m =
     (if m_role m \<noteq> RoleAssistant then Inl (RoleNotAssistant (m_role m))
      else if m_parts m = [] then Inl NoParts
      else case cloneMetadata (metadata_of m) of
             Inl e \<Rightarrow> Inl (MetadataNotCloneable e)
           | Inr c \<Rightarrow>
               (case MarshalMetadata ft (metadata_of m) of
                  Inl e \<Rightarrow> Inl (MetadataNotJSON e)
                | Inr t \<Rightarrow> check_all AtPart response_part 0 (m_parts m)))"

definition validateChunkMessage :: "message \<Rightarrow> bool \<Rightarrow> (response_error, unit) result" where
  "validateChunkMessage m thinking =
     (if m_role m \<noteq> RoleAssistant then Inl (RoleNotAssistant (m_role m))
      else if m_parts m = [] then Inl NoParts
      else check_all AtPart (if thinking then thinking_chunk_part else text_chunk_part) 0 (m_parts m))"

definition call_of :: "tool_use_part \<Rightarrow> model_tool_call" where
  "call_of u = \<lparr>mc_name = tu_name u, mc_payload = tu_input u, mc_id = tu_id u, mc_thought_signature = tu_thought_signature u\<rparr>"

fun check_part_calls :: "string list \<Rightarrow> nat \<Rightarrow> part list \<Rightarrow> (response_error, string list) result" where
  "check_part_calls seen j [] = Inr seen"
| "check_part_calls seen j (p # ps) =
     (case p of
        ToolUsePart u \<Rightarrow>
          (case validateToolCall (call_of u) of
             Inl e \<Rightarrow> Inl (AtPart j e)
           | Inr x \<Rightarrow>
               if tu_id u \<in> set seen then Inl (AtPart j (CallDuplicate (tu_id u)))
               else check_part_calls (tu_id u # seen) (Suc j) ps)
      | _ \<Rightarrow> check_part_calls seen (Suc j) ps)"

fun check_calls :: "string list \<Rightarrow> nat \<Rightarrow> message list \<Rightarrow> (response_error, unit) result" where
  "check_calls seen i [] = Inr ()"
| "check_calls seen i (m # ms) =
     (case check_part_calls seen 0 (m_parts m) of
        Inl e \<Rightarrow> Inl (AtContent i e)
      | Inr seen' \<Rightarrow> check_calls seen' (Suc i) ms)"

definition ValidateResponse :: "(int \<Rightarrow> int \<Rightarrow> string) \<Rightarrow> response option \<Rightarrow> (response_error, unit) result" where
  "ValidateResponse ft resp =
     (case resp of
        None \<Rightarrow> Inl ResponseNil
      | Some r \<Rightarrow>
          if rs_content r = [] then Inl NoContent
          else case check_all AtContent (validateResponseMessage ft) 0 (rs_content r) of
                 Inl e \<Rightarrow> Inl e
               | Inr u \<Rightarrow>
                   (case validateTokenUsage (rs_usage r) of
                      Inl e \<Rightarrow> Inl e
                    | Inr u \<Rightarrow>
                        (case check_calls [] 0 (rs_content r) of
                           Inl e \<Rightarrow> Inl e
                         | Inr u \<Rightarrow> if rs_stop_reason r = [] then Inl StopReasonMissing else Inr ())))"

fun ValidateChunk :: "chunk \<Rightarrow> (response_error, unit) result" where
  "ValidateChunk (TextChunk m) = validateChunkMessage m False"
| "ValidateChunk (ThinkingChunk m) = validateChunkMessage m True"
| "ValidateChunk (ToolCallChunk call) = validateToolCall call"
| "ValidateChunk (ToolCallDeltaChunk name callID delta) =
     (if name = [] then Inl DeltaNameMissing
      else if callID = [] then Inl DeltaIDMissing
      else if delta = [] then Inl DeltaEmpty else Inr ())"
| "ValidateChunk (CompletionChunk name payload) =
     (if name = [] then Inl DeltaNameMissing
      else if \<not> json_valid payload then Inl CompletionPayloadInvalid else Inr ())"
| "ValidateChunk (CompletionDeltaChunk name delta) =
     (if name = [] then Inl DeltaNameMissing else if delta = [] then Inl DeltaEmpty else Inr ())"
| "ValidateChunk (UsageChunk u) = validateTokenUsage u"
| "ValidateChunk (StopChunk reason) = (if reason = [] then Inl StopReasonMissing else Inr ())"
| "ValidateChunk NilChunk = Inl ChunkNil"

subsection \<open>Responses\<close>

fun clone_content :: "nat \<Rightarrow> message list \<Rightarrow> (nat \<times> clone_error, message list) result" where
  "clone_content i [] = Inr []"
| "clone_content i (m # ms) =
     (case cloneMessage m of
        Inl e \<Rightarrow> Inl (i, e)
      | Inr m' \<Rightarrow> (case clone_content (Suc i) ms of Inl e \<Rightarrow> Inl e | Inr ms' \<Rightarrow> Inr (m' # ms')))"

definition CloneResponse :: "response option \<Rightarrow> (nat \<times> clone_error, response option) result" where
  "CloneResponse resp =
     (case resp of
        None \<Rightarrow> Inr None
      | Some r \<Rightarrow>
          (case clone_content 0 (rs_content r) of
             Inl e \<Rightarrow> Inl e
           | Inr content \<Rightarrow> Inr (Some (r\<lparr>rs_content := content\<rparr>))))"

definition part_calls :: "part list \<Rightarrow> model_tool_call list" where
  "part_calls ps = concat (map (\<lambda>p. case p of ToolUsePart u \<Rightarrow> [call_of u] | _ \<Rightarrow> []) ps)"

definition ToolCalls :: "response \<Rightarrow> model_tool_call list" where
  "ToolCalls r = concat (map (\<lambda>m. part_calls (m_parts m)) (rs_content r))"

subsection \<open>Tool inputs\<close>

record tool_input =
  in_schema :: "string option"
  in_schema_without_example :: "string option"
  in_example :: "string option"

record tool_input_contract =
  ct_schema :: "string option"
  ct_schema_without_example :: "string option"
  ct_example :: "string option"

datatype contract_error = SchemaRequired | ExampleNeedsSchema | InvalidContract string

definition raw_bytes :: "string option \<Rightarrow> string" where
  "raw_bytes r = (case r of None \<Rightarrow> [] | Some b \<Rightarrow> b)"

definition validateContractJSON :: "string \<Rightarrow> string option \<Rightarrow> (contract_error, string option) result" where
  "validateContractJSON label data =
     (if trim_space (raw_bytes data) = [] then Inr None
      else if \<not> json_valid (raw_bytes data) then Inl (InvalidContract label)
      else Inr data)"

definition ToolInputFromSpec ::
  "string option \<Rightarrow> string option \<Rightarrow> string option \<Rightarrow> (contract_error, tool_input) result" where
  "ToolInputFromSpec schema without_example example =
     (case validateContractJSON ''payload schema'' schema of
        Inl e \<Rightarrow> Inl e
      | Inr s \<Rightarrow>
          (case validateContractJSON ''schema without root example'' without_example of
             Inl e \<Rightarrow> Inl e
           | Inr w \<Rightarrow>
               (case validateContractJSON ''example JSON'' example of
                  Inl e \<Rightarrow> Inl e
                | Inr x \<Rightarrow> Inr \<lparr>in_schema = s, in_schema_without_example = w, in_example = x\<rparr>)))"

definition ToolInputFromSchema :: "string option \<Rightarrow> (contract_error, tool_input) result" where
  "ToolInputFromSchema schema =
     (case validateContractJSON ''caller-authored tool schema'' schema of
        Inl e \<Rightarrow> Inl e
      | Inr s \<Rightarrow> Inr \<lparr>in_schema = s, in_schema_without_example = None, in_example = None\<rparr>)"

definition ToolInputFromContract :: "tool_input_contract \<Rightarrow> (contract_error, tool_input) result" where
  "ToolInputFromContract c =
     (if ct_schema c = None then Inl SchemaRequired
      else if trim_space (raw_bytes (ct_example c)) \<noteq> [] \<and> ct_schema_without_example c = None then Inl ExampleNeedsSchema
      else case validateContractJSON ''input schema'' (ct_schema c) of
             Inl e \<Rightarrow> Inl e
           | Inr s \<Rightarrow>
               (case validateContractJSON ''schema without root example'' (ct_schema_without_example c) of
                  Inl e \<Rightarrow> Inl e
                | Inr w \<Rightarrow>
                    (case validateContractJSON ''example JSON'' (ct_example c) of
                       Inl e \<Rightarrow> Inl e
                     | Inr x \<Rightarrow> Inr \<lparr>in_schema = s, in_schema_without_example = w, in_example = x\<rparr>)))"

definition Contract :: "tool_input \<Rightarrow> tool_input_contract" where
  "Contract i = \<lparr>ct_schema = in_schema i, ct_schema_without_example = in_schema_without_example i, ct_example = in_example i\<rparr>"

subsection \<open>Token counting\<close>

record tool_definition =
  td_name :: string
  td_description :: string
  td_input :: tool_input

record structured_output =
  so_schema :: string
  so_schema_without_example :: string
  so_example :: "string option"
  so_name :: string
  so_description :: string

record thinking_options =
  to_enable :: bool
  to_interleaved :: bool
  to_budget :: int

record request =
  rq_model :: string
  rq_model_class :: string
  rq_messages :: transcript
  rq_tools :: "tool_definition option list"
  rq_tool_choice :: "(string \<times> string) option"
  rq_thinking :: "thinking_options option"
  rq_structured_output :: "structured_output option"

record token_estimator =
  es_characters_per_token :: int
  es_overhead :: int
  es_minimum :: int

record estimated_count =
  ec_model :: string
  ec_model_class :: string
  ec_input_tokens :: int
  ec_exact :: bool

fun is_thinking :: "part \<Rightarrow> bool" where
  "is_thinking (ThinkingPart p) = True"
| "is_thinking p = False"

text \<open>A nil message is dereferenced, which panics.\<close>

fun messagesWithoutThinking :: "transcript \<Rightarrow> transcript option" where
  "messagesWithoutThinking [] = Some []"
| "messagesWithoutThinking (None # ms) = None"
| "messagesWithoutThinking (Some m # ms) =
     (case messagesWithoutThinking ms of
        None \<Rightarrow> None
      | Some rest \<Rightarrow>
          (let parts = filter (\<lambda>p. \<not> is_thinking p) (m_parts m)
           in Some (if parts = [] then rest
                    else if length parts = length (m_parts m) then Some m # rest
                    else Some (m\<lparr>m_parts := parts\<rparr>) # rest)))"

definition CountingRequest :: "request \<Rightarrow> request option" where
  "CountingRequest req =
     (case messagesWithoutThinking (rq_messages req) of
        None \<Rightarrow> None
      | Some ms \<Rightarrow> Some (req\<lparr>rq_messages := ms, rq_thinking := None\<rparr>))"

definition encodedCharacterCount :: "(int \<Rightarrow> int \<Rightarrow> string) \<Rightarrow> (gvalue \<Rightarrow> nat) \<Rightarrow> gvalue \<Rightarrow> nat" where
  "encodedCharacterCount ft sprint v =
     (case v of
        GNil \<Rightarrow> 0
      | GString s \<Rightarrow> length s
      | _ \<Rightarrow> (case value_text ft v of Inl e \<Rightarrow> sprint v | Inr t \<Rightarrow> length t))"

fun partCharacterCount :: "(int \<Rightarrow> int \<Rightarrow> string) \<Rightarrow> (gvalue \<Rightarrow> nat) \<Rightarrow> part \<Rightarrow> nat" where
  "partCharacterCount ft sprint (TextPart t) = length t"
| "partCharacterCount ft sprint (ImagePart f b) = length b + length f"
| "partCharacterCount ft sprint (DocumentPart d) =
     length (doc_name d) + length (doc_format d) + length (doc_bytes d) + length (doc_text d) + length (doc_uri d) +
     length (doc_context d) + sum_list (map length (doc_chunks d))"
| "partCharacterCount ft sprint (CitationsPart t cs) =
     length t + sum_list (map (\<lambda>c. length (cit_title c) + length (cit_source c) + sum_list (map length (cit_source_content c))) cs)"
| "partCharacterCount ft sprint (ThinkingPart p) = length (th_text p) + length (th_signature p) + length (th_redacted p)"
| "partCharacterCount ft sprint (ToolUsePart u) = length (tu_id u) + length (tu_name u) + length (tu_input u)"
| "partCharacterCount ft sprint (ToolResultPart r) = length (tr_tool_use_id r) + encodedCharacterCount ft sprint (tr_content r)"
| "partCharacterCount ft sprint CacheCheckpointPart = 0"
| "partCharacterCount ft sprint NilPart = 0"

definition messageCharacterCount :: "(int \<Rightarrow> int \<Rightarrow> string) \<Rightarrow> (gvalue \<Rightarrow> nat) \<Rightarrow> message option \<Rightarrow> nat" where
  "messageCharacterCount ft sprint msg =
     (case msg of
        None \<Rightarrow> 0
      | Some m \<Rightarrow> length (role_name (m_role m)) + sum_list (map (partCharacterCount ft sprint) (m_parts m)))"

definition tool_characters :: "tool_definition option \<Rightarrow> nat" where
  "tool_characters tool =
     (case tool of
        None \<Rightarrow> 0
      | Some d \<Rightarrow>
          length (td_name d) + length (td_description d) +
          max (length (raw_bytes (in_schema (td_input d))))
              (length (raw_bytes (in_schema_without_example (td_input d))) + length (raw_bytes (in_example (td_input d)))))"

definition output_characters :: "structured_output \<Rightarrow> nat" where
  "output_characters out =
     length (so_name out) + length (so_description out) +
     max (length (so_schema out)) (length (so_schema_without_example out) + length (raw_bytes (so_example out)))"

definition requestCharacterCount :: "(int \<Rightarrow> int \<Rightarrow> string) \<Rightarrow> (gvalue \<Rightarrow> nat) \<Rightarrow> request option \<Rightarrow> nat" where
  "requestCharacterCount ft sprint req =
     (case req of
        None \<Rightarrow> 0
      | Some r \<Rightarrow>
          sum_list (map (messageCharacterCount ft sprint) (rq_messages r)) +
          sum_list (map tool_characters (rq_tools r)) +
          (case rq_tool_choice r of None \<Rightarrow> 0 | Some (mode, name) \<Rightarrow> length mode + length name) +
          (case rq_structured_output r of None \<Rightarrow> 0 | Some out \<Rightarrow> output_characters out))"

definition charactersPerToken :: "token_estimator \<Rightarrow> int" where
  "charactersPerToken e = (if es_characters_per_token e \<le> 0 then 3 else es_characters_per_token e)"

definition overheadTokens :: "token_estimator \<Rightarrow> int" where
  "overheadTokens e = (if es_overhead e \<le> 0 then 500 else es_overhead e)"

definition minimumTokens :: "token_estimator \<Rightarrow> int" where
  "minimumTokens e = (if es_minimum e \<le> 0 then 500 else es_minimum e)"

definition estimate :: "(int \<Rightarrow> int \<Rightarrow> string) \<Rightarrow> (gvalue \<Rightarrow> nat) \<Rightarrow> token_estimator \<Rightarrow> request option \<Rightarrow> int" where
  "estimate ft sprint e req =
     (let charCount = int (requestCharacterCount ft sprint req)
      in if charCount \<le> 0 then minimumTokens e
         else max (charCount div charactersPerToken e) 1 + overheadTokens e)"

definition CountTokens :: "(int \<Rightarrow> int \<Rightarrow> string) \<Rightarrow> (gvalue \<Rightarrow> nat) \<Rightarrow> token_estimator \<Rightarrow> request option \<Rightarrow> estimated_count" where
  "CountTokens ft sprint e req =
     \<lparr>ec_model = (case req of None \<Rightarrow> [] | Some r \<Rightarrow> rq_model r),
      ec_model_class = (case req of None \<Rightarrow> [] | Some r \<Rightarrow> rq_model_class r),
      ec_input_tokens = estimate ft sprint e req, ec_exact = False\<rparr>"

subsection \<open>Accepted responses\<close>

lemma check_all_ok: "check_all at f i xs = Inr () \<longleftrightarrow> (\<forall>x \<in> set xs. f x = Inr ())"
  by (induction xs arbitrary: i) (auto split: sum.splits)

lemma part_calls_Cons:
  "part_calls (p # ps) = (case p of ToolUsePart u \<Rightarrow> [call_of u] | _ \<Rightarrow> []) @ part_calls ps"
  by (simp add: part_calls_def)

lemma call_of_id [simp]: "mc_id (call_of u) = tu_id u"
  by (simp add: call_of_def)

lemma check_part_calls_ok:
  "check_part_calls seen j ps = Inr seen' \<Longrightarrow>
   (\<forall>c \<in> set (part_calls ps). validateToolCall c = Inr ()) \<and>
   seen' = rev (map mc_id (part_calls ps)) @ seen \<and> (distinct seen \<longrightarrow> distinct seen')"
proof (induction ps arbitrary: seen seen' j)
  case (Cons p ps)
  show ?case
  proof (cases "\<exists>u. p = ToolUsePart u")
    case True
    with Cons show ?thesis by (fastforce simp: part_calls_Cons split: sum.splits if_splits)
  next
    case False
    then have skip: "check_part_calls seen j (p # ps) = check_part_calls seen (Suc j) ps" "part_calls (p # ps) = part_calls ps"
      by (cases p; simp add: part_calls_Cons)+
    from Cons.prems have "check_part_calls seen (Suc j) ps = Inr seen'" by (simp only: skip)
    then show ?thesis unfolding skip(2) by (rule Cons.IH)
  qed
qed (simp add: part_calls_def)

lemma check_calls_ok:
  "check_calls seen i ms = Inr () \<Longrightarrow>
   (\<forall>c \<in> set (concat (map (\<lambda>m. part_calls (m_parts m)) ms)). validateToolCall c = Inr ()) \<and>
   (distinct seen \<longrightarrow> distinct (rev (map mc_id (concat (map (\<lambda>m. part_calls (m_parts m)) ms))) @ seen))"
proof (induction seen i ms rule: check_calls.induct)
  case (2 seen i m ms)
  then obtain seen' where "check_part_calls seen 0 (m_parts m) = Inr seen'" by (auto split: sum.splits)
  with 2 check_part_calls_ok [OF this] show ?case by (fastforce split: sum.splits)
qed simp

lemma clone_content_ok: "(\<forall>m \<in> set ms. cloneMessage m = Inr m) \<Longrightarrow> clone_content i ms = Inr ms"
  by (induction i ms rule: clone_content.induct) auto

lemma response_parts_clone: "response_part p = Inr () \<Longrightarrow> json_part p"
  by (cases p) (auto split: if_splits)

lemma validated_message_clones:
  assumes "validateResponseMessage ft m = Inr ()"
  shows "cloneMessage m = Inr m"
proof -
  have "list_all json_part (m_parts m)"
    using assms by (auto simp: validateResponseMessage_def check_all_ok list_all_iff response_parts_clone split: if_splits sum.splits)
  moreover have "list_all (\<lambda>kv. json_value (snd kv)) (metadata_of m)"
    using assms cloneMetadata_spec [of "metadata_of m"]
    by (auto simp: validateResponseMessage_def split: if_splits sum.splits)
  ultimately have "json_message m"
    by (auto simp: json_message_def metadata_of_def list_all_iff split: option.splits)
  with cloneMessage_spec [of m] show ?thesis by simp
qed

definition inputs_trimmed :: "message \<Rightarrow> bool" where
  "inputs_trimmed m \<longleftrightarrow> (\<forall>u. ToolUsePart u \<in> set (m_parts m) \<longrightarrow> trim_space (tu_input u) = tu_input u)"

lemma encode_parts_ok:
  "(\<forall>p \<in> set ps. is_ok (encodeMessagePart ft p)) \<Longrightarrow> is_ok (encode_parts ft i ps)"
  by (induction ps arbitrary: i) (auto split: sum.splits, metis sum.disc(2) sum.disc(1))

lemma accepted_part_encodes:
  assumes "response_part p = Inr ()"
    and "\<And>u. p = ToolUsePart u \<Longrightarrow> validateToolCall (call_of u) = Inr () \<and> trim_space (tu_input u) = tu_input u"
  shows "is_ok (encodeMessagePart ft p)"
  using assms
  by (cases p) (auto simp: validateToolCall_def call_of_def object_input_def raw_MarshalJSON_def Let_def split: if_splits)

lemma accepted_response:
  assumes "ValidateResponse ft (Some r) = Inr ()"
  shows "rs_content r \<noteq> []" "\<forall>m \<in> set (rs_content r). validateResponseMessage ft m = Inr ()"
    "\<forall>c \<in> set (ToolCalls r). validateToolCall c = Inr ()" "distinct (map mc_id (ToolCalls r))"
proof -
  from assms show "rs_content r \<noteq> []" "\<forall>m \<in> set (rs_content r). validateResponseMessage ft m = Inr ()"
    by (auto simp: ValidateResponse_def check_all_ok split: if_splits sum.splits)
  from assms have "check_calls [] 0 (rs_content r) = Inr ()"
    by (auto simp: ValidateResponse_def split: if_splits sum.splits)
  from check_calls_ok [OF this]
  show "\<forall>c \<in> set (ToolCalls r). validateToolCall c = Inr ()" "distinct (map mc_id (ToolCalls r))"
    by (simp_all add: ToolCalls_def)
qed

lemma accepted_message_encodes:
  assumes "validateResponseMessage ft m = Inr ()" "\<forall>c \<in> set (part_calls (m_parts m)). validateToolCall c = Inr ()" "inputs_trimmed m"
  shows "is_ok (Message_MarshalJSON ft m)"
proof -
  have "is_ok (encodeMessagePart ft p)" if "p \<in> set (m_parts m)" for p
  proof (rule accepted_part_encodes)
    show "response_part p = Inr ()"
      using assms(1) that by (auto simp: validateResponseMessage_def check_all_ok split: if_splits sum.splits)
    fix u assume "p = ToolUsePart u"
    with that have "call_of u \<in> set (part_calls (m_parts m))" "ToolUsePart u \<in> set (m_parts m)"
      by (force simp: part_calls_def)+
    with assms(2,3) show "validateToolCall (call_of u) = Inr () \<and> trim_space (tu_input u) = tu_input u"
      by (auto simp: inputs_trimmed_def)
  qed
  then have "is_ok (encode_parts ft 0 (m_parts m))" by (intro encode_parts_ok) simp
  moreover have "is_ok (meta_text ft (m_meta m))"
    using assms(1)
    by (auto simp: validateResponseMessage_def meta_text_def MarshalMetadata_def metadata_of_def value_text_def
      split: if_splits sum.splits option.splits)
  ultimately show ?thesis by (auto simp: Message_MarshalJSON_def split: sum.splits)
qed

text \<open>
  Property C29. What \<open>ValidateResponse\<close> accepts is well typed for the rest of the runtime: there is at least
  one message, all are assistant messages, copying the response returns it unchanged, the tool calls
  derived from it have distinct identifiers and each passes the check of a tool-call chunk, and every
  message can be encoded for the run log when its tool inputs carry no surrounding blanks.
\<close>

theorem accepted_response_replays:
  assumes "ValidateResponse ft (Some r) = Inr ()"
  shows "rs_content r \<noteq> [] \<and> CloneResponse (Some r) = Inr (Some r) \<and>
    distinct (map mc_id (ToolCalls r)) \<and>
    (\<forall>c \<in> set (ToolCalls r). ValidateChunk (ToolCallChunk c) = Inr ()) \<and>
    (\<forall>m \<in> set (rs_content r). m_role m = RoleAssistant \<and> (inputs_trimmed m \<longrightarrow> is_ok (Message_MarshalJSON ft m)))"
proof -
  note ok = accepted_response [OF assms]
  have "clone_content 0 (rs_content r) = Inr (rs_content r)"
    using ok(2) validated_message_clones by (intro clone_content_ok) blast
  moreover have "m_role m = RoleAssistant" if "m \<in> set (rs_content r)" for m
    using ok(2) that by (auto simp: validateResponseMessage_def split: if_splits)
  moreover have "is_ok (Message_MarshalJSON ft m)" if "m \<in> set (rs_content r)" "inputs_trimmed m" for m
    using ok(2,3) that by (intro accepted_message_encodes) (auto simp: ToolCalls_def)
  ultimately show ?thesis using ok by (simp add: CloneResponse_def)
qed

definition example_response :: response where
  "example_response =
     \<lparr>rs_content = [example_tool_message], rs_usage = \<lparr>us_model = ''m'', us_model_class = ''small'', us_input = 3, us_output = 2, us_total = 5,
        us_cache_read = 0, us_cache_write = 0\<rparr>, rs_stop_reason = ''tool_use''\<rparr>"

lemma json_valid_empty_object: "json_parse ''{}'' = Some (JObj [])"
  by (simp add: json_parse_def json_space_def)

lemma trim_empty_object: "trim_space ''{}'' = ''{}''"
  by (rule trim_space_id) (simp_all add: space_runes_def)

theorem accepted_response_replays_witness:
  "ValidateResponse (\<lambda>m e. ''0'') (Some example_response) = Inr () \<and>
   map mc_id (ToolCalls example_response) = [''c1''] \<and>
   CloneResponse (Some example_response) = Inr (Some example_response) \<and>
   is_ok (Message_MarshalJSON (\<lambda>m e. ''0'') example_tool_message)"
proof -
  have "valid_number ''12''"
    by (simp add: valid_number_def number_char_def is_digit_def number_frac_def)
  then have accepted: "ValidateResponse (\<lambda>m e. ''0'') (Some example_response) = Inr ()"
    by (simp add: ValidateResponse_def example_response_def example_tool_message_def validateResponseMessage_def metadata_of_def
      MarshalMetadata_def value_text_def validateThinkingPart_def validateTokenUsage_def model_classes_def validateToolCall_def
      call_of_def json_valid_empty_object trim_empty_object)
  have calls: "map mc_id (ToolCalls example_response) = [''c1'']" "inputs_trimmed example_tool_message"
    by (simp_all add: ToolCalls_def example_response_def example_tool_message_def part_calls_def call_of_def inputs_trimmed_def trim_empty_object)
  from accepted_response_replays [OF accepted] calls accepted show ?thesis
    by (simp add: example_response_def)
qed

subsection \<open>Tool input contracts\<close>

text \<open>
  A contract carried over a process boundary rebuilds the tool input, whichever way the input was made,
  as long as it has a schema and an example only beside a schema without it.
\<close>

definition made_input :: "tool_input \<Rightarrow> bool" where
  "made_input i \<longleftrightarrow> (\<exists>s w x. ToolInputFromSpec s w x = Inr i) \<or> (\<exists>s. ToolInputFromSchema s = Inr i) \<or>
     (\<exists>c. ToolInputFromContract c = Inr i)"

definition valid_or_nil :: "string option \<Rightarrow> bool" where
  "valid_or_nil d \<longleftrightarrow> (case d of None \<Rightarrow> True | Some b \<Rightarrow> json_valid b \<and> trim_space b \<noteq> [])"

lemma validated_contract: "validateContractJSON l d = Inr d' \<Longrightarrow> valid_or_nil d'"
  by (auto simp: validateContractJSON_def valid_or_nil_def raw_bytes_def split: if_splits option.splits)

lemma valid_contract: "valid_or_nil d \<Longrightarrow> validateContractJSON l d = Inr d"
  by (auto simp: validateContractJSON_def valid_or_nil_def raw_bytes_def split: option.splits)

definition input_valid :: "tool_input \<Rightarrow> bool" where
  "input_valid i \<longleftrightarrow> valid_or_nil (in_schema i) \<and> valid_or_nil (in_schema_without_example i) \<and> valid_or_nil (in_example i)"

lemma made_input_valid: "made_input i \<Longrightarrow> input_valid i"
  unfolding made_input_def
proof (elim disjE exE)
  fix s w x assume "ToolInputFromSpec s w x = Inr i"
  then show "input_valid i"
    by (auto simp: input_valid_def ToolInputFromSpec_def dest!: validated_contract split: sum.splits)
next
  fix s assume "ToolInputFromSchema s = Inr i"
  then show "input_valid i"
    by (cases "validateContractJSON ''caller-authored tool schema'' s")
      (auto simp: input_valid_def ToolInputFromSchema_def valid_or_nil_def [of None] dest: validated_contract)
next
  fix c assume "ToolInputFromContract c = Inr i"
  then show "input_valid i"
    by (auto simp: input_valid_def ToolInputFromContract_def dest!: validated_contract split: sum.splits if_splits)
qed

theorem contract_roundtrip:
  assumes "made_input i" "in_schema i \<noteq> None" "in_example i \<noteq> None \<longrightarrow> in_schema_without_example i \<noteq> None"
  shows "ToolInputFromContract (Contract i) = Inr i"
  using made_input_valid [OF assms(1)] assms(2,3)
  by (auto simp: input_valid_def ToolInputFromContract_def Contract_def valid_contract raw_bytes_def)

subsection \<open>Estimates\<close>

text \<open>An estimate is positive and grows with the request.\<close>

lemma estimate_bounds:
  "0 < estimate ft sprint e req \<and>
   (0 < requestCharacterCount ft sprint req \<longrightarrow>
      overheadTokens e + 1 \<le> estimate ft sprint e req \<and>
      int (requestCharacterCount ft sprint req) < charactersPerToken e * (estimate ft sprint e req - overheadTokens e + 1))"
proof -
  have pos: "0 < charactersPerToken e" "0 < overheadTokens e" "0 < minimumTokens e"
    by (simp_all add: charactersPerToken_def overheadTokens_def minimumTokens_def)
  let ?n = "int (requestCharacterCount ft sprint req)" and ?c = "charactersPerToken e"
  have "?n < ?c * (?n div ?c + 1)"
    using pos_mod_bound [OF pos(1), of ?n] mult_div_mod_eq [of ?c ?n] unfolding distrib_left mult_1_right by linarith
  also have "\<dots> \<le> ?c * (max (?n div ?c) 1 + 1)" using pos(1) by (intro mult_left_mono) auto
  finally show ?thesis using pos by (auto simp: estimate_def Let_def)
qed

lemma messagesWithoutThinking_idem:
  "messagesWithoutThinking ms = Some out \<Longrightarrow> messagesWithoutThinking out = Some out"
proof (induction ms arbitrary: out rule: messagesWithoutThinking.induct)
  case (3 m ms)
  then obtain rest where "messagesWithoutThinking ms = Some rest" by (auto split: option.splits)
  with 3 show ?case by (auto simp: Let_def split: if_splits)
qed auto

text \<open>
  The estimator counts replayed thinking, although the counter contract excludes it and every
  counter is documented to count the projection of \<open>CountingRequest\<close>; and an estimate may be below the
  configured minimum.
\<close>

theorem estimator_counts_thinking:
  "\<exists>e req req'. CountingRequest req = Some req' \<and>
     ec_input_tokens (CountTokens ft sprint e (Some req)) \<noteq> ec_input_tokens (CountTokens ft sprint e (Some req')) \<and>
     ec_input_tokens (CountTokens ft sprint e (Some req)) < minimumTokens e"
proof -
  let ?e = "\<lparr>es_characters_per_token = 1, es_overhead = 1, es_minimum = 100\<rparr>"
  let ?m = "Some \<lparr>m_role = RoleAssistant, m_parts = [ThinkingPart \<lparr>th_text = ''hm'', th_signature = [], th_redacted = [],
    th_index = 0, th_final = True\<rparr>, TextPart ''a''], m_meta = None\<rparr>"
  let ?req = "\<lparr>rq_model = [], rq_model_class = [], rq_messages = [?m], rq_tools = [], rq_tool_choice = None, rq_thinking = None,
    rq_structured_output = None\<rparr>"
  have "\<exists>req'. CountingRequest ?req = Some req' \<and>
     ec_input_tokens (CountTokens ft sprint ?e (Some ?req)) \<noteq> ec_input_tokens (CountTokens ft sprint ?e (Some req')) \<and>
     ec_input_tokens (CountTokens ft sprint ?e (Some ?req)) < minimumTokens ?e"
    by (simp add: CountingRequest_def CountTokens_def estimate_def requestCharacterCount_def messageCharacterCount_def
      charactersPerToken_def overheadTokens_def minimumTokens_def Let_def)
  then show ?thesis by blast
qed

end
