(* ===== verification/Invocation_Journal.thy ===== *)
theory Invocation_Journal
  imports Response_Contract Workflow_Step "HOL-Library.Multiset"
begin

section \<open>The model invocation journal\<close>

text \<open>
  \<open>runtime/agent/runtime/model_invocation_journal.go\<close> with the clients that fill it in \<open>model_wrapper.go\<close>: within
  one planner activity every model call is a tentative candidate, and the planner's result selects at most
  one of them, whose response becomes the transcript. Every method holds the mutex for its body, so an
  activity is a sequence of operations. The identifiers of \<open>internal/provenance\<close> are counted from 1, 0 is
  the zero token. Ownership of messages is by address: the addresses of the messages of a response come
  with it, and the final message of a result is its address and its present value. The lists of keys and
  values of metadata maps are equal when the maps are. A nil dereference is the error \<open>JournalPanic\<close>.
  The lemmas show that the exported transcript is one validated provider response, unmixed, and that token
  usage is accounted for once.
\<close>

subsection \<open>Data\<close>

datatype presentation =
    PresentText string
  | PresentThinking thinking_part
  | PresentDelta string string string

datatype journal_error =
    ProviderFailed string
  | ResponseRefused response_error
  | CloneRefused
  | DesignatedTwice
  | DesignateUnknown
  | UnknownInvocation
  | MultipleResponses
  | NoCanonicalResponse
  | ClosedBeforeEOF
  | MatchesMultiple
  | NotPreserved
  | ModifiedCalls
  | DiscardedDesignated
  | SelectedProbe
  | MetadataModified
  | JournalPanic

record candidate =
  cn_response :: "response option"
  cn_presentation :: "presentation list"
  cn_streamed :: bool
  cn_usage_seen :: bool
  cn_err :: "journal_error option"

record journal =
  jn_next :: nat
  jn_invocations :: "(nat \<times> candidate) list"
  jn_owner :: "nat \<rightharpoonup> nat \<times> nat"
  jn_designated :: nat
  jn_selected :: nat
  jn_usage_events :: "token_usage list"
  jn_usage :: token_usage

record facing_call =
  fc_id :: string
  fc_name :: string
  fc_payload :: string

definition no_usage :: token_usage where
  "no_usage = \<lparr>us_model = [], us_model_class = [], us_input = 0, us_output = 0, us_total = 0, us_cache_read = 0, us_cache_write = 0\<rparr>"

definition new_journal :: journal where
  "new_journal = \<lparr>jn_next = 0, jn_invocations = [], jn_owner = Map.empty, jn_designated = 0, jn_selected = 0,
     jn_usage_events = [], jn_usage = no_usage\<rparr>"

definition addTokenUsage :: "token_usage \<Rightarrow> token_usage \<Rightarrow> token_usage" where
  "addTokenUsage current delta =
     \<lparr>us_model = [], us_model_class = [], us_input = us_input current + us_input delta,
      us_output = us_output current + us_output delta, us_total = us_total current + us_total delta,
      us_cache_read = us_cache_read current + us_cache_read delta,
      us_cache_write = us_cache_write current + us_cache_write delta\<rparr>"

subsection \<open>Presentation\<close>

fun present_part :: "part \<Rightarrow> presentation list" where
  "present_part (TextPart t) = (if t = [] then [] else [PresentText t])"
| "present_part (CitationsPart t cs) = (if t = [] then [] else [PresentText t])"
| "present_part (ThinkingPart p) = [PresentThinking p]"
| "present_part p = []"

definition presentationFromMessage :: "message \<Rightarrow> presentation list" where
  "presentationFromMessage m = concat (map present_part (m_parts m))"

fun chunk_text :: "part \<Rightarrow> string" where
  "chunk_text (TextPart t) = t"
| "chunk_text p = []"

fun chunk_thinking :: "part \<Rightarrow> presentation list" where
  "chunk_thinking (ThinkingPart p) = [PresentThinking p]"
| "chunk_thinking p = []"

fun presentationFromChunk :: "chunk \<Rightarrow> presentation list" where
  "presentationFromChunk (TextChunk m) =
     (let t = concat (map chunk_text (m_parts m)) in if t = [] then [] else [PresentText t])"
| "presentationFromChunk (ThinkingChunk m) = concat (map chunk_thinking (m_parts m))"
| "presentationFromChunk (ToolCallDeltaChunk name callID delta) = [PresentDelta callID name delta]"
| "presentationFromChunk c = []"

subsection \<open>Recording\<close>

definition beginModelInvocation :: "journal \<Rightarrow> journal \<times> nat" where
  "beginModelInvocation j =
     (let i = Suc (jn_next j);
          c = \<lparr>cn_response = None, cn_presentation = [], cn_streamed = False, cn_usage_seen = False, cn_err = None\<rparr>
      in (j\<lparr>jn_next := i, jn_invocations := jn_invocations j @ [(i, c)]\<rparr>, i))"

definition put_candidate :: "nat \<Rightarrow> candidate \<Rightarrow> journal \<Rightarrow> journal" where
  "put_candidate i c j = j\<lparr>jn_invocations := map (\<lambda>(k, d). (k, if k = i then c else d)) (jn_invocations j)\<rparr>"

definition designateModelInvocation :: "nat \<Rightarrow> journal \<Rightarrow> journal \<times> (journal_error, unit) result" where
  "designateModelInvocation i j =
     (if jn_designated j \<noteq> 0 then (j, Inl DesignatedTwice)
      else if map_of (jn_invocations j) i = None then (j, Inl DesignateUnknown)
      else (j\<lparr>jn_designated := i\<rparr>, Inr ()))"

definition own_messages :: "nat \<Rightarrow> nat list \<Rightarrow> (nat \<rightharpoonup> nat \<times> nat) \<Rightarrow> nat \<rightharpoonup> nat \<times> nat" where
  "own_messages i addrs owner = owner ++ map_of (map (\<lambda>(k, a). (a, (i, k))) (enumerate 0 addrs))"

definition recordModelResponse ::
  "(int \<Rightarrow> int \<Rightarrow> string) \<Rightarrow> nat \<Rightarrow> response option \<Rightarrow> nat list \<Rightarrow> journal \<Rightarrow> journal \<times> (journal_error, unit) result" where
  "recordModelResponse ft i resp addrs j =
     (case ValidateResponse ft resp of
        Inl e \<Rightarrow> (j, Inl (ResponseRefused e))
      | Inr u \<Rightarrow>
          (case map_of (jn_invocations j) i of
             None \<Rightarrow> (j, Inl UnknownInvocation)
           | Some c \<Rightarrow>
               if cn_response c \<noteq> None then (j, Inl MultipleResponses)
               else (case (resp, CloneResponse resp) of
                       (Some r, Inr (Some captured)) \<Rightarrow>
                         (let c1 = c\<lparr>cn_response := Some captured\<rparr>;
                              c2 = (if cn_streamed c then c1
                                    else c1\<lparr>cn_presentation := cn_presentation c @ concat (map presentationFromMessage (rs_content r))\<rparr>);
                              j1 = (put_candidate i c2 j)\<lparr>jn_owner := own_messages i addrs (jn_owner j)\<rparr>
                          in (if cn_usage_seen c then j1
                              else j1\<lparr>jn_usage := addTokenUsage (jn_usage j) (rs_usage r),
                                      jn_usage_events := (if rs_usage r \<noteq> no_usage then jn_usage_events j @ [rs_usage r]
                                                          else jn_usage_events j)\<rparr>, Inr ()))
                     | _ \<Rightarrow> (j, Inl CloneRefused))))"

definition recordModelChunk :: "nat \<Rightarrow> chunk \<Rightarrow> journal \<Rightarrow> journal \<times> (journal_error, unit) result" where
  "recordModelChunk i ch j =
     (case ValidateChunk ch of
        Inl e \<Rightarrow> (j, Inl (ResponseRefused e))
      | Inr u \<Rightarrow>
          (case map_of (jn_invocations j) i of
             None \<Rightarrow> (j, Inl UnknownInvocation)
           | Some c \<Rightarrow>
               (case ch of
                  UsageChunk usage \<Rightarrow>
                    ((put_candidate i (c\<lparr>cn_streamed := True, cn_usage_seen := True\<rparr>) j)
                       \<lparr>jn_usage := addTokenUsage (jn_usage j) usage, jn_usage_events := jn_usage_events j @ [usage]\<rparr>, Inr ())
                | _ \<Rightarrow>
                    (put_candidate i (c\<lparr>cn_streamed := True, cn_presentation := cn_presentation c @ presentationFromChunk ch\<rparr>) j, Inr ()))))"

definition finishModelInvocation :: "nat \<Rightarrow> journal_error option \<Rightarrow> journal \<Rightarrow> journal \<times> (journal_error, unit) result" where
  "finishModelInvocation i err j =
     (case map_of (jn_invocations j) i of
        None \<Rightarrow> (j, Inl UnknownInvocation)
      | Some c \<Rightarrow>
          (case err of
             Some e \<Rightarrow> (put_candidate i (c\<lparr>cn_err := Some e\<rparr>) j, Inl e)
           | None \<Rightarrow>
               if cn_response c = None
               then (put_candidate i (c\<lparr>cn_err := Some NoCanonicalResponse\<rparr>) j, Inl NoCanonicalResponse)
               else (j, Inr ())))"

subsection \<open>Clients\<close>

definition stampModelIdentity :: "request \<Rightarrow> token_usage \<Rightarrow> token_usage" where
  "stampModelIdentity req u =
     u\<lparr>us_model := (if us_model u = [] then rq_model req else us_model u),
       us_model_class := (if us_model_class u = [] then rq_model_class req else us_model_class u)\<rparr>"

text \<open>Starting an invocation, which a designated client also designates.\<close>

definition start_invocation :: "bool \<Rightarrow> journal \<Rightarrow> journal \<times> (journal_error, nat) result" where
  "start_invocation designated j =
     (case beginModelInvocation j of
        (j1, i) \<Rightarrow>
          if \<not> designated then (j1, Inr i)
          else (case designateModelInvocation i j1 of
                  (j2, Inl e) \<Rightarrow> (j2, Inl e)
                | (j2, Inr u) \<Rightarrow> (j2, Inr i)))"

text \<open>Storing the response and closing the invocation, whose error is the one recorded.\<close>

definition settle_response ::
  "(int \<Rightarrow> int \<Rightarrow> string) \<Rightarrow> request \<Rightarrow> nat \<Rightarrow> response \<Rightarrow> nat list \<Rightarrow> journal \<Rightarrow> journal \<times> (journal_error, response) result" where
  "settle_response ft req i r addrs j =
     (let stamped = r\<lparr>rs_usage := stampModelIdentity req (rs_usage r)\<rparr>
      in case recordModelResponse ft i (Some stamped) addrs j of
           (j1, Inl e) \<Rightarrow>
             (case finishModelInvocation i (Some e) j1 of
                (j2, Inl e') \<Rightarrow> (j2, Inl e')
              | (j2, Inr u) \<Rightarrow> (j2, Inl e))
         | (j1, Inr u) \<Rightarrow>
             (case finishModelInvocation i None j1 of
                (j2, Inl e) \<Rightarrow> (j2, Inl e)
              | (j2, Inr u) \<Rightarrow> (j2, Inr stamped)))"

text \<open>\<open>inner\<close> is what the wrapped client returned: an error or a response with the addresses of its messages.\<close>

definition Complete ::
  "(int \<Rightarrow> int \<Rightarrow> string) \<Rightarrow> bool \<Rightarrow> request \<Rightarrow> (string, response \<times> nat list) result \<Rightarrow> journal \<Rightarrow>
   journal \<times> (journal_error, response) result" where
  "Complete ft designated req inner j =
     (case start_invocation designated j of
        (j1, Inl e) \<Rightarrow> (j1, Inl e)
      | (j1, Inr i) \<Rightarrow>
          (case inner of
             Inl e \<Rightarrow>
               (case finishModelInvocation i (Some (ProviderFailed e)) j1 of
                  (j2, Inl e') \<Rightarrow> (j2, Inl e')
                | (j2, Inr u) \<Rightarrow> (j2, Inl (ProviderFailed e)))
           | Inr (r, addrs) \<Rightarrow> settle_response ft req i r addrs j1))"

text \<open>Opening a stream; the identifier is the one of the streamer that wraps the inner stream.\<close>

definition Stream ::
  "bool \<Rightarrow> (string, unit) result \<Rightarrow> journal \<Rightarrow> journal \<times> (journal_error, nat) result" where
  "Stream designated inner j =
     (case start_invocation designated j of
        (j1, Inl e) \<Rightarrow> (j1, Inl e)
      | (j1, Inr i) \<Rightarrow>
          (case inner of
             Inl e \<Rightarrow>
               (case finishModelInvocation i (Some (ProviderFailed e)) j1 of
                  (j2, Inl e') \<Rightarrow> (j2, Inl e')
                | (j2, Inr u) \<Rightarrow> (j2, Inl (ProviderFailed e)))
           | Inr u \<Rightarrow> (j1, Inr i)))"

text \<open>One \<open>Recv\<close> of a stream: a chunk, the end with the response of the stream, or an error.\<close>

datatype inner_recv = InnerChunk chunk | InnerEOF "(response \<times> nat list) option" | InnerError string

datatype recv_result = RecvChunk chunk | RecvEOF | RecvError journal_error

definition stamp_chunk :: "request \<Rightarrow> chunk \<Rightarrow> chunk" where
  "stamp_chunk req ch = (case ch of UsageChunk u \<Rightarrow> UsageChunk (stampModelIdentity req u) | _ \<Rightarrow> ch)"

definition fail_recv :: "nat \<Rightarrow> journal_error \<Rightarrow> journal \<Rightarrow> journal \<times> recv_result" where
  "fail_recv i e j =
     (case finishModelInvocation i (Some e) j of
        (j1, Inl e') \<Rightarrow> (j1, RecvError e')
      | (j1, Inr u) \<Rightarrow> (j1, RecvError e))"

text \<open>The boolean is the streamer's \<open>finished\<close> flag after the call; it is not read by \<open>Recv\<close>.\<close>

definition Recv ::
  "(int \<Rightarrow> int \<Rightarrow> string) \<Rightarrow> request \<Rightarrow> nat \<Rightarrow> inner_recv \<Rightarrow> bool \<Rightarrow> journal \<Rightarrow> journal \<times> bool \<times> recv_result" where
  "Recv ft req i inner finished j =
     (case inner of
        InnerError e \<Rightarrow> (case fail_recv i (ProviderFailed e) j of (j1, r) \<Rightarrow> (j1, True, r))
      | InnerEOF None \<Rightarrow> (case fail_recv i NoCanonicalResponse j of (j1, r) \<Rightarrow> (j1, True, r))
      | InnerEOF (Some (r, addrs)) \<Rightarrow>
          (case settle_response ft req i r addrs j of
             (j1, Inl e) \<Rightarrow> (j1, True, RecvError e)
           | (j1, Inr stamped) \<Rightarrow> (j1, True, RecvEOF))
      | InnerChunk ch \<Rightarrow>
          (case recordModelChunk i (stamp_chunk req ch) j of
             (j1, Inl e) \<Rightarrow> (case fail_recv i e j1 of (j2, r) \<Rightarrow> (j2, True, r))
           | (j1, Inr u) \<Rightarrow> (j1, finished, RecvChunk (stamp_chunk req ch))))"

definition Close :: "nat \<Rightarrow> bool \<Rightarrow> journal \<Rightarrow> journal \<times> bool \<times> journal_error option" where
  "Close i finished j =
     (if finished then (j, finished, None)
      else case finishModelInvocation i (Some ClosedBeforeEOF) j of
             (j1, Inl e) \<Rightarrow> (j1, True, Some e)
           | (j1, Inr u) \<Rightarrow> (j1, True, None))"

subsection \<open>Selection\<close>

definition item_calls :: "await_item \<Rightarrow> facing_call list option" where
  "item_calls item =
     (case aw_kind item of
        AwaitItemKindToolClarification \<Rightarrow>
          map_option (\<lambda>c. [\<lparr>fc_id = at_tool_call_id c, fc_name = at_tool_name c, fc_payload = at_payload c\<rparr>]) (aw_tool_clarification item)
      | AwaitItemKindQuestions \<Rightarrow>
          map_option (\<lambda>q. [\<lparr>fc_id = aq_tool_call_id q, fc_name = aq_tool_name q, fc_payload = aq_payload q\<rparr>]) (aw_questions item)
      | AwaitItemKindExternalTools \<Rightarrow>
          map_option (\<lambda>e. map (\<lambda>c. \<lparr>fc_id = ai_tool_call_id c, fc_name = ai_name c, fc_payload = ai_payload c\<rparr>) (ae_items e))
            (aw_external_tools item)
      | _ \<Rightarrow> Some [])"

fun items_calls :: "await_item list \<Rightarrow> facing_call list option" where
  "items_calls [] = Some []"
| "items_calls (item # items) =
     (case item_calls item of
        None \<Rightarrow> None
      | Some cs \<Rightarrow> map_option ((@) cs) (items_calls items))"

definition planResultFacingCalls :: "plan_result option \<Rightarrow> facing_call list option" where
  "planResultFacingCalls res =
     (case res of
        None \<Rightarrow> Some []
      | Some r \<Rightarrow>
          (let calls = map (\<lambda>c. \<lparr>fc_id = tr_tool_call_id c, fc_name = TranscriptName c, fc_payload = TranscriptPayload c\<rparr>) (pr_tool_calls r)
           in case pr_await r of
                None \<Rightarrow> Some calls
              | Some items \<Rightarrow> map_option ((@) calls) (items_calls items)))"

fun index_calls :: "model_tool_call list \<Rightarrow> (string \<times> model_tool_call) list \<Rightarrow> (string \<times> model_tool_call) list option" where
  "index_calls [] byID = Some byID"
| "index_calls (c # cs) byID =
     (if mc_id c = [] \<or> map_of byID (mc_id c) \<noteq> None then None else index_calls cs ((mc_id c, c) # byID))"

fun take_calls :: "facing_call list \<Rightarrow> (string \<times> model_tool_call) list \<Rightarrow> bool" where
  "take_calls [] byID \<longleftrightarrow> byID = []"
| "take_calls (c # cs) byID \<longleftrightarrow>
     (case map_of byID (fc_id c) of
        None \<Rightarrow> False
      | Some captured \<Rightarrow>
          mc_name captured = fc_name c \<and> mc_payload captured = fc_payload c \<and>
          take_calls cs (filter (\<lambda>kv. fst kv \<noteq> fc_id c) byID))"

definition modelInvocationMatches :: "candidate \<Rightarrow> facing_call list \<Rightarrow> bool" where
  "modelInvocationMatches c calls \<longleftrightarrow>
     (case cn_response c of
        None \<Rightarrow> False
      | Some r \<Rightarrow>
          length (ToolCalls r) = length calls \<and>
          (case index_calls (ToolCalls r) [] of None \<Rightarrow> False | Some byID \<Rightarrow> take_calls calls byID))"

definition modelInvocationOwnsAnyCall :: "(nat \<times> candidate) list \<Rightarrow> facing_call list \<Rightarrow> bool" where
  "modelInvocationOwnsAnyCall invocations calls \<longleftrightarrow>
     (\<exists>c \<in> set calls. \<exists>kc \<in> set invocations.
        case cn_response (snd kc) of None \<Rightarrow> False | Some r \<Rightarrow> fc_id c \<in> mc_id ` set (ToolCalls r))"

definition selectable :: "journal \<Rightarrow> (nat \<times> nat) option \<Rightarrow> facing_call list \<Rightarrow> nat \<times> candidate \<Rightarrow> bool" where
  "selectable j owner calls kc \<longleftrightarrow>
     cn_response (snd kc) \<noteq> None \<and> cn_err (snd kc) = None \<and>
     \<not> (jn_designated j \<noteq> 0 \<and> owner = None \<and> fst kc \<noteq> jn_designated j) \<and>
     (case owner of
        Some (i, k) \<Rightarrow> fst kc = i \<and> modelInvocationMatches (snd kc) calls
      | None \<Rightarrow> calls \<noteq> [] \<and> modelInvocationMatches (snd kc) calls)"

definition keeps_metadata :: "(string \<times> gvalue) list \<Rightarrow> (string \<times> gvalue) list \<Rightarrow> bool" where
  "keeps_metadata provider planner \<longleftrightarrow> (\<forall>kv \<in> set provider. map_of planner (fst kv) = Some (snd kv))"

text \<open>\<open>final\<close> is the address and the value of the final message of the result.\<close>

definition exportModelInvocation ::
  "journal \<Rightarrow> plan_result option \<Rightarrow> (nat \<times> message) option \<Rightarrow> journal \<times> (journal_error, message list) result" where
  "exportModelInvocation j res final =
     (case planResultFacingCalls res of
        None \<Rightarrow> (j, Inl JournalPanic)
      | Some calls \<Rightarrow>
          (let owner = (case final of None \<Rightarrow> None | Some (a, m) \<Rightarrow> jn_owner j a)
           in if jn_invocations j = [] then (j, Inr [])
              else case filter (selectable j owner calls) (jn_invocations j) of
                     [] \<Rightarrow>
                       (j\<lparr>jn_selected := 0\<rparr>,
                        if owner \<noteq> None then Inl NotPreserved
                        else if modelInvocationOwnsAnyCall (jn_invocations j) calls then Inl ModifiedCalls
                        else if jn_designated j \<noteq> 0 then Inl DiscardedDesignated
                        else Inr [])
                   | [(i, c)] \<Rightarrow>
                       if jn_designated j \<noteq> 0 \<and> i \<noteq> jn_designated j then (j, Inl SelectedProbe)
                       else (let j1 = j\<lparr>jn_selected := i\<rparr>
                             in case CloneResponse (cn_response c) of
                                  Inr (Some captured) \<Rightarrow>
                                    (case (owner, final) of
                                       (Some (i', k), Some (a, m)) \<Rightarrow>
                                         if \<not> keeps_metadata (metadata_of (rs_content captured ! k)) (metadata_of m)
                                         then (j1, Inl MetadataModified)
                                         else (case CloneMessages [Some m] of
                                                 Inr [Some enriched] \<Rightarrow>
                                                   (j1, Inr ((rs_content captured)[k := (rs_content captured ! k)\<lparr>m_meta := m_meta enriched\<rparr>]))
                                               | _ \<Rightarrow> (j1, Inl CloneRefused))
                                     | _ \<Rightarrow> (j1, Inr (rs_content captured)))
                                | _ \<Rightarrow> (j1, Inl CloneRefused))
                   | _ \<Rightarrow> (j, Inl MatchesMultiple)))"

definition publishSelectedPresentation :: "journal \<Rightarrow> presentation list \<times> token_usage list" where
  "publishSelectedPresentation j =
     (case map_of (jn_invocations j) (jn_selected j) of None \<Rightarrow> [] | Some c \<Rightarrow> cn_presentation c, jn_usage_events j)"

definition exportUsage :: "journal \<Rightarrow> token_usage" where
  "exportUsage j = jn_usage j"

text \<open>The identifiers and names are those the workflow checks for uniqueness.\<close>

lemma facing_item_ids:
  "item_calls item = Some cs \<Longrightarrow>
   map (\<lambda>c. (fc_id c, fc_name c)) cs = map (\<lambda>call. (tr_tool_call_id call, tr_name call)) (awaitItemRequests item)"
  by (auto simp: item_calls_def awaitItemRequests_def new_request_def split: await_kind.splits option.splits)

lemma facing_items_ids:
  "items_calls items = Some cs \<Longrightarrow>
   map (\<lambda>c. (fc_id c, fc_name c)) cs = map (\<lambda>call. (tr_tool_call_id call, tr_name call)) (awaitToolRequests items)"
  by (induction items arbitrary: cs) (auto simp: awaitToolRequests_def dest: facing_item_ids split: option.splits)

lemma facing_calls_are_checked:
  "planResultFacingCalls (Some r) = Some cs \<Longrightarrow> map (\<lambda>c. (fc_id c, fc_name c)) cs = planResultModelToolCalls r"
  by (auto simp: planResultFacingCalls_def planResultModelToolCalls_def Let_def comp_def dest: facing_items_ids split: option.splits)

subsection \<open>The journal invariant\<close>

definition sum_usage :: "token_usage list \<Rightarrow> token_usage" where
  "sum_usage us = foldl addTokenUsage no_usage us"

definition candidate_ok :: "(int \<Rightarrow> int \<Rightarrow> string) \<Rightarrow> candidate \<Rightarrow> bool" where
  "candidate_ok ft c \<longleftrightarrow> (\<forall>r. cn_response c = Some r \<longrightarrow> ValidateResponse ft (Some r) = Inr ())"

definition owns :: "journal \<Rightarrow> nat \<times> nat \<Rightarrow> bool" where
  "owns j ik \<longleftrightarrow> (\<exists>c r. (fst ik, c) \<in> set (jn_invocations j) \<and> cn_response c = Some r \<and> snd ik < length (rs_content r))"

definition journal_ok :: "(int \<Rightarrow> int \<Rightarrow> string) \<Rightarrow> journal \<Rightarrow> bool" where
  "journal_ok ft j \<longleftrightarrow>
     distinct (map fst (jn_invocations j)) \<and> (\<forall>i \<in> fst ` set (jn_invocations j). 0 < i \<and> i \<le> jn_next j) \<and>
     (\<forall>c \<in> snd ` set (jn_invocations j). candidate_ok ft c) \<and>
     (\<forall>ik \<in> ran (jn_owner j). owns j ik) \<and>
     jn_usage j = sum_usage (jn_usage_events j)"

lemma journal_ok_new: "journal_ok ft new_journal"
  by (simp add: journal_ok_def new_journal_def sum_usage_def)

lemma sum_usage_snoc [simp]: "sum_usage (us @ [u]) = addTokenUsage (sum_usage us) u"
  by (simp add: sum_usage_def)

lemma sum_usage_models [simp]: "us_model (sum_usage us) = []" "us_model_class (sum_usage us) = []"
  by (cases us rule: rev_cases; simp add: sum_usage_def no_usage_def addTokenUsage_def)+

lemma add_no_usage [simp]: "addTokenUsage (sum_usage us) no_usage = sum_usage us"
  by (rule token_usage.equality) (simp_all add: addTokenUsage_def no_usage_def)

text \<open>Changing one candidate.\<close>

lemma put_candidate_fields [simp]:
  "map fst (jn_invocations (put_candidate i c j)) = map fst (jn_invocations j)"
  "jn_next (put_candidate i c j) = jn_next j" "jn_owner (put_candidate i c j) = jn_owner j"
  "jn_usage (put_candidate i c j) = jn_usage j" "jn_usage_events (put_candidate i c j) = jn_usage_events j"
  "jn_designated (put_candidate i c j) = jn_designated j" "jn_selected (put_candidate i c j) = jn_selected j"
  by (simp_all add: put_candidate_def case_prod_unfold)

lemma put_candidate_set:
  "(k, d) \<in> set (jn_invocations (put_candidate i c j)) \<longleftrightarrow>
   (if k = i then d = c \<and> i \<in> fst ` set (jn_invocations j) else (k, d) \<in> set (jn_invocations j))"
  by (force simp: put_candidate_def)

lemma put_candidate_ids [simp]: "fst ` set (jn_invocations (put_candidate i c j)) = fst ` set (jn_invocations j)"
  by (metis put_candidate_fields(1) list.set_map)

definition put_ok :: "(int \<Rightarrow> int \<Rightarrow> string) \<Rightarrow> nat \<Rightarrow> candidate \<Rightarrow> journal \<Rightarrow> bool" where
  "put_ok ft i c j \<longleftrightarrow> candidate_ok ft c \<and>
     (\<exists>d. map_of (jn_invocations j) i = Some d \<and> (cn_response d \<noteq> None \<longrightarrow> cn_response c = cn_response d))"

lemma owns_put:
  assumes "journal_ok ft j" "put_ok ft i c j" "owns j ik"
  shows "owns (put_candidate i c j) ik"
proof -
  from assms(3) obtain d r where d: "(fst ik, d) \<in> set (jn_invocations j)" "cn_response d = Some r" "snd ik < length (rs_content r)"
    by (auto simp: owns_def)
  have "map_of (jn_invocations j) (fst ik) = Some d" using d(1) assms(1) by (simp add: journal_ok_def)
  then have "\<exists>c'. (fst ik, c') \<in> set (jn_invocations (put_candidate i c j)) \<and> cn_response c' = Some r"
    using assms(2) d by (cases "fst ik = i") (force simp: put_candidate_set put_ok_def)+
  then show ?thesis using d(3) by (auto simp: owns_def)
qed

lemma journal_ok_put:
  assumes "journal_ok ft j" "put_ok ft i c j"
  shows "journal_ok ft (put_candidate i c j)"
proof -
  have "candidate_ok ft d" if "(k, d) \<in> set (jn_invocations (put_candidate i c j))" for k d
    using that assms by (force simp: put_candidate_set put_ok_def journal_ok_def split: if_splits)
  moreover have "owns (put_candidate i c j) ik" if "ik \<in> ran (jn_owner j)" for ik
    using owns_put [OF assms] that assms(1) by (simp add: journal_ok_def)
  ultimately show ?thesis using assms(1) unfolding journal_ok_def put_candidate_fields put_candidate_ids by force
qed

lemma journal_ok_usage:
  "journal_ok ft j \<Longrightarrow> jn_usage j' = addTokenUsage (jn_usage j) u \<Longrightarrow> jn_usage_events j' = jn_usage_events j @ [u] \<Longrightarrow>
   jn_invocations j' = jn_invocations j \<Longrightarrow> jn_owner j' = jn_owner j \<Longrightarrow> jn_next j' = jn_next j \<Longrightarrow> journal_ok ft j'"
  by (simp add: journal_ok_def owns_def)

lemma begin_ok: "journal_ok ft j \<Longrightarrow> journal_ok ft (fst (beginModelInvocation j))"
  by (auto simp: journal_ok_def beginModelInvocation_def Let_def candidate_ok_def owns_def) (fastforce dest: bspec)+

lemma designate_ok: "journal_ok ft j \<Longrightarrow> journal_ok ft (fst (designateModelInvocation i j))"
  by (simp add: designateModelInvocation_def journal_ok_def owns_def)

lemma put_same_response:
  assumes "journal_ok ft j" "map_of (jn_invocations j) i = Some c" "cn_response c' = cn_response c"
  shows "journal_ok ft (put_candidate i c' j)"
proof -
  have "candidate_ok ft c" using assms(1,2) by (force simp: journal_ok_def dest: map_of_SomeD)
  with assms(2,3) have "put_ok ft i c' j" by (simp add: put_ok_def candidate_ok_def)
  with assms(1) show ?thesis by (rule journal_ok_put)
qed

lemma finish_ok: "journal_ok ft j \<Longrightarrow> journal_ok ft (fst (finishModelInvocation i e j))"
  by (auto simp: finishModelInvocation_def put_same_response split: option.split)

lemma chunk_ok:
  assumes "journal_ok ft j" shows "journal_ok ft (fst (recordModelChunk i ch j))"
proof (cases "ValidateChunk ch")
  case (Inr u)
  show ?thesis
  proof (cases "map_of (jn_invocations j) i")
    case (Some c)
    show ?thesis
    proof (cases "\<exists>usage. ch = UsageChunk usage")
      case True
      then obtain usage where ch: "ch = UsageChunk usage" by blast
      let ?j = "put_candidate i (c\<lparr>cn_streamed := True, cn_usage_seen := True\<rparr>) j"
      have "journal_ok ft ?j" using assms Some by (rule put_same_response) simp
      from journal_ok_usage [OF this, of _ usage] Inr Some ch show ?thesis by (simp add: recordModelChunk_def)
    next
      case False
      then have "recordModelChunk i ch j =
          (put_candidate i (c\<lparr>cn_streamed := True, cn_presentation := cn_presentation c @ presentationFromChunk ch\<rparr>) j, Inr ())"
        using Inr Some by (cases ch) (auto simp: recordModelChunk_def)
      with assms Some show ?thesis by (simp add: put_same_response)
    qed
  qed (use assms Inr in \<open>simp add: recordModelChunk_def\<close>)
qed (use assms in \<open>simp add: recordModelChunk_def\<close>)

lemma accepted_clones:
  assumes "ValidateResponse ft (Some r) = Inr ()" shows "CloneResponse (Some r) = Inr (Some r)"
proof -
  have "clone_content 0 (rs_content r) = Inr (rs_content r)"
    using accepted_response(2) [OF assms] validated_message_clones by (intro clone_content_ok) blast
  then show ?thesis by (simp add: CloneResponse_def)
qed

lemma owned_addresses:
  "ik \<in> ran (own_messages i addrs owner) \<Longrightarrow> ik \<in> ran owner \<or> (fst ik = i \<and> snd ik < length addrs)"
proof -
  assume "ik \<in> ran (own_messages i addrs owner)"
  then obtain a where "(owner ++ map_of (map (\<lambda>(k, a). (a, (i, k))) (enumerate 0 addrs))) a = Some ik"
    unfolding own_messages_def ran_def by (elim CollectE exE)
  then show ?thesis
    by (auto simp: map_add_Some_iff ran_def in_set_enumerate_eq dest!: map_of_SomeD)
qed

lemma response_ok:
  assumes "journal_ok ft j" "\<And>r. resp = Some r \<Longrightarrow> length addrs \<le> length (rs_content r)"
  shows "journal_ok ft (fst (recordModelResponse ft i resp addrs j))"
proof (cases "\<exists>c r. ValidateResponse ft resp = Inr () \<and> map_of (jn_invocations j) i = Some c \<and> cn_response c = None \<and> resp = Some r")
  case False
  then show ?thesis
    using assms(1) by (cases resp) (auto simp: recordModelResponse_def ValidateResponse_def split: sum.split option.split)
next
  case True
  then obtain c r where valid: "ValidateResponse ft (Some r) = Inr ()" and c: "map_of (jn_invocations j) i = Some c" "cn_response c = None"
    and r: "resp = Some r" by blast
  have clone: "CloneResponse (Some r) = Inr (Some r)" using valid by (rule accepted_clones)
  define c2 where "c2 = (if cn_streamed c then c\<lparr>cn_response := Some r\<rparr>
    else c\<lparr>cn_response := Some r, cn_presentation := cn_presentation c @ concat (map presentationFromMessage (rs_content r))\<rparr>)"
  have c2: "cn_response c2 = Some r" by (simp add: c2_def)
  define j1 where "j1 = (put_candidate i c2 j)\<lparr>jn_owner := own_messages i addrs (jn_owner j)\<rparr>"
  have put: "journal_ok ft (put_candidate i c2 j)"
    using assms(1) c c2 valid by (intro journal_ok_put) (auto simp: put_ok_def candidate_ok_def)
  have "i \<in> fst ` set (jn_invocations j)" using c(1) by (force dest: map_of_SomeD)
  then have "(i, c2) \<in> set (jn_invocations (put_candidate i c2 j))" by (simp add: put_candidate_set)
  then have new: "owns (put_candidate i c2 j) ik" if "fst ik = i" "snd ik < length addrs" for ik
    using that assms(2) [OF r] c2 by (auto simp: owns_def)
  have old: "owns (put_candidate i c2 j) ik" if "ik \<in> ran (jn_owner j)" for ik
    using put that by (simp add: journal_ok_def)
  have "\<forall>ik \<in> ran (own_messages i addrs (jn_owner j)). owns (put_candidate i c2 j) ik"
    using owned_addresses [of _ i addrs "jn_owner j"] new old by blast
  then have j1: "journal_ok ft j1" using put by (simp add: journal_ok_def j1_def owns_def)
  have "fst (recordModelResponse ft i resp addrs j) =
      (if cn_usage_seen c then j1
       else j1\<lparr>jn_usage := addTokenUsage (jn_usage j) (rs_usage r),
         jn_usage_events := (if rs_usage r \<noteq> no_usage then jn_usage_events j @ [rs_usage r] else jn_usage_events j)\<rparr>)"
    using valid c clone by (simp add: recordModelResponse_def r j1_def c2_def Let_def)
  moreover have "journal_ok ft (j1\<lparr>jn_usage := addTokenUsage (jn_usage j) (rs_usage r), jn_usage_events := jn_usage_events j @ [rs_usage r]\<rparr>)"
    by (rule journal_ok_usage [OF j1, of _ "rs_usage r"]) (simp_all add: j1_def)
  moreover have "journal_ok ft (j1\<lparr>jn_usage := addTokenUsage (jn_usage j) no_usage, jn_usage_events := jn_usage_events j\<rparr>)"
    using j1 assms(1) by (simp add: journal_ok_def owns_def)
  ultimately show ?thesis using j1 by (cases "cn_usage_seen c"; cases "rs_usage r = no_usage") simp_all
qed

subsection \<open>Operations of an activity\<close>

text \<open>A designation and a finish occur inside the calls of the clients, so these are all the steps.\<close>

datatype client_op =
    OpComplete bool request "(string, response \<times> nat list) result"
  | OpStream bool "(string, unit) result"
  | OpRecv request nat inner_recv bool
  | OpClose nat bool
  | OpExport "plan_result option" "(nat \<times> message) option"

fun exec_client :: "(int \<Rightarrow> int \<Rightarrow> string) \<Rightarrow> client_op \<Rightarrow> journal \<Rightarrow> journal" where
  "exec_client ft (OpComplete designated req inner) j = fst (Complete ft designated req inner j)"
| "exec_client ft (OpStream designated inner) j = fst (Stream designated inner j)"
| "exec_client ft (OpRecv req i inner finished) j = fst (Recv ft req i inner finished j)"
| "exec_client ft (OpClose i finished) j = fst (Close i finished j)"
| "exec_client ft (OpExport res final) j = fst (exportModelInvocation j res final)"

text \<open>The addresses of a response are those of the elements of its slice.\<close>

definition slice_of :: "response \<Rightarrow> nat list \<Rightarrow> bool" where
  "slice_of r addrs \<longleftrightarrow> length addrs = length (rs_content r) \<and> distinct addrs"

fun client_legal :: "client_op \<Rightarrow> journal \<Rightarrow> bool" where
  "client_legal (OpComplete designated req (Inr (r, addrs))) j \<longleftrightarrow> slice_of r addrs"
| "client_legal (OpRecv req i (InnerEOF (Some (r, addrs))) finished) j \<longleftrightarrow> slice_of r addrs"
| "client_legal op j \<longleftrightarrow> True"

lemma start_ok: "journal_ok ft j \<Longrightarrow> journal_ok ft (fst (start_invocation designated j))"
  using begin_ok [of ft j] designate_ok [of ft "fst (beginModelInvocation j)" "snd (beginModelInvocation j)"]
  by (auto simp: start_invocation_def split: prod.split sum.split)

lemma finish_step: "finishModelInvocation i e j = (j1, x) \<Longrightarrow> journal_ok ft j \<Longrightarrow> journal_ok ft j1"
  using finish_ok [of ft j i e] by simp

lemma settle_ok:
  assumes "journal_ok ft j" "slice_of r addrs" shows "journal_ok ft (fst (settle_response ft req i r addrs j))"
proof -
  let ?r = "r\<lparr>rs_usage := stampModelIdentity req (rs_usage r)\<rparr>"
  have "journal_ok ft (fst (recordModelResponse ft i (Some ?r) addrs j))"
    using assms by (intro response_ok) (auto simp: slice_of_def)
  moreover obtain j1 r1 where rec: "recordModelResponse ft i (Some ?r) addrs j = (j1, r1)" by fastforce
  ultimately have "journal_ok ft j1" by simp
  then show ?thesis     by (cases r1) (auto simp: settle_response_def Let_def rec split: prod.split sum.split dest: finish_step)
qed

lemma fail_recv_ok: "journal_ok ft j \<Longrightarrow> journal_ok ft (fst (fail_recv i e j))"
  using finish_ok [of ft j i "Some e"] by (auto simp: fail_recv_def split: prod.split sum.split)

lemma Complete_ok:
  assumes "journal_ok ft j" "client_legal (OpComplete designated req inner) j"
  shows "journal_ok ft (fst (Complete ft designated req inner j))"
proof -
  obtain j1 r1 where s: "start_invocation designated j = (j1, r1)" by fastforce
  have j1: "journal_ok ft j1" using start_ok [OF assms(1), of designated] s by simp
  show ?thesis
  proof (cases r1)
    case (Inr i)
    show ?thesis
    proof (cases inner)
      case (Inl e)
      then show ?thesis using finish_ok [OF j1, of i "Some (ProviderFailed e)"] Inr
        by (auto simp: Complete_def s split: prod.split sum.split)
    next
      case r: (Inr ra)
      obtain r' addrs where "ra = (r', addrs)" by fastforce
      then show ?thesis using settle_ok [OF j1] Inr r assms(2) by (simp add: Complete_def s)
    qed
  qed (use j1 in \<open>simp add: Complete_def s\<close>)
qed

lemma Stream_ok:
  assumes "journal_ok ft j" shows "journal_ok ft (fst (Stream designated inner j))"
proof -
  obtain j1 r1 where s: "start_invocation designated j = (j1, r1)" by fastforce
  have j1: "journal_ok ft j1" using start_ok [OF assms, of designated] s by simp
  then show ?thesis using finish_ok [OF j1]
    by (simp add: Stream_def s split: prod.split sum.split) (metis fst_conv)
qed

lemma Recv_ok:
  assumes "journal_ok ft j" "client_legal (OpRecv req i inner finished) j"
  shows "journal_ok ft (fst (Recv ft req i inner finished j))"
proof (cases inner)
  case (InnerChunk ch)
  obtain j1 r1 where c: "recordModelChunk i (stamp_chunk req ch) j = (j1, r1)" by fastforce
  then have j1: "journal_ok ft j1" using chunk_ok [OF assms(1), of i "stamp_chunk req ch"] by simp
  then show ?thesis using fail_recv_ok [OF j1] InnerChunk c
    by (simp add: Recv_def split: prod.split sum.split) (metis fst_conv)
next
  case (InnerEOF ra)
  show ?thesis
  proof (cases ra)
    case None
    then show ?thesis using fail_recv_ok [OF assms(1), of i NoCanonicalResponse] InnerEOF
      by (auto simp: Recv_def split: prod.split)
  next
    case (Some p)
    then obtain r addrs where "ra = Some (r, addrs)" by (cases p) simp
    then show ?thesis using settle_ok [OF assms(1), of r addrs req i] InnerEOF assms(2)
      by (auto simp: Recv_def split: prod.split sum.split)
  qed
next
  case (InnerError e)
  then show ?thesis using fail_recv_ok [OF assms(1), of i "ProviderFailed e"] by (auto simp: Recv_def split: prod.split)
qed

lemma Close_ok: "journal_ok ft j \<Longrightarrow> journal_ok ft (fst (Close i finished j))"
  using finish_ok [of ft j i "Some ClosedBeforeEOF"] by (auto simp: Close_def split: prod.split sum.split)

lemma journal_ok_selected [simp]: "journal_ok ft (j\<lparr>jn_selected := i\<rparr>) = journal_ok ft j"
  by (simp add: journal_ok_def owns_def)

lemma export_ok:
  assumes "journal_ok ft j" shows "journal_ok ft (fst (exportModelInvocation j res final))"
proof (cases "planResultFacingCalls res")
  case (Some calls)
  define owner where "owner = (case final of None \<Rightarrow> None | Some (a, m) \<Rightarrow> jn_owner j a)"
  consider "filter (selectable j owner calls) (jn_invocations j) = []"
    | i c where "filter (selectable j owner calls) (jn_invocations j) = [(i, c)]"
    | x y zs where "filter (selectable j owner calls) (jn_invocations j) = x # y # zs"
    by (metis list.exhaust surj_pair)
  then show ?thesis
  proof cases
    case 2
    then show ?thesis using Some assms unfolding exportModelInvocation_def
      by (simp add: Let_def flip: owner_def split: option.split sum.split list.split prod.split)
  qed (use Some assms in \<open>simp_all add: exportModelInvocation_def Let_def flip: owner_def\<close>)
qed (use assms in \<open>simp add: exportModelInvocation_def\<close>)

interpretation journal_inv: kept_invariant "exec_client ft" client_legal "journal_ok ft" for ft
proof unfold_locales
  fix j op
  assume "journal_ok ft j" "client_legal op j"
  then show "journal_ok ft (exec_client ft op j)"
    by (cases op) (simp_all add: Complete_ok Stream_ok Recv_ok Close_ok export_ok)
qed

subsection \<open>Selecting one response\<close>

definition facing :: "model_tool_call \<Rightarrow> facing_call" where
  "facing c = \<lparr>fc_id = mc_id c, fc_name = mc_name c, fc_payload = mc_payload c\<rparr>"

definition keyed :: "(string \<times> model_tool_call) list \<Rightarrow> bool" where
  "keyed byID \<longleftrightarrow> distinct (map fst byID) \<and> (\<forall>kv \<in> set byID. fst kv = mc_id (snd kv))"

lemma index_calls_spec:
  "index_calls cs byID = Some out \<Longrightarrow> keyed byID \<Longrightarrow>
   keyed out \<and> mset (map snd out) = mset (map snd byID) + mset cs"
proof (induction cs byID rule: index_calls.induct)
  case (2 c cs byID)
  then have "keyed ((mc_id c, c) # byID)"
    by (auto simp: keyed_def map_of_eq_None_iff split: if_splits)
  with 2 show ?case by (auto split: if_splits)
qed simp

lemma index_calls_total:
  "distinct (map mc_id cs) \<Longrightarrow> [] \<notin> mc_id ` set cs \<Longrightarrow> fst ` set byID \<inter> mc_id ` set cs = {} \<Longrightarrow>
   \<exists>out. index_calls cs byID = Some out"
  by (induction cs byID rule: index_calls.induct) (auto simp: map_of_eq_None_iff)

lemma mset_without_key:
  "keyed byID \<Longrightarrow> map_of byID x = Some v \<Longrightarrow>
   mset (map snd byID) = add_mset v (mset (map snd (filter (\<lambda>kv. fst kv \<noteq> x) byID)))"
proof (induction byID)
  case (Cons kv byID)
  then have k: "keyed byID" by (simp add: keyed_def)
  have "filter (\<lambda>kv. fst kv \<noteq> x) byID = byID" if "fst kv = x"
    using that Cons.prems(1) by (force simp: keyed_def filter_id_conv)
  with Cons k show ?case by (cases kv) (auto split: if_splits)
qed simp

lemma keyed_filter: "keyed byID \<Longrightarrow> keyed (filter P byID)"
  by (auto simp: keyed_def distinct_map_filter)

lemma take_calls_iff:
  "keyed byID \<Longrightarrow> take_calls calls byID \<longleftrightarrow> mset calls = mset (map (\<lambda>kv. facing (snd kv)) byID)"
proof (induction calls byID rule: take_calls.induct)
  case (2 c cs byID)
  show ?case
  proof (cases "map_of byID (fc_id c)")
    case None
    have "c \<notin> set (map (\<lambda>kv. facing (snd kv)) byID)"
      using None 2(2) by (force simp: map_of_eq_None_iff keyed_def facing_def)
    then have "mset (c # cs) \<noteq> mset (map (\<lambda>kv. facing (snd kv)) byID)" by (metis list.set_intros(1) mset_eq_setD)
    with None show ?thesis by simp
  next
    case (Some v)
    let ?rest = "filter (\<lambda>kv. fst kv \<noteq> fc_id c) byID"
    have ms: "mset (map (\<lambda>kv. facing (snd kv)) byID) = add_mset (facing v) (mset (map (\<lambda>kv. facing (snd kv)) ?rest))"
      using arg_cong [OF mset_without_key [OF 2(2) Some], of "image_mset facing"] by (simp add: image_mset.compositionality comp_def)
    have id: "mc_id v = fc_id c" using Some 2(2) by (force simp: keyed_def dest: map_of_SomeD)
    have eq: "mc_name v = fc_name c \<and> mc_payload v = fc_payload c \<longleftrightarrow> facing v = c"
      using id by (cases c) (auto simp: facing_def)
    have IH: "take_calls cs ?rest \<longleftrightarrow> mset cs = mset (map (\<lambda>kv. facing (snd kv)) ?rest)" if "facing v = c"
      using 2(1) [OF Some] eq that keyed_filter [OF 2(2)] by blast
    have "facing v = c" if "mset (c # cs) = mset (map (\<lambda>kv. facing (snd kv)) byID)"
    proof (rule ccontr)
      assume ne: "facing v \<noteq> c"
      have "c \<in># add_mset (facing v) (mset (map (\<lambda>kv. facing (snd kv)) ?rest))" using that ms by (metis set_mset_mset list.set_intros(1))
      then have "c \<in> (\<lambda>kv. facing (snd kv)) ` set ?rest" using ne by simp
      then obtain kv where "kv \<in> set byID" "fst kv \<noteq> fc_id c" "facing (snd kv) = c" by auto
      moreover have "fc_id (facing (snd kv)) = fst kv" using calculation(1) 2(2) by (simp add: facing_def keyed_def)
      ultimately show False by simp
    qed
    then show ?thesis using Some IH eq ms by auto
  qed
qed auto

text \<open>A candidate with a validated response matches exactly the calls of that response, in any order.\<close>

lemma matches_iff:
  assumes "candidate_ok ft c" "cn_response c = Some r"
  shows "modelInvocationMatches c calls \<longleftrightarrow> mset calls = mset (map facing (ToolCalls r))"
proof -
  have v: "ValidateResponse ft (Some r) = Inr ()" using assms by (simp add: candidate_ok_def)
  then have "distinct (map mc_id (ToolCalls r))" by (rule accepted_response)
  moreover have "[] \<notin> mc_id ` set (ToolCalls r)"
    using accepted_response(3) [OF v] by (force simp: validateToolCall_def split: if_splits)
  ultimately obtain out where out: "index_calls (ToolCalls r) [] = Some out"
    using index_calls_total [of "ToolCalls r" "[]"] by auto
  then have k: "keyed out" "mset (map snd out) = mset (ToolCalls r)"
    using index_calls_spec [OF out] by (simp_all add: keyed_def)
  then have "mset (map (\<lambda>kv. facing (snd kv)) out) = mset (map facing (ToolCalls r))"
    by (simp add: image_mset.compositionality comp_def flip: k(2))
  moreover have "length calls = length (ToolCalls r)" if "mset calls = mset (map facing (ToolCalls r))"
    using mset_eq_length [OF that] by simp
  ultimately show ?thesis using assms(2) out take_calls_iff [OF k(1), of calls]
    by (auto simp: modelInvocationMatches_def)
qed

definition owner_of :: "journal \<Rightarrow> (nat \<times> message) option \<Rightarrow> (nat \<times> nat) option" where
  "owner_of j final = (case final of None \<Rightarrow> None | Some (a, m) \<Rightarrow> jn_owner j a)"

lemma filter_eq_once: "distinct xs \<Longrightarrow> x \<in> set xs \<Longrightarrow> filter (\<lambda>y. y = x) xs = [x]"
  by (induction xs) (auto simp: filter_empty_conv)

lemma selected_facts:
  assumes "journal_ok ft j" "filter (selectable j owner calls) (jn_invocations j) = [(i, c)]"
  shows "\<exists>r. map_of (jn_invocations j) i = Some c \<and> cn_response c = Some r \<and> cn_err c = None \<and> 0 < i \<and>
    ValidateResponse ft (Some r) = Inr () \<and> mset calls = mset (map facing (ToolCalls r)) \<and>
    (\<forall>i' k. owner = Some (i', k) \<longrightarrow> i' = i)"
proof -
  have mem: "(i, c) \<in> set (jn_invocations j)" and sel: "selectable j owner calls (i, c)"
    using assms(2) by (force dest: arg_cong [of _ _ set])+
  then obtain r where r: "cn_response c = Some r" by (auto simp: selectable_def)
  have ok: "candidate_ok ft c" using mem assms(1) by (force simp: journal_ok_def)
  have "modelInvocationMatches c calls" using sel by (auto simp: selectable_def split: option.splits)
  then have "mset calls = mset (map facing (ToolCalls r))" using matches_iff [OF ok r] by simp
  moreover have "map_of (jn_invocations j) i = Some c" using mem assms(1) by (simp add: journal_ok_def)
  moreover have "0 < i" using mem assms(1) by (force simp: journal_ok_def)
  ultimately show ?thesis using sel ok r by (auto simp: selectable_def candidate_ok_def split: option.splits)
qed

text \<open>The result of an export that selects a candidate.\<close>

lemma export_selected:
  assumes "journal_ok ft j" "planResultFacingCalls res = Some calls"
    "filter (selectable j (owner_of j final) calls) (jn_invocations j) = [(i, c)]" "cn_response c = Some r"
  shows "exportModelInvocation j res final =
    (if jn_designated j \<noteq> 0 \<and> i \<noteq> jn_designated j then (j, Inl SelectedProbe)
     else (j\<lparr>jn_selected := i\<rparr>,
       case (owner_of j final, final) of
         (Some (i', k), Some (a, m)) \<Rightarrow>
           if \<not> keeps_metadata (metadata_of (rs_content r ! k)) (metadata_of m) then Inl MetadataModified
           else if is_ok (CloneMessages [Some m]) then Inr ((rs_content r)[k := (rs_content r ! k)\<lparr>m_meta := m_meta m\<rparr>])
           else Inl CloneRefused
       | _ \<Rightarrow> Inr (rs_content r)))"
proof -
  have clone: "CloneResponse (Some r) = Inr (Some r)"
    using selected_facts [OF assms(1,3)] assms(4) by (auto intro: accepted_clones)
  have enriched: "CloneMessages [Some m] = Inr out \<Longrightarrow> out = [Some m]" for m out by (rule CloneMessages_id)
  have "jn_invocations j \<noteq> []" using assms(3) by auto
  then show ?thesis
    using assms(2-4) clone
    by (auto simp: exportModelInvocation_def Let_def simp flip: owner_of_def
        split: option.split sum.split prod.split dest!: enriched)
qed

text \<open>
  Property C32. The transcript a planner activity exports is one provider response. After any sequence of
  completions, streams, receives, closes and earlier exports, if exporting yields messages, then there is
  a candidate that did not fail, whose response was validated at the model boundary and whose tool calls
  are exactly the model-facing calls of the result, none altered, dropped, added or taken from another
  response. The messages are that response, except that the message the planner handed back may carry
  additional metadata and keeps all the provider's. A designated invocation is the only one that can be
  chosen. What is then published is the presentation of that same candidate, and the exported usage is the
  sum of all usage published, probes included.
\<close>

theorem exported_transcript_is_one_response:
  fixes ft :: "int \<Rightarrow> int \<Rightarrow> string" and ops :: "client_op list"
  defines "j \<equiv> run_ops (exec_client ft) ops new_journal"
  assumes "legal_ops (exec_client ft) client_legal ops new_journal"
    and "exportModelInvocation j res final = (j', Inr msgs)" "msgs \<noteq> []"
  shows "\<exists>i c r. map_of (jn_invocations j) i = Some c \<and> cn_response c = Some r \<and> cn_err c = None \<and>
      ValidateResponse ft (Some r) = Inr () \<and> jn_designated j \<in> {0, i} \<and>
      (\<exists>calls. planResultFacingCalls res = Some calls \<and> mset calls = mset (map facing (ToolCalls r))) \<and>
      (msgs = rs_content r \<or>
       (\<exists>a m k. final = Some (a, m) \<and> jn_owner j a = Some (i, k) \<and> k < length (rs_content r) \<and>
          keeps_metadata (metadata_of (rs_content r ! k)) (metadata_of m) \<and>
          msgs = (rs_content r)[k := (rs_content r ! k)\<lparr>m_meta := m_meta m\<rparr>])) \<and>
      publishSelectedPresentation j' = (cn_presentation c, jn_usage_events j) \<and>
      exportUsage j' = sum_usage (jn_usage_events j)"
proof -
  have ok: "journal_ok ft j" unfolding j_def using journal_ok_new assms(2) by (rule journal_inv.ops_keep)
  obtain calls where calls: "planResultFacingCalls res = Some calls"
    using assms(3) by (cases "planResultFacingCalls res") (auto simp: exportModelInvocation_def)
  obtain i c where sel: "filter (selectable j (owner_of j final) calls) (jn_invocations j) = [(i, c)]"
    using assms(3,4) calls
    by (auto simp: exportModelInvocation_def Let_def simp flip: owner_of_def split: if_splits list.splits)
  obtain r where r: "map_of (jn_invocations j) i = Some c" "cn_response c = Some r" "cn_err c = None" "0 < i"
      "ValidateResponse ft (Some r) = Inr ()" "mset calls = mset (map facing (ToolCalls r))"
      "\<forall>i' k. owner_of j final = Some (i', k) \<longrightarrow> i' = i"
    using selected_facts [OF ok sel] by blast
  note e = assms(3) [unfolded export_selected [OF ok calls sel r(2)]]
  have j': "j' = j\<lparr>jn_selected := i\<rparr>" "jn_designated j \<in> {0, i}" using e by (auto split: if_splits)
  have owned: "k < length (rs_content r)" if "owner_of j final = Some (i', k)" for i' k
  proof -
    have "(i, k) \<in> ran (jn_owner j)" using that r(7) by (auto simp: owner_of_def ran_def split: option.splits)
    then have "owns j (i, k)" using ok unfolding journal_ok_def by blast
    then obtain d r' where d: "(i, d) \<in> set (jn_invocations j)" "cn_response d = Some r'" "k < length (rs_content r')"
      by (auto simp: owns_def)
    have "map_of (jn_invocations j) i = Some d" using d(1) ok by (simp add: journal_ok_def)
    then show ?thesis using r(1,2) d(2,3) by simp
  qed
  have "msgs = rs_content r \<or>
       (\<exists>a m k. final = Some (a, m) \<and> jn_owner j a = Some (i, k) \<and> k < length (rs_content r) \<and>
          keeps_metadata (metadata_of (rs_content r ! k)) (metadata_of m) \<and>
          msgs = (rs_content r)[k := (rs_content r ! k)\<lparr>m_meta := m_meta m\<rparr>])"
  proof (cases "owner_of j final")
    case None
    then show ?thesis using e by (auto split: if_splits)
  next
    case (Some ik)
    then obtain a m where final: "final = Some (a, m)" by (auto simp: owner_of_def split: option.splits)
    obtain k where "owner_of j final = Some (i, k)" using Some r(7) by (cases ik) auto
    moreover from this have "k < length (rs_content r)" by (rule owned)
    ultimately show ?thesis using e final by (auto simp: owner_of_def split: if_splits)
  qed
  moreover have "exportUsage j' = sum_usage (jn_usage_events j)" using ok by (simp add: exportUsage_def j'(1) journal_ok_def)
  moreover have "publishSelectedPresentation j' = (cn_presentation c, jn_usage_events j)"
    using r(1) by (simp add: publishSelectedPresentation_def j'(1))
  ultimately show ?thesis using r calls j'(2) by blast
qed

text \<open>A failed probe, then a call whose message the planner hands back with a metadata entry of its own.\<close>

definition example_reply :: message where
  "example_reply = \<lparr>m_role = RoleAssistant, m_parts = [TextPart ''yes''], m_meta = None\<rparr>"

definition example_usage :: token_usage where
  "example_usage = no_usage\<lparr>us_output := 3\<rparr>"

definition example_request :: request where
  "example_request = \<lparr>rq_model = ''m'', rq_model_class = [], rq_messages = [], rq_tools = [], rq_tool_choice = None,
     rq_thinking = None, rq_structured_output = None\<rparr>"

definition example_ops :: "client_op list" where
  "example_ops =
     [OpComplete False example_request (Inl ''overloaded''),
      OpComplete True example_request
        (Inr (\<lparr>rs_content = [example_reply], rs_usage = example_usage, rs_stop_reason = ''end_turn''\<rparr>, [7]))]"

definition example_result :: plan_result where
  "example_result = \<lparr>pr_tool_calls = [], pr_synthesize_after_tools = False, pr_final_response = Some ''yes'',
     pr_final_tool_result = None, pr_await = None, pr_expected_children = 0\<rparr>"

lemma example_reply_valid:
  "ValidateResponse ft (Some \<lparr>rs_content = [example_reply], rs_usage = stampModelIdentity example_request example_usage,
     rs_stop_reason = ''end_turn''\<rparr>) = Inr ()"
  by (simp add: ValidateResponse_def example_reply_def validateResponseMessage_def metadata_of_def MarshalMetadata_def value_text_def
      example_usage_def no_usage_def stampModelIdentity_def example_request_def validateTokenUsage_def model_classes_def)

lemma example_journal_run:
  "legal_ops (exec_client ft) client_legal example_ops new_journal"
  "exportModelInvocation (run_ops (exec_client ft) example_ops new_journal) (Some example_result)
     (Some (7, example_reply\<lparr>m_meta := Some [(''k'', GBool True)]\<rparr>)) =
   ((run_ops (exec_client ft) example_ops new_journal)\<lparr>jn_selected := 2\<rparr>,
    Inr [example_reply\<lparr>m_meta := Some [(''k'', GBool True)]\<rparr>])"
proof -
  let ?r = "\<lparr>rs_content = [example_reply], rs_usage = stampModelIdentity example_request example_usage, rs_stop_reason = ''end_turn''\<rparr>"
  have clone: "CloneResponse (Some ?r) = Inr (Some ?r)" using example_reply_valid by (rule accepted_clones)
  show "legal_ops (exec_client ft) client_legal example_ops new_journal"
    by (simp add: example_ops_def slice_of_def)
  show "exportModelInvocation (run_ops (exec_client ft) example_ops new_journal) (Some example_result)
     (Some (7, example_reply\<lparr>m_meta := Some [(''k'', GBool True)]\<rparr>)) =
   ((run_ops (exec_client ft) example_ops new_journal)\<lparr>jn_selected := 2\<rparr>,
    Inr [example_reply\<lparr>m_meta := Some [(''k'', GBool True)]\<rparr>])"
    by (simp add: example_ops_def Complete_def start_invocation_def beginModelInvocation_def new_journal_def
      designateModelInvocation_def settle_response_def recordModelResponse_def finishModelInvocation_def put_candidate_def
      example_reply_valid clone Let_def exportModelInvocation_def planResultFacingCalls_def example_result_def
      own_messages_def selectable_def modelInvocationMatches_def ToolCalls_def part_calls_def
      keeps_metadata_def metadata_of_def)
      (simp add: example_reply_def part_calls_def CloneMessages_def cloneMessage_def)
qed

theorem exported_transcript_is_one_response_witness:
  "\<exists>c r. map_of (jn_invocations (run_ops (exec_client (\<lambda>m e. [])) example_ops new_journal)) 2 = Some c \<and> cn_response c = Some r \<and>
     ValidateResponse (\<lambda>m e. []) (Some r) = Inr () \<and>
     exportUsage ((run_ops (exec_client (\<lambda>m e. [])) example_ops new_journal)\<lparr>jn_selected := 2\<rparr>) =
       sum_usage (jn_usage_events (run_ops (exec_client (\<lambda>m e. [])) example_ops new_journal))"
proof -
  have d: "jn_designated (run_ops (exec_client (\<lambda>m e. [])) example_ops new_journal) = 2"
    by (simp add: example_ops_def Complete_def start_invocation_def beginModelInvocation_def new_journal_def
      designateModelInvocation_def settle_response_def recordModelResponse_def finishModelInvocation_def put_candidate_def
      example_reply_valid accepted_clones [OF example_reply_valid] Let_def)
  obtain i c r where "map_of (jn_invocations (run_ops (exec_client (\<lambda>m e. [])) example_ops new_journal)) i = Some c"
      "cn_response c = Some r" "ValidateResponse (\<lambda>m e. []) (Some r) = Inr ()"
      "jn_designated (run_ops (exec_client (\<lambda>m e. [])) example_ops new_journal) \<in> {0, i}"
      "exportUsage ((run_ops (exec_client (\<lambda>m e. [])) example_ops new_journal)\<lparr>jn_selected := 2\<rparr>) =
       sum_usage (jn_usage_events (run_ops (exec_client (\<lambda>m e. [])) example_ops new_journal))"
    using exported_transcript_is_one_response [OF example_journal_run not_Cons_self2] by blast
  with d show ?thesis by auto
qed

text \<open>
  Property C33. A planner that hands back the response it chose is never refused. Take a candidate that did
  not fail, no other invocation being designated, and a result whose model-facing calls are the candidate's
  in any grouping and order. If the final message of the result is the candidate's (with metadata added at
  most), the export succeeds with the provider's messages and this metadata. If the result has no final
  message of any candidate but has calls, and the candidate is the designated one or no other successful
  candidate has the same calls, the export succeeds with the provider's messages.
\<close>

theorem unchanged_response_is_exported:
  fixes ft :: "int \<Rightarrow> int \<Rightarrow> string" and ops :: "client_op list"
  defines "j \<equiv> run_ops (exec_client ft) ops new_journal"
  assumes "legal_ops (exec_client ft) client_legal ops new_journal"
    and c: "map_of (jn_invocations j) i = Some c" "cn_response c = Some r" "cn_err c = None" "jn_designated j \<in> {0, i}"
    and calls: "planResultFacingCalls res = Some calls" "mset calls = mset (map facing (ToolCalls r))"
    and final: "\<And>i' k. owner_of j final = Some (i', k) \<Longrightarrow>
      i' = i \<and> is_ok (CloneMessages [Some (snd (the final))]) \<and>
      keeps_metadata (metadata_of (rs_content r ! k)) (metadata_of (snd (the final)))"
    and no_final: "owner_of j final = None \<Longrightarrow>
      calls \<noteq> [] \<and>
      (jn_designated j = i \<or>
       (\<forall>i' c' r'. i' \<noteq> i \<longrightarrow> map_of (jn_invocations j) i' = Some c' \<longrightarrow> cn_response c' = Some r' \<longrightarrow> cn_err c' = None \<longrightarrow>
          mset (map facing (ToolCalls r')) \<noteq> mset calls))"
  shows "exportModelInvocation j res final =
    (j\<lparr>jn_selected := i\<rparr>,
     Inr (case owner_of j final of
            None \<Rightarrow> rs_content r
          | Some (i', k) \<Rightarrow> (rs_content r)[k := (rs_content r ! k)\<lparr>m_meta := m_meta (snd (the final))\<rparr>]))"
proof -
  have ok: "journal_ok ft j" unfolding j_def using journal_ok_new assms(2) by (rule journal_inv.ops_keep)
  have mem: "(i, c) \<in> set (jn_invocations j)" using c(1) by (rule map_of_SomeD)
  have cand: "candidate_ok ft d" "map_of (jn_invocations j) i' = Some d" "0 < i'" if "(i', d) \<in> set (jn_invocations j)" for i' d
    using that ok by (force simp: journal_ok_def)+
  have matches: "modelInvocationMatches c calls" using matches_iff [OF cand(1) [OF mem] c(2)] calls(2) by blast
  have "selectable j (owner_of j final) calls kc \<longleftrightarrow> kc = (i, c)" if kc: "kc \<in> set (jn_invocations j)" for kc
  proof (cases "owner_of j final")
    case (Some ik)
    then show ?thesis using kc mem c matches ok final [of "fst ik" "snd ik"]
      by (cases kc; cases ik) (auto simp: selectable_def journal_ok_def eq_key_imp_eq_value)
  next
    case None
    obtain i' c' where k: "kc = (i', c')" by fastforce
    note c' = cand [OF kc [unfolded k]]
    show ?thesis
    proof (cases "i' = i")
      case True
      then show ?thesis using c'(2) c matches no_final [OF None] by (auto simp: selectable_def k None)
    next
      case False
      have "\<not> selectable j None calls (i', c')"
      proof
        assume s: "selectable j None calls (i', c')"
        then obtain r' where r': "cn_response c' = Some r'" "cn_err c' = None" "modelInvocationMatches c' calls"
          "jn_designated j \<noteq> 0 \<longrightarrow> i' = jn_designated j" by (auto simp: selectable_def)
        have "mset calls = mset (map facing (ToolCalls r'))" using matches_iff [OF c'(1) r'(1)] r'(3) by blast
        then show False using no_final [OF None] False r' c'(2) cand(3) [OF mem] by auto
      qed
      then show ?thesis using False by (simp add: k None)
    qed
  qed
  then have "filter (selectable j (owner_of j final) calls) (jn_invocations j) = filter (\<lambda>kc. kc = (i, c)) (jn_invocations j)"
    by (auto intro: filter_cong)
  also have "\<dots> = [(i, c)]"
    using mem ok by (intro filter_eq_once) (auto simp: journal_ok_def distinct_map)
  finally have sel: "filter (selectable j (owner_of j final) calls) (jn_invocations j) = [(i, c)]" .
  show ?thesis
  proof (cases "owner_of j final")
    case None
    then show ?thesis using export_selected [OF ok calls(1) sel c(2)] c(4) by auto
  next
    case (Some ik)
    then obtain a m k where o: "final = Some (a, m)" "owner_of j final = Some (i, k)"
      using final [of "fst ik" "snd ik"] by (cases ik) (auto simp: owner_of_def split: option.splits)
    then show ?thesis using export_selected [OF ok calls(1) sel c(2)] c(4) final [OF o(2)] by auto
  qed
qed

text \<open>A response with a tool call, handed back without a final message.\<close>

definition example_use :: tool_use_part where
  "example_use = \<lparr>tu_id = ''t1'', tu_name = ''a.b'', tu_input = ''{}'', tu_thought_signature = []\<rparr>"

definition call_ops :: "client_op list" where
  "call_ops =
     [OpComplete False example_request
        (Inr (\<lparr>rs_content = [example_reply\<lparr>m_parts := [ToolUsePart example_use]\<rparr>], rs_usage = example_usage,
           rs_stop_reason = ''tool_use''\<rparr>, [7]))]"

definition call_result :: plan_result where
  "call_result = example_result\<lparr>pr_final_response := None, pr_tool_calls :=
     [\<lparr>tr_name = ''a.b'', tr_payload = ''{}'', tr_model_name = [], tr_model_payload = [], tr_agent_id = [], tr_run_id = [],
       tr_session_id = [], tr_labels = Map.empty, tr_turn_id = [], tr_tool_call_id = ''t1'', tr_parent_tool_call_id = [],
       tr_continuation_root = []\<rparr>]\<rparr>"

lemma call_reply_valid:
  "ValidateResponse ft (Some \<lparr>rs_content = [example_reply\<lparr>m_parts := [ToolUsePart example_use]\<rparr>],
     rs_usage = stampModelIdentity example_request example_usage, rs_stop_reason = ''tool_use''\<rparr>) = Inr ()"
  by (simp add: ValidateResponse_def example_reply_def validateResponseMessage_def metadata_of_def MarshalMetadata_def value_text_def
      example_usage_def no_usage_def stampModelIdentity_def example_request_def validateTokenUsage_def model_classes_def
      example_use_def validateToolCall_def call_of_def json_valid_empty_object trim_empty_object)

theorem unchanged_response_is_exported_witness:
  "snd (exportModelInvocation (run_ops (exec_client (\<lambda>m e. [])) call_ops new_journal) (Some call_result) None) =
     Inr [example_reply\<lparr>m_parts := [ToolUsePart example_use]\<rparr>] \<and>
   is_ok (snd (exportModelInvocation (run_ops (exec_client (\<lambda>m e. [])) example_ops new_journal) (Some example_result)
     (Some (7, example_reply\<lparr>m_meta := Some [(''k'', GBool True)]\<rparr>))))"
proof
  let ?j = "run_ops (exec_client (\<lambda>m e. [])) call_ops new_journal"
  let ?r = "\<lparr>rs_content = [example_reply\<lparr>m_parts := [ToolUsePart example_use]\<rparr>],
     rs_usage = stampModelIdentity example_request example_usage, rs_stop_reason = ''tool_use''\<rparr>"
  have legal: "legal_ops (exec_client (\<lambda>m e. [])) client_legal call_ops new_journal"
    by (simp add: call_ops_def slice_of_def)
  have j: "\<exists>c. jn_invocations ?j = [(1, c)] \<and> cn_response c = Some ?r \<and> cn_err c = None" "jn_designated ?j \<in> {0, 1}"
    by (simp_all add: call_ops_def Complete_def start_invocation_def beginModelInvocation_def new_journal_def
      designateModelInvocation_def settle_response_def recordModelResponse_def finishModelInvocation_def put_candidate_def
      call_reply_valid accepted_clones [OF call_reply_valid] Let_def own_messages_def)
  then obtain c where c: "jn_invocations ?j = [(1, c)]" "cn_response c = Some ?r" "cn_err c = None" by blast
  have c1: "map_of (jn_invocations ?j) 1 = Some c" by (simp add: c(1))
  have calls: "planResultFacingCalls (Some call_result) = Some [\<lparr>fc_id = ''t1'', fc_name = ''a.b'', fc_payload = ''{}''\<rparr>]"
    "mset [\<lparr>fc_id = ''t1'', fc_name = ''a.b'', fc_payload = ''{}''\<rparr>] = mset (map facing (ToolCalls ?r))"
    by (simp_all add: planResultFacingCalls_def call_result_def example_result_def ToolCalls_def part_calls_def call_of_def facing_def
      TranscriptName_def TranscriptPayload_def example_use_def)
  have "exportModelInvocation ?j (Some call_result) None = (?j\<lparr>jn_selected := 1\<rparr>,
     Inr (case owner_of ?j None of None \<Rightarrow> rs_content ?r
          | Some (i', k) \<Rightarrow> (rs_content ?r)[k := (rs_content ?r ! k)\<lparr>m_meta := m_meta (snd (the (None :: (nat \<times> message) option)))\<rparr>]))"
    by (rule unchanged_response_is_exported [where final = None, OF legal c1 c(2,3) j(2) calls]) (simp_all add: owner_of_def c(1))
  then show "snd (exportModelInvocation ?j (Some call_result) None) = Inr [example_reply\<lparr>m_parts := [ToolUsePart example_use]\<rparr>]"
    by (simp add: owner_of_def)
next
  let ?j = "run_ops (exec_client (\<lambda>m e. [])) example_ops new_journal"
  let ?r = "\<lparr>rs_content = [example_reply], rs_usage = stampModelIdentity example_request example_usage, rs_stop_reason = ''end_turn''\<rparr>"
  let ?final = "Some (7 :: nat, example_reply\<lparr>m_meta := Some [(''k'', GBool True)]\<rparr>)"
  have j: "\<exists>c. map_of (jn_invocations ?j) 2 = Some c \<and> cn_response c = Some ?r \<and> cn_err c = None" "jn_designated ?j \<in> {0, 2}"
    "jn_owner ?j 7 = Some (2, 0)"
    by (simp_all add: example_ops_def Complete_def start_invocation_def beginModelInvocation_def new_journal_def
      designateModelInvocation_def settle_response_def recordModelResponse_def finishModelInvocation_def put_candidate_def
      example_reply_valid accepted_clones [OF example_reply_valid] Let_def own_messages_def)
  then obtain c where c: "map_of (jn_invocations ?j) 2 = Some c" "cn_response c = Some ?r" "cn_err c = None" by blast
  have o: "owner_of ?j ?final = Some (2, 0)" by (simp add: owner_of_def j(3))
  have m: "planResultFacingCalls (Some example_result) = Some []" "mset [] = mset (map facing (ToolCalls ?r))"
    by (simp_all add: example_reply_def planResultFacingCalls_def example_result_def ToolCalls_def part_calls_def)
  show "is_ok (snd (exportModelInvocation ?j (Some example_result) ?final))"
    by (subst unchanged_response_is_exported [OF example_journal_run(1) c j(2) m, of ?final], unfold o)
      (auto simp: CloneMessages_def cloneMessage_def example_reply_def keeps_metadata_def metadata_of_def)
qed

end
