(* ===== verification/Provider_Names.thy ===== *)
theory Provider_Names
  imports Message_Json Transcript "HOL-Library.AList"
begin

section \<open>Provider-visible names\<close>

text \<open>
  The per-request projections of canonical names onto what providers accept: tool names in
  \<open>features/model/toolname/tool_name.go\<close>, their Gemini variant in \<open>features/model/vertex/tool_name.go\<close> and tool-use
  identifiers in \<open>features/model/internal/tooluseid/mapper.go\<close>. A tool definition is its name here, nil
  pointers are \<open>None\<close>; the hash is the argument \<open>sha256\<close>, a function to 32 bytes. The counter of aliases is
  unbounded; it stays below the number of identifiers in use.
  The lemmas show that the projections are legal, invertible per request and, for identifiers, that they
  keep a transcript valid.
\<close>

subsection \<open>Tool names\<close>

definition alnum :: "char \<Rightarrow> bool" where
  "alnum c \<longleftrightarrow> 97 \<le> byte c \<and> byte c \<le> 122 \<or> 65 \<le> byte c \<and> byte c \<le> 90 \<or> 48 \<le> byte c \<and> byte c \<le> 57"

definition name_char :: "char \<Rightarrow> bool" where
  "name_char c \<longleftrightarrow> alnum c \<or> c = CHR ''_'' \<or> c = CHR ''-''"

text \<open>One rune of the input: a dot or an illegal rune becomes an underscore.\<close>

definition legal_rune :: "string \<Rightarrow> bool" where
  "legal_rune r \<longleftrightarrow> (case r of [c] \<Rightarrow> name_char c \<or> c = CHR ''.'' | _ \<Rightarrow> False)"

definition project_rune :: "string \<Rightarrow> char" where
  "project_rune r = (case r of [c] \<Rightarrow> if name_char c then c else CHR ''_'' | _ \<Rightarrow> CHR ''_'')"

definition hex_encode :: "string \<Rightarrow> string" where
  "hex_encode b = concat (map (\<lambda>c. [hex_char (byte c div 16), hex_char (byte c mod 16)]) b)"

definition Sanitize :: "(string \<Rightarrow> string) \<Rightarrow> string \<Rightarrow> string" where
  "Sanitize sha256 input =
     (if input = [] then []
      else let sanitized =
                 (if list_all legal_rune (runes input)
                  then map (\<lambda>c. if c = CHR ''.'' then CHR ''_'' else c) input
                  else map project_rune (runes input))
           in if length sanitized \<le> 64 then sanitized
              else take 55 sanitized @ ''_'' @ take 8 (hex_encode (sha256 input)))"

datatype name_error =
    ToolNil nat
  | ToolUnnamed nat
  | NameCollision string string string
  | HistoricalCollision string string

type_synonym name_map = "(string \<times> string) list"

fun build_maps_from ::
  "(string \<Rightarrow> string) \<Rightarrow> nat \<Rightarrow> string option list \<Rightarrow> name_map \<Rightarrow> name_map \<Rightarrow> (name_error, name_map \<times> name_map) result" where
  "build_maps_from sha256 i [] canonToProv provToCanon = Inr (canonToProv, provToCanon)"
| "build_maps_from sha256 i (def # defs) canonToProv provToCanon =
     (case def of
        None \<Rightarrow> Inl (ToolNil i)
      | Some name \<Rightarrow>
          if name = [] then Inl (ToolUnnamed i)
          else let prov = Sanitize sha256 name; prev = map_of provToCanon prov
               in if prev \<noteq> None \<and> prev \<noteq> Some name then Inl (NameCollision name prov (the prev))
                  else build_maps_from sha256 (Suc i) defs (AList.update name prov canonToProv) (AList.update prov name provToCanon))"

definition BuildMaps :: "(string \<Rightarrow> string) \<Rightarrow> string option list \<Rightarrow> (name_error, name_map \<times> name_map) result" where
  "BuildMaps sha256 defs = build_maps_from sha256 0 defs [] []"

definition ProviderName :: "(string \<Rightarrow> string) \<Rightarrow> string \<Rightarrow> name_map \<Rightarrow> (name_error, string) result" where
  "ProviderName sha256 canonical active =
     (case map_of active canonical of
        Some provider \<Rightarrow> Inr provider
      | None \<Rightarrow>
          (let provider = Sanitize sha256 canonical
           in if provider \<in> snd ` set active then Inl (HistoricalCollision canonical provider) else Inr provider))"

subsection \<open>Tool names for Gemini\<close>

definition gemini_char :: "char \<Rightarrow> bool" where
  "gemini_char c \<longleftrightarrow> c = CHR ''_'' \<or> c = CHR ''.'' \<or> c = CHR '':'' \<or> c = CHR ''-'' \<or> alnum c"

definition gemini_first :: "char \<Rightarrow> bool" where
  "gemini_first c \<longleftrightarrow> c = CHR ''_'' \<or> 97 \<le> byte c \<and> byte c \<le> 122 \<or> 65 \<le> byte c \<and> byte c \<le> 90"

definition sanitizeToolName :: "string \<Rightarrow> string" where
  "sanitizeToolName name =
     (case name of
        [] \<Rightarrow> ''_''
      | c # cs \<Rightarrow>
          take 64 ((if gemini_first c then [] else ''_'') @ (if gemini_char c then [c] else []) @
                   map (\<lambda>d. if gemini_char d then d else CHR ''_'') cs))"

fun gemini_maps_from :: "string list \<Rightarrow> name_map \<Rightarrow> name_map \<Rightarrow> (name_error, name_map \<times> name_map) result" where
  "gemini_maps_from [] canonToProv provToCanon = Inr (canonToProv, provToCanon)"
| "gemini_maps_from (name # names) canonToProv provToCanon =
     (let prov = sanitizeToolName name
      in case map_of provToCanon prov of
           Some existing \<Rightarrow> Inl (NameCollision existing name prov)
         | None \<Rightarrow> gemini_maps_from names (AList.update name prov canonToProv) (AList.update prov name provToCanon))"

definition buildToolNameMaps :: "string list \<Rightarrow> (name_error, name_map \<times> name_map) result" where
  "buildToolNameMaps names = gemini_maps_from names [] []"

subsection \<open>Tool-use identifiers\<close>

definition isProviderSafe :: "string \<Rightarrow> bool" where
  "isProviderSafe s \<longleftrightarrow> s \<noteq> [] \<and> length s \<le> 64 \<and> list_all name_char s"

record mapper =
  aliases :: "(string \<times> string) list"
  used :: "string list"
  next_alias :: nat

definition safe_use :: "part \<Rightarrow> string list" where
  "safe_use p = (case p of ToolUsePart u \<Rightarrow> if isProviderSafe (tu_id u) then [tu_id u] else [] | _ \<Rightarrow> [])"

definition NewMapper :: "transcript \<Rightarrow> mapper" where
  "NewMapper messages =
     \<lparr>aliases = [],
      used = concat (map (\<lambda>m. case m of None \<Rightarrow> [] | Some msg \<Rightarrow> concat (map safe_use (m_parts msg))) messages),
      next_alias = 0\<rparr>"

definition alias_name :: "nat \<Rightarrow> string" where
  "alias_name n = CHR ''t'' # dec n"

function first_free :: "string list \<Rightarrow> nat \<Rightarrow> nat" where
  "first_free taken n = (if alias_name (Suc n) \<in> set taken then first_free taken (Suc n) else Suc n)"
  by pat_completeness auto

definition aliases_above :: "string list \<Rightarrow> nat \<Rightarrow> nat set" where
  "aliases_above taken n = {i. n < i \<and> alias_name i \<in> set taken}"

lemma alias_name_inject [simp]: "alias_name m = alias_name n \<longleftrightarrow> m = n"
  by (simp add: alias_name_def)

lemma finite_aliases [simp]: "finite (aliases_above taken n)"
proof (rule finite_imageD)
  show "finite (alias_name ` aliases_above taken n)"
    by (rule finite_subset [of _ "set taken"]) (auto simp: aliases_above_def)
qed (simp add: inj_on_def)

termination first_free
proof (relation "measure (\<lambda>(taken, n). card (aliases_above taken n))", simp)
  fix taken n assume "alias_name (Suc n) \<in> set taken"
  then have "aliases_above taken n = insert (Suc n) (aliases_above taken (Suc n))"
    by (auto simp: aliases_above_def Suc_lessI)
  moreover have "Suc n \<notin> aliases_above taken (Suc n)" by (simp add: aliases_above_def)
  ultimately show "((taken, Suc n), (taken, n)) \<in> measure (\<lambda>(taken, n). card (aliases_above taken n))" by simp
qed

declare first_free.simps [simp del]

definition ID :: "string \<Rightarrow> mapper \<Rightarrow> mapper \<times> string" where
  "ID canonical m =
     (if canonical = [] \<or> isProviderSafe canonical then (m, canonical)
      else case map_of (aliases m) canonical of
             Some alias \<Rightarrow> (m, alias)
           | None \<Rightarrow>
               (let n = first_free (used m) (next_alias m); alias = alias_name n
                in (m\<lparr>aliases := (canonical, alias) # aliases m, used := alias # used m, next_alias := n\<rparr>, alias)))"

subsection \<open>Legal names\<close>

lemma name_char_underscore [simp]: "name_char CHR ''_''" "gemini_char CHR ''_''" "gemini_first CHR ''_''"
  by (simp_all add: name_char_def gemini_char_def gemini_first_def)

lemma name_char_project [simp]: "name_char (project_rune r)"
  by (simp add: project_rune_def split: list.splits)

lemma legal_runes_chars: "list_all legal_rune rs \<Longrightarrow> list_all (\<lambda>c. name_char c \<or> c = CHR ''.'') (concat rs)"
  by (induction rs) (auto simp: legal_rune_def split: list.splits)

lemma hex_char_name: "n < 16 \<Longrightarrow> name_char (hex_char n)"
  by (auto simp: hex_char_def name_char_def alnum_def)

lemma hex_encode_name: "list_all name_char (hex_encode b)"
proof (induction b)
  case (Cons c b)
  have "byte c < 256" by (rule byte_less)
  then have "byte c div 16 < 16" by simp
  with Cons show ?case by (simp add: hex_encode_def hex_char_name)
qed (simp add: hex_encode_def)

lemma length_hex_encode [simp]: "length (hex_encode b) = 2 * length b"
  by (induction b) (simp_all add: hex_encode_def)

lemma list_all_take: "list_all P xs \<Longrightarrow> list_all P (take n xs)"
  by (auto simp: list_all_iff dest: in_set_takeD)

lemma runes_Nil_iff [simp]: "runes s = [] \<longleftrightarrow> s = []"
  using concat_runes [of s] by auto

lemma Sanitize_legal:
  assumes "\<forall>b. length (sha256 b) = 32" "input \<noteq> []"
  shows "isProviderSafe (Sanitize sha256 input)"
proof -
  define out where "out = (if list_all legal_rune (runes input)
    then map (\<lambda>c. if c = CHR ''.'' then CHR ''_'' else c) input else map project_rune (runes input))"
  have "list_all name_char out"
    using legal_runes_chars [of "runes input"] by (auto simp: out_def concat_runes list_all_iff)
  moreover have "out \<noteq> []" using assms(2) by (simp add: out_def)
  moreover have "Sanitize sha256 input = (if length out \<le> 64 then out else take 55 out @ ''_'' @ take 8 (hex_encode (sha256 input)))"
    using assms(2) by (simp add: Sanitize_def out_def)
  ultimately show ?thesis
    using assms(1) hex_encode_name by (auto simp: isProviderSafe_def list_all_take)
qed

definition gemini_legal :: "string \<Rightarrow> bool" where
  "gemini_legal s \<longleftrightarrow> s \<noteq> [] \<and> length s \<le> 64 \<and> gemini_first (hd s) \<and> list_all gemini_char s"

lemma gemini_first_char: "gemini_first c \<Longrightarrow> gemini_char c"
  by (auto simp: gemini_first_def gemini_char_def alnum_def)

lemma sanitizeToolName_legal: "gemini_legal (sanitizeToolName name)"
proof (cases name)
  case (Cons c cs)
  define out where "out = (if gemini_first c then [] else ''_'') @ (if gemini_char c then [c] else []) @
    map (\<lambda>d. if gemini_char d then d else CHR ''_'') cs"
  have "list_all gemini_char out" "out \<noteq> []" "gemini_first (hd out)"
    using gemini_first_char [of c] by (auto simp: out_def list_all_iff)
  moreover have "sanitizeToolName name = take 64 out" by (simp add: sanitizeToolName_def Cons out_def)
  moreover have "hd (take 64 out) = hd out" by (cases out) simp_all
  ultimately show ?thesis by (simp add: gemini_legal_def list_all_take)
qed (simp add: sanitizeToolName_def gemini_legal_def)

subsection \<open>Name maps are inverse to each other\<close>

definition inverse_maps :: "(string \<Rightarrow> string) \<Rightarrow> name_map \<Rightarrow> name_map \<Rightarrow> bool" where
  "inverse_maps project cp pc \<longleftrightarrow>
     (\<forall>c p. map_of cp c = Some p \<longleftrightarrow> map_of pc p = Some c) \<and> (\<forall>c p. map_of cp c = Some p \<longrightarrow> p = project c)"

lemma inverse_mapsD:
  "inverse_maps project cp pc \<Longrightarrow> map_of cp c = Some p \<Longrightarrow> map_of pc p = Some c \<and> p = project c"
  by (simp add: inverse_maps_def)

lemma inverse_maps_update:
  assumes "inverse_maps project cp pc" "map_of pc (project name) \<in> {None, Some name}"
  shows "inverse_maps project (AList.update name (project name) cp) (AList.update (project name) name pc)"
  using assms by (auto simp: inverse_maps_def update_conv')

lemma build_maps_inverse:
  "build_maps_from sha256 i defs cp pc = Inr (cp', pc') \<Longrightarrow> inverse_maps (Sanitize sha256) cp pc \<Longrightarrow>
   inverse_maps (Sanitize sha256) cp' pc' \<and>
   dom (map_of cp') = dom (map_of cp) \<union> {n. Some n \<in> set defs} \<and> None \<notin> set defs \<and> Some [] \<notin> set defs"
proof (induction sha256 i defs cp pc rule: build_maps_from.induct)
  case (2 sha256 i def defs cp pc)
  then obtain name where name: "def = Some name" "name \<noteq> []" by (auto split: option.splits if_splits)
  with 2 show ?case
    using inverse_maps_update [OF 2(3), of name] by (auto simp: Let_def update_conv' split: if_splits)
qed simp

text \<open>
  Property C30. For one request the canonical and provider names of the tools are inverse to each other:
  every definition is mapped, its provider name is legal (at most 64 bytes of letters, digits,
  underscores and hyphens) and leads back to it, and a name only found in the history is either refused
  or projected to a legal name that no advertised tool has.
\<close>

theorem tool_names_invert:
  assumes "\<forall>b. length (sha256 b) = 32" "BuildMaps sha256 defs = Inr (cp, pc)"
  shows "(\<forall>name. Some name \<in> set defs \<longrightarrow>
      (\<exists>p. ProviderName sha256 name cp = Inr p \<and> map_of pc p = Some name \<and> isProviderSafe p)) \<and>
    (\<forall>c p. map_of cp c = Some p \<longleftrightarrow> map_of pc p = Some c) \<and>
    (\<forall>c p. Some c \<notin> set defs \<and> c \<noteq> [] \<and> ProviderName sha256 c cp = Inr p \<longrightarrow> map_of pc p = None \<and> isProviderSafe p)"
proof -
  have "inverse_maps (Sanitize sha256) [] []" by (simp add: inverse_maps_def)
  with assms(2) have inv: "inverse_maps (Sanitize sha256) cp pc" and dom: "dom (map_of cp) = {n. Some n \<in> set defs}"
      and named: "Some [] \<notin> set defs"
    using build_maps_inverse [of sha256 0 defs "[]" "[]" cp pc] by (auto simp: BuildMaps_def)
  have mapped: "\<exists>p. map_of cp name = Some p \<and> map_of pc p = Some name \<and> isProviderSafe p" if "Some name \<in> set defs" for name
  proof -
    from that dom obtain p where p: "map_of cp name = Some p" by auto
    have "name \<noteq> []" using that named by auto
    with inverse_mapsD [OF inv p] Sanitize_legal [OF assms(1)] p show ?thesis by blast
  qed
  have fresh: "map_of pc p = None \<and> isProviderSafe p" if "Some c \<notin> set defs" "c \<noteq> []" "ProviderName sha256 c cp = Inr p" for c p
  proof -
    have "map_of cp c = None" using that(1) dom by auto
    with that(3) have "p = Sanitize sha256 c" "p \<notin> snd ` set cp" by (auto simp: ProviderName_def Let_def split: if_splits)
    moreover have "map_of pc p = None"
    proof (rule ccontr)
      assume "map_of pc p \<noteq> None"
      then obtain d where "map_of cp d = Some p" using inv by (auto simp: inverse_maps_def)
      with \<open>p \<notin> snd ` set cp\<close> show False by (force dest: map_of_SomeD)
    qed
    ultimately show ?thesis using Sanitize_legal [OF assms(1) that(2)] by simp
  qed
  have active: "ProviderName sha256 name cp = Inr p" if "map_of cp name = Some p" for name p
    using that by (simp add: ProviderName_def)
  have "\<forall>c p. map_of cp c = Some p \<longleftrightarrow> map_of pc p = Some c" using inv by (simp add: inverse_maps_def)
  with mapped active fresh show ?thesis by blast
qed

definition example_hash :: "string \<Rightarrow> string" where
  "example_hash b = replicate 32 CHR ''a''"

lemma example_sanitize:
  "Sanitize example_hash ''a.b'' = ''a_b''" "Sanitize example_hash ''c'' = ''c''"
  by (simp_all add: Sanitize_def runes.simps(2) legal_rune_def name_char_def alnum_def)

theorem tool_names_invert_witness:
  "BuildMaps example_hash [Some ''a.b'', Some ''c''] = Inr ([(''a.b'', ''a_b''), (''c'', ''c'')], [(''a_b'', ''a.b''), (''c'', ''c'')]) \<and>
   (\<exists>p. ProviderName example_hash ''a.b'' [(''a.b'', ''a_b''), (''c'', ''c'')] = Inr p \<and>
      map_of [(''a_b'', ''a.b''), (''c'', ''c'')] p = Some ''a.b'' \<and> isProviderSafe p)"
proof -
  have maps: "BuildMaps example_hash [Some ''a.b'', Some ''c''] =
      Inr ([(''a.b'', ''a_b''), (''c'', ''c'')], [(''a_b'', ''a.b''), (''c'', ''c'')])"
    by (simp add: BuildMaps_def example_sanitize Let_def)
  have "\<forall>b. length (example_hash b) = 32" by (simp add: example_hash_def)
  from tool_names_invert [OF this maps] maps show ?thesis by simp
qed

lemma gemini_maps_inverse:
  "gemini_maps_from names cp pc = Inr (cp', pc') \<Longrightarrow> inverse_maps sanitizeToolName cp pc \<Longrightarrow>
   inverse_maps sanitizeToolName cp' pc' \<and> dom (map_of cp') = dom (map_of cp) \<union> set names"
proof (induction names cp pc rule: gemini_maps_from.induct)
  case (2 name names cp pc)
  then show ?case
    using inverse_maps_update [OF 2(3), of name] by (auto simp: Let_def update_conv' split: option.splits)
qed simp

text \<open>The Gemini projection has the same guarantee, and a name repeated in the request is refused.\<close>

theorem gemini_names_invert:
  assumes "buildToolNameMaps names = Inr (cp, pc)"
  shows "(\<forall>c p. map_of cp c = Some p \<longleftrightarrow> map_of pc p = Some c) \<and>
    (\<forall>name \<in> set names. \<exists>p. map_of cp name = Some p \<and> gemini_legal p)"
proof -
  have "inverse_maps sanitizeToolName [] []" by (simp add: inverse_maps_def)
  with assms have inv: "inverse_maps sanitizeToolName cp pc" "dom (map_of cp) = set names"
    using gemini_maps_inverse [of names "[]" "[]" cp pc] by (auto simp: buildToolNameMaps_def)
  have "\<exists>p. map_of cp name = Some p \<and> gemini_legal p" if "name \<in> set names" for name
  proof -
    from that inv(2) obtain p where "map_of cp name = Some p" by auto
    with inverse_mapsD [OF inv(1) this] sanitizeToolName_legal show ?thesis by blast
  qed
  with inv(1) show ?thesis by (simp add: inverse_maps_def)
qed

subsection \<open>Identifiers stay distinct\<close>

definition issued_ids :: "transcript \<Rightarrow> string set" where
  "issued_ids messages = {tu_id u |u m. Some m \<in> set messages \<and> ToolUsePart u \<in> set (m_parts m)}"

text \<open>Where the mapper stands after some requests for identifiers.\<close>

definition mapper_ok :: "transcript \<Rightarrow> mapper \<Rightarrow> bool" where
  "mapper_ok messages m \<longleftrightarrow>
     {c \<in> issued_ids messages. isProviderSafe c} \<subseteq> set (used m) - snd ` set (aliases m) \<and>
     snd ` set (aliases m) \<subseteq> set (used m) \<inter> alias_name ` {1..next_alias m} \<and>
     inj_on snd (set (aliases m)) \<and> distinct (map fst (aliases m)) \<and>
     alias_name ` {1..next_alias m} \<subseteq> set (used m)"

definition lookup :: "mapper \<Rightarrow> string \<Rightarrow> string option" where
  "lookup m c = (if c = [] \<or> isProviderSafe c then Some c else map_of (aliases m) c)"

lemma mapper_ok_New: "mapper_ok messages (NewMapper messages)"
  by (force simp: mapper_ok_def NewMapper_def issued_ids_def safe_use_def split: option.splits part.splits)

lemma first_free_spec:
  "n < first_free taken n \<and> alias_name (first_free taken n) \<notin> set taken \<and>
   (\<forall>i. n < i \<and> i < first_free taken n \<longrightarrow> alias_name i \<in> set taken)"
proof (induction taken n rule: first_free.induct)
  case (1 taken n)
  show ?case
  proof (cases "alias_name (Suc n) \<in> set taken")
    case True
    with 1 have "Suc n < first_free taken (Suc n)" "alias_name (first_free taken (Suc n)) \<notin> set taken"
      "\<forall>i. Suc n < i \<and> i < first_free taken (Suc n) \<longrightarrow> alias_name i \<in> set taken" by auto
    with True show ?thesis by (subst (1 2 3) first_free.simps) (auto, metis Suc_lessI)
  next
    case False
    then show ?thesis by (subst (1 2 3) first_free.simps) auto
  qed
qed

lemma mapper_ok_ID:
  assumes "mapper_ok messages m" "ID c m = (m', a)"
  shows "mapper_ok messages m' \<and> lookup m' c = Some a \<and> (\<forall>x y. lookup m x = Some y \<longrightarrow> lookup m' x = Some y) \<and>
    length (used m') \<le> Suc (length (used m))"
proof (cases "lookup m c")
  case (Some y)
  with assms show ?thesis by (auto simp: lookup_def ID_def split: if_splits)
next
  case None
  define n where "n = first_free (used m) (next_alias m)"
  have n: "next_alias m < n" "alias_name n \<notin> set (used m)" "\<And>i. next_alias m < i \<Longrightarrow> i < n \<Longrightarrow> alias_name i \<in> set (used m)"
    using first_free_spec [of "next_alias m" "used m"] by (auto simp: n_def)
  have m': "m' = m\<lparr>aliases := (c, alias_name n) # aliases m, used := alias_name n # used m, next_alias := n\<rparr>"
      "a = alias_name n" "c \<notin> fst ` set (aliases m)" "c \<noteq> []" "\<not> isProviderSafe c"
    using None assms(2) by (auto simp: lookup_def ID_def n_def Let_def map_of_eq_None_iff split: if_splits)
  note ok = assms(1) [unfolded mapper_ok_def]
  have fields: "set (aliases m') = insert (c, alias_name n) (set (aliases m))" "set (used m') = insert (alias_name n) (set (used m))"
      "next_alias m' = n" "map fst (aliases m') = c # map fst (aliases m)"
    using m'(1) by auto
  have "{c \<in> issued_ids messages. isProviderSafe c} \<subseteq> set (used m') - snd ` set (aliases m')"
    using ok n(2) unfolding fields by auto
  moreover have "snd ` set (aliases m') \<subseteq> set (used m') \<inter> alias_name ` {1..next_alias m'}"
  proof -
    have sub: "alias_name ` {1..next_alias m} \<subseteq> alias_name ` {1..n}" "alias_name n \<in> alias_name ` {1..n}"
      using n(1) by (auto intro!: image_mono)
    have join: "A \<subseteq> U \<inter> R \<Longrightarrow> R \<subseteq> R' \<Longrightarrow> x \<in> R' \<Longrightarrow> insert x A \<subseteq> insert x U \<inter> R'"
      for A U R R' :: "string set" and x by blast
    show ?thesis unfolding fields image_insert snd_conv by (rule join [OF _ sub]) (use ok in simp)
  qed
  moreover have "inj_on snd (set (aliases m'))" using ok n(2) unfolding fields by (auto simp: inj_on_insert)
  moreover have "distinct (map fst (aliases m'))" using ok m'(3) unfolding fields by simp
  moreover have "alias_name ` {1..next_alias m'} \<subseteq> set (used m')"
  proof
    fix x assume "x \<in> alias_name ` {1..next_alias m'}"
    then obtain i where i: "x = alias_name i" "1 \<le> i" "i \<le> n" by (auto simp: fields)
    have "i \<le> next_alias m \<Longrightarrow> alias_name i \<in> set (used m)" using ok i(2) by auto
    with i n(3) [of i] show "x \<in> set (used m')" by (cases "i = n"; cases "i \<le> next_alias m") (auto simp: fields)
  qed
  ultimately have "mapper_ok messages m'" unfolding mapper_ok_def by blast
  moreover have "lookup m' c = Some a" "\<forall>x y. lookup m x = Some y \<longrightarrow> lookup m' x = Some y"
    using m' map_of_eq_None_iff [of "aliases m" c] by (auto simp: lookup_def)
  ultimately show ?thesis using m'(1) by simp
qed

fun map_ids :: "string list \<Rightarrow> mapper \<Rightarrow> mapper \<times> string list" where
  "map_ids [] m = (m, [])"
| "map_ids (c # cs) m = (let (m', a) = ID c m; (m'', as) = map_ids cs m' in (m'', a # as))"

lemma map_ids_ok:
  "mapper_ok messages m \<Longrightarrow> map_ids cs m = (m', as) \<Longrightarrow>
   mapper_ok messages m' \<and> map (lookup m') cs = map Some as \<and> (\<forall>x y. lookup m x = Some y \<longrightarrow> lookup m' x = Some y) \<and>
   length (used m') \<le> length cs + length (used m)"
proof (induction cs arbitrary: m as)
  case (Cons c cs)
  obtain m1 a where a: "ID c m = (m1, a)" by (rule prod.exhaust)
  obtain as' where as: "map_ids cs m1 = (m', as')" "as = a # as'" using Cons.prems(2) a by (auto split: prod.splits)
  note step = mapper_ok_ID [OF Cons.prems(1) a]
  with Cons.IH [OF _ as(1)] as(2) show ?case by auto
qed simp

lemma alias_range: "mapper_ok messages m \<Longrightarrow> next_alias m \<le> length (used m)"
proof -
  assume "mapper_ok messages m"
  then have "card (alias_name ` {1..next_alias m}) \<le> card (set (used m))"
    by (intro card_mono) (auto simp: mapper_ok_def)
  then show ?thesis using card_length [of "used m"] by (simp add: card_image inj_on_def)
qed

lemma length_dec: "0 < k \<Longrightarrow> n < 10 ^ k \<Longrightarrow> length (dec n) \<le> k"
proof (induction k arbitrary: n)
  case (Suc k)
  show ?case
  proof (cases "n < 10")
    case True then show ?thesis by (simp add: dec.simps [of n])
  next
    case False
    then have "0 < k" using Suc.prems by (cases k) auto
    moreover have "n div 10 < 10 ^ k" using Suc.prems by (simp add: less_mult_imp_div_less mult.commute)
    ultimately show ?thesis using Suc.IH [of "n div 10"] False by (simp add: dec.simps [of n])
  qed
qed simp

lemma alias_safe: "n < 10 ^ 63 \<Longrightarrow> isProviderSafe (alias_name n)"
proof -
  assume n: "n < 10 ^ 63"
  have "list_all name_char (dec n)"
    using dec_all_digits [of n] by (auto simp: list_all_iff is_digit_def name_char_def alnum_def)
  moreover have "length (dec n) \<le> 63" using length_dec [OF _ n] by simp
  moreover have "name_char CHR ''t''" by (simp add: name_char_def alnum_def)
  ultimately show ?thesis by (simp add: isProviderSafe_def alias_name_def)
qed

lemma lookup_inj:
  assumes "mapper_ok messages m" "lookup m x = Some z" "lookup m y = Some z"
    and "isProviderSafe x \<longrightarrow> x \<in> issued_ids messages" "isProviderSafe y \<longrightarrow> y \<in> issued_ids messages"
  shows "x = y"
proof -
  have clash: False if "lookup m u = Some w" "u = [] \<or> isProviderSafe u" "isProviderSafe u \<longrightarrow> u \<in> issued_ids messages"
    "map_of (aliases m) v = Some w" for u v w
  proof -
    have "w \<in> snd ` set (aliases m)" using that(4) by (force dest: map_of_SomeD)
    moreover have "w = u" using that(1,2) by (auto simp: lookup_def)
    ultimately show False using assms(1) that(2,3) by (auto simp: mapper_ok_def alias_name_def)
  qed
  show ?thesis
  proof (cases "(x = [] \<or> isProviderSafe x) \<or> (y = [] \<or> isProviderSafe y)")
    case True
    then show ?thesis using assms(2-5) clash by (auto simp: lookup_def split: if_splits)
  next
    case False
    then have "(x, z) \<in> set (aliases m)" "(y, z) \<in> set (aliases m)"
      using assms(2,3) by (auto simp: lookup_def dest: map_of_SomeD split: if_splits)
    moreover have "inj_on snd (set (aliases m))" using assms(1) by (simp add: mapper_ok_def)
    ultimately show ?thesis using inj_onD [of snd "set (aliases m)" "(x, z)" "(y, z)"] by simp
  qed
qed

text \<open>
  Property C31. The identifiers of one encoded request are stable, distinct and legal. Ask the mapper of a
  transcript for any sequence of identifiers, of which the legal ones occur in tool uses of the
  transcript: two answers are equal exactly when the identifiers are, legal identifiers are kept and
  every other one but the empty one gets a legal alias.
\<close>

theorem tool_use_ids_distinct:
  assumes "map_ids cs (NewMapper messages) = (m, as)"
    and "\<forall>c \<in> set cs. isProviderSafe c \<longrightarrow> c \<in> issued_ids messages"
    and "length cs + length (used (NewMapper messages)) < 10 ^ 63"
  shows "length as = length cs \<and>
    (\<forall>i < length cs. \<forall>j < length cs. as ! i = as ! j \<longleftrightarrow> cs ! i = cs ! j) \<and>
    (\<forall>i < length cs. (cs ! i \<noteq> [] \<longrightarrow> isProviderSafe (as ! i)) \<and> (isProviderSafe (cs ! i) \<longrightarrow> as ! i = cs ! i))"
proof -
  note mapped = map_ids_ok [OF mapper_ok_New assms(1)]
  then have len: "length as = length cs" by (metis length_map)
  have at: "lookup m (cs ! i) = Some (as ! i)" if "i < length cs" for i
    using mapped that len by (metis nth_map)
  have "as ! i = as ! j \<longleftrightarrow> cs ! i = cs ! j" if "i < length cs" "j < length cs" for i j
    using at [OF that(1)] at [OF that(2)] lookup_inj [of messages m "cs ! i" "as ! i" "cs ! j"] mapped assms(2) that by auto
  moreover have "(cs ! i \<noteq> [] \<longrightarrow> isProviderSafe (as ! i)) \<and> (isProviderSafe (cs ! i) \<longrightarrow> as ! i = cs ! i)" if "i < length cs" for i
  proof (cases "cs ! i = [] \<or> isProviderSafe (cs ! i)")
    case True
    then show ?thesis using at [OF that] by (auto simp: lookup_def)
  next
    case False
    with at [OF that] have "as ! i \<in> snd ` set (aliases m)" by (force simp: lookup_def dest: map_of_SomeD)
    then obtain n where n: "as ! i = alias_name n" "n \<le> next_alias m" using mapped by (force simp: mapper_ok_def)
    have "n < 10 ^ 63" using n(2) alias_range [of messages m] mapped assms(3) by linarith
    with n(1) alias_safe show ?thesis using False by simp
  qed
  ultimately show ?thesis using len by simp
qed

definition example_uses :: transcript where
  "example_uses =
     [Some \<lparr>m_role = RoleAssistant, m_parts = [ToolUsePart \<lparr>tu_id = ''a/b'', tu_name = ''x'', tu_input = ''{}'', tu_thought_signature = []\<rparr>,
        ToolUsePart \<lparr>tu_id = ''t1'', tu_name = ''x'', tu_input = ''{}'', tu_thought_signature = []\<rparr>], m_meta = None\<rparr>]"

lemma example_safe: "isProviderSafe ''t1''" "\<not> isProviderSafe ''a/b''"
  by (simp_all add: isProviderSafe_def name_char_def alnum_def)

lemma example_mapper: "NewMapper example_uses = \<lparr>aliases = [], used = [''t1''], next_alias = 0\<rparr>"
  by (simp add: NewMapper_def example_uses_def safe_use_def example_safe)

lemma example_aliases: "alias_name 1 = ''t1''" "alias_name 2 = ''t2''"
  by code_simp+

theorem tool_use_ids_distinct_witness:
  "snd (map_ids [''a/b'', ''t1'', ''a/b''] (NewMapper example_uses)) = [''t2'', ''t1'', ''t2''] \<and>
   isProviderSafe ''t2''"
proof -
  have free: "first_free [''t1''] 0 = 2"
    using example_aliases
    by (simp add: first_free.simps [of "[''t1'']" 0] first_free.simps [of "[''t1'']" "Suc 0"] numeral_2_eq_2)
  obtain m where m: "map_ids [''a/b'', ''t1'', ''a/b''] (NewMapper example_uses) = (m, [''t2'', ''t1'', ''t2''])"
    using free example_aliases by (simp add: example_mapper ID_def example_safe Let_def)
  have "''t1'' \<in> issued_ids example_uses"
    by (simp add: issued_ids_def example_uses_def)
      (rule exI [of _ "\<lparr>tu_id = ''t1'', tu_name = ''x'', tu_input = ''{}'', tu_thought_signature = []\<rparr>"], simp)
  then have "isProviderSafe ([''t2'', ''t1'', ''t2''] ! 0)"
    using tool_use_ids_distinct [OF m] by (auto simp: example_safe example_mapper All_less_Suc2)
  with m show ?thesis by simp
qed

end
