(* ===== verification/Model_Streams.thy ===== *)
theory Model_Streams
  imports Invocation_Journal
begin

section \<open>Streams of model chunks\<close>

text \<open>
  What the streaming adapters of \<open>features/model\<close> share. Each adapter has a goroutine that takes the events
  of a provider SDK one by one, hands them to a processor, and stops at the first error; the processor
  translates an event into chunks and passes them to a callback that fails when the context of the stream
  has ended. \<open>live n\<close> says that the context has not ended when the chunk after \<open>n\<close> chunks is passed on. The
  events are values of third-party SDK types, of which each model keeps what the code reads.
  The locale states what the consumers of a stream rely on and is interpreted on the Anthropic and the Bedrock
  processor.
\<close>

datatype stream_error =
    ContextEnded
  | Protocol string
  | EmptyStream string
  | TruncatedStream
  | ProviderFailure string
  | BadBlock stream_error
  | BadPayload string stream_error
  | BadResponse response_error

definition NewStreamEndedEarlyError :: "bool \<Rightarrow> stream_error" where
  "NewStreamEndedEarlyError started =
     (if \<not> started then EmptyStream ''stream ended before message start'' else TruncatedStream)"

subsection \<open>The event loop\<close>

datatype 'e arrival = Arrives 'e | ContextDone

fun drain :: "('e \<Rightarrow> 's \<Rightarrow> 's \<times> (stream_error, unit) result) \<Rightarrow> 'e arrival list \<Rightarrow> 's \<Rightarrow> 's \<times> stream_error option" where
  "drain handle [] s = (s, None)"
| "drain handle (ContextDone # as) s = (s, Some ContextEnded)"
| "drain handle (Arrives e # as) s =
     (case handle e s of (s', Inl err) \<Rightarrow> (s', Some err) | (s', Inr u) \<Rightarrow> drain handle as s')"

definition emit_to :: "(nat \<Rightarrow> bool) \<Rightarrow> chunk \<Rightarrow> chunk list \<Rightarrow> chunk list \<times> (stream_error, unit) result" where
  "emit_to live c out = (if live (length out) then (out @ [c], Inr ()) else (out, Inl ContextEnded))"

definition assistant_message :: "part list \<Rightarrow> (string \<times> gvalue) list option \<Rightarrow> message" where
  "assistant_message ps meta = \<lparr>m_role = RoleAssistant, m_parts = ps, m_meta = meta\<rparr>"

definition content_meta :: "int \<Rightarrow> (string \<times> gvalue) list option" where
  "content_meta idx = Some [(''content_index'', GInt idx)]"

definition draft_thinking :: "string \<Rightarrow> int \<Rightarrow> part" where
  "draft_thinking t idx = ThinkingPart \<lparr>th_text = t, th_signature = [], th_redacted = [], th_index = idx, th_final = False\<rparr>"

subsection \<open>The contract of a processor\<close>

text \<open>
  A chunk of an adapter passes the validation of the model boundary, except that the payload of a tool call
  may be a JSON value other than an object: the adapters test that the payload is JSON, and the boundary
  then refuses the call with the error for such payloads and no other.
\<close>

definition loose_call :: "chunk \<Rightarrow> bool" where
  "loose_call c \<longleftrightarrow> (case c of ToolCallChunk call \<Rightarrow> mc_id call \<noteq> [] \<and> mc_name call \<noteq> [] \<and> json_valid (mc_payload call) | _ \<Rightarrow> False)"

definition boundary_chunk :: "chunk \<Rightarrow> bool" where
  "boundary_chunk c \<longleftrightarrow> ValidateChunk c = Inr () \<or> loose_call c"

definition is_stop :: "chunk \<Rightarrow> bool" where
  "is_stop c \<longleftrightarrow> (case c of StopChunk r \<Rightarrow> True | _ \<Rightarrow> False)"

text \<open>At most one stop chunk, only after the message is complete, and nothing after it.\<close>

definition stream_ok :: "chunk list \<Rightarrow> bool \<Rightarrow> bool" where
  "stream_ok out complete \<longleftrightarrow>
     list_all boundary_chunk out \<and>
     (\<exists>xs. list_all (\<lambda>c. \<not> is_stop c) xs \<and> (out = xs \<or> (complete \<and> (\<exists>r. out = xs @ [StopChunk r]))))"

definition stopped :: "chunk list \<Rightarrow> bool" where
  "stopped out \<longleftrightarrow> out \<noteq> [] \<and> is_stop (last out)"

lemma boundary_chunk_iff:
  "boundary_chunk c \<longleftrightarrow> ValidateChunk c = Inr () \<or> (\<exists>call. c = ToolCallChunk call \<and> ValidateChunk c = Inl CallPayloadNotObject)"
  by (cases c) (auto simp: boundary_chunk_def loose_call_def validateToolCall_def Let_def split: if_splits)

lemma stream_ok_Nil [simp]: "stream_ok [] c"
  by (simp add: stream_ok_def)

lemma stream_ok_snoc:
  "stream_ok out False \<Longrightarrow> boundary_chunk c \<Longrightarrow> \<not> is_stop c \<Longrightarrow> stream_ok (out @ [c]) False"
  by (simp add: stream_ok_def)

lemma stream_ok_stop:
  "stream_ok out False \<Longrightarrow> r \<noteq> [] \<Longrightarrow> stream_ok (out @ [StopChunk r]) True"
  by (auto simp: stream_ok_def boundary_chunk_def)

lemma stream_ok_mono: "stream_ok out False \<Longrightarrow> stream_ok out c"
  by (auto simp: stream_ok_def)

lemma emit_ok:
  "stream_ok out False \<Longrightarrow> boundary_chunk c \<Longrightarrow> \<not> is_stop c \<Longrightarrow> stream_ok (fst (emit_to live c out)) False"
  by (simp add: emit_to_def stream_ok_snoc)

lemma emit_stop_ok: "stream_ok out False \<Longrightarrow> r \<noteq> [] \<Longrightarrow> stream_ok (fst (emit_to live (StopChunk r) out)) True"
  by (simp add: emit_to_def stream_ok_stop stream_ok_mono)

lemma emit_extends: "\<exists>xs. fst (emit_to live c out) = out @ xs"
  by (simp add: emit_to_def)

lemma stream_ok_stops:
  assumes "stream_ok out c"
  shows "(\<forall>c \<in> set out. ValidateChunk c = Inr () \<or> (\<exists>call. c = ToolCallChunk call \<and> ValidateChunk c = Inl CallPayloadNotObject)) \<and> length (filter is_stop out) \<le> 1 \<and> (\<forall>c \<in> set (butlast out). \<not> is_stop c)"
proof -
  obtain xs where xs: "list_all (\<lambda>c. \<not> is_stop c) xs" "out = xs \<or> (\<exists>r. out = xs @ [StopChunk r])"
    using assms by (auto simp: stream_ok_def)
  then have "filter is_stop xs = []" by (simp add: filter_empty_conv list_all_iff)
  moreover have "\<forall>c \<in> set out. boundary_chunk c" using assms by (simp add: stream_ok_def list_all_iff)
  ultimately show ?thesis using xs by (auto simp: list_all_iff is_stop_def boundary_chunk_iff dest: in_set_butlastD)
qed

text \<open>The chunks the adapters make.\<close>

lemma text_boundary [simp]:
  "t \<noteq> [] \<Longrightarrow> boundary_chunk (TextChunk (assistant_message [TextPart t] meta))"
  "t \<noteq> [] \<Longrightarrow> boundary_chunk (ThinkingChunk (assistant_message [draft_thinking t idx] meta))"
  by (simp_all add: boundary_chunk_def validateChunkMessage_def assistant_message_def draft_thinking_def)

lemma final_thinking_boundary [simp]:
  "th_final p \<Longrightarrow> (th_text p \<noteq> [] \<or> th_signature p \<noteq> []) \<noteq> (th_redacted p \<noteq> []) \<Longrightarrow>
   boundary_chunk (ThinkingChunk (assistant_message [ThinkingPart p] meta))"
  by (simp add: boundary_chunk_def validateChunkMessage_def assistant_message_def validateThinkingPart_def)

lemma other_boundary [simp]:
  "name \<noteq> [] \<Longrightarrow> callID \<noteq> [] \<Longrightarrow> t \<noteq> [] \<Longrightarrow> boundary_chunk (ToolCallDeltaChunk name callID t)"
  "name \<noteq> [] \<Longrightarrow> t \<noteq> [] \<Longrightarrow> boundary_chunk (CompletionDeltaChunk name t)"
  "name \<noteq> [] \<Longrightarrow> json_valid payload \<Longrightarrow> boundary_chunk (CompletionChunk name payload)"
  "validateTokenUsage u = Inr () \<Longrightarrow> boundary_chunk (UsageChunk u)"
  "mc_id call \<noteq> [] \<Longrightarrow> mc_name call \<noteq> [] \<Longrightarrow> json_valid (mc_payload call) \<Longrightarrow> boundary_chunk (ToolCallChunk call)"
  by (simp_all add: boundary_chunk_def loose_call_def)

lemma not_stop [simp]:
  "\<not> is_stop (TextChunk m)" "\<not> is_stop (ThinkingChunk m)" "\<not> is_stop (ToolCallDeltaChunk a b t)" "\<not> is_stop (ToolCallChunk call)"
  "\<not> is_stop (CompletionChunk a p)" "\<not> is_stop (CompletionDeltaChunk a t)" "\<not> is_stop (UsageChunk u)"
  by (simp_all add: is_stop_def)

locale chunk_processor =
  fixes handle :: "'e \<Rightarrow> 's \<Rightarrow> 's \<times> (stream_error, unit) result"
    and legal :: "'e \<Rightarrow> bool" and inv :: "'s \<Rightarrow> bool"
    and emitted :: "'s \<Rightarrow> chunk list" and complete :: "'s \<Rightarrow> bool"
  assumes handle_keeps: "inv s \<Longrightarrow> legal e \<Longrightarrow> inv (fst (handle e s))"
    and inv_stream: "inv s \<Longrightarrow> stream_ok (emitted s) (complete s)"
    and handle_stops: "inv s \<Longrightarrow> legal e \<Longrightarrow> (complete s \<longrightarrow> stopped (emitted s)) \<Longrightarrow> handle e s = (s', Inr ()) \<Longrightarrow> complete s' \<Longrightarrow> stopped (emitted s')"
begin

lemma drain_keeps:
  "inv s \<Longrightarrow> (\<forall>e. Arrives e \<in> set as \<longrightarrow> legal e) \<Longrightarrow> inv (fst (drain handle as s))"
proof (induction as arbitrary: s)
  case (Cons a as)
  then show ?case using handle_keeps [of s] by (cases a) (fastforce split: prod.split sum.split)+
qed simp

lemma drain_stream:
  "inv s \<Longrightarrow> (\<forall>e. Arrives e \<in> set as \<longrightarrow> legal e) \<Longrightarrow>
   stream_ok (emitted (fst (drain handle as s))) (complete (fst (drain handle as s)))"
  by (rule inv_stream) (rule drain_keeps)

lemma drain_stopped:
  "inv s \<Longrightarrow> (\<forall>e. Arrives e \<in> set as \<longrightarrow> legal e) \<Longrightarrow> (complete s \<longrightarrow> stopped (emitted s)) \<Longrightarrow>
   drain handle as s = (s', None) \<Longrightarrow> complete s' \<Longrightarrow> stopped (emitted s')"
proof (induction as arbitrary: s)
  case (Cons a as)
  show ?case
  proof (cases a)
    case (Arrives e)
    then obtain t where t: "handle e s = (t, Inr ())" using Cons.prems(4) by (auto split: prod.splits sum.splits)
    have "inv t" using handle_keeps [of s e] Cons.prems Arrives t by simp
    moreover have "complete t \<longrightarrow> stopped (emitted t)" using handle_stops Cons.prems(1-3) Arrives t by auto
    ultimately show ?thesis using Cons.IH [of t] Cons.prems Arrives t by simp
  qed (use Cons.prems in simp)
qed simp

end

sublocale chunk_processor \<subseteq> steps: kept_invariant "\<lambda>e s. fst (handle e s)" "\<lambda>e _. legal e" inv
  by unfold_locales (rule handle_keeps)

subsection \<open>Deltas and calls\<close>

text \<open>The fragments streamed for a call, and the payload the call must then have.\<close>

definition deltas_of :: "string \<Rightarrow> chunk list \<Rightarrow> string" where
  "deltas_of callID out =
     concat (map (\<lambda>c. case c of ToolCallDeltaChunk n i t \<Rightarrow> if i = callID then t else [] | _ \<Rightarrow> []) out)"

definition payload_of :: "string \<Rightarrow> string" where
  "payload_of t = (let trimmed = trim_space t in if trimmed = [] then ''{}'' else trimmed)"

definition call_ids :: "chunk list \<Rightarrow> string set" where
  "call_ids out = {mc_id call | call. ToolCallChunk call \<in> set out}"

definition delta_ids :: "chunk list \<Rightarrow> string set" where
  "delta_ids out = {i. \<exists>n t. ToolCallDeltaChunk n i t \<in> set out}"

definition calls_repeat_deltas :: "chunk list \<Rightarrow> bool" where
  "calls_repeat_deltas out \<longleftrightarrow>
     (\<forall>call. ToolCallChunk call \<in> set out \<longrightarrow> mc_payload call = payload_of (deltas_of (mc_id call) out))"

definition inert :: "chunk \<Rightarrow> bool" where
  "inert c \<longleftrightarrow> (case c of ToolCallChunk call \<Rightarrow> False | ToolCallDeltaChunk n i t \<Rightarrow> False | _ \<Rightarrow> True)"

lemma inert_simps [simp]:
  "inert (TextChunk m)" "inert (ThinkingChunk m)" "inert (UsageChunk u)" "inert (StopChunk r)"
  "inert (CompletionChunk n p)" "inert (CompletionDeltaChunk n p)"
  by (simp_all add: inert_def)

lemma deltas_of_Nil [simp]: "deltas_of i [] = []"
  by (simp add: deltas_of_def)

lemma inert_snoc [simp]:
  assumes "inert c"
  shows "deltas_of i (out @ [c]) = deltas_of i out" "call_ids (out @ [c]) = call_ids out" "delta_ids (out @ [c]) = delta_ids out"
    "calls_repeat_deltas (out @ [c]) = calls_repeat_deltas out"
  using assms by (cases c; auto simp: inert_def deltas_of_def call_ids_def delta_ids_def calls_repeat_deltas_def)+

lemma deltas_snoc [simp]:
  "deltas_of i (out @ [ToolCallDeltaChunk n j t]) = deltas_of i out @ (if j = i then t else [])"
  "call_ids (out @ [ToolCallDeltaChunk n j t]) = call_ids out"
  "delta_ids (out @ [ToolCallDeltaChunk n j t]) = insert j (delta_ids out)"
  "deltas_of i (out @ [ToolCallChunk call]) = deltas_of i out"
  "call_ids (out @ [ToolCallChunk call]) = insert (mc_id call) (call_ids out)"
  "delta_ids (out @ [ToolCallChunk call]) = delta_ids out"
  by (auto simp: deltas_of_def call_ids_def delta_ids_def)

lemma no_deltas: "i \<notin> delta_ids out \<Longrightarrow> deltas_of i out = []"
  by (induction out) (auto simp: deltas_of_def delta_ids_def split: chunk.splits)

lemma repeat_delta:
  "calls_repeat_deltas out \<Longrightarrow> i \<notin> call_ids out \<Longrightarrow> calls_repeat_deltas (out @ [ToolCallDeltaChunk n i t])"
  by (auto simp: calls_repeat_deltas_def call_ids_def)

lemma repeat_call:
  "calls_repeat_deltas out \<Longrightarrow> mc_payload call = payload_of (deltas_of (mc_id call) out) \<Longrightarrow>
   calls_repeat_deltas (out @ [ToolCallChunk call])"
  by (auto simp: calls_repeat_deltas_def)

end
