(* ===== verification/Anthropic_Stream.thy ===== *)
theory Anthropic_Stream
  imports Model_Streams
begin

section \<open>The Anthropic stream\<close>

text \<open>
  \<open>features/model/anthropic/stream.go\<close> and the translation of responses in \<open>client.go\<close>. The events and the
  message they accumulate into are values of the SDK, with the fields the code reads; the accumulation
  itself is the SDK's and an argument, and so are the errors its stream reports.
\<close>

subsection \<open>Events\<close>

datatype block_start =
    TextStart string
  | ToolUseStart string string
  | ThinkingStart string string
  | RedactedStart string
  | OtherStart string

datatype block_delta =
    TextDelta string
  | InputJSONDelta string
  | ThinkingDelta string
  | SignatureDelta string
  | CitationsDelta
  | OtherDelta string

record sdk_usage =
  su_input :: int
  su_output :: int
  su_cache_read :: int
  su_cache_creation :: int

datatype event =
    MessageStart
  | ContentBlockStart int block_start
  | ContentBlockDelta int block_delta
  | ContentBlockStop int
  | MessageDelta string sdk_usage
  | MessageStop
  | OtherEvent string

subsection \<open>Buffers\<close>

record tool_buffer =
  tb_name :: string
  tb_id :: string
  tb_fragments :: "string list"

record thinking_buffer =
  kb_text :: string
  kb_signature :: string
  kb_redacted :: string

definition finalInput :: "tool_buffer \<Rightarrow> string" where
  "finalInput tb =
     (if tb_fragments tb = [] then ''{}''
      else let joined = concat (tb_fragments tb)
           in if trim_space joined = [] then ''{}'' else joined)"

definition finalize :: "thinking_buffer \<Rightarrow> int \<Rightarrow> (stream_error, thinking_part option) result" where
  "finalize tb idx =
     (if kb_redacted tb \<noteq> []
      then (if kb_text tb \<noteq> [] \<or> kb_signature tb \<noteq> []
            then Inl (Protocol ''thinking block contains both redacted and plaintext content'')
            else Inr (Some \<lparr>th_text = [], th_signature = [], th_redacted = kb_redacted tb, th_index = idx, th_final = True\<rparr>))
      else if kb_text tb = [] \<and> kb_signature tb = [] then Inr None
      else if kb_signature tb = [] then Inl (Protocol ''thinking plaintext is missing provider signature'')
      else Inr (Some \<lparr>th_text = kb_text tb, th_signature = kb_signature tb, th_redacted = [], th_index = idx, th_final = True\<rparr>))"

definition decodeToolPayload :: "string \<Rightarrow> (stream_error, string) result" where
  "decodeToolPayload raw =
     (let trimmed = trim_space raw;
          data = (if trimmed = [] then ''{}'' else trimmed)
      in if \<not> json_valid data then Inl (Protocol ''tool payload is not valid JSON'') else Inr data)"

subsection \<open>The processor\<close>

record processor =
  ap_out :: "chunk list"
  ap_tools :: "int \<rightharpoonup> tool_buffer"
  ap_thinking :: "int \<rightharpoonup> thinking_buffer"
  ap_open :: "int set"
  ap_names :: "string \<rightharpoonup> string"
  ap_stop_reason :: string
  ap_started :: bool
  ap_complete :: bool

definition newAnthropicChunkProcessor :: "(string \<rightharpoonup> string) \<Rightarrow> processor" where
  "newAnthropicChunkProcessor names =
     \<lparr>ap_out = [], ap_tools = Map.empty, ap_thinking = Map.empty, ap_open = {}, ap_names = names,
      ap_stop_reason = [], ap_started = False, ap_complete = False\<rparr>"

definition emit :: "(nat \<Rightarrow> bool) \<Rightarrow> chunk \<Rightarrow> processor \<Rightarrow> processor \<times> (stream_error, unit) result" where
  "emit live c p = (case emit_to live c (ap_out p) of (out, r) \<Rightarrow> (p\<lparr>ap_out := out\<rparr>, r))"

definition text_chunk :: "int \<Rightarrow> string \<Rightarrow> chunk" where
  "text_chunk idx t = TextChunk (assistant_message [TextPart t] (content_meta idx))"

fun start_block :: "(nat \<Rightarrow> bool) \<Rightarrow> int \<Rightarrow> block_start \<Rightarrow> processor \<Rightarrow> processor \<times> (stream_error, unit) result" where
  "start_block live idx (TextStart t) p = (if t = [] then (p, Inr ()) else emit live (text_chunk idx t) p)"
| "start_block live idx (ToolUseStart callID raw) p =
     (if callID = [] then (p, Inl (Protocol ''anthropic stream: tool use block missing id''))
      else if raw = [] then (p, Inl (Protocol ''anthropic stream: tool use block missing name''))
      else let name = (case ap_names p raw of Some canonical \<Rightarrow> canonical | None \<Rightarrow> raw)
           in (p\<lparr>ap_tools := (ap_tools p)(idx \<mapsto> \<lparr>tb_name = name, tb_id = callID, tb_fragments = []\<rparr>)\<rparr>, Inr ()))"
| "start_block live idx (ThinkingStart thinking signature) p =
     (p\<lparr>ap_thinking := (ap_thinking p)(idx \<mapsto> \<lparr>kb_text = thinking, kb_signature = signature, kb_redacted = []\<rparr>)\<rparr>, Inr ())"
| "start_block live idx (RedactedStart data) p =
     (if data = [] then (p, Inl (Protocol ''anthropic stream: redacted thinking block missing data''))
      else (p\<lparr>ap_thinking := (ap_thinking p)(idx \<mapsto> \<lparr>kb_text = [], kb_signature = [], kb_redacted = data\<rparr>)\<rparr>, Inr ()))"
| "start_block live idx (OtherStart t) p = (p, Inl (Protocol ''anthropic stream: unsupported content block''))"

definition thinking_at :: "int \<Rightarrow> processor \<Rightarrow> thinking_buffer" where
  "thinking_at idx p = (case ap_thinking p idx of None \<Rightarrow> \<lparr>kb_text = [], kb_signature = [], kb_redacted = []\<rparr> | Some tb \<Rightarrow> tb)"

fun apply_delta :: "(nat \<Rightarrow> bool) \<Rightarrow> int \<Rightarrow> block_delta \<Rightarrow> processor \<Rightarrow> processor \<times> (stream_error, unit) result" where
  "apply_delta live idx (TextDelta t) p = (if t = [] then (p, Inr ()) else emit live (text_chunk idx t) p)"
| "apply_delta live idx (InputJSONDelta t) p =
     (if t = [] then (p, Inr ())
      else case ap_tools p idx of
             None \<Rightarrow> (p, Inl (Protocol ''anthropic stream: input JSON delta has no tool-use block''))
           | Some tb \<Rightarrow>
               (let p' = p\<lparr>ap_tools := (ap_tools p)(idx \<mapsto> tb\<lparr>tb_fragments := tb_fragments tb @ [t]\<rparr>)\<rparr>
                in if tb_id tb = [] then (p', Inl (Protocol ''anthropic stream: tool JSON delta missing tool call id''))
                   else if tb_name tb = [] then (p', Inl (Protocol ''anthropic stream: tool JSON delta missing tool name''))
                   else emit live (ToolCallDeltaChunk (tb_name tb) (tb_id tb) t) p'))"
| "apply_delta live idx (ThinkingDelta t) p =
     (if t = [] then (p, Inr ())
      else let tb = thinking_at idx p
           in emit live (ThinkingChunk (assistant_message [draft_thinking t idx] None))
                (p\<lparr>ap_thinking := (ap_thinking p)(idx \<mapsto> tb\<lparr>kb_text := kb_text tb @ t\<rparr>)\<rparr>))"
| "apply_delta live idx (SignatureDelta t) p =
     (if t = [] then (p, Inr ())
      else (p\<lparr>ap_thinking := (ap_thinking p)(idx \<mapsto> (thinking_at idx p)\<lparr>kb_signature := t\<rparr>)\<rparr>, Inr ()))"
| "apply_delta live idx CitationsDelta p = (p, Inr ())"
| "apply_delta live idx (OtherDelta t) p = (p, Inl (Protocol ''anthropic stream: unsupported content block delta''))"

definition stop_thinking :: "(nat \<Rightarrow> bool) \<Rightarrow> int \<Rightarrow> processor \<Rightarrow> processor \<times> (stream_error, unit) result" where
  "stop_thinking live idx p =
     (case ap_thinking p idx of
        None \<Rightarrow> (p, Inr ())
      | Some tb \<Rightarrow>
          (let p' = p\<lparr>ap_thinking := (ap_thinking p)(idx := None)\<rparr>
           in case finalize tb idx of
                Inl err \<Rightarrow> (p', Inl (BadBlock err))
              | Inr None \<Rightarrow> (p', Inr ())
              | Inr (Some part) \<Rightarrow>
                  if th_text part \<noteq> [] \<or> th_redacted part \<noteq> []
                  then emit live (ThinkingChunk (assistant_message [ThinkingPart part] None)) p'
                  else (p', Inr ())))"

definition stop_tool :: "(nat \<Rightarrow> bool) \<Rightarrow> int \<Rightarrow> processor \<Rightarrow> processor \<times> (stream_error, unit) result" where
  "stop_tool live idx p =
     (case ap_tools p idx of
        None \<Rightarrow> (p, Inr ())
      | Some tb \<Rightarrow>
          (case decodeToolPayload (finalInput tb) of
             Inl err \<Rightarrow> (p, Inl (BadPayload (tb_id tb) err))
           | Inr payload \<Rightarrow>
               emit live (ToolCallChunk \<lparr>mc_name = tb_name tb, mc_payload = payload, mc_id = tb_id tb, mc_thought_signature = []\<rparr>)
                 (p\<lparr>ap_tools := (ap_tools p)(idx := None)\<rparr>)))"

definition Handle :: "(nat \<Rightarrow> bool) \<Rightarrow> event \<Rightarrow> processor \<Rightarrow> processor \<times> (stream_error, unit) result" where
  "Handle live ev p =
     (case ev of
        MessageStart \<Rightarrow>
          if ap_started p then (p, Inl (Protocol ''anthropic stream: duplicate message start''))
          else (p\<lparr>ap_tools := Map.empty, ap_thinking := Map.empty, ap_open := {}, ap_stop_reason := [],
                  ap_started := True, ap_complete := False\<rparr>, Inr ())
      | ContentBlockStart idx start \<Rightarrow>
          if \<not> ap_started p \<or> ap_complete p
          then (p, Inl (Protocol ''anthropic stream: content block started outside an active message''))
          else if idx \<in> ap_open p then (p, Inl (Protocol ''anthropic stream: duplicate content block start''))
          else start_block live idx start (p\<lparr>ap_open := insert idx (ap_open p)\<rparr>)
      | ContentBlockDelta idx delta \<Rightarrow>
          if \<not> ap_started p \<or> ap_complete p
          then (p, Inl (Protocol ''anthropic stream: content block delta received outside an active message''))
          else if idx \<notin> ap_open p then (p, Inl (Protocol ''anthropic stream: content block delta has no matching start''))
          else apply_delta live idx delta p
      | ContentBlockStop idx \<Rightarrow>
          if \<not> ap_started p \<or> ap_complete p
          then (p, Inl (Protocol ''anthropic stream: content block stopped outside an active message''))
          else if idx \<notin> ap_open p then (p, Inl (Protocol ''anthropic stream: content block stop has no matching start''))
          else (case stop_thinking live idx (p\<lparr>ap_open := ap_open p - {idx}\<rparr>) of
                  (p1, Inl err) \<Rightarrow> (p1, Inl err)
                | (p1, Inr u) \<Rightarrow> stop_tool live idx p1)
      | MessageDelta reason u \<Rightarrow>
          if \<not> ap_started p \<or> ap_complete p
          then (p, Inl (Protocol ''anthropic stream: message delta received outside an active message''))
          else emit live
                 (UsageChunk \<lparr>us_model = [], us_model_class = [], us_input = su_input u, us_output = su_output u,
                    us_total = wrap64 (su_input u + su_output u), us_cache_read = su_cache_read u,
                    us_cache_write = su_cache_creation u\<rparr>)
                 (p\<lparr>ap_stop_reason := reason\<rparr>)
      | MessageStop \<Rightarrow>
          if \<not> ap_started p then (p, Inl (EmptyStream ''message stop received without an active message''))
          else if ap_complete p then (p, Inl (Protocol ''anthropic stream: duplicate message stop''))
          else if ap_open p \<noteq> {} then (p, Inl (Protocol ''anthropic stream: message stopped with open content blocks''))
          else if ap_stop_reason p = [] then (p, Inl (Protocol ''anthropic stream: message stopped without a stop reason''))
          else emit live (StopChunk (ap_stop_reason p)) (p\<lparr>ap_complete := True\<rparr>)
      | OtherEvent t \<Rightarrow> (p, Inl (Protocol ''anthropic stream: unsupported event'')))"

subsection \<open>Responses\<close>

record sdk_citation =
  sc_type :: string
  sc_title :: string
  sc_document_title :: string
  sc_cited_text :: string
  sc_file_id :: string
  sc_source :: string
  sc_url :: string
  sc_document_index :: int
  sc_start_char :: int
  sc_end_char :: int
  sc_start_page :: int
  sc_end_page :: int
  sc_start_block :: int
  sc_end_block :: int

record sdk_block =
  sb_type :: string
  sb_text :: string
  sb_citations :: "sdk_citation list"
  sb_thinking :: string
  sb_signature :: string
  sb_data :: string
  sb_id :: string
  sb_name :: string
  sb_input :: string

record sdk_message =
  sm_content :: "sdk_block list"
  sm_usage :: sdk_usage
  sm_stop_reason :: string

definition no_location :: citation_location where
  "no_location = \<lparr>loc_char = None, loc_chunk = None, loc_page = None\<rparr>"

definition translateCitation :: "sdk_citation \<Rightarrow> (stream_error, citation) result" where
  "translateCitation c =
     (let base = \<lparr>cit_title = sc_document_title c, cit_source = [], cit_location = no_location,
                  cit_source_content = (if sc_cited_text c \<noteq> [] then [sc_cited_text c] else [])\<rparr>
      in if sc_type c = ''char_location''
         then Inr (base\<lparr>cit_source := sc_file_id c, cit_location := no_location\<lparr>loc_char :=
                Some \<lparr>span_document_index = sc_document_index c, span_start = sc_start_char c, span_end = sc_end_char c\<rparr>\<rparr>\<rparr>)
         else if sc_type c = ''page_location''
         then Inr (base\<lparr>cit_source := sc_file_id c, cit_location := no_location\<lparr>loc_page :=
                Some \<lparr>span_document_index = sc_document_index c, span_start = sc_start_page c, span_end = sc_end_page c\<rparr>\<rparr>\<rparr>)
         else if sc_type c = ''content_block_location''
         then Inr (base\<lparr>cit_source := sc_file_id c, cit_location := no_location\<lparr>loc_chunk :=
                Some \<lparr>span_document_index = sc_document_index c, span_start = sc_start_block c, span_end = sc_end_block c\<rparr>\<rparr>\<rparr>)
         else if sc_type c = ''web_search_result_location'' then Inr (base\<lparr>cit_title := sc_title c, cit_source := sc_url c\<rparr>)
         else if sc_type c = ''search_result_location'' then Inr (base\<lparr>cit_source := sc_source c\<rparr>)
         else Inl (Protocol ''anthropic: unsupported citation type''))"

definition translateCitations :: "sdk_citation list \<Rightarrow> (stream_error, citation list) result" where
  "translateCitations cs = traverse translateCitation cs"

definition response_block :: "(string \<rightharpoonup> string) \<Rightarrow> sdk_block \<Rightarrow> (stream_error, part) result" where
  "response_block names b =
     (if sb_type b = ''text''
      then (if sb_citations b = [] then Inr (TextPart (sb_text b))
            else (case translateCitations (sb_citations b) of
                    Inl err \<Rightarrow> Inl err
                  | Inr cs \<Rightarrow> Inr (CitationsPart (sb_text b) cs)))
      else if sb_type b = ''thinking''
      then (if sb_signature b = [] then Inl (Protocol ''anthropic: response thinking block requires signature'')
            else Inr (ThinkingPart \<lparr>th_text = sb_thinking b, th_signature = sb_signature b, th_redacted = [], th_index = 0, th_final = True\<rparr>))
      else if sb_type b = ''redacted_thinking''
      then (if sb_data b = [] then Inl (Protocol ''anthropic: response redacted thinking block requires data'')
            else Inr (ThinkingPart \<lparr>th_text = [], th_signature = [], th_redacted = sb_data b, th_index = 0, th_final = True\<rparr>))
      else if sb_type b = ''tool_use''
      then (if sb_id b = [] then Inl (Protocol ''anthropic: response tool use block missing ID'')
            else if sb_name b = [] then Inl (Protocol ''anthropic: response tool use block missing name'')
            else Inr (ToolUsePart \<lparr>tu_id = sb_id b, tu_name = (case names (sb_name b) of Some canonical \<Rightarrow> canonical | None \<Rightarrow> sb_name b),
                        tu_input = sb_input b, tu_thought_signature = []\<rparr>))
      else Inl (Protocol ''anthropic: unsupported response content block''))"

definition response_usage :: "sdk_usage \<Rightarrow> token_usage" where
  "response_usage u =
     (if su_input u \<noteq> 0 \<or> su_output u \<noteq> 0 \<or> su_cache_read u \<noteq> 0 \<or> su_cache_creation u \<noteq> 0
      then \<lparr>us_model = [], us_model_class = [], us_input = su_input u, us_output = su_output u,
            us_total = wrap64 (su_input u + su_output u), us_cache_read = su_cache_read u, us_cache_write = su_cache_creation u\<rparr>
      else no_usage)"

definition translateResponse ::
  "(int \<Rightarrow> int \<Rightarrow> string) \<Rightarrow> (string \<rightharpoonup> string) \<Rightarrow> sdk_message option \<Rightarrow> (stream_error, response) result" where
  "translateResponse ft names msg =
     (case msg of
        None \<Rightarrow> Inl (Protocol ''anthropic: response message is nil'')
      | Some m \<Rightarrow>
          (case traverse (response_block names) (sm_content m) of
             Inl err \<Rightarrow> Inl err
           | Inr parts \<Rightarrow>
               (let resp = \<lparr>rs_content = (if parts \<noteq> [] then [assistant_message parts None] else []),
                            rs_usage = response_usage (sm_usage m), rs_stop_reason = sm_stop_reason m\<rparr>
                in if rs_stop_reason resp = [] then Inl (Protocol ''anthropic: response is missing its stop reason'')
                   else (case ValidateResponse ft (Some resp) of
                           Inl err \<Rightarrow> Inl (BadResponse err)
                         | Inr u \<Rightarrow> Inr resp))))"

text \<open>
  The event loop of the streamer. Each event is accumulated by the SDK and then handled; \<open>ending\<close> is the
  error of the closed stream and whether the context had ended by then.
\<close>

definition run_event ::
  "(nat \<Rightarrow> bool) \<Rightarrow> ('m \<Rightarrow> event \<Rightarrow> (string, 'm) result) \<Rightarrow> event \<Rightarrow> processor \<times> 'm \<Rightarrow>
   (processor \<times> 'm) \<times> (stream_error, unit) result" where
  "run_event live accumulate ev s =
     (case accumulate (snd s) ev of
        Inl e \<Rightarrow> (s, Inl (ProviderFailure e))
      | Inr msg \<Rightarrow> (case Handle live ev (fst s) of (p, r) \<Rightarrow> ((p, msg), r)))"

definition run ::
  "(int \<Rightarrow> int \<Rightarrow> string) \<Rightarrow> (nat \<Rightarrow> bool) \<Rightarrow> ('m \<Rightarrow> event \<Rightarrow> (string, 'm) result) \<Rightarrow> ('m \<Rightarrow> sdk_message) \<Rightarrow> 'm \<Rightarrow>
   (string \<rightharpoonup> string) \<Rightarrow> event arrival list \<Rightarrow> string option \<times> bool \<Rightarrow> chunk list \<times> (stream_error, response) result" where
  "run ft live accumulate message blank names arrivals ending =
     (case drain (run_event live accumulate) arrivals (newAnthropicChunkProcessor names, blank) of
        ((p, msg), Some err) \<Rightarrow> (ap_out p, Inl err)
      | ((p, msg), None) \<Rightarrow>
          (ap_out p,
           case ending of
             (Some e, ctx) \<Rightarrow> Inl (ProviderFailure e)
           | (None, True) \<Rightarrow> Inl ContextEnded
           | (None, False) \<Rightarrow>
               if \<not> ap_complete p then Inl (NewStreamEndedEarlyError (ap_started p))
               else translateResponse ft names (Some (message msg))))"

subsection \<open>The contract\<close>

definition good_usage :: "sdk_usage \<Rightarrow> bool" where
  "good_usage u \<longleftrightarrow> 0 \<le> su_input u \<and> 0 \<le> su_output u \<and> su_input u + su_output u < 2 ^ 63 \<and> 0 \<le> su_cache_read u \<and> 0 \<le> su_cache_creation u"

fun legal_event :: "event \<Rightarrow> bool" where
  "legal_event (MessageDelta reason u) \<longleftrightarrow> good_usage u"
| "legal_event e \<longleftrightarrow> True"

definition tools_named :: "(int \<rightharpoonup> tool_buffer) \<Rightarrow> bool" where
  "tools_named ts \<longleftrightarrow> (\<forall>tb \<in> ran ts. tb_name tb \<noteq> [] \<and> tb_id tb \<noteq> [])"

definition processor_ok :: "processor \<Rightarrow> bool" where
  "processor_ok p \<longleftrightarrow> stream_ok (ap_out p) (ap_complete p) \<and> tools_named (ap_tools p) \<and> [] \<notin> ran (ap_names p) \<and>
     (ap_complete p \<longrightarrow> ap_started p)"

lemma tools_named_upd: "tools_named ts \<Longrightarrow> tb_name tb \<noteq> [] \<Longrightarrow> tb_id tb \<noteq> [] \<Longrightarrow> tools_named (ts(idx \<mapsto> tb))"
  by (auto simp: tools_named_def ran_def)

lemma tools_named_drop: "tools_named ts \<Longrightarrow> tools_named (ts(idx := None))"
  by (auto simp: tools_named_def ran_def)

lemma tools_namedD: "tools_named ts \<Longrightarrow> ts idx = Some tb \<Longrightarrow> tb_name tb \<noteq> [] \<and> tb_id tb \<noteq> []"
  by (auto simp: tools_named_def ran_def)

lemma emit_fields [simp]:
  "ap_tools (fst (emit live c p)) = ap_tools p" "ap_names (fst (emit live c p)) = ap_names p"
  "ap_complete (fst (emit live c p)) = ap_complete p" "ap_started (fst (emit live c p)) = ap_started p"
  "ap_thinking (fst (emit live c p)) = ap_thinking p" "ap_open (fst (emit live c p)) = ap_open p"
  "ap_stop_reason (fst (emit live c p)) = ap_stop_reason p" "ap_out (fst (emit live c p)) = fst (emit_to live c (ap_out p))"
  by (simp_all add: emit_def split: prod.split)

lemma emit_keeps:
  "processor_ok p \<Longrightarrow> \<not> ap_complete p \<Longrightarrow> boundary_chunk c \<Longrightarrow> \<not> is_stop c \<Longrightarrow> processor_ok (fst (emit live c p))"
  by (simp add: processor_ok_def emit_ok)

lemma processor_ok_update [simp]:
  "processor_ok (p\<lparr>ap_thinking := t\<rparr>) = processor_ok p" "processor_ok (p\<lparr>ap_open := os\<rparr>) = processor_ok p"
  "processor_ok (p\<lparr>ap_stop_reason := r\<rparr>) = processor_ok p"
  by (simp_all add: processor_ok_def)

lemma start_block_ok:
  assumes "processor_ok p" "\<not> ap_complete p" shows "processor_ok (fst (start_block live idx start p))"
proof (cases start)
  case (ToolUseStart callID raw)
  have "[] \<notin> ran (ap_names p)" using assms(1) by (simp add: processor_ok_def)
  then have "raw \<noteq> [] \<Longrightarrow> (case ap_names p raw of Some canonical \<Rightarrow> canonical | None \<Rightarrow> raw) \<noteq> []"
    by (auto simp: ran_def split: option.split)
  then show ?thesis using assms ToolUseStart by (simp add: Let_def processor_ok_def tools_named_upd)
qed (use assms in \<open>simp_all add: emit_keeps text_chunk_def\<close>)

lemma apply_delta_ok:
  assumes "processor_ok p" "\<not> ap_complete p" shows "processor_ok (fst (apply_delta live idx delta p))"
proof (cases delta)
  case (InputJSONDelta t)
  show ?thesis
  proof (cases "ap_tools p idx")
    case (Some tb)
    let ?p = "p\<lparr>ap_tools := (ap_tools p)(idx \<mapsto> tb\<lparr>tb_fragments := tb_fragments tb @ [t]\<rparr>)\<rparr>"
    have tb: "tb_name tb \<noteq> [] \<and> tb_id tb \<noteq> []" using assms(1) Some by (auto simp: processor_ok_def dest: tools_namedD)
    then have "processor_ok ?p" using assms(1) by (simp add: processor_ok_def tools_named_upd)
    then show ?thesis using emit_keeps [of ?p] assms InputJSONDelta Some tb by (simp add: Let_def)
  qed (use assms InputJSONDelta in simp)
qed (use assms in \<open>simp_all add: emit_keeps text_chunk_def Let_def\<close>)

lemma finalized: "finalize tb idx = Inr (Some part) \<Longrightarrow>
  th_final part \<and> (th_text part \<noteq> [] \<or> th_signature part \<noteq> []) \<noteq> (th_redacted part \<noteq> [])"
  by (auto simp: finalize_def split: if_splits)

lemma stop_thinking_ok:
  assumes "processor_ok p" "\<not> ap_complete p"
  shows "processor_ok (fst (stop_thinking live idx p)) \<and> \<not> ap_complete (fst (stop_thinking live idx p))"
proof (cases "ap_thinking p idx")
  case (Some tb)
  have p': "processor_ok (p\<lparr>ap_thinking := (ap_thinking p)(idx := None)\<rparr>)" using assms by simp
  show ?thesis
  proof (cases "finalize tb idx")
    case (Inr r)
    show ?thesis
    proof (cases r)
      case (Some part)
      then show ?thesis using emit_keeps [OF p'] Inr \<open>ap_thinking p idx = Some tb\<close> finalized [of tb idx part] p' assms(2)
        by (simp add: stop_thinking_def Let_def)
    qed (use Inr Some p' assms(2) in \<open>simp add: stop_thinking_def Let_def\<close>)
  qed (use Some p' assms(2) in \<open>simp add: stop_thinking_def Let_def\<close>)
qed (use assms in \<open>simp add: stop_thinking_def\<close>)

lemma decoded: "decodeToolPayload raw = Inr payload \<Longrightarrow> json_valid payload"
  by (auto simp: decodeToolPayload_def Let_def split: if_splits)

lemma stop_tool_ok:
  assumes "processor_ok p" "\<not> ap_complete p" shows "processor_ok (fst (stop_tool live idx p))"
proof (cases "ap_tools p idx")
  case (Some tb)
  have p': "processor_ok (p\<lparr>ap_tools := (ap_tools p)(idx := None)\<rparr>)" using assms by (simp add: processor_ok_def tools_named_drop)
  have "tb_name tb \<noteq> [] \<and> tb_id tb \<noteq> []" using assms(1) Some by (auto simp: processor_ok_def dest: tools_namedD)
  then show ?thesis using emit_keeps [OF p'] Some assms decoded by (auto simp: stop_tool_def split: sum.split)
qed (use assms in \<open>simp add: stop_tool_def\<close>)

lemma usage_valid:
  "good_usage u \<Longrightarrow> validateTokenUsage \<lparr>us_model = [], us_model_class = [], us_input = su_input u, us_output = su_output u,
     us_total = wrap64 (su_input u + su_output u), us_cache_read = su_cache_read u, us_cache_write = su_cache_creation u\<rparr> = Inr ()"
  by (simp add: validateTokenUsage_def good_usage_def model_classes_def int64_range_def)

lemma Handle_ok:
  assumes "processor_ok p" "legal_event ev" shows "processor_ok (fst (Handle live ev p))"
proof (cases ev)
  case MessageStart
  then show ?thesis using assms by (auto simp: Handle_def processor_ok_def tools_named_def)
next
  case (ContentBlockStart idx start)
  then show ?thesis using assms start_block_ok [of "p\<lparr>ap_open := insert idx (ap_open p)\<rparr>" live idx start]
    by (simp add: Handle_def)
next
  case (ContentBlockDelta idx delta)
  then show ?thesis using assms apply_delta_ok by (simp add: Handle_def)
next
  case (ContentBlockStop idx)
  obtain p1 r1 where t: "stop_thinking live idx (p\<lparr>ap_open := ap_open p - {idx}\<rparr>) = (p1, r1)" by fastforce
  have "processor_ok p1 \<and> \<not> ap_complete p1" if "\<not> ap_complete p"
    using stop_thinking_ok [of "p\<lparr>ap_open := ap_open p - {idx}\<rparr>" live idx] t assms(1) that by simp
  then show ?thesis using ContentBlockStop assms stop_tool_ok by (simp add: Handle_def t split: sum.split)
next
  case (MessageDelta reason u)
  then show ?thesis using assms by (auto simp: Handle_def usage_valid intro!: emit_keeps)
next
  case MessageStop
  then show ?thesis using assms by (cases "ap_complete p") (simp_all add: Handle_def processor_ok_def emit_stop_ok)
qed (use assms in \<open>simp add: Handle_def\<close>)

lemma complete_unchanged [simp]:
  "ap_complete (fst (stop_thinking live idx p)) = ap_complete p"
  "ap_complete (fst (stop_tool live idx p)) = ap_complete p"
  by (simp_all add: stop_thinking_def stop_tool_def Let_def split: option.split sum.split)

lemma complete_start [simp]: "ap_complete (fst (start_block live idx start p)) = ap_complete p"
  by (cases start) (simp_all add: Let_def)

lemma complete_delta [simp]: "ap_complete (fst (apply_delta live idx delta p)) = ap_complete p"
  by (cases delta) (simp_all add: Let_def split: option.split)

lemma Handle_stops:
  assumes "processor_ok p" "Handle live ev p = (p', Inr ())" "ap_complete p'"
  shows "stopped (ap_out p')"
proof (cases "ev = MessageStop")
  case True
  then show ?thesis using assms
    by (auto simp: Handle_def emit_def emit_to_def stopped_def is_stop_def split: if_splits)
next
  case False
  have "ap_complete (fst (Handle live ev p)) = False" if "\<not> ap_complete p"
  proof (cases ev)
    case (ContentBlockStop idx)
    obtain p1 r1 where t: "stop_thinking live idx (p\<lparr>ap_open := ap_open p - {idx}\<rparr>) = (p1, r1)" by fastforce
    then have "ap_complete p1 = ap_complete p" using complete_unchanged(1) [of live idx "p\<lparr>ap_open := ap_open p - {idx}\<rparr>"] by simp
    then show ?thesis using that by (simp add: Handle_def ContentBlockStop t split: sum.split)
  qed (use that False in \<open>simp_all add: Handle_def\<close>)
  moreover have "snd (Handle live ev p) \<noteq> Inr ()" if "ap_complete p"
    using that assms(1) False by (cases ev) (auto simp: Handle_def processor_ok_def)
  ultimately show ?thesis using assms(2,3) by auto
qed

interpretation anthropic: chunk_processor "run_event live accumulate" legal_event "\<lambda>s. processor_ok (fst s)"
  "\<lambda>s. ap_out (fst s)" "\<lambda>s. ap_complete (fst s)" for live and accumulate :: "'m \<Rightarrow> event \<Rightarrow> (string, 'm) result"
proof unfold_locales
  fix s :: "processor \<times> 'm" and e
  assume "processor_ok (fst s)" "legal_event e"
  then show "processor_ok (fst (fst (run_event live accumulate e s)))"
    using Handle_ok [of "fst s" e live] by (auto simp: run_event_def split: sum.split prod.split)
next
  fix s :: "processor \<times> 'm"
  assume "processor_ok (fst s)"
  then show "stream_ok (ap_out (fst s)) (ap_complete (fst s))" by (simp add: processor_ok_def)
next
  fix s s' :: "processor \<times> 'm" and e
  assume "processor_ok (fst s)" "run_event live accumulate e s = (s', Inr ())" "ap_complete (fst s')"
  then show "stopped (ap_out (fst s'))"
    using Handle_stops [of "fst s" live e] by (auto simp: run_event_def split: sum.splits prod.splits)
qed

lemma new_processor_ok: "[] \<notin> ran names \<Longrightarrow> processor_ok (newAnthropicChunkProcessor names)"
  by (simp add: processor_ok_def newAnthropicChunkProcessor_def tools_named_def)

text \<open>
  Property C34. Whatever events the provider sends, as long as the token counts it reports are in the range the
  boundary accepts and no tool name maps to the empty name, whenever the context of the stream ends and
  whatever the SDK accumulates: every chunk sent passes \<open>ValidateChunk\<close> or is a tool call that it refuses
  because the payload is JSON but not an object (the adapter tests only that it is JSON); there is at most one
  stop chunk and nothing follows it; and a stream that ends with a response has sent its stop chunk, and the
  response is one the model boundary accepts.
\<close>

theorem anthropic_stream_contract:
  fixes arrivals :: "event arrival list"
  assumes "\<forall>e. Arrives e \<in> set arrivals \<longrightarrow> legal_event e" "[] \<notin> ran names"
    and "run ft live accumulate message blank names arrivals ending = (out, res)"
  shows "(\<forall>c \<in> set out. ValidateChunk c = Inr () \<or> (\<exists>call. c = ToolCallChunk call \<and> ValidateChunk c = Inl CallPayloadNotObject)) \<and>
    length (filter is_stop out) \<le> 1 \<and> (\<forall>c \<in> set (butlast out). \<not> is_stop c) \<and>
    (\<forall>r. res = Inr r \<longrightarrow> stopped out \<and> ValidateResponse ft (Some r) = Inr ())"
proof -
  obtain p msg err where d: "drain (run_event live accumulate) arrivals (newAnthropicChunkProcessor names, blank) = ((p, msg), err)"
    by (metis surj_pair)
  have p0: "processor_ok (fst (newAnthropicChunkProcessor names, blank))"
    "ap_complete (fst (newAnthropicChunkProcessor names, blank)) \<longrightarrow> stopped (ap_out (fst (newAnthropicChunkProcessor names, blank)))"
    using new_processor_ok [OF assms(2)] by (simp_all add: newAnthropicChunkProcessor_def)
  have out: "out = ap_out p" using assms(3) d by (auto simp: run_def split: option.splits)
  have ok: "stream_ok out (ap_complete p)"
    using anthropic.drain_stream [OF p0(1) assms(1), where live = live and accumulate = accumulate] d out by simp
  have "stopped out \<and> ValidateResponse ft (Some r) = Inr ()" if "res = Inr r" for r
  proof -
    have e: "err = None" "ap_complete p" "translateResponse ft names (Some (message msg)) = Inr r"
      using assms(3) d that by (auto simp: run_def split: option.splits prod.splits bool.splits if_splits)
    then have "stopped out"
      using anthropic.drain_stopped [OF p0(1) assms(1) p0(2), where live = live and accumulate = accumulate] d out by simp
    then show ?thesis using e(3) by (auto simp: translateResponse_def Let_def split: sum.splits if_splits)
  qed
  then show ?thesis using ok stream_ok_stops by blast
qed

subsection \<open>Fragments add up to payloads\<close>

definition buffered :: "chunk list \<Rightarrow> (int \<rightharpoonup> tool_buffer) \<Rightarrow> bool" where
  "buffered out ts \<longleftrightarrow>
     (\<forall>idx tb. ts idx = Some tb \<longrightarrow> concat (tb_fragments tb) = deltas_of (tb_id tb) out \<and> tb_id tb \<notin> call_ids out) \<and>
     (\<forall>i j tb tb'. ts i = Some tb \<and> ts j = Some tb' \<and> tb_id tb = tb_id tb' \<longrightarrow> i = j)"

definition buffers_ok :: "processor \<Rightarrow> bool" where
  "buffers_ok p \<longleftrightarrow> calls_repeat_deltas (ap_out p) \<and> buffered (ap_out p) (ap_tools p)"

definition stream_ids :: "processor \<Rightarrow> string set" where
  "stream_ids p = call_ids (ap_out p) \<union> delta_ids (ap_out p) \<union> tb_id ` ran (ap_tools p)"

fun event_ids :: "event \<Rightarrow> string list" where
  "event_ids (ContentBlockStart idx (ToolUseStart callID raw)) = [callID]"
| "event_ids e = []"

text \<open>A step is good when the calls sent repeat their deltas, and the buffers still hold them if it succeeds.\<close>

definition good_step :: "string set \<Rightarrow> processor \<times> (stream_error, unit) result \<Rightarrow> bool" where
  "good_step ids pr \<longleftrightarrow> calls_repeat_deltas (ap_out (fst pr)) \<and> (snd pr = Inr () \<longrightarrow> buffers_ok (fst pr) \<and> stream_ids (fst pr) \<subseteq> ids)"

lemma good_step_same [simp]: "buffers_ok p \<Longrightarrow> stream_ids p \<subseteq> ids \<Longrightarrow> good_step ids (p, r)"
  by (simp add: good_step_def buffers_ok_def)

lemma buffers_ok_update [simp]:
  "buffers_ok (p\<lparr>ap_thinking := t\<rparr>) = buffers_ok p" "buffers_ok (p\<lparr>ap_open := os\<rparr>) = buffers_ok p"
  "buffers_ok (p\<lparr>ap_stop_reason := r\<rparr>) = buffers_ok p" "buffers_ok (p\<lparr>ap_complete := c\<rparr>) = buffers_ok p"
  "stream_ids (p\<lparr>ap_thinking := t\<rparr>) = stream_ids p" "stream_ids (p\<lparr>ap_open := os\<rparr>) = stream_ids p"
  "stream_ids (p\<lparr>ap_stop_reason := r\<rparr>) = stream_ids p" "stream_ids (p\<lparr>ap_complete := c\<rparr>) = stream_ids p"
  by (simp_all add: buffers_ok_def stream_ids_def)

lemma stream_ids_tool: "stream_ids p \<subseteq> ids \<Longrightarrow> ap_tools p i = Some tb \<Longrightarrow> tb_id tb \<in> ids"
  by (force simp: stream_ids_def ran_def)

lemma stream_ids_tools: "stream_ids p \<subseteq> ids \<Longrightarrow> x \<in> ids \<Longrightarrow> tb_id tb = x \<Longrightarrow> tb_id ` ran ((ap_tools p)(i \<mapsto> tb)) \<subseteq> ids"
  using stream_ids_tool by (auto simp: ran_def)

lemma good_emit: "inert c \<Longrightarrow> buffers_ok p \<Longrightarrow> stream_ids p \<subseteq> ids \<Longrightarrow> good_step ids (emit live c p)"
  by (simp add: good_step_def emit_def emit_to_def buffers_ok_def buffered_def stream_ids_def)

lemma good_start:
  assumes "buffers_ok p" "stream_ids p \<subseteq> ids" "set (event_ids (ContentBlockStart idx start)) \<subseteq> ids - stream_ids p"
  shows "good_step ids (start_block live idx start p)"
proof (cases start)
  case (ToolUseStart callID raw)
  then have new: "callID \<in> ids" "callID \<notin> stream_ids p" using assms(3) by auto
  then have d: "deltas_of callID (ap_out p) = []" by (simp add: no_deltas stream_ids_def)
  have other: "tb_id tb \<noteq> callID" if "ap_tools p i = Some tb" for i tb using that new(2) by (force simp: stream_ids_def ran_def)
  have ids: "stream_ids (p\<lparr>ap_tools := (ap_tools p)(idx \<mapsto> \<lparr>tb_name = n, tb_id = callID, tb_fragments = []\<rparr>)\<rparr>) \<subseteq> ids" for n
    using stream_ids_tools [OF assms(2) new(1)] assms(2) by (simp add: stream_ids_def)
  have "buffers_ok (p\<lparr>ap_tools := (ap_tools p)(idx \<mapsto> \<lparr>tb_name = n, tb_id = callID, tb_fragments = []\<rparr>)\<rparr>)" for n
    using assms(1) new(2) d other unfolding buffers_ok_def buffered_def
    by (auto simp: stream_ids_def)
  then show ?thesis using ToolUseStart assms(1,2) ids by (simp add: Let_def)
qed (use assms in \<open>simp_all add: good_emit text_chunk_def\<close>)

lemma good_delta:
  assumes "buffers_ok p" "stream_ids p \<subseteq> ids" shows "good_step ids (apply_delta live idx delta p)"
proof (cases delta)
  case (InputJSONDelta t)
  show ?thesis
  proof (cases "ap_tools p idx")
    case (Some tb)
    let ?tb = "tb\<lparr>tb_fragments := tb_fragments tb @ [t]\<rparr>"
    let ?ts = "(ap_tools p)(idx \<mapsto> ?tb)" and ?c = "ToolCallDeltaChunk (tb_name tb) (tb_id tb) t"
    have tb: "concat (tb_fragments tb) = deltas_of (tb_id tb) (ap_out p)" "tb_id tb \<notin> call_ids (ap_out p)"
      using assms(1) Some by (auto simp: buffers_ok_def buffered_def)
    have other: "tb_id tb' \<noteq> tb_id tb" if "ap_tools p i = Some tb'" "i \<noteq> idx" for i tb'
      using that assms(1) Some unfolding buffers_ok_def buffered_def by metis
    have "buffered (ap_out p @ [?c]) ?ts"
      using assms(1) tb other unfolding buffers_ok_def buffered_def by (auto split: if_splits) (metis other)+
    moreover have "calls_repeat_deltas (ap_out p @ [?c])"
      using assms(1) tb(2) by (simp add: repeat_delta buffers_ok_def)
    moreover have "tb_id ` ran ?ts \<subseteq> ids" "tb_id tb \<in> ids"
      using stream_ids_tool [OF assms(2)] Some by (auto simp: ran_def)
    ultimately show ?thesis using InputJSONDelta Some assms
      by (auto simp: good_step_def Let_def emit_def emit_to_def buffers_ok_def stream_ids_def)
  qed (use assms InputJSONDelta in simp)
qed (use assms in \<open>simp_all add: good_emit text_chunk_def Let_def\<close>)

lemma good_stop_thinking:
  assumes "buffers_ok p" "stream_ids p \<subseteq> ids" shows "good_step ids (stop_thinking live idx p)"
  using assms by (simp add: stop_thinking_def Let_def good_emit split: option.split sum.split)

lemma payload_of_decoded: "decodeToolPayload (finalInput tb) = Inr payload \<Longrightarrow> payload = payload_of (concat (tb_fragments tb))"
  by (auto simp: decodeToolPayload_def finalInput_def payload_of_def Let_def trim_empty_object split: if_splits)

lemma good_stop_tool:
  assumes "buffers_ok p" "stream_ids p \<subseteq> ids" shows "good_step ids (stop_tool live idx p)"
proof (cases "ap_tools p idx")
  case (Some tb)
  show ?thesis
  proof (cases "decodeToolPayload (finalInput tb)")
    case (Inr payload)
    let ?ts = "(ap_tools p)(idx := None)"
    let ?call = "\<lparr>mc_name = tb_name tb, mc_payload = payload, mc_id = tb_id tb, mc_thought_signature = []\<rparr>"
    have tb: "payload = payload_of (deltas_of (tb_id tb) (ap_out p))"
      using payload_of_decoded [OF Inr] assms(1) Some by (auto simp: buffers_ok_def buffered_def)
    have other: "tb_id tb' \<noteq> tb_id tb" if "ap_tools p i = Some tb'" "i \<noteq> idx" for i tb'
      using that assms(1) Some unfolding buffers_ok_def buffered_def by metis
    have ids: "tb_id ` ran ?ts \<subseteq> ids" "tb_id tb \<in> ids" using stream_ids_tool [OF assms(2)] Some by (auto simp: ran_def)
    have "buffered (ap_out p @ [ToolCallChunk ?call]) ?ts"
      using assms(1) other unfolding buffers_ok_def buffered_def by (auto split: if_splits)
    moreover have "buffered (ap_out p) ?ts"
      using assms(1) unfolding buffers_ok_def buffered_def by (auto split: if_splits)
    moreover have "calls_repeat_deltas (ap_out p @ [ToolCallChunk ?call])"
      using assms(1) tb by (simp add: repeat_call buffers_ok_def)
    ultimately show ?thesis using Some Inr assms ids
      by (auto simp: stop_tool_def good_step_def emit_def emit_to_def buffers_ok_def stream_ids_def)
  qed (use Some assms in \<open>simp add: stop_tool_def\<close>)
qed (use assms in \<open>simp add: stop_tool_def\<close>)

lemma good_Handle:
  assumes "buffers_ok p" "stream_ids p \<subseteq> ids" "set (event_ids ev) \<subseteq> ids - stream_ids p"
  shows "good_step ids (Handle live ev p)"
proof (cases ev)
  case MessageStart
  have "buffers_ok p \<Longrightarrow> buffers_ok (p\<lparr>ap_tools := Map.empty, ap_thinking := Map.empty, ap_open := {}, ap_stop_reason := [],
      ap_started := True, ap_complete := False\<rparr>)" by (simp add: buffers_ok_def buffered_def)
  then show ?thesis using MessageStart assms by (simp add: Handle_def good_step_def) (simp add: buffers_ok_def stream_ids_def)
next
  case (ContentBlockStart idx start)
  then show ?thesis using assms good_start [of "p\<lparr>ap_open := insert idx (ap_open p)\<rparr>" ids idx start live] by (simp add: Handle_def)
next
  case (ContentBlockStop idx)
  obtain p1 r1 where t: "stop_thinking live idx (p\<lparr>ap_open := ap_open p - {idx}\<rparr>) = (p1, r1)" by fastforce
  then have "good_step ids (p1, r1)" using good_stop_thinking [of "p\<lparr>ap_open := ap_open p - {idx}\<rparr>" ids live idx] assms by simp
  moreover from this have "good_step ids (stop_tool live idx p1)" if "r1 = Inr ()"
    using that by (intro good_stop_tool) (simp_all add: good_step_def)
  ultimately show ?thesis using ContentBlockStop assms by (cases r1) (simp_all add: Handle_def t)
qed (use assms in \<open>simp_all add: Handle_def good_delta good_emit\<close>)

definition tool_ids :: "event arrival list \<Rightarrow> string list" where
  "tool_ids as = concat (map (\<lambda>a. case a of Arrives e \<Rightarrow> event_ids e | ContextDone \<Rightarrow> []) as)"

lemma drain_repeats:
  "buffers_ok (fst s) \<Longrightarrow> distinct (tool_ids as) \<Longrightarrow> set (tool_ids as) \<inter> stream_ids (fst s) = {} \<Longrightarrow>
   calls_repeat_deltas (ap_out (fst (fst (drain (run_event live accumulate) as s))))"
proof (induction as arbitrary: s)
  case Nil
  then show ?case by (simp add: buffers_ok_def)
next
  case (Cons a as)
  show ?case
  proof (cases a)
    case (Arrives e)
    let ?ids = "stream_ids (fst s) \<union> set (event_ids e)"
    have good: "good_step ?ids (Handle live e (fst s))"
      using Cons.prems Arrives by (intro good_Handle) (auto simp: tool_ids_def)
    show ?thesis
    proof (cases "accumulate (snd s) e")
      case (Inr msg)
      show ?thesis
      proof (cases "snd (Handle live e (fst s)) = Inr ()")
        case True
        then have "buffers_ok (fst (Handle live e (fst s)))" "stream_ids (fst (Handle live e (fst s))) \<subseteq> ?ids"
          using good by (simp_all add: good_step_def)
        then show ?thesis using Cons.IH [of "(fst (Handle live e (fst s)), msg)"] Cons.prems Arrives Inr True
          by (simp add: run_event_def tool_ids_def split_def) blast
      next
        case False
        then show ?thesis using good Arrives Inr
          by (auto simp: run_event_def good_step_def split: prod.split sum.split)
      qed
    qed (use Cons.prems Arrives in \<open>simp add: run_event_def buffers_ok_def\<close>)
  qed (use Cons.prems in \<open>simp add: buffers_ok_def\<close>)
qed

text \<open>
  Property C35. Concatenating the argument fragments of a call gives its payload: in every Anthropic stream
  whose tool-use blocks have identifiers of their own, however the blocks interleave and wherever the stream
  is cut off, a tool call that is sent has as payload the concatenation of the fragments sent for it before,
  without surrounding white space, or the empty object when there is nothing else.
\<close>

theorem tool_calls_repeat_deltas:
  assumes "distinct (tool_ids arrivals)" "run ft live accumulate message blank names arrivals ending = (out, res)"
  shows "\<forall>call. ToolCallChunk call \<in> set out \<longrightarrow> mc_payload call = payload_of (deltas_of (mc_id call) out)"
proof -
  have "buffers_ok (newAnthropicChunkProcessor names)" "stream_ids (newAnthropicChunkProcessor names) = {}"
    by (simp_all add: newAnthropicChunkProcessor_def buffers_ok_def buffered_def calls_repeat_deltas_def stream_ids_def call_ids_def delta_ids_def)
  then have "calls_repeat_deltas (ap_out (fst (fst (drain (run_event live accumulate) arrivals (newAnthropicChunkProcessor names, blank)))))"
    using assms(1) by (intro drain_repeats) simp_all
  then have "calls_repeat_deltas out"
    using assms(2) by (auto simp: run_def split: prod.splits option.splits)
  then show ?thesis by (simp add: calls_repeat_deltas_def)
qed

text \<open>A tool call in two fragments, its SDK message built by the last block event.\<close>

definition example_usage :: sdk_usage where
  "example_usage = \<lparr>su_input = 3, su_output = 2, su_cache_read = 0, su_cache_creation = 0\<rparr>"

definition example_arrivals :: "event arrival list" where
  "example_arrivals = map Arrives
     [MessageStart, ContentBlockStart 0 (ToolUseStart ''t1'' ''ab''), ContentBlockDelta 0 (InputJSONDelta ''{''),
      ContentBlockDelta 0 (InputJSONDelta ''}''), ContentBlockStop 0, MessageDelta ''tool_use'' example_usage, MessageStop]"

definition example_accumulate :: "sdk_message \<Rightarrow> event \<Rightarrow> (string, sdk_message) result" where
  "example_accumulate m e =
     Inr (case e of
            ContentBlockStop i \<Rightarrow>
              m\<lparr>sm_content := [\<lparr>sb_type = ''tool_use'', sb_text = [], sb_citations = [], sb_thinking = [], sb_signature = [],
                  sb_data = [], sb_id = ''t1'', sb_name = ''ab'', sb_input = ''{}''\<rparr>]\<rparr>
          | MessageDelta reason u \<Rightarrow> m\<lparr>sm_usage := u, sm_stop_reason := reason\<rparr>
          | _ \<Rightarrow> m)"

definition example_blank :: sdk_message where
  "example_blank = \<lparr>sm_content = [], sm_usage = \<lparr>su_input = 0, su_output = 0, su_cache_read = 0, su_cache_creation = 0\<rparr>, sm_stop_reason = []\<rparr>"

definition example_call :: model_tool_call where
  "example_call = \<lparr>mc_name = ''a.b'', mc_payload = ''{}'', mc_id = ''t1'', mc_thought_signature = []\<rparr>"

lemma example_anthropic_run:
  "run ft (\<lambda>n. True) example_accumulate id example_blank [''ab'' \<mapsto> ''a.b''] example_arrivals (None, False) =
   ([ToolCallDeltaChunk ''a.b'' ''t1'' ''{'', ToolCallDeltaChunk ''a.b'' ''t1'' ''}'', ToolCallChunk example_call,
     UsageChunk (no_usage\<lparr>us_input := 3, us_output := 2, us_total := 5\<rparr>), StopChunk ''tool_use''],
    Inr \<lparr>rs_content = [assistant_message [ToolUsePart \<lparr>tu_id = ''t1'', tu_name = ''a.b'', tu_input = ''{}'', tu_thought_signature = []\<rparr>] None],
         rs_usage = no_usage\<lparr>us_input := 3, us_output := 2, us_total := 5\<rparr>, rs_stop_reason = ''tool_use''\<rparr>)"
  by (simp add: run_def example_arrivals_def run_event_def example_accumulate_def Handle_def newAnthropicChunkProcessor_def emit_def
      emit_to_def stop_thinking_def stop_tool_def finalInput_def decodeToolPayload_def trim_empty_object json_valid_empty_object Let_def
      example_usage_def example_blank_def example_call_def wrap64_def no_usage_def translateResponse_def response_block_def
      response_usage_def ValidateResponse_def validateResponseMessage_def assistant_message_def metadata_of_def
      MarshalMetadata_def value_text_def validateTokenUsage_def model_classes_def validateToolCall_def call_of_def)

theorem anthropic_stream_contract_witness:
  "\<exists>out res. run (\<lambda>m e. []) (\<lambda>n. True) example_accumulate id example_blank [''ab'' \<mapsto> ''a.b''] example_arrivals (None, False) = (out, Inr res) \<and>
     stopped out \<and> length (filter is_stop out) \<le> 1"
proof -
  have "\<forall>e. Arrives e \<in> set example_arrivals \<longrightarrow> legal_event e" "[] \<notin> ran [''ab'' \<mapsto> ''a.b'']"
    by (auto simp: example_arrivals_def good_usage_def example_usage_def)
  from anthropic_stream_contract [OF this example_anthropic_run] show ?thesis
    using example_anthropic_run by blast
qed

theorem tool_calls_repeat_deltas_witness:
  "\<exists>out res. run (\<lambda>m e. []) (\<lambda>n. True) example_accumulate id example_blank [''ab'' \<mapsto> ''a.b''] example_arrivals (None, False) = (out, res) \<and>
     ToolCallChunk example_call \<in> set out \<and> mc_payload example_call = payload_of (deltas_of ''t1'' out)"
proof -
  have "distinct (tool_ids example_arrivals)" by (simp add: tool_ids_def example_arrivals_def)
  from tool_calls_repeat_deltas [OF this example_anthropic_run [of "\<lambda>m e. []"]] show ?thesis
    using example_anthropic_run [of "\<lambda>m e. []"] by (auto simp: example_call_def)
qed

end
