(* ===== verification/Json_Members.thy ===== *)
theory Json_Members
  imports Json_Text
begin

section \<open>Members of documents are documents\<close>

text \<open>
  What \<open>encoding/json\<close> reads ends where the value ends: text after it may be cut off without changing what is
  read. So the raw text of a member that decoding into \<open>map[string]json.RawMessage\<close> yields is a JSON
  document of its own.
\<close>

declare dropWhile_eq_Nil_conv [simp del]

lemma hex4_prefix: "hex4 x = Some w \<Longrightarrow> hex4 (take 4 x @ y) = Some w"
  by (auto simp: hex4_def numeral_eq_Suc split: list.splits)

lemma surrogate_prefix: "surrogate_pair u x = Some v \<Longrightarrow> surrogate_pair u (take 6 x @ y) = Some v"
proof -
  assume s: "surrogate_pair u x = Some v"
  then obtain a b t' w where x: "x = a # b # t'" "a = escape_char" "b = CHR ''u''" "hex4 t' = Some w"
    by (auto simp: surrogate_pair_def split: list.splits if_splits option.splits)
  have "take 6 x @ y = a # b # take 4 t' @ y" using x(1) by (simp add: numeral_eq_Suc)
  then show ?thesis using s x hex4_prefix [OF x(4), of y] by (simp add: surrogate_pair_def)
qed

lemma unescape_prefix:
  assumes "unescape s = Some (bs, k)" "k \<le> length s" "drop k s = x @ y"
  shows "unescape (take k s @ x) = Some (bs, k)"
proof -
  obtain e t where s: "s = e # t" using assms(1) by (cases s) (simp_all add: unescape_def)
  show ?thesis
  proof (cases "e = CHR ''u''")
    case False
    then show ?thesis using assms(1) s by (auto simp: unescape_def split: if_splits option.splits)
  next
    case True
    then obtain u where u: "hex4 t = Some u" using assms(1) s by (auto simp: unescape_def split: option.splits)
    have k: "k = 5 \<or> k = 11" using assms(1) s True u by (auto simp: unescape_def split: if_splits option.splits)
    have t4: "4 \<le> length t" using u by (auto simp: hex4_def split: list.splits)
    have pre: "take k s @ x = e # take (k - 1) t @ x" using s k by (auto simp: numeral_eq_Suc)
    have hex: "hex4 (take (k - 1) t @ x) = Some u"
    proof -
      have "take 4 (take (k - 1) t) = take 4 t" using k by auto
      then have "take (k - 1) t = take 4 t @ drop 4 (take (k - 1) t)" by (metis append_take_drop_id)
      then show ?thesis using hex4_prefix [OF u, of "drop 4 (take (k - 1) t) @ x"] by (metis append.assoc)
    qed
    show ?thesis
    proof (cases "55296 \<le> u \<and> u < 57344")
      case False
      then show ?thesis using assms(1) s True u pre hex by (auto simp: unescape_def split: if_splits)
    next
      case range: True
      show ?thesis
      proof (cases "surrogate_pair u (drop 4 t)")
        case (Some v)
        then have "k = 11" using assms(1) s True u range by (simp add: unescape_def)
        then have "drop 4 (take (k - 1) t @ x) = take 6 (drop 4 t) @ x"
          using assms(2) s by (simp add: drop_take)
        then show ?thesis using surrogate_prefix [OF Some, of x] assms(1) s True u range pre hex Some by (simp add: unescape_def)
      next
        case None
        then have "k = 5" using assms(1) s True u range by (simp add: unescape_def)
        then have d: "drop 4 (take (k - 1) t @ x) = x" "drop 4 t = x @ y" using t4 assms(3) s by simp_all
        have "surrogate_pair u x = None"
        proof (rule ccontr)
          assume "surrogate_pair u x \<noteq> None"
          then obtain v where v: "surrogate_pair u x = Some v" by blast
          have "surrogate_pair u (x @ y) = Some v" using surrogate_prefix [OF v, of "drop 6 x @ y"] by (metis append.assoc append_take_drop_id)
          then show False using None d(2) by simp
        qed
        then show ?thesis using assms(1) s True u range pre hex None d(1) by (simp add: unescape_def)
      qed
    qed
  qed
qed

lemma body_cut: "parse_body s = Some (b, x @ y) \<Longrightarrow> \<exists>u. s = u @ x @ y \<and> parse_body (u @ x) = Some (b, x)"
proof (induction s arbitrary: b rule: parse_body.induct)
  case (2 c s)
  consider "c = quote_char" | "c \<noteq> quote_char" "c = escape_char" | "c \<noteq> quote_char" "c \<noteq> escape_char" by blast
  then show ?case
  proof cases
    case 1
    then show ?thesis using 2(3) by (intro exI [of _ "[c]"]) simp
  next
    case esc: 2
    with 2(3) obtain bs k b' where un: "unescape s = Some (bs, k)" "parse_body (drop k s) = Some (b', x @ y)" "b = bs @ b'"
      by (auto split: option.splits)
    from 2(1) [OF esc un(1) refl un(2)] obtain u where u: "drop k s = u @ x @ y" "parse_body (u @ x) = Some (b', x)" by blast
    have k: "k \<le> length s" using un(2) by (cases "k \<le> length s") simp_all
    have "unescape (take k s @ u @ x) = Some (bs, k)" using unescape_prefix [OF un(1) k, of "u @ x" y] u(1) by simp
    moreover have "drop k (take k s @ u @ x) = u @ x" using k by simp
    ultimately have "parse_body (c # take k s @ u @ x) = Some (b, x)" using esc u(2) un(3) by simp
    moreover have "s = take k s @ u @ x @ y" using u(1) by (metis append_take_drop_id)
    ultimately show ?thesis by (intro exI [of _ "c # take k s @ u"]) simp
  next
    case plain: 3
    with 2(3) obtain b' where b: "parse_body s = Some (b', x @ y)" "b = c # b'" "\<not> byte c < 32"
      by (auto split: if_splits)
    from 2(2) [OF plain b(3,1)] obtain u where "s = u @ x @ y" "parse_body (u @ x) = Some (b', x)" by blast
    then show ?thesis using plain b by (intro exI [of _ "c # u"]) simp
  qed
qed simp

lemma string_cut: "parse_string s = Some (b, x @ y) \<Longrightarrow> \<exists>u. s = u @ x @ y \<and> parse_string (u @ x) = Some (b, x)"
  by (force simp: parse_string_def dest: body_cut)

lemma while_stops: "\<forall>c \<in> set n. P c \<Longrightarrow> x = [] \<or> \<not> P (hd x) \<Longrightarrow> takeWhile P (n @ x) = n \<and> dropWhile P (n @ x) = x"
  by (cases x) (simp_all add: dropWhile_eq_Nil_conv)

lemma scalar_cut: "parse_scalar s = Some (v, x @ y) \<Longrightarrow> \<exists>u. s = u @ x @ y \<and> parse_scalar (u @ x) = Some (v, x)"
proof -
  assume a: "parse_scalar s = Some (v, x @ y)"
  have lit: "\<exists>u. s = u @ x @ y \<and> parse_scalar (u @ x) = Some (v, x)"
    if "take n s = w" "v = c" "drop n s = x @ y" "length w = n" "\<And>z. parse_scalar (w @ z) = Some (c, z)" for n w c
    using that by (intro exI [of _ w]) (metis append_take_drop_id)
  consider "take 4 s = ''null''" "v = JNull" "drop 4 s = x @ y"
    | "take 4 s = ''true''" "v = JBool True" "drop 4 s = x @ y"
    | "take 5 s = ''false''" "v = JBool False" "drop 5 s = x @ y"
    | "valid_number (takeWhile number_char s)" "v = JNum (takeWhile number_char s)" "dropWhile number_char s = x @ y"
    using a by (auto simp: parse_scalar_def split: if_splits)
  then show ?thesis
  proof cases
    case 4
    let ?n = "takeWhile number_char s"
    have s: "s = ?n @ x @ y" using 4(3) by (metis takeWhile_dropWhile_id)
    have x: "x = [] \<or> \<not> number_char (hd x)"
      using hd_dropWhile [of number_char s] 4(3) by (cases x) simp_all
    have n: "\<forall>c \<in> set ?n. number_char c" by (blast dest: set_takeWhileD)
    have tw: "takeWhile number_char (?n @ x) = ?n" "dropWhile number_char (?n @ x) = x"
      using while_stops [OF n x] by blast+
    obtain c u where c: "?n = c # u" "c = CHR ''-'' \<or> is_digit c" using 4(1) by (rule number_start)
    then have "c \<notin> {CHR ''n'', CHR ''t'', CHR ''f''}" by (auto simp: is_digit_def)
    then have "take 4 (?n @ x) \<noteq> ''null''" "take 4 (?n @ x) \<noteq> ''true''" "take 5 (?n @ x) \<noteq> ''false''"
      using c(1) by (simp_all add: numeral_eq_Suc)
    then have "parse_scalar (?n @ x) = Some (v, x)" using 4(1,2) tw by (simp add: parse_scalar_def)
    then show ?thesis using s by metis
  next
    case 1
    show ?thesis by (rule lit [of 4 "''null''" JNull]) (use 1 in \<open>simp_all add: parse_scalar_def\<close>)
  next
    case 2
    show ?thesis by (rule lit [of 4 "''true''" "JBool True"]) (use 2 in \<open>simp_all add: parse_scalar_def\<close>)
  next
    case 3
    show ?thesis by (rule lit [of 5 "''false''" "JBool False"]) (use 3 in \<open>simp_all add: parse_scalar_def\<close>)
  qed
qed

lemma ws_cut: "skip_ws s = t @ z \<Longrightarrow> t \<noteq> [] \<Longrightarrow> \<exists>w. s = w @ t @ z \<and> (\<forall>z'. skip_ws (w @ t @ z') = t @ z')"
proof -
  assume s: "skip_ws s = t @ z" and t: "t \<noteq> []"
  let ?w = "takeWhile json_space s"
  have w: "\<forall>c \<in> set ?w. json_space c" by (blast dest: set_takeWhileD)
  have "\<not> json_space (hd t)" using hd_dropWhile [of json_space s] s t by simp
  then have "skip_ws (?w @ t @ z') = t @ z'" for z' using w t by (cases t) simp_all
  moreover have "s = ?w @ t @ z" using s by (metis takeWhile_dropWhile_id)
  ultimately show ?thesis by blast
qed

lemma consumed_append: "consumed (u @ x) x = skip_ws u"
proof (cases "\<forall>c \<in> set u. json_space c")
  case True
  then have "skip_ws (u @ x) = skip_ws x" "skip_ws u = []" by (simp_all add: dropWhile_eq_Nil_conv)
  moreover have "length (skip_ws x) \<le> length x" by (rule length_dropWhile_le)
  ultimately show ?thesis by (simp add: consumed_def)
next
  case False
  then have "skip_ws (u @ x) = skip_ws u @ x" by (auto simp: dropWhile_append)
  then show ?thesis by (simp add: consumed_def)
qed

lemma head_kept: "skip_ws (a @ b) = d # r \<Longrightarrow> skip_ws a \<noteq> [] \<Longrightarrow> \<exists>r'. skip_ws a = d # r'"
proof -
  assume a: "skip_ws (a @ b) = d # r" "skip_ws a \<noteq> []"
  then have "\<not> (\<forall>c \<in> set a. json_space c)" by (simp add: dropWhile_eq_Nil_conv)
  then have "skip_ws (a @ b) = skip_ws a @ b" unfolding dropWhile_append by metis
  then show ?thesis using a by (cases "skip_ws a") simp_all
qed

lemma lists_start: "parse_elems n a = Some (vs, r) \<Longrightarrow> skip_ws a \<noteq> []" "parse_members n a = Some (ms, r) \<Longrightarrow> skip_ws a \<noteq> []"
proof -
  show "skip_ws a \<noteq> []" if e: "parse_elems n a = Some (vs, r)"
  proof (cases n)
    case (Suc m)
    obtain v r0 where "parse_value m a = Some (v, r0)" using e unfolding Suc elems_Some by blast
    then show ?thesis by (cases m) (auto split: list.splits)
  qed (use e in simp)
  show "skip_ws a \<noteq> []" if "parse_members n a = Some (ms, r)"
    using that by (cases n) (auto simp: members_Some)
qed

lemma value_cut:
  shows "parse_value n s = Some (v, x @ y) \<Longrightarrow> \<exists>u. s = u @ x @ y \<and> parse_value n (u @ x) = Some (v, x)"
    and "parse_elems n s = Some (vs, x @ y) \<Longrightarrow> \<exists>u. s = u @ x @ y \<and> parse_elems n (u @ x) = Some (vs, x)"
    and "parse_members n s = Some (ms, x @ y) \<Longrightarrow> \<exists>u. s = u @ x @ y \<and> parse_members n (u @ x) = Some (ms, x)"
proof (induction n s and n s and n s arbitrary: v x y and vs x y and ms x y rule: parse_value_parse_elems_parse_members.induct)
  case (2 n s)
  from 2(3) obtain c t where c: "skip_ws s = c # t" by (auto split: list.splits)
  obtain w where w: "s = w @ [c] @ t" "\<And>z. skip_ws (w @ [c] @ z) = [c] @ z" using ws_cut [of s "[c]" t] c by auto
  have close: ?case if "t = u @ x @ y" "skip_ws (w @ [c] @ u @ x) = c # u @ x \<Longrightarrow> parse_value (Suc n) (w @ [c] @ u @ x) = Some (v, x)" for u
    using that w by (intro exI [of _ "w @ [c] @ u"]) simp
  consider "c = CHR ''{''" | "c = CHR ''[''" | "c = quote_char" | "c \<notin> {CHR ''{'', CHR ''['', quote_char}" by blast
  then show ?case
  proof cases
    case 1
    from 2(3) c 1 obtain d r where d: "skip_ws t = d # r" by (auto split: list.splits)
    show ?thesis
    proof (cases "d = CHR ''}''")
      case True
      obtain w' where w': "t = w' @ [d] @ r" "\<And>z. skip_ws (w' @ [d] @ z) = [d] @ z" using ws_cut [of t "[d]" r] d by auto
      have r: "r = x @ y" "v = JObj []" using 2(3) c 1 d True by simp_all
      show ?thesis by (rule close [of "w' @ [d]"]) (use w'(1) r w'(2) [of x] 1 True in auto)
    next
      case False
      with 2(3) c 1 d obtain ms where m: "parse_members n t = Some (ms, x @ y)" "v = JObj (map (\<lambda>m. (fst m, snd (snd m))) ms)"
        by auto
      from 2(1) [OF c 1 d False m(1)] obtain u where u: "t = u @ x @ y" "parse_members n (u @ x) = Some (ms, x)" by blast
      have "\<exists>r'. skip_ws (u @ x) = d # r'" using head_kept [of "u @ x" y d r] d u lists_start(2) by auto
      then show ?thesis using close [OF u(1)] 1 False u(2) m(2) by auto
    qed
  next
    case 2
    from \<open>parse_value (Suc n) s = Some (v, x @ y)\<close> c 2 obtain d r where d: "skip_ws t = d # r" by (auto split: list.splits)
    have c': "c \<noteq> CHR ''{''" using 2 by simp
    show ?thesis
    proof (cases "d = CHR '']''")
      case True
      obtain w' where w': "t = w' @ [d] @ r" "\<And>z. skip_ws (w' @ [d] @ z) = [d] @ z" using ws_cut [of t "[d]" r] d by auto
      have r: "r = x @ y" "v = JArr []" using \<open>parse_value (Suc n) s = Some (v, x @ y)\<close> c 2 d True by simp_all
      show ?thesis by (rule close [of "w' @ [d]"]) (use w'(1) r w'(2) [of x] 2 True in auto)
    next
      case False
      with \<open>parse_value (Suc n) s = Some (v, x @ y)\<close> c 2 d obtain es where m: "parse_elems n t = Some (es, x @ y)" "v = JArr (map snd es)"
        by auto
      from "2.IH"(2) [OF c c' 2 d False m(1)] obtain u where u: "t = u @ x @ y" "parse_elems n (u @ x) = Some (es, x)" by blast
      have "\<exists>r'. skip_ws (u @ x) = d # r'" using head_kept [of "u @ x" y d r] d u lists_start(1) by auto
      then show ?thesis using close [OF u(1)] 2 False u(2) m(2) by auto
    qed
  next
    case 3
    with 2(3) c obtain b where b: "parse_string t = Some (b, x @ y)" "v = JStr b" by auto
    from string_cut [OF b(1)] obtain u where u: "t = u @ x @ y" "parse_string (u @ x) = Some (b, x)" by blast
    show ?thesis by (rule close [OF u(1)]) (use 3 u(2) b(2) in simp)
  next
    case 4
    with 2(3) c have "parse_scalar (c # t) = Some (v, x @ y)" by simp
    from scalar_cut [OF this] obtain u where u: "c # t = u @ x @ y" "parse_scalar (u @ x) = Some (v, x)" by blast
    have "u \<noteq> []" using parse_scalar_shorter [OF u(2)] by auto
    then obtain u' where "u = c # u'" "t = u' @ x @ y" using u(1) by (cases u) auto
    then show ?thesis using close [of u'] 4 u(2) by simp
  qed
next
  case (4 n s)
  from 4(3) obtain v r0 c t where v: "parse_value n s = Some (v, r0)" "skip_ws r0 = c # t" and
    rest: "c = CHR '']'' \<and> vs = [(consumed s r0, v)] \<and> x @ y = t \<or>
       c = CHR '','' \<and> (\<exists>ws. parse_elems n t = Some (ws, x @ y) \<and> vs = (consumed s r0, v) # ws)"
    by (auto simp: elems_Some)
  have "\<exists>u ws. t = u @ x @ y \<and> (c = CHR '']'' \<and> ws = [] \<and> u = [] \<or> c = CHR '','' \<and> parse_elems n (u @ x) = Some (ws, x)) \<and> vs = (consumed s r0, v) # ws"
    using rest
  proof (elim disjE conjE exE)
    fix ws assume "c = CHR '',''" "parse_elems n t = Some (ws, x @ y)" "vs = (consumed s r0, v) # ws"
    with 4(2) [OF v(1) refl v(2)] show ?thesis by fastforce
  qed auto
  then obtain u ws where u: "t = u @ x @ y" "c = CHR '']'' \<and> ws = [] \<and> u = [] \<or> c = CHR '','' \<and> parse_elems n (u @ x) = Some (ws, x)"
    "vs = (consumed s r0, v) # ws" by blast
  obtain w where w: "r0 = w @ [c] @ t" "\<And>z. skip_ws (w @ [c] @ z) = [c] @ z" using ws_cut [of r0 "[c]" t] v(2) by auto
  have r0: "r0 = (w @ [c] @ u @ x) @ y" using w(1) u(1) by simp
  from 4(1) [OF v(1) [unfolded r0]] obtain p where p: "s = p @ (w @ [c] @ u @ x) @ y" "parse_value n (p @ w @ [c] @ u @ x) = Some (v, w @ [c] @ u @ x)"
    by auto
  have "consumed s r0 = consumed (p @ w @ [c] @ u @ x) (w @ [c] @ u @ x)"
    using consumed_append [of p] p(1) r0 by (metis append.assoc)
  then have "parse_elems (Suc n) ((p @ w @ [c] @ u) @ x) = Some (vs, x)"
    using p(2) u(2,3) w(2) [of "u @ x"] by (auto simp: elems_Some)
  then show ?case using p(1) by (intro exI [of _ "p @ w @ [c] @ u"]) simp
next
  case (6 n s)
  from 6(3) obtain t k r1 u v r0 d w where parts: "skip_ws s = quote_char # t" "parse_string t = Some (k, r1)" "skip_ws r1 = CHR '':'' # u"
      "parse_value n u = Some (v, r0)" "skip_ws r0 = d # w" and
    rest: "d = CHR ''}'' \<and> ms = [(k, consumed u r0, v)] \<and> x @ y = w \<or>
       d = CHR '','' \<and> (\<exists>ns. parse_members n w = Some (ns, x @ y) \<and> ms = (k, consumed u r0, v) # ns)"
    unfolding members_Some by blast
  have "\<exists>p ns. w = p @ x @ y \<and> (d = CHR ''}'' \<and> ns = [] \<and> p = [] \<or> d = CHR '','' \<and> parse_members n (p @ x) = Some (ns, x)) \<and>
      ms = (k, consumed u r0, v) # ns"
    using rest
  proof (elim disjE conjE exE)
    fix ns assume "d = CHR '',''" "parse_members n w = Some (ns, x @ y)" "ms = (k, consumed u r0, v) # ns"
    with "6.IH"(2) [OF parts(1) _ parts(2) refl parts(3) _ parts(4) refl parts(5)] show ?thesis by fastforce
  qed auto
  then obtain p ns where p: "w = p @ x @ y" "d = CHR ''}'' \<and> ns = [] \<and> p = [] \<or> d = CHR '','' \<and> parse_members n (p @ x) = Some (ns, x)"
    "ms = (k, consumed u r0, v) # ns" by blast
  obtain w0 where w0: "r0 = w0 @ [d] @ w" "\<And>z. skip_ws (w0 @ [d] @ z) = [d] @ z" using ws_cut [of r0 "[d]" w] parts(5) by auto
  let ?tail = "w0 @ [d] @ p @ x"
  have r0: "r0 = ?tail @ y" using w0(1) p(1) by simp
  from "6.IH"(1) [OF parts(1) _ parts(2) refl parts(3) _ parts(4) [unfolded r0]]
  obtain q where q: "u = q @ ?tail @ y" "parse_value n (q @ ?tail) = Some (v, ?tail)" by auto
  obtain w1 where w1: "r1 = w1 @ [CHR '':''] @ u" "\<And>z. skip_ws (w1 @ [CHR '':''] @ z) = [CHR '':''] @ z"
    using ws_cut [of r1 "[CHR '':'']" u] parts(3) by auto
  have r1: "r1 = (w1 @ [CHR '':''] @ q @ ?tail) @ y" using w1(1) q(1) by simp
  from string_cut [OF parts(2) [unfolded r1]]
  obtain q1 where q1: "t = q1 @ (w1 @ [CHR '':''] @ q @ ?tail) @ y" "parse_string (q1 @ w1 @ [CHR '':''] @ q @ ?tail) = Some (k, w1 @ [CHR '':''] @ q @ ?tail)"
    by auto
  obtain w2 where w2: "s = w2 @ [quote_char] @ t" "\<And>z. skip_ws (w2 @ [quote_char] @ z) = [quote_char] @ z"
    using ws_cut [of s "[quote_char]" t] parts(1) by auto
  let ?all = "w2 @ [quote_char] @ q1 @ w1 @ [CHR '':''] @ q @ w0 @ [d] @ p"
  have "consumed u r0 = consumed (q @ ?tail) ?tail" using consumed_append [of q] q(1) r0 by (metis append.assoc)
  moreover have "skip_ws (?all @ x) = quote_char # q1 @ w1 @ [CHR '':''] @ q @ ?tail" using w2(2) [of "q1 @ w1 @ [CHR '':''] @ q @ ?tail"] by simp
  moreover have "skip_ws (w1 @ [CHR '':''] @ q @ ?tail) = CHR '':'' # q @ ?tail" using w1(2) [of "q @ ?tail"] by simp
  moreover have "skip_ws ?tail = d # p @ x" using w0(2) [of "p @ x"] by simp
  ultimately have "parse_members (Suc n) (?all @ x) = Some (ms, x)"
    using q1(2) q(2) p(2,3) unfolding members_Some by blast
  moreover have "s = ?all @ x @ y" using w2(1) q1(1) by simp
  ultimately show ?case by blast
qed simp_all

text \<open>The text of every value that is read is a document.\<close>

lemma consumed_valid:
  assumes "parse_value n s = Some (v, r)" shows "json_valid (consumed s r)"
proof -
  from value_cut(1) [of n s v "[]" r] assms obtain u where u: "s = u @ r" "parse_value n u = Some (v, [])" by auto
  have "parse_value n (skip_ws u) = Some (v, [])" using u(2) by (cases n) simp_all
  then have "parse_value (Suc (length (skip_ws u))) (skip_ws u) = Some (v, [])"
    using fuel_enough(1) [of n "skip_ws u" v "[]"] by (simp del: parse_value.simps)
  then show ?thesis using consumed_append [of u r] u(1) by (simp add: json_parse_def del: parse_value.simps)
qed

lemma members_valid: "parse_members n s = Some (ms, r) \<Longrightarrow> m \<in> set ms \<Longrightarrow> json_valid (fst (snd m))"
proof (induction n arbitrary: s ms r)
  case (Suc n)
  then obtain k u v r0 w where "parse_value n u = Some (v, r0)"
      "ms = [(k, consumed u r0, v)] \<or> (\<exists>ns. parse_members n w = Some (ns, r) \<and> ms = (k, consumed u r0, v) # ns)"
    unfolding members_Some by blast
  then show ?case using Suc.IH Suc.prems(2) consumed_valid by auto
qed simp

lemma object_members_valid: "object_members s = Some ms \<Longrightarrow> m \<in> set ms \<Longrightarrow> json_valid (snd m)"
proof -
  assume o: "object_members s = Some ms" "m \<in> set ms"
  then obtain n t ms' r where "parse_members n t = Some (ms', r)" "ms = map (\<lambda>x. (fst x, fst (snd x))) ms'"
    by (fastforce simp: object_members_def split: list.splits if_splits)
  with o(2) members_valid show ?thesis by fastforce
qed

declare dropWhile_eq_Nil_conv [simp]

end
