(* ===== verification/Bedrock_Stream.thy ===== *)
theory Bedrock_Stream
  imports Model_Streams Json_Members "HOL-Library.AList"
begin

section \<open>The Bedrock stream\<close>

text \<open>
  \<open>features/model/bedrock/stream.go\<close> with the removal of the wrapper of structured completions in
  \<open>structured_output_tool.go\<close>. The adapter assembles the response of a stream itself, out of the events it
  translates into chunks. Events are values of the SDK, whose pointers are options here and whose members
  the code does not know are \<open>Other\<close> constructors.
\<close>

subsection \<open>Events\<close>

datatype reasoning_delta =
    ReasoningText string
  | ReasoningRedacted string
  | ReasoningSignature string
  | OtherReasoning string

record sdk_location =
  sl_document_index :: "int option"
  sl_start :: "int option"
  sl_end :: "int option"

datatype sdk_citation_location =
    LocationChar sdk_location
  | LocationChunk sdk_location
  | LocationPage sdk_location
  | OtherLocation string

record sdk_citation_delta =
  sd_location :: sdk_citation_location
  sd_source_content :: "string option list"
  sd_title :: "string option"
  sd_source :: "string option"

datatype block_start = ToolUseStart "string option" "string option" | OtherStart string

datatype block_delta =
    TextDelta string
  | CitationDelta sdk_citation_delta
  | ReasoningDelta reasoning_delta
  | ToolUseDelta "string option"
  | OtherDelta string

record sdk_usage =
  su_input :: "int option"
  su_output :: "int option"
  su_total :: "int option"
  su_cache_read :: "int option"
  su_cache_write :: "int option"

datatype event =
    MessageStart
  | ContentBlockStart "int option" "block_start option"
  | ContentBlockDelta "int option" block_delta
  | ContentBlockStop "int option"
  | MessageStop string
  | Metadata "sdk_usage option"
  | OtherEvent string

subsection \<open>Buffers\<close>

record tool_buffer =
  tb_name :: string
  tb_id :: string
  tb_fragments :: "string list"

record completion_buffer =
  cb_name :: string
  cb_index :: int
  cb_fragments :: "string list"

record reasoning_buffer =
  rb_text :: string
  rb_redacted :: string
  rb_signature :: string

definition finalInput :: "tool_buffer \<Rightarrow> string" where
  "finalInput tb =
     (if tb_fragments tb = [] then ''{}''
      else let joined = concat (tb_fragments tb) in if joined = [] then ''{}'' else joined)"

definition finalPayload :: "completion_buffer \<Rightarrow> (stream_error, string) result" where
  "finalPayload cb =
     (if cb_fragments cb = [] then Inl (Protocol ''structured completion payload is empty'')
      else let trimmed = trim_space (concat (cb_fragments cb))
           in if trimmed = [] then Inl (Protocol ''structured completion payload is empty'')
              else if \<not> json_valid trimmed then Inl (Protocol ''structured completion payload is not valid JSON'')
              else Inr trimmed)"

definition decodeToolPayload :: "string \<Rightarrow> (stream_error, string) result" where
  "decodeToolPayload raw =
     (let trimmed = trim_space raw
      in if trimmed = [] then Inr ''{}''
         else if \<not> json_valid trimmed then Inl (Protocol ''tool payload is not valid JSON'')
         else Inr trimmed)"

text \<open>The index and the final flag are set by the caller.\<close>

definition finalize :: "reasoning_buffer \<Rightarrow> (stream_error, thinking_part option) result" where
  "finalize rb =
     (if rb_redacted rb \<noteq> []
      then (if rb_text rb \<noteq> [] \<or> rb_signature rb \<noteq> []
            then Inl (Protocol ''reasoning block contains both redacted and plaintext content'')
            else Inr (Some \<lparr>th_text = [], th_signature = [], th_redacted = rb_redacted rb, th_index = 0, th_final = False\<rparr>))
      else if rb_text rb = [] \<and> rb_signature rb = [] then Inr None
      else if rb_signature rb = [] then Inl (Protocol ''reasoning plaintext is missing provider signature'')
      else Inr (Some \<lparr>th_text = rb_text rb, th_signature = rb_signature rb, th_redacted = [], th_index = 0, th_final = False\<rparr>))"

definition contentIndex :: "int option \<Rightarrow> (stream_error, int) result" where
  "contentIndex i = (case i of None \<Rightarrow> Inl (Protocol ''bedrock: content block index missing'') | Some n \<Rightarrow> Inr n)"

definition int32Value :: "int option \<Rightarrow> int" where
  "int32Value i = (case i of None \<Rightarrow> 0 | Some n \<Rightarrow> n)"

definition location_span :: "sdk_location \<Rightarrow> span" where
  "location_span l = \<lparr>span_document_index = int32Value (sl_document_index l), span_start = int32Value (sl_start l), span_end = int32Value (sl_end l)\<rparr>"

fun translateCitationLocationDelta :: "sdk_citation_location \<Rightarrow> (stream_error, citation_location) result" where
  "translateCitationLocationDelta (LocationChar l) = Inr \<lparr>loc_char = Some (location_span l), loc_chunk = None, loc_page = None\<rparr>"
| "translateCitationLocationDelta (LocationChunk l) = Inr \<lparr>loc_char = None, loc_chunk = Some (location_span l), loc_page = None\<rparr>"
| "translateCitationLocationDelta (LocationPage l) = Inr \<lparr>loc_char = None, loc_chunk = None, loc_page = Some (location_span l)\<rparr>"
| "translateCitationLocationDelta (OtherLocation t) = Inl (Protocol ''bedrock stream: unsupported citation location'')"

definition translateCitationSourceContentDelta :: "string option list \<Rightarrow> string list" where
  "translateCitationSourceContentDelta contents = filter (\<lambda>t. t \<noteq> []) (map the (filter (\<lambda>c. c \<noteq> None) contents))"

definition translateCitationDelta :: "sdk_citation_delta \<Rightarrow> (stream_error, citation) result" where
  "translateCitationDelta d =
     (case translateCitationLocationDelta (sd_location d) of
        Inl err \<Rightarrow> Inl err
      | Inr location \<Rightarrow>
          Inr \<lparr>cit_title = (case sd_title d of None \<Rightarrow> [] | Some t \<Rightarrow> t), cit_source = (case sd_source d of None \<Rightarrow> [] | Some t \<Rightarrow> t),
               cit_location = location, cit_source_content = translateCitationSourceContentDelta (sd_source_content d)\<rparr>)"

definition functions_prefix :: string where
  "functions_prefix = ''$FUNCTIONS.''"

definition normalizeToolName :: "string \<Rightarrow> string" where
  "normalizeToolName name =
     (if take (length functions_prefix) name = functions_prefix then drop (length functions_prefix) name else name)"

text \<open>The payload was checked to be JSON before, so the decoder reads the members of an object in order.\<close>

fun unwrap_fields :: "string option \<Rightarrow> (string \<times> string) list \<Rightarrow> (stream_error, string) result" where
  "unwrap_fields None [] = Inl (Protocol ''structured output tool envelope is missing required field'')"
| "unwrap_fields (Some value) [] = Inr value"
| "unwrap_fields cur ((field, raw) # ms) =
     (if field \<noteq> ''value'' then Inl (Protocol ''decode structured output tool envelope: unknown field'')
      else if cur \<noteq> None then Inl (Protocol ''decode structured output tool envelope: duplicate field'')
      else unwrap_fields (Some raw) ms)"

definition unwrapStructuredOutputValue :: "string \<Rightarrow> (stream_error, string) result" where
  "unwrapStructuredOutputValue payload =
     (case object_members payload of
        None \<Rightarrow> Inl (Protocol ''decode structured output tool envelope: expected object'')
      | Some members \<Rightarrow> unwrap_fields None members)"

subsection \<open>The processor\<close>

record processor =
  bp_out :: "chunk list"
  bp_tools :: "int \<rightharpoonup> tool_buffer"
  bp_completion :: "completion_buffer option"
  bp_reasoning :: "int \<rightharpoonup> reasoning_buffer"
  bp_text :: "int \<rightharpoonup> string"
  bp_citations :: "int \<rightharpoonup> citation list"
  bp_parts :: "(int \<times> part) list"
  bp_open :: "int set"
  bp_names :: "string \<rightharpoonup> string"
  bp_model_id :: string
  bp_model_class :: string
  bp_output :: "structured_output option"
  bp_fallback :: string
  bp_stop_reason :: string
  bp_usage :: token_usage
  bp_started :: bool
  bp_complete :: bool
  bp_terminal :: bool

definition newChunkProcessor ::
  "(string \<rightharpoonup> string) \<Rightarrow> string \<Rightarrow> string \<Rightarrow> structured_output option \<Rightarrow> string \<Rightarrow> processor" where
  "newChunkProcessor names modelID modelClass output fallback =
     \<lparr>bp_out = [], bp_tools = Map.empty, bp_completion = None, bp_reasoning = Map.empty, bp_text = Map.empty,
      bp_citations = Map.empty, bp_parts = [], bp_open = {}, bp_names = names, bp_model_id = modelID,
      bp_model_class = modelClass, bp_output = output, bp_fallback = fallback, bp_stop_reason = [],
      bp_usage = no_usage, bp_started = False, bp_complete = False, bp_terminal = False\<rparr>"

definition emit :: "(nat \<Rightarrow> bool) \<Rightarrow> chunk \<Rightarrow> processor \<Rightarrow> processor \<times> (stream_error, unit) result" where
  "emit live c p = (case emit_to live c (bp_out p) of (out, r) \<Rightarrow> (p\<lparr>bp_out := out\<rparr>, r))"

definition finishStream :: "(nat \<Rightarrow> bool) \<Rightarrow> processor \<Rightarrow> processor \<times> (stream_error, unit) result" where
  "finishStream live p =
     (if bp_terminal p then (p, Inr ())
      else if \<not> bp_complete p \<or> bp_stop_reason p = [] then (p, Inl (Protocol ''bedrock stream: cannot finish before message stop''))
      else emit live (StopChunk (bp_stop_reason p)) (p\<lparr>bp_terminal := True\<rparr>))"

definition handleCompletionDelta ::
  "(nat \<Rightarrow> bool) \<Rightarrow> int \<Rightarrow> string \<Rightarrow> processor \<Rightarrow> processor \<times> (stream_error, unit) result" where
  "handleCompletionDelta live idx t p =
     (case bp_output p of
        None \<Rightarrow> (p, Inl (Protocol ''bedrock stream: completion delta requested without structured output''))
      | Some out \<Rightarrow>
          (let cb = (case bp_completion p of None \<Rightarrow> \<lparr>cb_name = so_name out, cb_index = idx, cb_fragments = []\<rparr> | Some cb \<Rightarrow> cb)
           in if cb_index cb \<noteq> idx
              then (p, Inl (Protocol ''bedrock stream: structured output spanned multiple content blocks''))
              else (let p' = p\<lparr>bp_completion := Some (cb\<lparr>cb_fragments := cb_fragments cb @ [t]\<rparr>)\<rparr>
                    in if bp_fallback p \<noteq> [] then (p', Inr ())
                       else emit live (CompletionDeltaChunk (cb_name cb) t) p')))"

definition finalizeCompletion :: "(nat \<Rightarrow> bool) \<Rightarrow> int \<Rightarrow> processor \<Rightarrow> processor \<times> (stream_error, unit) result" where
  "finalizeCompletion live idx p =
     (case bp_completion p of
        None \<Rightarrow> (p, Inr ())
      | Some cb \<Rightarrow>
          if cb_index cb \<noteq> idx then (p, Inr ())
          else (case finalPayload cb of
                  Inl err \<Rightarrow> (p, Inl (BadPayload (cb_name cb) err))
                | Inr raw \<Rightarrow>
                    (case (if bp_fallback p \<noteq> [] then unwrapStructuredOutputValue raw else Inr raw) of
                       Inl err \<Rightarrow> (p, Inl (BadPayload (bp_fallback p) err))
                     | Inr payload \<Rightarrow>
                         emit live (CompletionChunk (cb_name cb) payload)
                           (p\<lparr>bp_completion := None, bp_parts := AList.update idx (TextPart payload) (bp_parts p)\<rparr>))))"

fun start_block :: "int \<Rightarrow> block_start option \<Rightarrow> processor \<Rightarrow> processor \<times> (stream_error, unit) result" where
  "start_block idx None p = (p, Inr ())"
| "start_block idx (Some (OtherStart t)) p = (p, Inl (Protocol ''bedrock stream: unsupported content block start''))"
| "start_block idx (Some (ToolUseStart callID raw)) p =
     (if callID = None \<or> callID = Some [] then (p, Inl (Protocol ''bedrock stream: tool use block missing tool_use_id''))
      else if raw = None \<or> raw = Some [] then (p, Inl (Protocol ''bedrock stream: tool use block missing name''))
      else let normal = normalizeToolName (the raw);
               name = (case bp_names p normal of Some canonical \<Rightarrow> canonical | None \<Rightarrow> normal)
           in case bp_output p of
                Some out \<Rightarrow>
                  if bp_fallback p = [] \<or> name \<noteq> bp_fallback p
                  then (p, Inl (Protocol ''bedrock stream: structured output emitted tool_use start''))
                  else if bp_completion p \<noteq> None
                  then (p, Inl (Protocol ''bedrock stream: structured output spanned multiple content blocks''))
                  else (p\<lparr>bp_completion := Some \<lparr>cb_name = so_name out, cb_index = idx, cb_fragments = []\<rparr>\<rparr>, Inr ())
              | None \<Rightarrow>
                  (p\<lparr>bp_tools := (bp_tools p)(idx \<mapsto> \<lparr>tb_name = name, tb_id = the callID, tb_fragments = []\<rparr>)\<rparr>, Inr ()))"

definition reasoning_at :: "int \<Rightarrow> processor \<Rightarrow> reasoning_buffer" where
  "reasoning_at idx p = (case bp_reasoning p idx of None \<Rightarrow> \<lparr>rb_text = [], rb_redacted = [], rb_signature = []\<rparr> | Some rb \<Rightarrow> rb)"

definition put_reasoning :: "int \<Rightarrow> reasoning_buffer \<Rightarrow> processor \<Rightarrow> processor" where
  "put_reasoning idx rb p = p\<lparr>bp_reasoning := (bp_reasoning p)(idx \<mapsto> rb)\<rparr>"

fun apply_reasoning :: "(nat \<Rightarrow> bool) \<Rightarrow> int \<Rightarrow> reasoning_delta \<Rightarrow> processor \<Rightarrow> processor \<times> (stream_error, unit) result" where
  "apply_reasoning live idx (ReasoningText t) p =
     (let rb = reasoning_at idx p
      in if t = [] then (put_reasoning idx rb p, Inr ())
         else emit live (ThinkingChunk (assistant_message [draft_thinking t idx] None))
                (put_reasoning idx (rb\<lparr>rb_text := rb_text rb @ t\<rparr>) p))"
| "apply_reasoning live idx (ReasoningRedacted t) p =
     (let rb = reasoning_at idx p in (put_reasoning idx (rb\<lparr>rb_redacted := rb_redacted rb @ t\<rparr>) p, Inr ()))"
| "apply_reasoning live idx (ReasoningSignature t) p =
     (let rb = reasoning_at idx p
      in (put_reasoning idx (if t \<noteq> [] then rb\<lparr>rb_signature := t\<rparr> else rb) p, Inr ()))"
| "apply_reasoning live idx (OtherReasoning t) p =
     (put_reasoning idx (reasoning_at idx p) p, Inl (Protocol ''bedrock stream: unsupported reasoning content delta''))"

fun opens_block :: "block_delta \<Rightarrow> bool" where
  "opens_block (TextDelta t) \<longleftrightarrow> True"
| "opens_block (CitationDelta d) \<longleftrightarrow> True"
| "opens_block (ReasoningDelta d) \<longleftrightarrow> True"
| "opens_block d \<longleftrightarrow> False"

definition text_at :: "int \<Rightarrow> processor \<Rightarrow> string" where
  "text_at idx p = (case bp_text p idx of None \<Rightarrow> [] | Some t \<Rightarrow> t)"

fun apply_delta :: "(nat \<Rightarrow> bool) \<Rightarrow> int \<Rightarrow> block_delta \<Rightarrow> processor \<Rightarrow> processor \<times> (stream_error, unit) result" where
  "apply_delta live idx (TextDelta t) p =
     (if t = [] then (p, Inr ())
      else let p' = p\<lparr>bp_text := (bp_text p)(idx \<mapsto> text_at idx p @ t)\<rparr>
           in if bp_output p \<noteq> None then handleCompletionDelta live idx t p'
              else emit live (TextChunk (assistant_message [TextPart t] (content_meta idx))) p')"
| "apply_delta live idx (CitationDelta d) p =
     (case translateCitationDelta d of
        Inl err \<Rightarrow> (p, Inl err)
      | Inr c \<Rightarrow>
          (p\<lparr>bp_citations := (bp_citations p)(idx \<mapsto> (case bp_citations p idx of None \<Rightarrow> [] | Some cs \<Rightarrow> cs) @ [c])\<rparr>, Inr ()))"
| "apply_delta live idx (ReasoningDelta d) p = apply_reasoning live idx d p"
| "apply_delta live idx (ToolUseDelta input) p =
     (if bp_output p \<noteq> None
      then (case bp_completion p of
              None \<Rightarrow> (p, Inl (Protocol ''bedrock stream: structured output emitted tool_use delta''))
            | Some cb \<Rightarrow>
                if cb_index cb \<noteq> idx then (p, Inl (Protocol ''bedrock stream: structured output emitted tool_use delta''))
                else (case input of
                        None \<Rightarrow> (p, Inr ())
                      | Some t \<Rightarrow> if t = [] then (p, Inr ()) else handleCompletionDelta live idx t p))
      else (case (bp_tools p idx, input) of
              (Some tb, Some t) \<Rightarrow>
                if t = [] then (p, Inr ())
                else (let p' = p\<lparr>bp_tools := (bp_tools p)(idx \<mapsto> tb\<lparr>tb_fragments := tb_fragments tb @ [t]\<rparr>)\<rparr>
                      in if tb_id tb = [] then (p', Inl (Protocol ''bedrock stream: tool JSON delta missing tool call id''))
                         else if tb_name tb = [] then (p', Inl (Protocol ''bedrock stream: tool JSON delta missing tool name''))
                         else emit live (ToolCallDeltaChunk (tb_name tb) (tb_id tb) t) p')
            | _ \<Rightarrow> (p, Inl (Protocol ''bedrock stream: tool-use delta has no matching tool-use start''))))"
| "apply_delta live idx (OtherDelta t) p = (p, Inl (Protocol ''bedrock stream: unsupported content block delta''))"

definition stop_reasoning :: "(nat \<Rightarrow> bool) \<Rightarrow> int \<Rightarrow> processor \<Rightarrow> processor \<times> (stream_error, unit) result" where
  "stop_reasoning live idx p =
     (case bp_reasoning p idx of
        None \<Rightarrow> (p, Inr ())
      | Some rb \<Rightarrow>
          (let p1 = p\<lparr>bp_reasoning := (bp_reasoning p)(idx := None)\<rparr>
           in case finalize rb of
                Inl err \<Rightarrow> (p1, Inl (BadBlock err))
              | Inr None \<Rightarrow> (p1, Inr ())
              | Inr (Some made) \<Rightarrow>
                  (let part = made\<lparr>th_index := idx, th_final := True\<rparr>;
                       p2 = p1\<lparr>bp_parts := AList.update idx (ThinkingPart part) (bp_parts p1)\<rparr>
                   in if th_text part \<noteq> [] \<or> th_redacted part \<noteq> []
                      then emit live (ThinkingChunk (assistant_message [ThinkingPart part] None)) p2
                      else (p2, Inr ()))))"

definition stop_content :: "(nat \<Rightarrow> bool) \<Rightarrow> int \<Rightarrow> processor \<Rightarrow> processor \<times> (stream_error, unit) result" where
  "stop_content live idx p =
     (case bp_tools p idx of
        Some tb \<Rightarrow>
          (case decodeToolPayload (finalInput tb) of
             Inl err \<Rightarrow> (p, Inl (BadPayload (tb_id tb) err))
           | Inr payload \<Rightarrow>
               (let call = \<lparr>mc_name = tb_name tb, mc_payload = payload, mc_id = tb_id tb, mc_thought_signature = []\<rparr>
                in emit live (ToolCallChunk call)
                     (p\<lparr>bp_tools := (bp_tools p)(idx := None),
                        bp_parts := AList.update idx (ToolUsePart \<lparr>tu_id = mc_id call, tu_name = mc_name call,
                          tu_input = mc_payload call, tu_thought_signature = []\<rparr>) (bp_parts p)\<rparr>)))
      | None \<Rightarrow>
          (case (bp_text p idx, bp_output p) of
             (Some t, None) \<Rightarrow>
               (let citations = (case bp_citations p idx of None \<Rightarrow> [] | Some cs \<Rightarrow> cs);
                    part = (if citations \<noteq> [] then CitationsPart t citations else TextPart t)
                in (p\<lparr>bp_parts := AList.update idx part (bp_parts p)\<rparr>, Inr ()))
           | _ \<Rightarrow> (p, Inr ())))"

definition stop_block :: "(nat \<Rightarrow> bool) \<Rightarrow> int \<Rightarrow> processor \<Rightarrow> processor \<times> (stream_error, unit) result" where
  "stop_block live idx p =
     (case finalizeCompletion live idx p of
        (p1, Inl err) \<Rightarrow> (p1, Inl err)
      | (p1, Inr u) \<Rightarrow>
          (case stop_reasoning live idx p1 of
             (p2, Inl err) \<Rightarrow> (p2, Inl err)
           | (p2, Inr u) \<Rightarrow> stop_content live idx p2))"

definition count :: "int option \<Rightarrow> int" where
  "count t = (case t of None \<Rightarrow> 0 | Some n \<Rightarrow> n)"

definition converse_usage :: "processor \<Rightarrow> sdk_usage \<Rightarrow> token_usage" where
  "converse_usage p u =
     \<lparr>us_model = bp_model_id p, us_model_class = bp_model_class p, us_input = count (su_input u), us_output = count (su_output u),
      us_total = count (su_total u), us_cache_read = count (su_cache_read u), us_cache_write = count (su_cache_write u)\<rparr>"

definition Handle :: "(nat \<Rightarrow> bool) \<Rightarrow> event \<Rightarrow> processor \<Rightarrow> processor \<times> (stream_error, unit) result" where
  "Handle live ev p =
     (case ev of
        MessageStart \<Rightarrow>
          if bp_started p then (p, Inl (Protocol ''bedrock stream: duplicate message start''))
          else (p\<lparr>bp_tools := Map.empty, bp_reasoning := Map.empty, bp_text := Map.empty, bp_citations := Map.empty,
                  bp_parts := [], bp_open := {}, bp_completion := None, bp_stop_reason := [], bp_usage := no_usage,
                  bp_started := True, bp_complete := False, bp_terminal := False\<rparr>, Inr ())
      | ContentBlockStart index start \<Rightarrow>
          if \<not> bp_started p \<or> bp_complete p
          then (p, Inl (Protocol ''bedrock stream: content block started outside an active message''))
          else (case contentIndex index of
                  Inl err \<Rightarrow> (p, Inl err)
                | Inr idx \<Rightarrow>
                    if idx \<in> bp_open p then (p, Inl (Protocol ''bedrock stream: duplicate content block start''))
                    else start_block idx start (p\<lparr>bp_open := insert idx (bp_open p)\<rparr>))
      | ContentBlockDelta index delta \<Rightarrow>
          if \<not> bp_started p \<or> bp_complete p
          then (p, Inl (Protocol ''bedrock stream: content block delta received outside an active message''))
          else (case contentIndex index of
                  Inl err \<Rightarrow> (p, Inl err)
                | Inr idx \<Rightarrow>
                    if idx \<in> bp_open p then apply_delta live idx delta p
                    else if opens_block delta then apply_delta live idx delta (p\<lparr>bp_open := insert idx (bp_open p)\<rparr>)
                    else (case delta of
                            ToolUseDelta input \<Rightarrow> (p, Inl (Protocol ''bedrock stream: tool-use delta has no matching start''))
                          | _ \<Rightarrow> apply_delta live idx delta p))
      | ContentBlockStop index \<Rightarrow>
          if \<not> bp_started p \<or> bp_complete p
          then (p, Inl (Protocol ''bedrock stream: content block stopped outside an active message''))
          else (case contentIndex index of
                  Inl err \<Rightarrow> (p, Inl err)
                | Inr idx \<Rightarrow>
                    if idx \<notin> bp_open p then (p, Inl (Protocol ''bedrock stream: content block stop has no matching start''))
                    else stop_block live idx (p\<lparr>bp_open := bp_open p - {idx}\<rparr>))
      | MessageStop reason \<Rightarrow>
          if \<not> bp_started p then (p, Inl (EmptyStream ''message stop received without an active message''))
          else if bp_complete p then (p, Inl (Protocol ''bedrock stream: duplicate message stop''))
          else if bp_open p \<noteq> {} then (p, Inl (Protocol ''bedrock stream: message stopped with open content blocks''))
          else if reason = [] then (p, Inl (Protocol ''bedrock stream: message stopped without a stop reason''))
          else (p\<lparr>bp_stop_reason := reason, bp_complete := True\<rparr>, Inr ())
      | Metadata usage \<Rightarrow>
          if \<not> bp_started p \<or> \<not> bp_complete p \<or> bp_terminal p
          then (p, Inl (Protocol ''bedrock stream: metadata received outside a completed message''))
          else (case usage of
                  None \<Rightarrow> finishStream live p
                | Some u \<Rightarrow>
                    (let tokens = converse_usage p u
                     in case emit live (UsageChunk tokens) (p\<lparr>bp_usage := tokens\<rparr>) of
                          (p1, Inl err) \<Rightarrow> (p1, Inl err)
                        | (p1, Inr x) \<Rightarrow> finishStream live p1))
      | OtherEvent t \<Rightarrow> (p, Inl (Protocol ''bedrock stream: unsupported event'')))"

subsection \<open>The response\<close>

definition canonical_parts :: "processor \<Rightarrow> part list" where
  "canonical_parts p = map snd (sort_key fst (bp_parts p))"

definition stream_response :: "processor \<Rightarrow> response" where
  "stream_response p =
     \<lparr>rs_content = (if bp_parts p \<noteq> [] then [assistant_message (canonical_parts p) None] else []),
      rs_usage = bp_usage p, rs_stop_reason = bp_stop_reason p\<rparr>"

text \<open>The event loop; \<open>ending\<close> is the error of the closed stream and whether the context had ended by then.\<close>

definition run ::
  "(int \<Rightarrow> int \<Rightarrow> string) \<Rightarrow> (nat \<Rightarrow> bool) \<Rightarrow> processor \<Rightarrow> event arrival list \<Rightarrow> string option \<times> bool \<Rightarrow>
   chunk list \<times> (stream_error, response) result" where
  "run ft live p0 arrivals ending =
     (case drain (Handle live) arrivals p0 of
        (p, Some err) \<Rightarrow> (bp_out p, Inl err)
      | (p, None) \<Rightarrow>
          (case ending of
             (Some e, ctx) \<Rightarrow> (bp_out p, Inl (ProviderFailure e))
           | (None, True) \<Rightarrow> (bp_out p, Inl ContextEnded)
           | (None, False) \<Rightarrow>
               if \<not> bp_complete p then (bp_out p, Inl (NewStreamEndedEarlyError (bp_started p)))
               else (case finishStream live p of
                       (p1, Inl err) \<Rightarrow> (bp_out p1, Inl err)
                     | (p1, Inr u) \<Rightarrow>
                         (bp_out p1,
                          case ValidateResponse ft (Some (stream_response p1)) of
                            Inl err \<Rightarrow> Inl (BadResponse err)
                          | Inr u \<Rightarrow> Inr (stream_response p1)))))"

subsection \<open>The contract\<close>

definition counts_ok :: "sdk_usage \<Rightarrow> bool" where
  "counts_ok u \<longleftrightarrow> 0 \<le> count (su_input u) \<and> 0 \<le> count (su_output u) \<and> 0 \<le> count (su_total u) \<and>
     0 \<le> count (su_cache_read u) \<and> 0 \<le> count (su_cache_write u)"

text \<open>Token counts are not negative, and no tool is called by the bare prefix, whose normalized name is empty.\<close>

fun legal_event :: "event \<Rightarrow> bool" where
  "legal_event (Metadata (Some u)) \<longleftrightarrow> counts_ok u"
| "legal_event (ContentBlockStart index (Some (ToolUseStart callID raw))) \<longleftrightarrow> raw \<noteq> Some functions_prefix"
| "legal_event e \<longleftrightarrow> True"

definition tools_named :: "(int \<rightharpoonup> tool_buffer) \<Rightarrow> bool" where
  "tools_named ts \<longleftrightarrow> (\<forall>tb \<in> ran ts. tb_name tb \<noteq> [] \<and> tb_id tb \<noteq> [])"

definition config_ok :: "processor \<Rightarrow> bool" where
  "config_ok p \<longleftrightarrow> [] \<notin> ran (bp_names p) \<and> bp_model_class p \<in> set model_classes \<and>
     (\<forall>out. bp_output p = Some out \<longrightarrow> so_name out \<noteq> [])"

definition processor_ok :: "processor \<Rightarrow> bool" where
  "processor_ok p \<longleftrightarrow> stream_ok (bp_out p) (bp_terminal p) \<and> tools_named (bp_tools p) \<and> config_ok p \<and>
     (\<forall>cb. bp_completion p = Some cb \<longrightarrow> cb_name cb \<noteq> []) \<and> (bp_terminal p \<longrightarrow> bp_complete p) \<and>
     (bp_complete p \<longrightarrow> bp_started p \<and> bp_stop_reason p \<noteq> [])"

lemma tools_named_simps:
  "tools_named Map.empty" "tools_named ts \<Longrightarrow> tb_name tb \<noteq> [] \<Longrightarrow> tb_id tb \<noteq> [] \<Longrightarrow> tools_named (ts(idx \<mapsto> tb))"
  "tools_named ts \<Longrightarrow> tools_named (ts(idx := None))"
  by (auto simp: tools_named_def ran_def)

lemma bedrock_tools_namedD: "tools_named ts \<Longrightarrow> ts idx = Some tb \<Longrightarrow> tb_name tb \<noteq> [] \<and> tb_id tb \<noteq> []"
  by (auto simp: tools_named_def ran_def)

lemma config_ok_update [simp]:
  "config_ok (p\<lparr>bp_out := a\<rparr>) = config_ok p" "config_ok (p\<lparr>bp_tools := b\<rparr>) = config_ok p" "config_ok (p\<lparr>bp_completion := c\<rparr>) = config_ok p"
  "config_ok (p\<lparr>bp_reasoning := d\<rparr>) = config_ok p" "config_ok (p\<lparr>bp_text := e\<rparr>) = config_ok p" "config_ok (p\<lparr>bp_citations := f\<rparr>) = config_ok p"
  "config_ok (p\<lparr>bp_parts := g\<rparr>) = config_ok p" "config_ok (p\<lparr>bp_open := h\<rparr>) = config_ok p" "config_ok (p\<lparr>bp_stop_reason := i\<rparr>) = config_ok p"
  "config_ok (p\<lparr>bp_usage := j\<rparr>) = config_ok p" "config_ok (p\<lparr>bp_started := k\<rparr>) = config_ok p" "config_ok (p\<lparr>bp_complete := l\<rparr>) = config_ok p"
  "config_ok (p\<lparr>bp_terminal := l\<rparr>) = config_ok p"
  by (simp_all add: config_ok_def)

lemma bedrock_processor_ok_update [simp]:
  "processor_ok (p\<lparr>bp_reasoning := d\<rparr>) = processor_ok p" "processor_ok (p\<lparr>bp_text := e\<rparr>) = processor_ok p"
  "processor_ok (p\<lparr>bp_citations := f\<rparr>) = processor_ok p" "processor_ok (p\<lparr>bp_parts := g\<rparr>) = processor_ok p"
  "processor_ok (p\<lparr>bp_open := h\<rparr>) = processor_ok p" "processor_ok (p\<lparr>bp_usage := j\<rparr>) = processor_ok p"
  by (simp_all add: processor_ok_def)

lemma bedrock_emit_fields [simp]:
  "bp_complete (fst (emit live c p)) = bp_complete p" "bp_terminal (fst (emit live c p)) = bp_terminal p"
  "bp_started (fst (emit live c p)) = bp_started p"
  by (simp_all add: emit_def split: prod.split)

lemma bedrock_emit_keeps:
  "processor_ok p \<Longrightarrow> \<not> bp_terminal p \<Longrightarrow> boundary_chunk c \<Longrightarrow> \<not> is_stop c \<Longrightarrow> processor_ok (fst (emit live c p))"
  using emit_ok [of "bp_out p" c live] by (auto simp: emit_def processor_ok_def split: prod.split)

text \<open>\<open>active p\<close>: an event is being handled inside a message.\<close>

definition active :: "processor \<Rightarrow> bool" where
  "active p \<longleftrightarrow> processor_ok p \<and> \<not> bp_complete p"

lemma activeD: "active p \<Longrightarrow> processor_ok p \<and> \<not> bp_complete p \<and> \<not> bp_terminal p"
  by (auto simp: active_def processor_ok_def)

lemma active_update [simp]:
  "active (p\<lparr>bp_reasoning := d\<rparr>) = active p" "active (p\<lparr>bp_text := e\<rparr>) = active p" "active (p\<lparr>bp_citations := f\<rparr>) = active p"
  "active (p\<lparr>bp_parts := g\<rparr>) = active p" "active (p\<lparr>bp_open := h\<rparr>) = active p"
  by (simp_all add: active_def)

lemma active_tools: "active p \<Longrightarrow> tools_named ts \<Longrightarrow> active (p\<lparr>bp_tools := ts\<rparr>)"
  by (auto simp: active_def processor_ok_def)

lemma active_completion: "active p \<Longrightarrow> cb_name cb \<noteq> [] \<Longrightarrow> active (p\<lparr>bp_completion := Some cb\<rparr>)" "active p \<Longrightarrow> active (p\<lparr>bp_completion := None\<rparr>)"
  by (auto simp: active_def processor_ok_def)

lemma emit_active: "active p \<Longrightarrow> boundary_chunk c \<Longrightarrow> \<not> is_stop c \<Longrightarrow> active (fst (emit live c p))"
proof -
  assume p: "active p" and c: "boundary_chunk c" "\<not> is_stop c"
  from activeD [OF p] c have "processor_ok (fst (emit live c p))" by (intro bedrock_emit_keeps) simp_all
  then show "active (fst (emit live c p))" using activeD [OF p] by (simp add: active_def)
qed

lemma completion_delta_active:
  assumes "active p" "t \<noteq> []" shows "active (fst (handleCompletionDelta live idx t p))"
proof (cases "bp_output p")
  case (Some out)
  let ?cb = "case bp_completion p of None \<Rightarrow> \<lparr>cb_name = so_name out, cb_index = idx, cb_fragments = []\<rparr> | Some cb \<Rightarrow> cb"
  have name: "cb_name ?cb \<noteq> []" using activeD [OF assms(1)] Some
    by (auto simp: processor_ok_def config_ok_def split: option.split)
  then have "active (p\<lparr>bp_completion := Some (?cb\<lparr>cb_fragments := cb_fragments ?cb @ [t]\<rparr>)\<rparr>)"
    using assms(1) by (intro active_completion) simp_all
  then show ?thesis using name assms Some by (simp add: handleCompletionDelta_def Let_def emit_active)
qed (use assms in \<open>simp add: handleCompletionDelta_def\<close>)

lemma finalPayload_valid: "finalPayload cb = Inr raw \<Longrightarrow> json_valid raw"
  by (auto simp: finalPayload_def Let_def split: if_splits)

lemma unwrap_fields_from: "unwrap_fields cur ms = Inr value \<Longrightarrow> cur = Some value \<or> value \<in> snd ` set ms"
  by (induction cur ms rule: unwrap_fields.induct) (auto split: if_splits)

lemma unwrapped_valid: "unwrapStructuredOutputValue raw = Inr payload \<Longrightarrow> json_valid payload"
  by (auto simp: unwrapStructuredOutputValue_def dest!: unwrap_fields_from dest: object_members_valid split: option.splits)

lemma finalizeCompletion_active:
  assumes "active p" shows "active (fst (finalizeCompletion live idx p))"
proof (cases "\<exists>cb raw payload. bp_completion p = Some cb \<and> cb_index cb = idx \<and> finalPayload cb = Inr raw \<and>
    (if bp_fallback p \<noteq> [] then unwrapStructuredOutputValue raw else Inr raw) = Inr payload")
  case False
  then show ?thesis using assms by (auto simp: finalizeCompletion_def split: option.split sum.split)
next
  case True
  then obtain cb raw payload where c: "bp_completion p = Some cb" "cb_index cb = idx" "finalPayload cb = Inr raw"
    "(if bp_fallback p \<noteq> [] then unwrapStructuredOutputValue raw else Inr raw) = Inr payload" by blast
  have "json_valid payload" using c(4) finalPayload_valid [OF c(3)] unwrapped_valid by (auto split: if_splits)
  moreover have "cb_name cb \<noteq> []" using activeD [OF assms] c(1) by (simp add: processor_ok_def)
  moreover have "active (p\<lparr>bp_completion := None, bp_parts := AList.update idx (TextPart payload) (bp_parts p)\<rparr>)"
    using assms by (simp add: active_completion)
  ultimately show ?thesis using c by (simp add: finalizeCompletion_def emit_active)
qed

lemma normalized: "raw \<noteq> [] \<Longrightarrow> raw \<noteq> functions_prefix \<Longrightarrow> normalizeToolName raw \<noteq> []"
  by (auto simp: normalizeToolName_def)

lemma start_block_active:
  assumes "active p" "legal_event (ContentBlockStart index start)" shows "active (fst (start_block idx start p))"
proof (cases "\<exists>callID raw. start = Some (ToolUseStart (Some callID) (Some raw)) \<and> callID \<noteq> [] \<and> raw \<noteq> []")
  case False
  then have "fst (start_block idx start p) = p" by (cases "(idx, start, p)" rule: start_block.cases) auto
  then show ?thesis using assms(1) by simp
next
  case True
  then obtain callID raw where s: "start = Some (ToolUseStart (Some callID) (Some raw))" "callID \<noteq> []" "raw \<noteq> []" by blast
  then have n: "normalizeToolName raw \<noteq> []" using assms(2) by (intro normalized) auto
  have cfg: "config_ok p" "tools_named (bp_tools p)" using activeD [OF assms(1)] by (simp_all add: processor_ok_def)
  have name: "(case bp_names p (normalizeToolName raw) of Some canonical \<Rightarrow> canonical | None \<Rightarrow> normalizeToolName raw) \<noteq> []"
    using cfg(1) n by (auto simp: config_ok_def ran_def split: option.split)
  show ?thesis
  proof (cases "bp_output p")
    case None
    then show ?thesis using s name assms(1) cfg(2) by (simp add: Let_def active_tools tools_named_simps)
  next
    case (Some out)
    then have "so_name out \<noteq> []" using cfg(1) by (simp add: config_ok_def)
    then show ?thesis using s assms(1) Some by (simp add: Let_def active_completion)
  qed
qed

lemma reasoning_active: "active p \<Longrightarrow> active (fst (apply_reasoning live idx d p))"
  by (cases d) (simp_all add: Let_def put_reasoning_def emit_active)

lemma apply_delta_active:
  assumes "active p" shows "active (fst (apply_delta live idx delta p))"
proof (cases delta)
  case (TextDelta t)
  then show ?thesis using assms by (simp add: Let_def emit_active completion_delta_active)
next
  case (CitationDelta d)
  then show ?thesis using assms by (simp split: sum.split)
next
  case (ReasoningDelta d)
  then show ?thesis using assms by (simp add: reasoning_active)
next
  case (ToolUseDelta input)
  show ?thesis
  proof (cases "\<exists>tb t. bp_output p = None \<and> bp_tools p idx = Some tb \<and> input = Some t \<and> t \<noteq> []")
    case False
    then show ?thesis using assms ToolUseDelta completion_delta_active by (auto split: option.split)
  next
    case True
    then obtain tb t where t: "bp_output p = None" "bp_tools p idx = Some tb" "input = Some t" "t \<noteq> []" by blast
    have n: "tools_named (bp_tools p)" using activeD [OF assms] by (simp add: processor_ok_def)
    have tb: "tb_name tb \<noteq> [] \<and> tb_id tb \<noteq> []" using n t(2) by (rule bedrock_tools_namedD)
    then have "active (p\<lparr>bp_tools := (bp_tools p)(idx \<mapsto> tb\<lparr>tb_fragments := tb_fragments tb @ [t]\<rparr>)\<rparr>)"
      using assms n by (simp add: active_tools tools_named_simps)
    then show ?thesis using t tb ToolUseDelta by (simp add: Let_def emit_active)
  qed
qed (use assms in simp)

lemma bedrock_finalized: "finalize rb = Inr (Some part) \<Longrightarrow> (th_text part \<noteq> [] \<or> th_signature part \<noteq> []) \<noteq> (th_redacted part \<noteq> [])"
  by (auto simp: finalize_def split: if_splits)

lemma stop_reasoning_active:
  assumes "active p" shows "active (fst (stop_reasoning live idx p))"
proof (cases "bp_reasoning p idx")
  case (Some rb)
  show ?thesis
  proof (cases "\<exists>made. finalize rb = Inr (Some made)")
    case True
    then obtain made where m: "finalize rb = Inr (Some made)" by blast
    then show ?thesis using bedrock_finalized [OF m] assms Some by (simp add: stop_reasoning_def Let_def emit_active)
  qed (use assms Some in \<open>auto simp: stop_reasoning_def Let_def split: sum.split option.split\<close>)
qed (use assms in \<open>simp add: stop_reasoning_def\<close>)

lemma bedrock_decoded: "decodeToolPayload raw = Inr payload \<Longrightarrow> json_valid payload"
  by (auto simp: decodeToolPayload_def Let_def json_valid_empty_object split: if_splits)

lemma stop_content_active:
  assumes "active p" shows "active (fst (stop_content live idx p))"
proof (cases "bp_tools p idx")
  case (Some tb)
  have n: "tools_named (bp_tools p)" using activeD [OF assms] by (simp add: processor_ok_def)
  have tb: "tb_name tb \<noteq> [] \<and> tb_id tb \<noteq> []" using n Some by (rule bedrock_tools_namedD)
  have "active (p\<lparr>bp_tools := (bp_tools p)(idx := None)\<rparr>)" using assms n by (simp add: active_tools tools_named_simps)
  then show ?thesis using Some tb assms bedrock_decoded [of "finalInput tb"]
    by (auto simp: stop_content_def Let_def split: sum.split intro!: emit_active)
qed (use assms in \<open>simp add: stop_content_def Let_def split: option.split\<close>)

lemma stop_block_active:
  assumes "active p" shows "active (fst (stop_block live idx p))"
proof -
  obtain p1 r1 where 1: "finalizeCompletion live idx p = (p1, r1)" by fastforce
  obtain p2 r2 where 2: "stop_reasoning live idx p1 = (p2, r2)" by fastforce
  have "active p1" using finalizeCompletion_active [OF assms, of live idx] 1 by simp
  moreover from this have "active p2" using stop_reasoning_active [of p1 live idx] 2 by simp
  ultimately show ?thesis by (simp add: stop_block_def 1 2 stop_content_active split: sum.split)
qed

lemma finishStream_ok:
  assumes "processor_ok p" shows "processor_ok (fst (finishStream live p))"
proof (cases "bp_terminal p \<or> \<not> bp_complete p \<or> bp_stop_reason p = []")
  case True
  then show ?thesis using assms by (auto simp: finishStream_def)
next
  case False
  then have "stream_ok (bp_out p) False" "bp_stop_reason p \<noteq> []" using assms by (auto simp: processor_ok_def)
  then have "stream_ok (fst (emit_to live (StopChunk (bp_stop_reason p)) (bp_out p))) True" by (rule emit_stop_ok)
  then show ?thesis using assms False by (auto simp: finishStream_def emit_def processor_ok_def split: prod.split)
qed

lemma bedrock_usage_valid: "processor_ok p \<Longrightarrow> counts_ok u \<Longrightarrow> validateTokenUsage (converse_usage p u) = Inr ()"
  by (simp add: validateTokenUsage_def converse_usage_def counts_ok_def processor_ok_def config_ok_def)

lemma not_active: "processor_ok p \<Longrightarrow> \<not> active p \<Longrightarrow> bp_started p \<and> bp_complete p"
  by (auto simp: active_def processor_ok_def)

lemma active_result: "active p \<Longrightarrow> processor_ok p \<and> \<not> bp_terminal p"
  using activeD by blast

lemma delta_cases:
  "(\<exists>err. Handle live (ContentBlockDelta index delta) p = (p, Inl err)) \<or>
   (\<exists>idx os. Handle live (ContentBlockDelta index delta) p = apply_delta live idx delta (p\<lparr>bp_open := os\<rparr>))"
proof (cases "\<not> bp_started p \<or> bp_complete p")
  case False
  show ?thesis
  proof (cases "contentIndex index")
    case (Inr idx)
    have same: "\<exists>i os. apply_delta live idx delta p = apply_delta live i delta (p\<lparr>bp_open := os\<rparr>)"
      by (intro exI [of _ idx] exI [of _ "bp_open p"]) simp
    show ?thesis
    proof (cases "idx \<in> bp_open p")
      case True
      then have "Handle live (ContentBlockDelta index delta) p = apply_delta live idx delta p"
        using False Inr by (simp add: Handle_def)
      then show ?thesis using same by presburger
    next
      case out: False
      then show ?thesis using False Inr same
        by (cases "opens_block delta"; cases delta) (auto simp: Handle_def simp del: apply_delta.simps)
    qed
  qed (use False in \<open>simp add: Handle_def\<close>)
qed (simp add: Handle_def)

lemma Handle_message:
  assumes "processor_ok p" "legal_event ev" "\<And>usage. ev \<noteq> Metadata usage"
  shows "fst (Handle live ev p) = p \<and> isl (snd (Handle live ev p)) \<or>
    processor_ok (fst (Handle live ev p)) \<and> \<not> bp_terminal (fst (Handle live ev p))"
proof (cases "active p")
  case False
  then show ?thesis using not_active [OF assms(1)] assms(3) by (cases ev) (auto simp: Handle_def)
next
  case True
  then have c: "\<not> bp_complete p" by (simp add: active_def)
  show ?thesis
  proof (cases ev)
    case MessageStart
    then show ?thesis using assms by (auto simp: Handle_def processor_ok_def tools_named_simps)
  next
    case (ContentBlockStart index start)
    have "active (fst (start_block idx start (p\<lparr>bp_open := os\<rparr>)))" for idx os
      using start_block_active [of "p\<lparr>bp_open := os\<rparr>" index start idx] True assms(2) ContentBlockStart by simp
    then show ?thesis using active_result True by (simp add: Handle_def ContentBlockStart split: sum.split)
  next
    case (ContentBlockDelta index delta)
    have "active (fst (apply_delta live idx delta (p\<lparr>bp_open := os\<rparr>)))" for idx os
      using apply_delta_active [of "p\<lparr>bp_open := os\<rparr>" live idx delta] True by simp
    then show ?thesis using delta_cases [of live index delta p] active_result True ContentBlockDelta by auto
  next
    case (ContentBlockStop index)
    have "active (fst (stop_block live idx (p\<lparr>bp_open := os\<rparr>)))" for idx os
      using stop_block_active [of "p\<lparr>bp_open := os\<rparr>" live idx] True by simp
    then show ?thesis using active_result True by (simp add: Handle_def ContentBlockStop split: sum.split)
  next
    case (MessageStop reason)
    have ok: "processor_ok p" "\<not> bp_terminal p" using active_result [OF True] by simp_all
    then have "processor_ok (p\<lparr>bp_stop_reason := reason, bp_complete := True\<rparr>)" if "bp_started p" "reason \<noteq> []"
      using that by (auto simp: processor_ok_def)
    then show ?thesis using ok MessageStop by (simp add: Handle_def)
  qed (use assms(3) in \<open>simp_all add: Handle_def\<close>)
qed

lemma Handle_metadata:
  assumes "processor_ok p" "legal_event (Metadata usage)"
  shows "processor_ok (fst (Handle live (Metadata usage) p))"
proof (cases usage)
  case (Some u)
  let ?p = "p\<lparr>bp_usage := converse_usage p u\<rparr>"
  obtain p1 r1 where e: "emit live (UsageChunk (converse_usage p u)) ?p = (p1, r1)" by fastforce
  have "processor_ok p1" if "\<not> bp_terminal p"
    using bedrock_emit_keeps [of ?p "UsageChunk (converse_usage p u)" live] bedrock_usage_valid [OF assms(1)] assms Some e that by simp
  then show ?thesis using assms(1) Some finishStream_ok e by (simp add: Handle_def Let_def split: sum.split)
qed (use assms finishStream_ok in \<open>simp add: Handle_def\<close>)

lemma bedrock_Handle_ok: "processor_ok p \<Longrightarrow> legal_event ev \<Longrightarrow> processor_ok (fst (Handle live ev p))"
  using Handle_message [of p ev live] Handle_metadata [of p _ live] by (cases "\<exists>usage. ev = Metadata usage") auto

lemma finishStream_stops:
  "(bp_terminal p \<longrightarrow> stopped (bp_out p)) \<Longrightarrow> finishStream live p = (p', Inr ()) \<Longrightarrow> stopped (bp_out p')"
  by (auto simp: finishStream_def emit_def emit_to_def stopped_def is_stop_def split: if_splits)

lemma bedrock_Handle_stops:
  assumes "processor_ok p" "legal_event ev" "Handle live ev p = (p', Inr ())" "bp_terminal p'"
  shows "stopped (bp_out p')"
proof (cases "\<exists>usage. ev = Metadata usage")
  case False
  then show ?thesis using Handle_message [of p ev live] assms by auto
next
  case True
  then obtain usage where ev: "ev = Metadata usage" by blast
  show ?thesis
  proof (cases usage)
    case None
    then show ?thesis using assms(3) ev finishStream_stops [of p live p'] by (auto simp: Handle_def split: if_splits)
  next
    case (Some u)
    let ?p = "p\<lparr>bp_usage := converse_usage p u\<rparr>"
    obtain p1 r1 where e: "emit live (UsageChunk (converse_usage p u)) ?p = (p1, r1)" by fastforce
    then have "bp_terminal p1 = bp_terminal p" using bedrock_emit_fields(2) [of live "UsageChunk (converse_usage p u)" ?p] by simp
    then show ?thesis using assms(3) ev Some e finishStream_stops [of p1 live p']
      by (auto simp: Handle_def Let_def split: if_splits sum.splits)
  qed
qed

interpretation bedrock: chunk_processor "Handle live" legal_event processor_ok bp_out bp_terminal for live
  by unfold_locales (use bedrock_Handle_ok bedrock_Handle_stops in \<open>auto simp: processor_ok_def\<close>)

lemma bedrock_new_processor_ok:
  "[] \<notin> ran names \<Longrightarrow> modelClass \<in> set model_classes \<Longrightarrow> (\<forall>out. output = Some out \<longrightarrow> so_name out \<noteq> []) \<Longrightarrow>
   processor_ok (newChunkProcessor names modelID modelClass output fallback)"
  by (simp add: newChunkProcessor_def processor_ok_def config_ok_def tools_named_simps)

lemma run_out:
  "fst (run ft live p0 arrivals ending) = bp_out (fst (drain (Handle live) arrivals p0)) \<or>
   fst (run ft live p0 arrivals ending) = bp_out (fst (finishStream live (fst (drain (Handle live) arrivals p0))))"
proof -
  obtain p err where d: "drain (Handle live) arrivals p0 = (p, err)" by fastforce
  obtain p' r' where f: "finishStream live p = (p', r')" by fastforce
  obtain e ctx where ending: "ending = (e, ctx)" by fastforce
  show ?thesis
    by (cases err; cases e; cases ctx; cases r') (simp_all add: run_def d f ending)
qed

lemma run_response:
  assumes "run ft live p0 arrivals ending = (out, Inr r)"
  obtains p p' where "drain (Handle live) arrivals p0 = (p, None)" "bp_complete p" "finishStream live p = (p', Inr ())"
    "out = bp_out p'" "r = stream_response p'" "ValidateResponse ft (Some r) = Inr ()"
proof -
  obtain p err where d: "drain (Handle live) arrivals p0 = (p, err)" by fastforce
  have e: "err = None" "ending = (None, False)" "bp_complete p"
    using assms d by (cases ending; auto simp: run_def split: option.splits bool.splits if_splits)+
  obtain p' r' where f: "finishStream live p = (p', r')" by fastforce
  show ?thesis
    by (rule that [of p p']) (use assms d e f in \<open>auto simp: run_def split: sum.splits\<close>)
qed

text \<open>
  Property C36. Structured completions and the tool fallback included, whenever the context ends and whatever
  events the provider sends, as long as it reports no negative token count and starts no tool use with the bare
  name \<open>$FUNCTIONS.\<close> (which normalizes to an empty name the adapter does not test), and the names of the
  request are not empty: every chunk sent passes \<open>ValidateChunk\<close> or is a tool call that it refuses because
  the payload is JSON but not an object; at most one stop chunk is sent and nothing after it; and a response
  comes only after its stop chunk and is one the model boundary accepts.
\<close>

theorem bedrock_stream_contract:
  assumes "\<forall>e. Arrives e \<in> set arrivals \<longrightarrow> legal_event e" "[] \<notin> ran names" "modelClass \<in> set model_classes"
    "\<forall>out. output = Some out \<longrightarrow> so_name out \<noteq> []"
    and run: "run ft live (newChunkProcessor names modelID modelClass output fallback) arrivals ending = (out, res)"
  shows "(\<forall>c \<in> set out. ValidateChunk c = Inr () \<or> (\<exists>call. c = ToolCallChunk call \<and> ValidateChunk c = Inl CallPayloadNotObject)) \<and>
    length (filter is_stop out) \<le> 1 \<and> (\<forall>c \<in> set (butlast out). \<not> is_stop c) \<and>
    (\<forall>r. res = Inr r \<longrightarrow> stopped out \<and> ValidateResponse ft (Some r) = Inr ())"
proof -
  let ?p0 = "newChunkProcessor names modelID modelClass output fallback"
  have p0: "processor_ok ?p0" "bp_terminal ?p0 \<longrightarrow> stopped (bp_out ?p0)"
    using bedrock_new_processor_ok [OF assms(2-4)] by (simp_all add: newChunkProcessor_def)
  obtain p err where d: "drain (Handle live) arrivals ?p0 = (p, err)" by fastforce
  have p: "processor_ok p" using bedrock.drain_keeps [OF p0(1) assms(1), of live] d by simp
  obtain p' r' where f: "finishStream live p = (p', r')" by fastforce
  then have "processor_ok p'" using finishStream_ok [OF p, of live] by simp
  then have ok: "stream_ok (bp_out p) (bp_terminal p)" "stream_ok (bp_out p') (bp_terminal p')"
    using p unfolding processor_ok_def by blast+
  have "out = bp_out p \<or> out = bp_out p'"
    using run run_out [of ft live ?p0 arrivals ending] d f by simp
  then have "\<exists>c. stream_ok out c" using ok by blast
  moreover have "stopped out \<and> ValidateResponse ft (Some r) = Inr ()" if "res = Inr r" for r
  proof -
    have "run ft live ?p0 arrivals ending = (out, Inr r)" using run that by simp
    then obtain p1 p2 where r: "drain (Handle live) arrivals ?p0 = (p1, None)" "finishStream live p1 = (p2, Inr ())" "out = bp_out p2"
      "ValidateResponse ft (Some r) = Inr ()" by (rule run_response) blast
    have "bp_terminal p1 \<longrightarrow> stopped (bp_out p1)" using bedrock.drain_stopped [OF p0(1) assms(1) p0(2) r(1)] by simp
    then show ?thesis using finishStream_stops r(2-4) by blast
  qed
  ultimately show ?thesis using stream_ok_stops by blast
qed

end
