(* ===== verification/Bedrock_Response.thy ===== *)
theory Bedrock_Response
  imports Bedrock_Stream
begin

section \<open>The Bedrock response is what was streamed\<close>

text \<open>
  The canonical response of a Bedrock stream is assembled beside the chunks. When the content blocks come one
  after the other, the two agree: the text, the tool calls and the signed thinking of the response are those
  of the chunks, in the same order, and so are the usage and the stop reason.
\<close>

datatype block_kind = KText | KTool | KReasoning

fun delta_kind :: "block_delta \<Rightarrow> block_kind" where
  "delta_kind (ReasoningDelta d) = KReasoning"
| "delta_kind (ToolUseDelta t) = KTool"
| "delta_kind d = KText"

definition start_kind :: "block_start option \<Rightarrow> block_kind option" where
  "start_kind start = (case start of None \<Rightarrow> None | Some s \<Rightarrow> Some KTool)"

text \<open>Content blocks come one after the other, in the order of their indices, each of one kind.\<close>

fun ordered_blocks :: "int \<Rightarrow> (int \<times> block_kind option) option \<Rightarrow> event list \<Rightarrow> bool" where
  "ordered_blocks n cur [] \<longleftrightarrow> True"
| "ordered_blocks n cur (ContentBlockStart (Some i) start # es) \<longleftrightarrow>
     cur = None \<and> n < i \<and> ordered_blocks i (Some (i, start_kind start)) es"
| "ordered_blocks n cur (ContentBlockDelta (Some i) d # es) \<longleftrightarrow>
     (case cur of
        None \<Rightarrow> n < i
      | Some (j, k) \<Rightarrow> i = j \<and> (k = None \<or> k = Some (delta_kind d))) \<and>
     ordered_blocks i (Some (i, Some (delta_kind d))) es"
| "ordered_blocks n cur (ContentBlockStop (Some i) # es) \<longleftrightarrow>
     (\<exists>k. cur = Some (i, k)) \<and> ordered_blocks n None es"
| "ordered_blocks n cur (e # es) \<longleftrightarrow> ordered_blocks n cur es"

fun streamed_text :: "chunk \<Rightarrow> string" where
  "streamed_text (TextChunk m) = concat (map chunk_text (m_parts m))"
| "streamed_text c = []"

fun streamed_call :: "chunk \<Rightarrow> model_tool_call list" where
  "streamed_call (ToolCallChunk call) = [call]"
| "streamed_call c = []"

fun final_part :: "part \<Rightarrow> thinking_part list" where
  "final_part (ThinkingPart p) = (if th_final p \<and> (th_text p \<noteq> [] \<or> th_redacted p \<noteq> []) then [p] else [])"
| "final_part p = []"

fun streamed_thinking :: "chunk \<Rightarrow> thinking_part list" where
  "streamed_thinking (ThinkingChunk m) = concat (map final_part (m_parts m))"
| "streamed_thinking c = []"

fun streamed_usage :: "chunk \<Rightarrow> token_usage list" where
  "streamed_usage (UsageChunk u) = [u]"
| "streamed_usage c = []"

fun part_text :: "part \<Rightarrow> string" where
  "part_text (TextPart t) = t"
| "part_text (CitationsPart t cs) = t"
| "part_text p = []"

definition mirrors :: "chunk list \<Rightarrow> part list \<Rightarrow> string \<Rightarrow> bool" where
  "mirrors out ps extra \<longleftrightarrow>
     concat (map streamed_text out) = concat (map part_text ps) @ extra \<and>
     concat (map streamed_call out) = part_calls ps \<and>
     concat (map streamed_thinking out) = concat (map final_part ps)"

definition accounts :: "processor \<Rightarrow> bool" where
  "accounts p \<longleftrightarrow>
     (\<not> bp_started p \<longrightarrow> bp_out p = [] \<and> \<not> bp_terminal p \<and> bp_open p = {}) \<and>
     (\<not> bp_terminal p \<longrightarrow> concat (map streamed_usage (bp_out p)) = [] \<and> bp_usage p = no_usage) \<and>
     (bp_complete p \<longrightarrow> bp_started p \<and> bp_open p = {}) \<and>
     (bp_terminal p \<longrightarrow> bp_complete p \<and> bp_out p \<noteq> [] \<and> last (bp_out p) = StopChunk (bp_stop_reason p) \<and>
        (concat (map streamed_usage (bp_out p)) = [] \<and> bp_usage p = no_usage \<or>
         concat (map streamed_usage (bp_out p)) = [bp_usage p]))"

definition block_state :: "(int \<times> block_kind option) option \<Rightarrow> int \<Rightarrow> processor \<Rightarrow> bool" where
  "block_state cur n p \<longleftrightarrow>
     (case cur of
        None \<Rightarrow> bp_open p = {} \<and> bp_tools p = Map.empty \<and> bp_reasoning p = Map.empty
      | Some (i, k) \<Rightarrow>
          i = n \<and> bp_open p = {i} \<and> (\<forall>j. j \<noteq> i \<longrightarrow> bp_tools p j = None \<and> bp_reasoning p j = None) \<and>
          (k \<noteq> Some KTool \<longrightarrow> bp_tools p i = None) \<and> (k \<noteq> Some KReasoning \<longrightarrow> bp_reasoning p i = None) \<and>
          (k \<noteq> Some KText \<longrightarrow> bp_text p i = None))"

definition parts_ok :: "bool \<Rightarrow> int \<Rightarrow> (int \<times> part) list \<Rightarrow> bool" where
  "parts_ok pending n al \<longleftrightarrow> sorted_wrt (<) (map fst al) \<and> (\<forall>i \<in> fst ` set al. if pending then i < n else i \<le> n)"

definition assembled :: "int \<Rightarrow> (int \<times> block_kind option) option \<Rightarrow> processor \<Rightarrow> bool" where
  "assembled n cur p \<longleftrightarrow>
     bp_output p = None \<and> bp_completion p = None \<and>
     parts_ok (cur \<noteq> None) n (bp_parts p) \<and>
     (\<forall>j. n < j \<longrightarrow> bp_text p j = None) \<and> block_state cur n p \<and>
     mirrors (bp_out p) (map snd (bp_parts p)) (case cur of None \<Rightarrow> [] | Some (i, k) \<Rightarrow> text_at i p)"

definition same_account :: "processor \<Rightarrow> processor \<Rightarrow> bool" where
  "same_account p p' \<longleftrightarrow> bp_usage p' = bp_usage p \<and> bp_terminal p' = bp_terminal p \<and> bp_stop_reason p' = bp_stop_reason p \<and>
     bp_complete p' = bp_complete p \<and> bp_started p' = bp_started p \<and>
     concat (map streamed_usage (bp_out p')) = concat (map streamed_usage (bp_out p))"

lemma update_new: "idx \<notin> fst ` set al \<Longrightarrow> AList.update idx v al = al @ [(idx, v)]"
  by (induction al) auto

lemma emit_Inr: "emit live c p = (p', Inr u) \<longleftrightarrow> live (length (bp_out p)) \<and> p' = p\<lparr>bp_out := bp_out p @ [c]\<rparr>"
  by (auto simp: emit_def emit_to_def)

lemma part_calls_append: "part_calls (ps @ qs) = part_calls ps @ part_calls qs"
  by (simp add: part_calls_def)

lemma mirrors_chunk:
  "mirrors out ps x \<Longrightarrow> mirrors (out @ [TextChunk (assistant_message [TextPart t] meta)]) ps (x @ t)"
  "mirrors out ps x \<Longrightarrow> mirrors (out @ [ThinkingChunk (assistant_message [draft_thinking t i] meta)]) ps x"
  "mirrors out ps x \<Longrightarrow> mirrors (out @ [ToolCallDeltaChunk a b t]) ps x"
  "mirrors out ps x \<Longrightarrow> mirrors (out @ [UsageChunk u]) ps x"
  "mirrors out ps x \<Longrightarrow> mirrors (out @ [StopChunk r]) ps x"
  by (simp_all add: mirrors_def assistant_message_def draft_thinking_def)

lemma mirrors_part:
  "mirrors out ps t \<Longrightarrow> mirrors out (ps @ [TextPart t]) []"
  "mirrors out ps t \<Longrightarrow> mirrors out (ps @ [CitationsPart t cs]) []"
  "mirrors out ps [] \<Longrightarrow> mirrors (out @ [ToolCallChunk (call_of u)]) (ps @ [ToolUsePart u]) []"
  "mirrors out ps [] \<Longrightarrow> th_final q \<Longrightarrow> th_text q \<noteq> [] \<or> th_redacted q \<noteq> [] \<Longrightarrow>
   mirrors (out @ [ThinkingChunk (assistant_message [ThinkingPart q] meta)]) (ps @ [ThinkingPart q]) []"
  "mirrors out ps [] \<Longrightarrow> th_text q = [] \<Longrightarrow> th_redacted q = [] \<Longrightarrow> mirrors out (ps @ [ThinkingPart q]) []"
  by (simp_all add: mirrors_def assistant_message_def part_calls_append) (simp_all add: part_calls_def)

lemma parts_ok_later: "parts_ok False n al \<Longrightarrow> n < i \<Longrightarrow> parts_ok True i al"
  by (fastforce simp: parts_ok_def)

lemma parts_ok_add: "parts_ok True n al \<Longrightarrow> parts_ok False n (AList.update n v al)"
proof -
  assume a: "parts_ok True n al"
  then have "n \<notin> fst ` set al" by (auto simp: parts_ok_def)
  then show ?thesis using a by (auto simp: parts_ok_def update_new sorted_wrt_append)
qed

lemma parts_ok_drop: "parts_ok True n al \<Longrightarrow> parts_ok False n al"
  by (fastforce simp: parts_ok_def)

lemma parts_ok_values: "parts_ok True n al \<Longrightarrow> map snd (AList.update n v al) = map snd al @ [v]"
  by (subst update_new) (auto simp: parts_ok_def)

lemma assembled_open: "assembled n None p \<Longrightarrow> n < i \<Longrightarrow> assembled i (Some (i, None)) (p\<lparr>bp_open := insert i (bp_open p)\<rparr>)"
  by (auto simp: assembled_def block_state_def text_at_def dest: parts_ok_later)

lemma start_assembled:
  assumes "assembled n None p" "n < i" "start_block i start (p\<lparr>bp_open := insert i (bp_open p)\<rparr>) = (p', Inr ())"
  shows "assembled i (Some (i, start_kind start)) p' \<and> same_account p p'"
proof -
  let ?p = "p\<lparr>bp_open := insert i (bp_open p)\<rparr>"
  have a: "assembled i (Some (i, None)) ?p" using assms(1,2) by (rule assembled_open)
  show ?thesis
  proof (cases "(i, start, ?p)" rule: start_block.cases)
    case (1 idx q)
    then show ?thesis using assms(3) a by (auto simp: start_kind_def same_account_def)
  next
    case (2 idx t q)
    then show ?thesis using assms(3) by simp
  next
    case (3 idx callID raw q)
    have p: "bp_output p = None" "bp_open p = {}" using assms(1) by (simp_all add: assembled_def block_state_def)
    show ?thesis using assms(3) a 3 p
      by (auto simp: start_kind_def same_account_def assembled_def block_state_def Let_def text_at_def simp del: insert_iff split: if_splits)
  qed
qed

lemma delta_assembled:
  assumes "assembled i (Some (i, k)) p" "k = None \<or> k = Some (delta_kind d)" "apply_delta live i d p = (p', Inr ())"
  shows "assembled i (Some (i, Some (delta_kind d))) p' \<and> same_account p p'"
proof (cases d)
  case (TextDelta t)
  then show ?thesis using assms
    by (auto simp: assembled_def block_state_def same_account_def Let_def emit_Inr text_at_def assistant_message_def
        intro: mirrors_chunk(1) [unfolded assistant_message_def] split: if_splits)
next
  case (CitationDelta c)
  then show ?thesis using assms
    by (auto simp: assembled_def block_state_def same_account_def text_at_def split: sum.splits)
next
  case (ReasoningDelta r)
  then show ?thesis using assms
    by (cases r) (auto simp: assembled_def block_state_def same_account_def text_at_def put_reasoning_def Let_def emit_Inr
        intro: mirrors_chunk(2) split: if_splits)
next
  case (ToolUseDelta input)
  then show ?thesis using assms
    by (auto simp: assembled_def block_state_def same_account_def text_at_def Let_def emit_Inr
        intro: mirrors_chunk(3) split: if_splits option.splits)
qed (use assms in simp)

text \<open>Stopping a block, by its kind.\<close>

lemma blocks_clear:
  assumes "assembled n (Some (i, k)) p"
  shows "(bp_tools p)(i := None) = Map.empty" "(bp_reasoning p)(i := None) = Map.empty"
    "bp_tools p i = None \<Longrightarrow> bp_tools p = Map.empty" "bp_reasoning p i = None \<Longrightarrow> bp_reasoning p = Map.empty"
proof -
  have a: "bp_tools p j = None" "bp_reasoning p j = None" if "j \<noteq> i" for j
    using assms that by (auto simp: assembled_def block_state_def)
  then show "(bp_tools p)(i := None) = Map.empty" "(bp_reasoning p)(i := None) = Map.empty" by auto
  show "bp_tools p i = None \<Longrightarrow> bp_tools p = Map.empty" "bp_reasoning p i = None \<Longrightarrow> bp_reasoning p = Map.empty"
    using a by (metis ext)+
qed

lemma stop_nothing:
  assumes "assembled n (Some (i, k)) p" "bp_reasoning p i = None" "bp_tools p i = None" "bp_text p i = None"
    "stop_block live i (p\<lparr>bp_open := bp_open p - {i}\<rparr>) = (p', Inr ())"
  shows "assembled n None p' \<and> same_account p p'"
proof -
  have p: "bp_completion p = None" "bp_output p = None" "bp_open p = {i}" "i = n" using assms(1) by (auto simp: assembled_def block_state_def)
  then have p': "p' = p\<lparr>bp_open := {}\<rparr>"
    using assms(2-5) by (auto simp: stop_block_def finalizeCompletion_def stop_reasoning_def stop_content_def)
  have "bp_tools p = Map.empty" "bp_reasoning p = Map.empty"
    using blocks_clear [OF assms(1)] assms(2,3) by simp_all
  then show ?thesis using assms(1,4) p
    by (auto simp: p' assembled_def block_state_def same_account_def text_at_def dest: parts_ok_drop)
qed

lemma stop_text:
  assumes "assembled n (Some (i, Some KText)) p" "bp_text p i = Some t"
    "stop_block live i (p\<lparr>bp_open := bp_open p - {i}\<rparr>) = (p', Inr ())"
  shows "assembled n None p' \<and> same_account p p'"
proof -
  have p: "bp_completion p = None" "bp_output p = None" "bp_open p = {i}" "i = n" "bp_tools p i = None" "bp_reasoning p i = None"
    using assms(1) by (auto simp: assembled_def block_state_def)
  obtain part where part: "p' = p\<lparr>bp_open := {}, bp_parts := AList.update i part (bp_parts p)\<rparr>" "part = TextPart t \<or> (\<exists>cs. part = CitationsPart t cs)"
    using assms(2,3) p by (auto simp: stop_block_def finalizeCompletion_def stop_reasoning_def stop_content_def Let_def)
  have "bp_tools p = Map.empty" "bp_reasoning p = Map.empty" using blocks_clear [OF assms(1)] p by simp_all
  moreover have "mirrors (bp_out p) (map snd (bp_parts p) @ [part]) []"
    using part(2) assms(1,2) by (auto simp: assembled_def text_at_def intro: mirrors_part(1,2))
  moreover have "parts_ok True i (bp_parts p)" using assms(1) p(4) by (simp add: assembled_def)
  ultimately show ?thesis using assms(1) p
    by (auto simp: part(1) assembled_def block_state_def same_account_def parts_ok_add parts_ok_values)
qed

lemma stop_tool:
  assumes "assembled n (Some (i, k)) p" "bp_tools p i = Some tb"
    "stop_block live i (p\<lparr>bp_open := bp_open p - {i}\<rparr>) = (p', Inr ())"
  shows "assembled n None p' \<and> same_account p p'"
proof -
  have k: "k = Some KTool" using assms(1,2) by (auto simp: assembled_def block_state_def)
  have p: "bp_completion p = None" "bp_output p = None" "bp_open p = {i}" "i = n" "bp_text p i = None" "bp_reasoning p i = None"
    using assms(1) k by (auto simp: assembled_def block_state_def)
  obtain u where u: "p' = p\<lparr>bp_open := {}, bp_tools := (bp_tools p)(i := None), bp_parts := AList.update i (ToolUsePart u) (bp_parts p),
      bp_out := bp_out p @ [ToolCallChunk (call_of u)]\<rparr>"
  proof -
    from assms(2,3) p obtain payload where
      e: "emit live (ToolCallChunk \<lparr>mc_name = tb_name tb, mc_payload = payload, mc_id = tb_id tb, mc_thought_signature = []\<rparr>)
        (p\<lparr>bp_open := {}, bp_tools := (bp_tools p)(i := None), bp_parts := AList.update i (ToolUsePart \<lparr>tu_id = tb_id tb, tu_name = tb_name tb,
          tu_input = payload, tu_thought_signature = []\<rparr>) (bp_parts p)\<rparr>) = (p', Inr ())"
      by (auto simp: stop_block_def finalizeCompletion_def stop_reasoning_def stop_content_def Let_def split: sum.splits)
    show ?thesis
      by (rule that [of "\<lparr>tu_id = tb_id tb, tu_name = tb_name tb, tu_input = payload, tu_thought_signature = []\<rparr>"])
        (use e in \<open>simp add: emit_Inr call_of_def\<close>)
  qed
  have "(bp_tools p)(i := None) = Map.empty" "bp_reasoning p = Map.empty" using blocks_clear [OF assms(1)] p by simp_all
  moreover have "mirrors (bp_out p @ [ToolCallChunk (call_of u)]) (map snd (bp_parts p) @ [ToolUsePart u]) []"
    using assms(1) p(5) by (auto simp: assembled_def text_at_def intro: mirrors_part(3))
  moreover have "parts_ok True i (bp_parts p)" using assms(1) p(4) by (simp add: assembled_def)
  ultimately show ?thesis using assms(1) p
    by (auto simp: u assembled_def block_state_def same_account_def parts_ok_add parts_ok_values)
qed

lemma stop_thinking:
  assumes "assembled n (Some (i, k)) p" "bp_reasoning p i = Some rb"
    "stop_block live i (p\<lparr>bp_open := bp_open p - {i}\<rparr>) = (p', Inr ())"
  shows "assembled n None p' \<and> same_account p p'"
proof -
  have k: "k = Some KReasoning" using assms(1,2) by (auto simp: assembled_def block_state_def)
  have p: "bp_completion p = None" "bp_output p = None" "bp_open p = {i}" "i = n" "bp_text p i = None" "bp_tools p i = None"
    using assms(1) k by (auto simp: assembled_def block_state_def)
  have clear: "bp_tools p = Map.empty" "(bp_reasoning p)(i := None) = Map.empty" using blocks_clear [OF assms(1)] p by simp_all
  have m: "mirrors (bp_out p) (map snd (bp_parts p)) []" "parts_ok True i (bp_parts p)" using assms(1) p(4,5) by (simp_all add: assembled_def text_at_def)
  let ?p = "p\<lparr>bp_open := {}, bp_reasoning := (bp_reasoning p)(i := None)\<rparr>"
  show ?thesis
  proof (cases "finalize rb")
    case (Inl err)
    then show ?thesis using assms(2,3) p by (simp add: stop_block_def finalizeCompletion_def stop_reasoning_def Let_def)
  next
    case (Inr made)
    show ?thesis
    proof (cases made)
      case None
      then have p': "p' = ?p"
        using assms(2,3) p Inr by (simp add: stop_block_def finalizeCompletion_def stop_reasoning_def stop_content_def Let_def)
      show ?thesis using assms(1) p clear m by (auto simp: p' assembled_def block_state_def same_account_def dest: parts_ok_drop)
    next
      case (Some q)
      let ?q = "q\<lparr>th_index := i, th_final := True\<rparr>"
      let ?visible = "th_text ?q \<noteq> [] \<or> th_redacted ?q \<noteq> []"
      have p': "p' = ?p\<lparr>bp_parts := AList.update i (ThinkingPart ?q) (bp_parts p),
          bp_out := bp_out p @ (if ?visible then [ThinkingChunk (assistant_message [ThinkingPart ?q] None)] else [])\<rparr>"
        using assms(2,3) p Inr Some
        by (auto simp: stop_block_def finalizeCompletion_def stop_reasoning_def stop_content_def Let_def emit_def emit_to_def split: if_splits)
      have "mirrors (bp_out p') (map snd (bp_parts p) @ [ThinkingPart ?q]) []"
        using m(1) mirrors_part(4) [of "bp_out p" "map snd (bp_parts p)" ?q None] mirrors_part(5) [of "bp_out p" "map snd (bp_parts p)" ?q]
        by (cases ?visible) (simp_all add: p')
      moreover have "concat (map streamed_usage (bp_out p')) = concat (map streamed_usage (bp_out p))" by (simp add: p')
      ultimately show ?thesis using assms(1) p clear m(2)
        by (auto simp: assembled_def block_state_def same_account_def parts_ok_add parts_ok_values) (auto simp: p' parts_ok_add parts_ok_values)
    qed
  qed
qed

lemma stop_assembled:
  assumes "assembled n (Some (i, k)) p" "stop_block live i (p\<lparr>bp_open := bp_open p - {i}\<rparr>) = (p', Inr ())"
  shows "assembled n None p' \<and> same_account p p'"
proof -
  have "k = Some KText" if "bp_text p i = Some t" for t using assms(1) that by (auto simp: assembled_def block_state_def)
  then show ?thesis
    using stop_nothing [OF assms(1) _ _ _ assms(2)] stop_text [OF _ _ assms(2)] stop_tool [OF assms(1) _ assms(2)]
      stop_thinking [OF assms(1) _ assms(2)] assms(1)
    by (cases "bp_reasoning p i"; cases "bp_tools p i"; cases "bp_text p i") blast+
qed

lemma accounts_same: "accounts p \<Longrightarrow> bp_started p \<Longrightarrow> \<not> bp_complete p \<Longrightarrow> same_account p p' \<Longrightarrow> accounts p'"
  by (auto simp: accounts_def same_account_def)

lemma finish_assembled:
  assumes "assembled n cur p" "accounts p" "finishStream live p = (p', Inr ())"
  shows "assembled n cur p' \<and> accounts p' \<and> bp_terminal p'"
proof (cases "bp_terminal p")
  case True
  then show ?thesis using assms by (auto simp: finishStream_def)
next
  case False
  then have p': "p' = p\<lparr>bp_terminal := True, bp_out := bp_out p @ [StopChunk (bp_stop_reason p)]\<rparr>" "bp_complete p"
    using assms(3) by (auto simp: finishStream_def emit_Inr split: if_splits)
  have "assembled n cur p'" using assms(1)
    by (auto simp: p' assembled_def block_state_def text_at_def mirrors_chunk(5) split: option.splits prod.splits)
  then show ?thesis using assms(2) False p'(2) by (auto simp: p'(1) accounts_def)
qed

text \<open>Each event keeps the agreement.\<close>

definition agrees :: "int \<Rightarrow> (int \<times> block_kind option) option \<Rightarrow> processor \<Rightarrow> event list \<Rightarrow> bool" where
  "agrees n cur p es \<longleftrightarrow> assembled n cur p \<and> accounts p \<and> ordered_blocks n cur es"

lemma agrees_start:
  assumes "agrees n cur p (MessageStart # es)" "Handle live MessageStart p = (p', Inr ())"
  shows "\<exists>n' cur'. agrees n' cur' p' es"
proof -
  have s: "\<not> bp_started p" using assms(2) by (simp add: Handle_def split: if_splits)
  then have o: "bp_out p = []" "bp_open p = {}" using assms(1) by (simp_all add: agrees_def accounts_def)
  then have c: "cur = None" using assms(1) by (auto simp: agrees_def assembled_def block_state_def split: option.splits)
  have p: "p' = p\<lparr>bp_tools := Map.empty, bp_reasoning := Map.empty, bp_text := Map.empty, bp_citations := Map.empty,
                  bp_parts := [], bp_open := {}, bp_completion := None, bp_stop_reason := [], bp_usage := no_usage,
                  bp_started := True, bp_complete := False, bp_terminal := False\<rparr>"
    using assms(2) s by (simp add: Handle_def)
  have "agrees n None p' es"
    using assms(1) o by (simp add: p c agrees_def assembled_def block_state_def parts_ok_def mirrors_def part_calls_def accounts_def)
  then show ?thesis by blast
qed

lemma same_agrees:
  "accounts p \<Longrightarrow> bp_started p \<Longrightarrow> \<not> bp_complete p \<Longrightarrow> ordered_blocks n cur es \<Longrightarrow>
   assembled n cur p' \<and> same_account p p' \<Longrightarrow> \<exists>n' cur'. agrees n' cur' p' es"
  using accounts_same unfolding agrees_def by blast

lemma agrees_block_start:
  assumes "agrees n cur p (ContentBlockStart index start # es)" "Handle live (ContentBlockStart index start) p = (p', Inr ())"
  shows "\<exists>n' cur'. agrees n' cur' p' es"
proof -
  obtain i where i: "index = Some i" using assms(2) by (cases index) (auto simp: Handle_def contentIndex_def split: if_splits)
  have h: "bp_started p" "\<not> bp_complete p" "start_block i start (p\<lparr>bp_open := insert i (bp_open p)\<rparr>) = (p', Inr ())"
    using assms(2) by (auto simp: Handle_def contentIndex_def i split: if_splits)
  have o: "cur = None" "n < i" "ordered_blocks i (Some (i, start_kind start)) es" "accounts p" "assembled n None p"
    using assms(1) by (auto simp: agrees_def i)
  show ?thesis using start_assembled [OF o(5,2) h(3)] by (rule same_agrees [OF o(4) h(1,2) o(3)])
qed

lemma agrees_delta:
  assumes "agrees n cur p (ContentBlockDelta index d # es)" "Handle live (ContentBlockDelta index d) p = (p', Inr ())"
  shows "\<exists>n' cur'. agrees n' cur' p' es"
proof -
  obtain i where i: "index = Some i" using assms(2) by (cases index) (auto simp: Handle_def contentIndex_def split: if_splits)
  have h: "bp_started p" "\<not> bp_complete p" using assms(2) by (auto simp: Handle_def split: if_splits)
  have o: "ordered_blocks i (Some (i, Some (delta_kind d))) es" "accounts p" "assembled n cur p"
    using assms(1) by (auto simp: agrees_def i)
  have "assembled i (Some (i, Some (delta_kind d))) p' \<and> same_account p p'"
  proof (cases cur)
    case None
    then have n: "n < i" "assembled n None p" using assms(1) by (auto simp: agrees_def i)
    then have "bp_open p = {}" by (simp add: assembled_def block_state_def)
    then have "apply_delta live i d (p\<lparr>bp_open := insert i (bp_open p)\<rparr>) = (p', Inr ())"
      using assms(2) h by (cases d) (simp_all add: Handle_def contentIndex_def i)
    then have "assembled i (Some (i, Some (delta_kind d))) p' \<and> same_account (p\<lparr>bp_open := insert i (bp_open p)\<rparr>) p'"
      using delta_assembled [OF assembled_open [OF n(2,1)]] by blast
    then show ?thesis by (simp add: same_account_def)
  next
    case (Some jk)
    then obtain k where k: "cur = Some (i, k)" "k = None \<or> k = Some (delta_kind d)"
      using assms(1) by (cases jk) (auto simp: agrees_def i)
    then have "n = i" "bp_open p = {i}" using o(3) by (auto simp: assembled_def block_state_def)
    then show ?thesis using delta_assembled [of i k p d live p'] assms(2) o(3) k h
      by (simp add: Handle_def contentIndex_def i)
  qed
  then show ?thesis by (rule same_agrees [OF o(2) h o(1)])
qed

lemma agrees_block_stop:
  assumes "agrees n cur p (ContentBlockStop index # es)" "Handle live (ContentBlockStop index) p = (p', Inr ())"
  shows "\<exists>n' cur'. agrees n' cur' p' es"
proof -
  obtain i where i: "index = Some i" using assms(2) by (cases index) (auto simp: Handle_def contentIndex_def split: if_splits)
  have h: "bp_started p" "\<not> bp_complete p" "stop_block live i (p\<lparr>bp_open := bp_open p - {i}\<rparr>) = (p', Inr ())"
    using assms(2) by (auto simp: Handle_def contentIndex_def i split: if_splits)
  obtain k where k: "cur = Some (i, k)" using assms(1) by (auto simp: agrees_def i)
  have o: "ordered_blocks n None es" "accounts p" "assembled n (Some (i, k)) p"
    using assms(1) k by (auto simp: agrees_def i)
  show ?thesis using stop_assembled [OF o(3) h(3)] by (rule same_agrees [OF o(2) h(1,2) o(1)])
qed

lemma agrees_metadata:
  assumes "agrees n cur p (Metadata usage # es)" "Handle live (Metadata usage) p = (p', Inr ())"
  shows "\<exists>n' cur'. agrees n' cur' p' es"
proof (cases usage)
  case None
  then have "finishStream live p = (p', Inr ())" using assms(2) by (simp add: Handle_def split: if_splits)
  then have "agrees n cur p' es" using finish_assembled [of n cur p live p'] assms(1) by (simp add: agrees_def)
  then show ?thesis by blast
next
  case (Some u)
  let ?u = "converse_usage p u"
  let ?p1 = "p\<lparr>bp_usage := ?u, bp_out := bp_out p @ [UsageChunk ?u]\<rparr>"
  have c: "\<not> bp_terminal p" "bp_complete p" "bp_started p" using assms(2) by (auto simp: Handle_def split: if_splits)
  then have f: "finishStream live ?p1 = (p', Inr ())"
    using assms(2) Some by (auto simp: Handle_def Let_def emit_def emit_to_def split: if_splits)
  have a: "assembled n cur p" "accounts p" "ordered_blocks n cur es" using assms(1) by (simp_all add: agrees_def)
  have "assembled n cur ?p1" using a(1)
    by (auto simp: assembled_def block_state_def text_at_def mirrors_chunk(4) split: option.splits prod.splits)
  moreover have p': "p' = ?p1\<lparr>bp_terminal := True, bp_out := bp_out p @ [UsageChunk ?u, StopChunk (bp_stop_reason p)]\<rparr>"
    using f c by (auto simp: finishStream_def emit_Inr split: if_splits)
  ultimately have "assembled n cur p'"
    using mirrors_chunk(5) [of "bp_out ?p1" _ _ "bp_stop_reason p"]
    by (auto simp: assembled_def block_state_def text_at_def split: option.splits prod.splits)
  moreover have "accounts p'" using a(2) c by (auto simp: p' accounts_def)
  ultimately have "agrees n cur p' es" using a(3) by (simp add: agrees_def)
  then show ?thesis by blast
qed

lemma agrees_stop:
  assumes "agrees n cur p (MessageStop r # es)" "Handle live (MessageStop r) p = (p', Inr ())"
  shows "\<exists>n' cur'. agrees n' cur' p' es"
proof -
  have "bp_started p" "\<not> bp_complete p" "bp_open p = {}" "p' = p\<lparr>bp_stop_reason := r, bp_complete := True\<rparr>"
    using assms(2) by (auto simp: Handle_def split: if_splits)
  then have "agrees n cur p' es" using assms(1)
    by (auto simp: agrees_def accounts_def assembled_def block_state_def text_at_def split: option.splits prod.splits)
  then show ?thesis by blast
qed

lemma agrees_step: "agrees n cur p (ev # es) \<Longrightarrow> Handle live ev p = (p', Inr ()) \<Longrightarrow> \<exists>n' cur'. agrees n' cur' p' es"
  using agrees_start agrees_block_start agrees_delta agrees_block_stop agrees_metadata agrees_stop
  by (cases ev) (blast | simp add: Handle_def)+

fun events_of :: "event arrival list \<Rightarrow> event list" where
  "events_of [] = []"
| "events_of (Arrives e # as) = e # events_of as"
| "events_of (ContextDone # as) = []"

lemma drain_agrees:
  "agrees n cur p (events_of as) \<Longrightarrow> drain (Handle live) as p = (p', None) \<Longrightarrow> \<exists>n' cur'. agrees n' cur' p' []"
proof (induction as arbitrary: n cur p)
  case Nil
  then show ?case by auto
next
  case (Cons a as)
  then obtain e where e: "a = Arrives e" by (cases a) simp_all
  then obtain p1 where p1: "Handle live e p = (p1, Inr ())" "drain (Handle live) as p1 = (p', None)"
    using Cons.prems(2) by (auto split: prod.splits sum.splits)
  then show ?case using agrees_step [OF _ p1(1)] Cons.prems(1) Cons.IH e by (metis events_of.simps(2))
qed

lemma canonical_sorted: "parts_ok b n (bp_parts p) \<Longrightarrow> canonical_parts p = map snd (bp_parts p)"
  by (simp add: canonical_parts_def parts_ok_def sort_key_id_if_sorted strict_sorted_imp_sorted)

definition response_parts :: "response \<Rightarrow> part list" where
  "response_parts r = concat (map m_parts (rs_content r))"

text \<open>
  Property C37. The response of a Bedrock stream is what was streamed: for a request without structured output,
  when the content blocks come one after the other, with increasing indices and each of one kind, then the text of the response is the
  concatenation of the text chunks, its tool calls are the tool call chunks in the same order, its
  signed or redacted thinking is that of the final thinking chunks, the last chunk is the stop chunk with the
  stop reason of the response, and its usage is the one reported, or none.
\<close>

theorem bedrock_response_is_streamed:
  assumes "ordered_blocks (-1) None (events_of arrivals)"
    and run: "run ft live (newChunkProcessor names modelID modelClass None fallback) arrivals ending = (out, Inr r)"
  shows "concat (map streamed_text out) = concat (map part_text (response_parts r)) \<and>
    concat (map streamed_call out) = part_calls (response_parts r) \<and>
    concat (map streamed_thinking out) = concat (map final_part (response_parts r)) \<and>
    last out = StopChunk (rs_stop_reason r) \<and>
    (concat (map streamed_usage out) = [rs_usage r] \<or> concat (map streamed_usage out) = [] \<and> rs_usage r = no_usage)"
proof -
  obtain p p' where d: "drain (Handle live) arrivals (newChunkProcessor names modelID modelClass None fallback) = (p, None)"
    and p: "bp_complete p" and f: "finishStream live p = (p', Inr ())" and r: "out = bp_out p'" "r = stream_response p'"
    using run by (rule run_response) blast
  have "agrees (-1) None (newChunkProcessor names modelID modelClass None fallback) (events_of arrivals)"
    using assms(1) by (simp add: agrees_def newChunkProcessor_def assembled_def block_state_def parts_ok_def mirrors_def
        part_calls_def accounts_def)
  then obtain n cur where "agrees n cur p []" using drain_agrees [OF _ d] by blast
  then have a: "assembled n cur p'" "accounts p'" "bp_terminal p'"
    using finish_assembled [OF _ _ f] by (auto simp: agrees_def)
  then have c: "cur = None" by (auto simp: accounts_def assembled_def block_state_def split: option.splits)
  have "response_parts r = map snd (bp_parts p')"
    using a(1) canonical_sorted [of "cur \<noteq> None" n p']
    by (simp add: r(2) response_parts_def stream_response_def assistant_message_def assembled_def)
  then show ?thesis using a c by (auto simp: r assembled_def mirrors_def accounts_def stream_response_def)
qed

text \<open>Reasoning, text and a tool call, one after the other.\<close>

definition example_events :: "event list" where
  "example_events =
     [MessageStart, ContentBlockDelta (Some 0) (ReasoningDelta (ReasoningText ''hm'')),
      ContentBlockDelta (Some 0) (ReasoningDelta (ReasoningSignature ''s'')), ContentBlockStop (Some 0),
      ContentBlockDelta (Some 1) (TextDelta ''ok''), ContentBlockStop (Some 1),
      ContentBlockStart (Some 2) (Some (ToolUseStart (Some ''t1'') (Some ''$FUNCTIONS.ab''))),
      ContentBlockDelta (Some 2) (ToolUseDelta (Some ''{'')), ContentBlockDelta (Some 2) (ToolUseDelta (Some ''}'')),
      ContentBlockStop (Some 2), MessageStop ''tool_use'',
      Metadata (Some \<lparr>su_input = Some 3, su_output = Some 2, su_total = Some 5, su_cache_read = None, su_cache_write = None\<rparr>)]"

definition example_call :: model_tool_call where
  "example_call = \<lparr>mc_name = ''a.b'', mc_payload = ''{}'', mc_id = ''t1'', mc_thought_signature = []\<rparr>"

definition example_thinking :: thinking_part where
  "example_thinking = \<lparr>th_text = ''hm'', th_signature = ''s'', th_redacted = [], th_index = 0, th_final = True\<rparr>"

lemma example_bedrock_run:
  "run ft (\<lambda>n. True) (newChunkProcessor [''ab'' \<mapsto> ''a.b''] [] [] None []) (map Arrives example_events) (None, False) =
   ([ThinkingChunk (assistant_message [draft_thinking ''hm'' 0] None), ThinkingChunk (assistant_message [ThinkingPart example_thinking] None),
     TextChunk (assistant_message [TextPart ''ok''] (content_meta 1)), ToolCallDeltaChunk ''a.b'' ''t1'' ''{'',
     ToolCallDeltaChunk ''a.b'' ''t1'' ''}'', ToolCallChunk example_call,
     UsageChunk (no_usage\<lparr>us_input := 3, us_output := 2, us_total := 5\<rparr>), StopChunk ''tool_use''],
    Inr \<lparr>rs_content = [assistant_message [ThinkingPart example_thinking, TextPart ''ok'',
           ToolUsePart \<lparr>tu_id = ''t1'', tu_name = ''a.b'', tu_input = ''{}'', tu_thought_signature = []\<rparr>] None],
         rs_usage = no_usage\<lparr>us_input := 3, us_output := 2, us_total := 5\<rparr>, rs_stop_reason = ''tool_use''\<rparr>)"
  by (simp add: run_def example_events_def Handle_def newChunkProcessor_def emit_def emit_to_def contentIndex_def stop_block_def
      finalizeCompletion_def stop_reasoning_def stop_content_def finalize_def put_reasoning_def reasoning_at_def text_at_def
      finalInput_def decodeToolPayload_def trim_empty_object json_valid_empty_object Let_def normalizeToolName_def functions_prefix_def
      example_call_def example_thinking_def converse_usage_def count_def no_usage_def finishStream_def stream_response_def canonical_parts_def
      ValidateResponse_def validateResponseMessage_def assistant_message_def metadata_of_def
      MarshalMetadata_def value_text_def validateThinkingPart_def
      validateTokenUsage_def model_classes_def validateToolCall_def call_of_def)

theorem bedrock_stream_contract_witness:
  "\<exists>out res. run (\<lambda>m e. []) (\<lambda>n. True) (newChunkProcessor [''ab'' \<mapsto> ''a.b''] [] [] None []) (map Arrives example_events) (None, False) =
     (out, Inr res) \<and> stopped out \<and> length (filter is_stop out) \<le> 1"
proof -
  have "\<forall>e. Arrives e \<in> set (map Arrives example_events) \<longrightarrow> legal_event e" "[] \<notin> ran [''ab'' \<mapsto> ''a.b'']" "[] \<in> set model_classes"
    "\<forall>out. (None::structured_output option) = Some out \<longrightarrow> so_name out \<noteq> []"
    by (auto simp: example_events_def counts_ok_def count_def functions_prefix_def model_classes_def)
  from bedrock_stream_contract [OF this example_bedrock_run] show ?thesis
    using example_bedrock_run by blast
qed

theorem bedrock_response_is_streamed_witness:
  "\<exists>out r. run (\<lambda>m e. []) (\<lambda>n. True) (newChunkProcessor [''ab'' \<mapsto> ''a.b''] [] [] None []) (map Arrives example_events) (None, False) =
     (out, Inr r) \<and> concat (map streamed_text out) = ''ok'' \<and> concat (map streamed_call out) = [example_call] \<and>
     concat (map streamed_thinking out) = concat (map final_part (response_parts r)) \<and> last out = StopChunk (rs_stop_reason r)"
proof -
  have "ordered_blocks (-1) None (events_of (map Arrives example_events))"
    by (simp add: example_events_def start_kind_def)
  from bedrock_response_is_streamed [OF this example_bedrock_run [of "\<lambda>m e. []"]] show ?thesis
    using example_bedrock_run [of "\<lambda>m e. []"] by (simp add: assistant_message_def)
qed

end
