(* ===== verification/Strict_Schema.thy ===== *)
theory Strict_Schema
  imports Message_Json "HOL-Library.AList"
begin

section \<open>Strict schemas\<close>

text \<open>
  \<open>features/model/openai/strict_schema.go\<close>: the projection of canonical JSON schemas into the subset OpenAI
  accepts and the removal of the nulls with which a model then omits optional members. A decoded object is
  the list of its members, of which Go keeps no order; the projection visits them in the order of the list,
  which only decides which of several errors is reported.
\<close>

type_synonym obj = "(string \<times> gvalue) list"

datatype step = Items | Branch string nat | Member string string

datatype strict_error =
    InvalidSchema
  | InvalidSchemaObject
  | InvalidPayload
  | RootNotObject
  | OpenObject "step list"
  | MapObject "step list"
  | MarshalPayload

definition unsupported_keywords :: "string list" where
  "unsupported_keywords = [''$schema'', ''example'', ''examples'', ''default'']"

definition string_formats :: "string list" where
  "string_formats = [''date-time'', ''time'', ''date'', ''duration'', ''email'', ''hostname'', ''ipv4'', ''ipv6'', ''uuid'']"

definition list_keywords :: "string list" where
  "list_keywords = [''anyOf'', ''oneOf'', ''allOf'']"

definition map_keywords :: "string list" where
  "map_keywords = [''properties'', ''$defs'', ''definitions'']"

definition containsSchemaTypeName :: "gvalue list \<Rightarrow> string \<Rightarrow> bool" where
  "containsSchemaTypeName types want \<longleftrightarrow> GString want \<in> set types"

definition includesSchemaType :: "obj \<Rightarrow> string \<Rightarrow> bool" where
  "includesSchemaType node want \<longleftrightarrow>
     (case map_of node ''type'' of
        Some (GString declared) \<Rightarrow> declared = want
      | Some (GSlice types) \<Rightarrow> containsSchemaTypeName types want
      | _ \<Rightarrow> False)"

definition containsJSONNull :: "gvalue list \<Rightarrow> bool" where
  "containsJSONNull values \<longleftrightarrow> GNil \<in> set values"

definition strictBranchesAcceptNull :: "gvalue list \<Rightarrow> bool" where
  "strictBranchesAcceptNull branches \<longleftrightarrow>
     (\<exists>b \<in> set branches. case b of GMap m \<Rightarrow> includesSchemaType m ''null'' | _ \<Rightarrow> False)"

subsection \<open>Projection\<close>

definition projectStrictUnion :: "obj \<Rightarrow> obj" where
  "projectStrictUnion node =
     (case map_of node ''oneOf'' of
        Some (GSlice branches) \<Rightarrow>
          (let node' = AList.delete ''oneOf'' node
           in case map_of node' ''anyOf'' of
                Some (GSlice existing) \<Rightarrow> AList.update ''anyOf'' (GSlice (existing @ branches)) node'
              | _ \<Rightarrow> AList.update ''anyOf'' (GSlice branches) node')
      | _ \<Rightarrow> node)"

definition projectStrictFormat :: "obj \<Rightarrow> obj" where
  "projectStrictFormat node =
     (case map_of node ''format'' of
        None \<Rightarrow> node
      | Some (GString format) \<Rightarrow>
          if \<not> includesSchemaType node ''string'' then AList.delete ''format'' node
          else if format \<notin> set string_formats then AList.delete ''format'' node
          else node
      | Some v \<Rightarrow> AList.delete ''format'' node)"

definition nullable_enum :: "obj \<Rightarrow> obj" where
  "nullable_enum p =
     (case map_of p ''enum'' of
        Some (GSlice enum) \<Rightarrow> if \<not> containsJSONNull enum then AList.update ''enum'' (GSlice (enum @ [GNil])) p else p
      | _ \<Rightarrow> p)"

definition null_schema :: gvalue where
  "null_schema = GMap [(''type'', GString ''null'')]"

definition nullable_untyped :: "obj \<Rightarrow> obj" where
  "nullable_untyped p =
     (case map_of p ''anyOf'' of
        Some (GSlice branches) \<Rightarrow>
          if \<not> strictBranchesAcceptNull branches then AList.update ''anyOf'' (GSlice (branches @ [null_schema])) p else p
      | _ \<Rightarrow>
          (case map_of p ''$ref'' of
             Some ref \<Rightarrow> AList.update ''anyOf'' (GSlice [GMap [(''$ref'', ref)], null_schema]) (AList.delete ''$ref'' p)
           | None \<Rightarrow> p))"

definition makeStrictNullable :: "obj \<Rightarrow> obj" where
  "makeStrictNullable property =
     (let p = nullable_enum (projectStrictUnion property)
      in case map_of p ''type'' of
           Some (GString declared) \<Rightarrow>
             if declared \<noteq> ''null'' then AList.update ''type'' (GSlice [GString declared, GString ''null'']) p else p
         | Some (GSlice declared) \<Rightarrow>
             if \<not> containsSchemaTypeName declared ''null'' then AList.update ''type'' (GSlice (declared @ [GString ''null''])) p else p
         | _ \<Rightarrow> nullable_untyped p)"

definition required_names :: "obj \<Rightarrow> string list" where
  "required_names node =
     (case map_of node ''required'' of
        Some (GSlice names) \<Rightarrow> concat (map (\<lambda>v. case v of GString s \<Rightarrow> [s] | _ \<Rightarrow> []) names)
      | _ \<Rightarrow> [])"

definition nullable_member :: "string list \<Rightarrow> string \<times> gvalue \<Rightarrow> string \<times> gvalue" where
  "nullable_member required kv =
     (fst kv, if fst kv \<in> set required then snd kv
              else case snd kv of GMap property \<Rightarrow> GMap (makeStrictNullable property) | v \<Rightarrow> v)"

definition close_object :: "step list \<Rightarrow> obj \<Rightarrow> (strict_error, obj) result" where
  "close_object path node =
     (case map_of node ''additionalProperties'' of
        None \<Rightarrow> Inr (AList.update ''additionalProperties'' (GBool False) node)
      | Some GNil \<Rightarrow> Inr (AList.update ''additionalProperties'' (GBool False) node)
      | Some (GBool additional) \<Rightarrow> if additional then Inl (OpenObject path) else Inr node
      | Some v \<Rightarrow> Inl (MapObject path))"

definition require_all :: "obj \<Rightarrow> obj" where
  "require_all node =
     (case map_of node ''properties'' of
        Some (GMap properties) \<Rightarrow>
          if properties = [] then AList.delete ''required'' node
          else AList.update ''required'' (GSlice (map GString (sort (map fst properties))))
                 (AList.update ''properties'' (GMap (map (nullable_member (required_names node)) properties)) node)
      | _ \<Rightarrow> AList.delete ''required'' node)"

definition projectStrictObject :: "step list \<Rightarrow> obj \<Rightarrow> (strict_error, obj) result" where
  "projectStrictObject path node =
     (case close_object path node of Inl err \<Rightarrow> Inl err | Inr node' \<Rightarrow> Inr (require_all node'))"

text \<open>
  The recursion has fuel; \<open>None\<close> is running out of it. The children at a keyword are visited in order, those
  that are not objects being left alone.
\<close>

fun visit_all ::
  "('k \<Rightarrow> obj \<Rightarrow> (strict_error, obj) result option) \<Rightarrow> ('k \<times> gvalue) list \<Rightarrow> (strict_error, ('k \<times> gvalue) list) result option" where
  "visit_all visit [] = Some (Inr [])"
| "visit_all visit ((k, v) # kvs) =
     (case (case v of
              GMap child \<Rightarrow> (case visit k child of None \<Rightarrow> None | Some (Inl err) \<Rightarrow> Some (Inl err) | Some (Inr c) \<Rightarrow> Some (Inr (GMap c)))
            | _ \<Rightarrow> Some (Inr v)) of
        None \<Rightarrow> None
      | Some (Inl err) \<Rightarrow> Some (Inl err)
      | Some (Inr v') \<Rightarrow>
          (case visit_all visit kvs of
             None \<Rightarrow> None
           | Some (Inl err) \<Rightarrow> Some (Inl err)
           | Some (Inr rest) \<Rightarrow> Some (Inr ((k, v') # rest))))"

definition visit_items :: "(step list \<Rightarrow> obj \<Rightarrow> (strict_error, obj) result option) \<Rightarrow> step list \<Rightarrow> obj \<Rightarrow> (strict_error, obj) result option" where
  "visit_items project path node =
     (case map_of node ''items'' of
        Some (GMap items) \<Rightarrow>
          (case project (path @ [Items]) items of
             None \<Rightarrow> None
           | Some (Inl err) \<Rightarrow> Some (Inl err)
           | Some (Inr c) \<Rightarrow> Some (Inr (AList.update ''items'' (GMap c) node)))
      | _ \<Rightarrow> Some (Inr node))"

definition visit_list ::
  "(step list \<Rightarrow> obj \<Rightarrow> (strict_error, obj) result option) \<Rightarrow> step list \<Rightarrow> string \<Rightarrow> obj \<Rightarrow> (strict_error, obj) result option" where
  "visit_list project path keyword node =
     (case map_of node keyword of
        Some (GSlice branches) \<Rightarrow>
          (case visit_all (\<lambda>i. project (path @ [Branch keyword i])) (enumerate 0 branches) of
             None \<Rightarrow> None
           | Some (Inl err) \<Rightarrow> Some (Inl err)
           | Some (Inr ivs) \<Rightarrow> Some (Inr (AList.update keyword (GSlice (map snd ivs)) node)))
      | _ \<Rightarrow> Some (Inr node))"

definition visit_map ::
  "(step list \<Rightarrow> obj \<Rightarrow> (strict_error, obj) result option) \<Rightarrow> step list \<Rightarrow> string \<Rightarrow> obj \<Rightarrow> (strict_error, obj) result option" where
  "visit_map project path keyword node =
     (case map_of node keyword of
        Some (GMap children) \<Rightarrow>
          (case visit_all (\<lambda>name. project (path @ [Member keyword name])) children of
             None \<Rightarrow> None
           | Some (Inl err) \<Rightarrow> Some (Inl err)
           | Some (Inr kvs) \<Rightarrow> Some (Inr (AList.update keyword (GMap kvs) node)))
      | _ \<Rightarrow> Some (Inr node))"

fun run_visits :: "(obj \<Rightarrow> (strict_error, obj) result option) list \<Rightarrow> obj \<Rightarrow> (strict_error, obj) result option" where
  "run_visits [] node = Some (Inr node)"
| "run_visits (v # vs) node =
     (case v node of None \<Rightarrow> None | Some (Inl err) \<Rightarrow> Some (Inl err) | Some (Inr node') \<Rightarrow> run_visits vs node')"

definition drop_keywords :: "obj \<Rightarrow> obj" where
  "drop_keywords node = foldl (\<lambda>m k. AList.delete k m) node unsupported_keywords"

definition project_here :: "step list \<Rightarrow> obj \<Rightarrow> (strict_error, obj) result" where
  "project_here path node =
     (let node' = projectStrictUnion (projectStrictFormat (drop_keywords node))
      in if includesSchemaType node' ''object'' then projectStrictObject path node' else Inr node')"

primrec projectStrictNode :: "nat \<Rightarrow> step list \<Rightarrow> obj \<Rightarrow> (strict_error, obj) result option" where
  "projectStrictNode 0 = (\<lambda>path node. None)"
| "projectStrictNode (Suc n) = (\<lambda>path node.
     case project_here path node of
       Inl err \<Rightarrow> Some (Inl err)
     | Inr node' \<Rightarrow>
         run_visits (visit_items (projectStrictNode n) path #
                     map (visit_list (projectStrictNode n) path) list_keywords @
                     map (visit_map (projectStrictNode n) path) map_keywords) node')"

definition projectStrictSchema :: "string \<Rightarrow> (strict_error, obj) result option" where
  "projectStrictSchema schema =
     (let data = trim_space schema
      in if data = [] then Some (Inr [(''type'', GString ''object''), (''additionalProperties'', GBool False)])
         else if \<not> json_valid data then Some (Inl InvalidSchema)
         else case dec_meta None data of
                Inl err \<Rightarrow> Some (Inl InvalidSchemaObject)
              | Inr None \<Rightarrow> Some (Inl RootNotObject)
              | Inr (Some doc) \<Rightarrow>
                  if \<not> includesSchemaType doc ''object'' then Some (Inl RootNotObject)
                  else projectStrictNode (size (GMap doc) + 2) [] doc)"

subsection \<open>The projected schema is strict\<close>

definition children_at :: "string \<Rightarrow> obj \<Rightarrow> obj list" where
  "children_at k node =
     (case map_of node k of
        Some (GMap m) \<Rightarrow>
          if k = ''items'' then [m]
          else if k \<in> set map_keywords then concat (map (\<lambda>kv. case snd kv of GMap c \<Rightarrow> [c] | _ \<Rightarrow> []) m) else []
      | Some (GSlice vs) \<Rightarrow>
          if k \<in> set list_keywords then concat (map (\<lambda>v. case v of GMap c \<Rightarrow> [c] | _ \<Rightarrow> []) vs) else []
      | _ \<Rightarrow> [])"

definition child_keywords :: "string list" where
  "child_keywords = ''items'' # list_keywords @ map_keywords"

definition children :: "obj \<Rightarrow> obj list" where
  "children node = concat (map (\<lambda>k. children_at k node) child_keywords)"

inductive_set schema_nodes :: "obj \<Rightarrow> obj set" for root :: obj where
  root_node: "root \<in> schema_nodes root"
| child_node: "node \<in> schema_nodes root \<Longrightarrow> c \<in> set (children node) \<Longrightarrow> c \<in> schema_nodes root"

definition closed_object :: "obj \<Rightarrow> bool" where
  "closed_object node \<longleftrightarrow>
     map_of node ''additionalProperties'' = Some (GBool False) \<and>
     map_of node ''required'' =
       (case map_of node ''properties'' of
          Some (GMap properties) \<Rightarrow> if properties = [] then None else Some (GSlice (map GString (sort (map fst properties))))
        | _ \<Rightarrow> None)"

definition strict_node :: "obj \<Rightarrow> bool" where
  "strict_node node \<longleftrightarrow>
     (\<forall>k \<in> set unsupported_keywords. map_of node k = None) \<and>
     (\<forall>branches. map_of node ''oneOf'' \<noteq> Some (GSlice branches)) \<and>
     (\<forall>v. map_of node ''format'' = Some v \<longrightarrow> v \<in> GString ` set string_formats \<and> includesSchemaType node ''string'') \<and>
     (includesSchemaType node ''object'' \<longrightarrow> closed_object node)"

lemma map_of_edits [simp]:
  "map_of (AList.update k v m) = (map_of m)(k \<mapsto> v)" "map_of (AList.delete k m) = (map_of m)(k := None)"
  by (simp_all add: update_conv' delete_conv')

lemma nullable_member_name [simp]: "fst (nullable_member r kv) = fst kv"
  by (simp add: nullable_member_def)

lemma names_nullable [simp]: "map fst (map (nullable_member r) kvs) = map fst kvs"
  by simp

lemma includes_cong: "map_of m ''type'' = map_of m' ''type'' \<Longrightarrow> includesSchemaType m t = includesSchemaType m' t"
  by (simp add: includesSchemaType_def)

lemma dropped: "map_of (drop_keywords node) k = (if k \<in> set unsupported_keywords then None else map_of node k)"
  by (auto simp: drop_keywords_def unsupported_keywords_def)

lemma format_frame: "k \<noteq> ''format'' \<Longrightarrow> map_of (projectStrictFormat node) k = map_of node k"
  by (simp add: projectStrictFormat_def split: option.split gvalue.split)

lemma format_ok:
  "map_of (projectStrictFormat node) ''format'' = Some v \<Longrightarrow> v \<in> GString ` set string_formats \<and> includesSchemaType node ''string''"
  by (auto simp: projectStrictFormat_def split: option.splits gvalue.splits if_splits)

lemma union_frame: "k \<noteq> ''oneOf'' \<Longrightarrow> k \<noteq> ''anyOf'' \<Longrightarrow> map_of (projectStrictUnion node) k = map_of node k"
  by (simp add: projectStrictUnion_def Let_def split: option.split gvalue.split)

lemma union_folds: "map_of (projectStrictUnion node) ''oneOf'' \<noteq> Some (GSlice branches)"
  by (auto simp: projectStrictUnion_def Let_def split: option.splits gvalue.splits)

lemma closed_frame: "close_object path node = Inr m \<Longrightarrow> k \<noteq> ''additionalProperties'' \<Longrightarrow> map_of m k = map_of node k"
  by (auto simp: close_object_def split: option.splits gvalue.splits if_splits)

lemma closed_closes: "close_object path node = Inr m \<Longrightarrow> map_of m ''additionalProperties'' = Some (GBool False)"
  by (auto simp: close_object_def split: option.splits gvalue.splits if_splits)

lemma require_frame: "k \<noteq> ''properties'' \<Longrightarrow> k \<noteq> ''required'' \<Longrightarrow> map_of (require_all node) k = map_of node k"
  by (simp add: require_all_def split: option.split gvalue.split)

lemma require_requires:
  "map_of (require_all node) ''required'' =
     (case map_of (require_all node) ''properties'' of
        Some (GMap properties) \<Rightarrow> if properties = [] then None else Some (GSlice (map GString (sort (map fst properties))))
      | _ \<Rightarrow> None)"
  by (simp add: require_all_def comp_def split: option.split gvalue.split)

lemma here_strict:
  assumes "project_here path node = Inr m"
  shows "strict_node m" "map_of m ''type'' = map_of (drop_keywords node) ''type''"
proof -
  let ?n = "projectStrictUnion (projectStrictFormat (drop_keywords node))"
  have n: "map_of ?n k = None" if "k \<in> set unsupported_keywords" for k
    using that by (auto simp: unsupported_keywords_def union_frame format_frame dropped)
  have type: "map_of ?n ''type'' = map_of (drop_keywords node) ''type''" by (simp add: union_frame format_frame)
  have f: "v \<in> GString ` set string_formats \<and> includesSchemaType ?n ''string''" if "map_of ?n ''format'' = Some v" for v
    using that format_ok [of "drop_keywords node" v] includes_cong [OF type] by (simp add: union_frame)
  show "strict_node m"
  proof (cases "includesSchemaType ?n ''object''")
    case False
    then show ?thesis using assms n f union_folds by (auto simp: project_here_def Let_def strict_node_def)
  next
    case True
    then obtain c where c: "close_object path ?n = Inr c" "m = require_all c"
      using assms by (auto simp: project_here_def Let_def projectStrictObject_def split: sum.splits)
    have m: "map_of m k = map_of ?n k" if "k \<notin> {''additionalProperties'', ''properties'', ''required''}" for k
      using that c by (simp add: require_frame closed_frame)
    have types: "includesSchemaType m t = includesSchemaType ?n t" for t by (rule includes_cong) (simp add: m)
    have "closed_object m"
      using closed_closes [OF c(1)] require_requires [of c] by (simp add: closed_object_def c(2) require_frame)
    moreover have "map_of m k = None" if "k \<in> set unsupported_keywords" for k
      using n [OF that] m [of k] that by (auto simp: unsupported_keywords_def)
    ultimately show ?thesis using f union_folds [of "projectStrictFormat (drop_keywords node)"]
      by (auto simp: strict_node_def m types)
  qed
  show "map_of m ''type'' = map_of (drop_keywords node) ''type''"
    using assms type by (auto simp: project_here_def Let_def projectStrictObject_def require_frame closed_frame split: if_splits sum.splits)
qed

text \<open>Visiting the children at a keyword keeps the node strict.\<close>

fun same_shape :: "bool \<Rightarrow> gvalue option \<Rightarrow> gvalue option \<Rightarrow> bool" where
  "same_shape named (Some (GMap m)) v \<longleftrightarrow> (\<exists>m'. v = Some (GMap m') \<and> (named \<longrightarrow> map fst m' = map fst m))"
| "same_shape named (Some (GSlice xs)) v \<longleftrightarrow> (\<exists>ys. v = Some (GSlice ys))"
| "same_shape named v w \<longleftrightarrow> w = v"

definition shaped :: "obj \<Rightarrow> obj \<Rightarrow> bool" where
  "shaped m m' \<longleftrightarrow>
     (\<forall>k. k \<notin> set child_keywords \<longrightarrow> map_of m' k = map_of m k) \<and>
     (\<forall>k. same_shape (k \<noteq> ''items'') (map_of m k) (map_of m' k))"

lemma same_shape_refl [simp]: "same_shape b v v"
  by (cases "(b, v, v)" rule: same_shape.cases) simp_all

lemma same_shape_trans: "same_shape b u v \<Longrightarrow> same_shape b v w \<Longrightarrow> same_shape b u w"
  by (cases "(b, u, v)" rule: same_shape.cases) auto

lemma shaped_refl [simp]: "shaped m m"
  by (simp add: shaped_def)

lemma shaped_trans: "shaped m m' \<Longrightarrow> shaped m' m'' \<Longrightarrow> shaped m m''"
  unfolding shaped_def by (intro conjI allI; use same_shape_trans in fastforce)

lemma shapedD: "shaped m m' \<Longrightarrow> same_shape (k \<noteq> ''items'') (map_of m k) (map_of m' k)"
  by (simp add: shaped_def)

lemma same_properties:
  "same_shape True v v' \<Longrightarrow>
   (case v' of Some (GMap ps) \<Rightarrow> if ps = [] then None else Some (GSlice (map GString (sort (map fst ps)))) | _ \<Rightarrow> None) =
   (case v of Some (GMap ps) \<Rightarrow> if ps = [] then None else Some (GSlice (map GString (sort (map fst ps)))) | _ \<Rightarrow> None)"
  by (cases "(True, v, v')" rule: same_shape.cases) auto

lemma not_child_keywords:
  "k \<in> set unsupported_keywords \<Longrightarrow> k \<notin> set child_keywords"
  "''type'' \<notin> set child_keywords" "''format'' \<notin> set child_keywords" "''additionalProperties'' \<notin> set child_keywords"
  "''required'' \<notin> set child_keywords"
  by (auto simp: child_keywords_def list_keywords_def map_keywords_def unsupported_keywords_def)

lemma shaped_strict:
  assumes "shaped m m'" "strict_node m" shows "strict_node m'"
proof -
  have k: "map_of m' k = map_of m k" if "k \<notin> set child_keywords" for k using assms(1) that by (simp add: shaped_def)
  have types: "includesSchemaType m' t = includesSchemaType m t" for t
    by (rule includes_cong) (simp add: k not_child_keywords)
  have "same_shape True (map_of m ''oneOf'') (map_of m' ''oneOf'')" using shapedD [OF assms(1), of "''oneOf''"] by simp
  then have "map_of m' ''oneOf'' \<noteq> Some (GSlice bs)" for bs
    using assms(2) by (cases "(True, map_of m ''oneOf'', map_of m' ''oneOf'')" rule: same_shape.cases) (auto simp: strict_node_def)
  moreover have "same_shape True (map_of m ''properties'') (map_of m' ''properties'')" using shapedD [OF assms(1), of "''properties''"] by simp
  then have "closed_object m'" if "closed_object m"
    using that same_properties by (simp add: closed_object_def k not_child_keywords)
  ultimately show ?thesis using assms(2) by (simp add: strict_node_def k types not_child_keywords)
qed

lemma visit_all_kept:
  "visit_all visit kvs = Some (Inr out) \<Longrightarrow>
   map fst out = map fst kvs \<and> (\<forall>c. GMap c \<in> snd ` set out \<longrightarrow> (\<exists>k c0. visit k c0 = Some (Inr c)))"
proof (induction kvs arbitrary: out)
  case (Cons kv kvs)
  obtain k v where kv: "kv = (k, v)" by fastforce
  have "\<exists>v' rest. out = (k, v') # rest \<and> visit_all visit kvs = Some (Inr rest) \<and>
    (\<forall>c. v' = GMap c \<longrightarrow> (\<exists>c0. visit k c0 = Some (Inr c)))"
    using Cons.prems kv by (cases v) (auto split: option.splits sum.splits)
  then obtain v' rest where r: "out = (k, v') # rest" "visit_all visit kvs = Some (Inr rest)"
    "\<forall>c. v' = GMap c \<longrightarrow> (\<exists>c0. visit k c0 = Some (Inr c))" by blast
  show ?case using r kv Cons.IH [OF r(2)] by auto
qed simp

definition keeps_at :: "(obj \<Rightarrow> bool) \<Rightarrow> (obj \<Rightarrow> (strict_error, obj) result option) \<Rightarrow> string \<Rightarrow> bool" where
  "keeps_at P visit k \<longleftrightarrow>
     (\<forall>m m'. visit m = Some (Inr m') \<longrightarrow>
        shaped m m' \<and> (\<forall>j. j \<noteq> k \<longrightarrow> map_of m' j = map_of m j) \<and> (\<forall>c \<in> set (children_at k m'). P c))"

lemma children_cong: "map_of m' k = map_of m k \<Longrightarrow> children_at k m' = children_at k m"
  by (simp add: children_at_def)

lemma run_visits_keep:
  assumes "list_all2 (keeps_at P) vs ks" "distinct ks" "run_visits vs m = Some (Inr m')"
  shows "shaped m m' \<and> (\<forall>j. j \<notin> set ks \<longrightarrow> map_of m' j = map_of m j) \<and> (\<forall>k \<in> set ks. \<forall>c \<in> set (children_at k m'). P c)"
  using assms
proof (induction vs ks arbitrary: m rule: list_all2_induct)
  case (Cons v vs k ks)
  then obtain m1 where m1: "v m = Some (Inr m1)" "run_visits vs m1 = Some (Inr m')" by (auto split: option.splits sum.splits)
  have rest: "shaped m1 m'" "\<forall>j. j \<notin> set ks \<longrightarrow> map_of m' j = map_of m1 j" "\<forall>k \<in> set ks. \<forall>c \<in> set (children_at k m'). P c"
    using Cons.IH [OF _ m1(2)] Cons.prems(1) by simp_all
  have first: "shaped m m1" "\<forall>j. j \<noteq> k \<longrightarrow> map_of m1 j = map_of m j" "\<forall>c \<in> set (children_at k m1). P c"
    using Cons.hyps(1) m1(1) by (simp_all add: keeps_at_def)
  have "children_at k m' = children_at k m1" using rest(2) Cons.prems(1) by (intro children_cong) simp
  then show ?case using rest first shaped_trans [OF first(1) rest(1)] by simp
qed simp

lemma in_children:
  "c \<in> set (children_at k m) \<longleftrightarrow>
   k = ''items'' \<and> map_of m k = Some (GMap c) \<or>
   k \<in> set map_keywords \<and> (\<exists>kvs. map_of m k = Some (GMap kvs) \<and> GMap c \<in> snd ` set kvs) \<or>
   k \<in> set list_keywords \<and> (\<exists>vs. map_of m k = Some (GSlice vs) \<and> GMap c \<in> set vs)"
  by (cases "map_of m k"; cases "the (map_of m k)")
    (force simp: children_at_def map_keywords_def list_keywords_def split: gvalue.splits)+

lemma shaped_update:
  "k \<in> set child_keywords \<Longrightarrow> same_shape (k \<noteq> ''items'') (map_of m k) (Some v) \<Longrightarrow> shaped m (AList.update k v m)"
  by (auto simp: shaped_def)

lemma child_keywords: "''items'' \<in> set child_keywords" "k \<in> set list_keywords \<Longrightarrow> k \<in> set child_keywords \<and> k \<noteq> ''items'' \<and> k \<notin> set map_keywords"
  "k \<in> set map_keywords \<Longrightarrow> k \<in> set child_keywords \<and> k \<noteq> ''items'' \<and> k \<notin> set list_keywords"
  by (auto simp: child_keywords_def list_keywords_def map_keywords_def)

lemma keeps_items:
  assumes "\<And>path c0 c. project path c0 = Some (Inr c) \<Longrightarrow> P c"
  shows "keeps_at P (visit_items project path) ''items''"
  unfolding keeps_at_def
proof (intro allI impI)
  fix m m' assume v: "visit_items project path m = Some (Inr m')"
  show "shaped m m' \<and> (\<forall>j. j \<noteq> ''items'' \<longrightarrow> map_of m' j = map_of m j) \<and> (\<forall>c \<in> set (children_at ''items'' m'). P c)"
  proof (cases "\<exists>c0. map_of m ''items'' = Some (GMap c0)")
    case True
    then obtain c0 c where c: "map_of m ''items'' = Some (GMap c0)" "project (path @ [Items]) c0 = Some (Inr c)"
      "m' = AList.update ''items'' (GMap c) m"
      using v by (auto simp: visit_items_def split: option.splits sum.splits)
    then show ?thesis using assms [OF c(2)] child_keywords(1)
      by (auto simp: in_children child_keywords_def list_keywords_def map_keywords_def intro!: shaped_update)
  next
    case False
    then have "m' = m" using v by (auto simp: visit_items_def split: option.splits gvalue.splits)
    then show ?thesis using False by (auto simp: in_children list_keywords_def map_keywords_def)
  qed
qed

lemma keeps_list:
  assumes "\<And>path c0 c. project path c0 = Some (Inr c) \<Longrightarrow> P c" "k \<in> set list_keywords"
  shows "keeps_at P (visit_list project path k) k"
  unfolding keeps_at_def
proof (intro allI impI)
  fix m m' assume v: "visit_list project path k m = Some (Inr m')"
  show "shaped m m' \<and> (\<forall>j. j \<noteq> k \<longrightarrow> map_of m' j = map_of m j) \<and> (\<forall>c \<in> set (children_at k m'). P c)"
  proof (cases "\<exists>bs. map_of m k = Some (GSlice bs)")
    case True
    then obtain bs ivs where c: "map_of m k = Some (GSlice bs)"
      "visit_all (\<lambda>i. project (path @ [Branch k i])) (enumerate 0 bs) = Some (Inr ivs)" "m' = AList.update k (GSlice (map snd ivs)) m"
      using v by (auto simp: visit_list_def split: option.splits sum.splits)
    have "P c" if "GMap c \<in> snd ` set ivs" for c using visit_all_kept [OF c(2)] assms(1) that by blast
    then show ?thesis using c child_keywords(2) [OF assms(2)] by (auto simp: in_children intro!: shaped_update)
  next
    case False
    then have "m' = m" using v by (auto simp: visit_list_def split: option.splits gvalue.splits)
    then show ?thesis using False child_keywords(2) [OF assms(2)] by (auto simp: in_children)
  qed
qed

lemma keeps_map:
  assumes "\<And>path c0 c. project path c0 = Some (Inr c) \<Longrightarrow> P c" "k \<in> set map_keywords"
  shows "keeps_at P (visit_map project path k) k"
  unfolding keeps_at_def
proof (intro allI impI)
  fix m m' assume v: "visit_map project path k m = Some (Inr m')"
  show "shaped m m' \<and> (\<forall>j. j \<noteq> k \<longrightarrow> map_of m' j = map_of m j) \<and> (\<forall>c \<in> set (children_at k m'). P c)"
  proof (cases "\<exists>cs. map_of m k = Some (GMap cs)")
    case True
    then obtain cs kvs where c: "map_of m k = Some (GMap cs)"
      "visit_all (\<lambda>name. project (path @ [Member k name])) cs = Some (Inr kvs)" "m' = AList.update k (GMap kvs) m"
      using v by (auto simp: visit_map_def split: option.splits sum.splits)
    have "P c" if "GMap c \<in> snd ` set kvs" for c using visit_all_kept [OF c(2)] assms(1) that by blast
    moreover have "map fst kvs = map fst cs" using visit_all_kept [OF c(2)] by simp
    ultimately show ?thesis using c child_keywords(3) [OF assms(2)] by (auto simp: in_children intro!: shaped_update)
  next
    case False
    then have "m' = m" using v by (auto simp: visit_map_def split: option.splits gvalue.splits)
    then show ?thesis using False child_keywords(3) [OF assms(2)] by (auto simp: in_children)
  qed
qed

definition strict_schema :: "obj \<Rightarrow> bool" where
  "strict_schema m \<longleftrightarrow> (\<forall>node \<in> schema_nodes m. strict_node node)"

lemma strict_schemaI:
  assumes "strict_node m" "\<And>c. c \<in> set (children m) \<Longrightarrow> strict_schema c" shows "strict_schema m"
proof -
  have "node = m \<or> (\<exists>c \<in> set (children m). node \<in> schema_nodes c)" if "node \<in> schema_nodes m" for node
    using that by induction (auto intro: schema_nodes.intros)
  then show ?thesis using assms unfolding strict_schema_def by blast
qed

lemma projected_strict:
  "projectStrictNode n path node = Some (Inr m) \<Longrightarrow>
   strict_schema m \<and> map_of m ''type'' = map_of (drop_keywords node) ''type''"
proof (induction n arbitrary: path node m)
  case (Suc n)
  obtain h where h: "project_here path node = Inr h"
    "run_visits (visit_items (projectStrictNode n) path # map (visit_list (projectStrictNode n) path) list_keywords @
       map (visit_map (projectStrictNode n) path) map_keywords) h = Some (Inr m)" (is "run_visits ?vs h = _")
    using Suc.prems by (auto split: sum.splits)
  have "list_all2 (keeps_at strict_schema) ?vs child_keywords"
    unfolding child_keywords_def using Suc.IH keeps_items keeps_list keeps_map
    by (auto simp: list_all2_map1 intro!: list_all2_appendI list.rel_refl_strong)
  moreover have "distinct child_keywords" by (simp add: child_keywords_def list_keywords_def map_keywords_def)
  ultimately have m: "shaped h m" "\<forall>j. j \<notin> set child_keywords \<longrightarrow> map_of m j = map_of h j"
    "\<forall>k \<in> set child_keywords. \<forall>c \<in> set (children_at k m). strict_schema c"
    using run_visits_keep [OF _ _ h(2)] by blast+
  have "strict_node m" using shaped_strict [OF m(1) here_strict(1) [OF h(1)]] .
  then have "strict_schema m" by (rule strict_schemaI) (use m(3) in \<open>auto simp: children_def\<close>)
  then show ?case using m(2) here_strict(2) [OF h(1)] not_child_keywords(2) by simp
qed simp

subsection \<open>The projection ends\<close>

text \<open>
  The recursion visits the children of a schema and the branches that making a property nullable adds, which
  have no children. \<open>fits n\<close> says that the schemas are nested at most \<open>n\<close> deep, these branches left out.
\<close>

definition tiny :: "obj \<Rightarrow> bool" where
  "tiny m \<longleftrightarrow> (\<exists>ref. m = [(''$ref'', ref)]) \<or> m = [(''type'', GString ''null'')]"

primrec fits :: "nat \<Rightarrow> obj \<Rightarrow> bool" where
  "fits 0 = (\<lambda>m. \<forall>k \<in> set child_keywords. \<forall>c \<in> set (children_at k m). k \<noteq> ''properties'' \<and> tiny c)"
| "fits (Suc n) = (\<lambda>m. \<forall>k \<in> set child_keywords. \<forall>c \<in> set (children_at k m). k \<noteq> ''properties'' \<and> tiny c \<or> fits n c)"

definition children_from :: "obj \<Rightarrow> obj \<Rightarrow> bool" where
  "children_from m m' \<longleftrightarrow>
     (\<forall>k \<in> set child_keywords. \<forall>c \<in> set (children_at k m').
        k \<noteq> ''properties'' \<and> tiny c \<or>
        (\<exists>k' \<in> set child_keywords. c \<in> set (children_at k' m) \<and> (k = ''properties'' \<longleftrightarrow> k' = ''properties'')))"

lemma fits_from: "children_from m m' \<Longrightarrow> fits n m \<Longrightarrow> fits n m'"
  by (cases n) (fastforce simp: children_from_def)+

lemma from_trans: "children_from m m' \<Longrightarrow> children_from m' m'' \<Longrightarrow> children_from m m''"
proof -
  assume a: "children_from m m'" "children_from m' m''"
  show ?thesis unfolding children_from_def
  proof (intro ballI)
    fix k c assume k: "k \<in> set child_keywords" "c \<in> set (children_at k m'')"
    from a(2) k consider "k \<noteq> ''properties'' \<and> tiny c"
      | k' where "k' \<in> set child_keywords" "c \<in> set (children_at k' m')" "k = ''properties'' \<longleftrightarrow> k' = ''properties''"
      unfolding children_from_def by blast
    then show "k \<noteq> ''properties'' \<and> tiny c \<or>
      (\<exists>k' \<in> set child_keywords. c \<in> set (children_at k' m) \<and> (k = ''properties'' \<longleftrightarrow> k' = ''properties''))"
    proof cases
      case 2
      then show ?thesis using a(1) unfolding children_from_def by blast
    qed blast
  qed
qed

lemma from_same: "(\<And>k. k \<in> set child_keywords \<Longrightarrow> map_of m' k = map_of m k \<or> map_of m' k = None) \<Longrightarrow> children_from m m'"
proof -
  assume s: "\<And>k. k \<in> set child_keywords \<Longrightarrow> map_of m' k = map_of m k \<or> map_of m' k = None"
  have "c \<in> set (children_at k m)" if "k \<in> set child_keywords" "c \<in> set (children_at k m')" for k c
  proof -
    have "map_of m' k \<noteq> None" using that(2) by (auto simp: in_children)
    then have "children_at k m' = children_at k m" using s [OF that(1)] by (intro children_cong) auto
    then show ?thesis using that(2) by simp
  qed
  then show ?thesis unfolding children_from_def by blast
qed

lemma from_refl [simp]: "children_from m m"
  by (rule from_same) simp

lemma from_update: "k \<notin> set child_keywords \<Longrightarrow> children_from m (AList.update k v m)"
  by (rule from_same) auto

lemma keyword_ne: "''enum'' \<notin> set child_keywords" "''$ref'' \<notin> set child_keywords"
  by (auto simp: child_keywords_def list_keywords_def map_keywords_def)

lemma from_list:
  assumes "k \<in> set list_keywords" "\<And>c. GMap c \<in> set vs \<Longrightarrow> tiny c \<or> (\<exists>k' \<in> set list_keywords. c \<in> set (children_at k' m))"
    "\<And>j. j \<noteq> k \<Longrightarrow> map_of m' j = map_of m j \<or> map_of m' j = None" "map_of m' k = Some (GSlice vs)"
  shows "children_from m m'"
  unfolding children_from_def
proof (intro ballI)
  fix j c assume j: "j \<in> set child_keywords" "c \<in> set (children_at j m')"
  have p: "k' \<noteq> ''properties''" if "k' \<in> set list_keywords" for k' using that by (auto simp: list_keywords_def)
  show "j \<noteq> ''properties'' \<and> tiny c \<or>
    (\<exists>k' \<in> set child_keywords. c \<in> set (children_at k' m) \<and> (j = ''properties'' \<longleftrightarrow> k' = ''properties''))"
  proof (cases "j = k")
    case True
    then have "GMap c \<in> set vs" using j(2) assms(4) by (auto simp: in_children)
    then show ?thesis using assms(2) True p assms(1) child_keywords(2) by blast
  next
    case False
    then have "map_of m' j = map_of m j" using assms(3) [OF False] j(2) by (auto simp: in_children)
    then show ?thesis using j children_cong [of m' j m] by auto
  qed
qed

lemma in_list_children:
  "k \<in> set list_keywords \<Longrightarrow> map_of m k = Some (GSlice vs) \<Longrightarrow> GMap c \<in> set vs \<Longrightarrow> \<exists>k' \<in> set list_keywords. c \<in> set (children_at k' m)"
  by (rule bexI [of _ k]) (auto simp: in_children)

lemma list_keyword [simp]: "''anyOf'' \<in> set list_keywords" "''oneOf'' \<in> set list_keywords"
  by (simp_all add: list_keywords_def)

lemma from_union: "children_from node (projectStrictUnion node)"
proof (cases "\<exists>bs. map_of node ''oneOf'' = Some (GSlice bs)")
  case True
  then obtain bs where bs: "map_of node ''oneOf'' = Some (GSlice bs)" by blast
  let ?old = "case map_of node ''anyOf'' of Some (GSlice existing) \<Rightarrow> existing | _ \<Rightarrow> []"
  have u: "projectStrictUnion node = AList.update ''anyOf'' (GSlice (?old @ bs)) (AList.delete ''oneOf'' node)"
    by (simp add: projectStrictUnion_def Let_def bs split: option.split gvalue.split)
  show ?thesis
  proof (rule from_list [of "''anyOf''" "?old @ bs"])
    fix c assume "GMap c \<in> set (?old @ bs)"
    then show "tiny c \<or> (\<exists>k' \<in> set list_keywords. c \<in> set (children_at k' node))"
      using in_list_children [OF _ bs] in_list_children [of "''anyOf''" node] by (auto dest: sym split: option.splits gvalue.splits)
  qed (simp_all add: u)
next
  case False
  then have "projectStrictUnion node = node" by (auto simp: projectStrictUnion_def split: option.splits gvalue.splits)
  then show ?thesis by simp
qed

lemma from_enum: "children_from p (nullable_enum p)"
  using keyword_ne by (auto simp: nullable_enum_def from_update split: option.split gvalue.split)

lemma tiny_null: "null_schema = GMap c \<Longrightarrow> tiny c"
  by (auto simp: null_schema_def tiny_def)

lemma from_untyped: "children_from p (nullable_untyped p)"
proof (cases "\<exists>bs. map_of p ''anyOf'' = Some (GSlice bs)")
  case True
  then obtain bs where bs: "map_of p ''anyOf'' = Some (GSlice bs)" by blast
  have "children_from p (AList.update ''anyOf'' (GSlice (bs @ [null_schema])) p)"
    by (rule from_list [of "''anyOf''" "bs @ [null_schema]"]) (use in_list_children [OF _ bs] tiny_null in auto)
  then show ?thesis by (simp add: nullable_untyped_def bs)
next
  case False
  show ?thesis
  proof (cases "map_of p ''$ref''")
    case None
    then have "nullable_untyped p = p" using False by (auto simp: nullable_untyped_def split: option.splits gvalue.splits)
    then show ?thesis by simp
  next
    case (Some ref)
    have "nullable_untyped p = AList.update ''anyOf'' (GSlice [GMap [(''$ref'', ref)], null_schema]) (AList.delete ''$ref'' p)"
      using False Some by (auto simp: nullable_untyped_def split: option.splits gvalue.splits)
    moreover have "children_from p (AList.update ''anyOf'' (GSlice [GMap [(''$ref'', ref)], null_schema]) (AList.delete ''$ref'' p))"
      by (rule from_list [of "''anyOf''" "[GMap [(''$ref'', ref)], null_schema]"]) (auto simp: tiny_null, simp add: tiny_def)
    ultimately show ?thesis by simp
  qed
qed

lemma from_nullable: "children_from p (makeStrictNullable p)"
proof -
  let ?p = "nullable_enum (projectStrictUnion p)"
  have "children_from ?p (makeStrictNullable p)"
    by (auto simp: makeStrictNullable_def Let_def from_untyped not_child_keywords intro!: from_update split: option.split gvalue.split)
  then show ?thesis using from_trans from_union from_enum by meson
qed

lemma from_here: "children_from node (projectStrictUnion (projectStrictFormat (drop_keywords node)))"
proof -
  have "children_from node (drop_keywords node)" by (rule from_same) (simp add: dropped)
  moreover have "children_from (drop_keywords node) (projectStrictFormat (drop_keywords node))"
    by (rule from_same) (use not_child_keywords(3) in \<open>metis format_frame\<close>)
  ultimately show ?thesis using from_trans from_union by meson
qed

lemma fits_require: "fits n m \<Longrightarrow> fits n (require_all m)"
proof -
  assume f: "fits n m"
  have other: "children_at k (require_all m) = children_at k m" if "k \<in> set child_keywords" "k \<noteq> ''properties''" for k
    using that not_child_keywords(5) by (intro children_cong require_frame) auto
  have p: "\<exists>c0 \<in> set (children_at ''properties'' m). c = c0 \<or> c = makeStrictNullable c0"
    if c: "c \<in> set (children_at ''properties'' (require_all m))" for c
  proof -
    have "\<exists>ps. map_of m ''properties'' = Some (GMap ps)"
    proof (rule ccontr)
      assume n: "\<nexists>ps. map_of m ''properties'' = Some (GMap ps)"
      then have "require_all m = AList.delete ''required'' m" by (auto simp: require_all_def split: option.split gvalue.split)
      then show False using that n by (auto simp: in_children list_keywords_def)
    qed
    then obtain ps where ps: "map_of m ''properties'' = Some (GMap ps)" by blast
    then have "ps \<noteq> []" using that by (auto simp: in_children require_all_def list_keywords_def)
    then have "\<exists>kv \<in> set ps. GMap c = snd (nullable_member (required_names m) kv)"
      using in_children [of c "''properties''" "require_all m"] c ps by (auto simp: require_all_def list_keywords_def image_iff)
    then obtain kv where "kv \<in> set ps" "GMap c = snd (nullable_member (required_names m) kv)" by blast
    then have "\<exists>c0. snd kv = GMap c0 \<and> (c = c0 \<or> c = makeStrictNullable c0)"
      by (cases "snd kv") (auto simp: nullable_member_def split: if_splits)
    then show ?thesis using ps \<open>kv \<in> set ps\<close> by (force simp: in_children map_keywords_def)
  qed
  have pk: "''properties'' \<in> set child_keywords" by (simp add: child_keywords_def map_keywords_def)
  show ?thesis
  proof (cases n)
    case 0
    then have "children_at ''properties'' m = []" using f pk by (fastforce simp: set_empty [symmetric] simp del: set_empty)
    then have "children_at ''properties'' (require_all m) = []" using p by (fastforce simp: set_empty [symmetric] simp del: set_empty)
    then have "k \<noteq> ''properties'' \<and> tiny c" if "k \<in> set child_keywords" "c \<in> set (children_at k (require_all m))" for k c
      using that f other [OF that(1)] 0 by (cases "k = ''properties''") auto
    then show ?thesis using 0 by simp
  next
    case (Suc j)
    have "fits j c" if "c \<in> set (children_at ''properties'' (require_all m))" for c
      using p [OF that] f Suc pk fits_from [OF from_nullable] by fastforce
    then have "k \<noteq> ''properties'' \<and> tiny c \<or> fits j c"
      if "k \<in> set child_keywords" "c \<in> set (children_at k (require_all m))" for k c
      using that f other [OF that(1)] Suc by (cases "k = ''properties''") auto
    then show ?thesis using Suc by simp
  qed
qed

lemma fits_here:
  assumes "project_here path node = Inr h" "fits n node" shows "fits n h"
proof -
  let ?n = "projectStrictUnion (projectStrictFormat (drop_keywords node))"
  have f: "fits n ?n" using fits_from [OF from_here assms(2)] .
  show ?thesis
  proof (cases "h = ?n")
    case False
    then obtain c where c: "close_object path ?n = Inr c" "h = require_all c"
      using assms(1) by (auto simp: project_here_def Let_def projectStrictObject_def split: if_splits sum.splits)
    have "children_from ?n c" by (rule from_same) (use closed_frame [OF c(1)] not_child_keywords(4) in metis)
    then show ?thesis using fits_from f fits_require c(2) by blast
  qed (use f in simp)
qed

definition returns_at :: "(step list \<Rightarrow> obj \<Rightarrow> (strict_error, obj) result option) \<Rightarrow> (obj \<Rightarrow> (strict_error, obj) result option) \<Rightarrow> string \<Rightarrow> bool" where
  "returns_at project visit k \<longleftrightarrow>
     (\<forall>m. (\<forall>c \<in> set (children_at k m). \<forall>path. project path c \<noteq> None) \<longrightarrow> visit m \<noteq> None)"

lemma visit_all_returns:
  "(\<forall>k c. GMap c \<in> snd ` set kvs \<longrightarrow> visit k c \<noteq> None) \<Longrightarrow> visit_all visit kvs \<noteq> None"
proof (induction kvs)
  case (Cons kv kvs)
  then show ?case by (cases kv; cases "snd kv") (auto split: option.splits sum.splits)
qed simp

lemma returns_visits:
  "returns_at project (visit_items project path) ''items''"
  "k \<in> set list_keywords \<Longrightarrow> returns_at project (visit_list project path k) k"
  "k \<in> set map_keywords \<Longrightarrow> returns_at project (visit_map project path k) k"
proof -
  show "returns_at project (visit_items project path) ''items''"
    by (auto simp: returns_at_def visit_items_def in_children list_keywords_def map_keywords_def split: option.splits gvalue.splits sum.splits)
  show "returns_at project (visit_list project path k) k" if k: "k \<in> set list_keywords"
    unfolding returns_at_def
  proof (intro allI impI)
    fix m assume c: "\<forall>c \<in> set (children_at k m). \<forall>path. project path c \<noteq> None"
    have "visit_all (\<lambda>i. project (path @ [Branch k i])) (enumerate 0 bs) \<noteq> None" if "map_of m k = Some (GSlice bs)" for bs
      using c that k by (intro visit_all_returns) (auto simp: in_children set_zip in_set_enumerate_eq)
    then show "visit_list project path k m \<noteq> None"
      by (auto simp: visit_list_def split: option.splits gvalue.splits sum.splits)
  qed
  show "returns_at project (visit_map project path k) k" if k: "k \<in> set map_keywords"
    unfolding returns_at_def
  proof (intro allI impI)
    fix m assume c: "\<forall>c \<in> set (children_at k m). \<forall>path. project path c \<noteq> None"
    have "visit_all (\<lambda>name. project (path @ [Member k name])) cs \<noteq> None" if "map_of m k = Some (GMap cs)" for cs
      using c that k by (intro visit_all_returns) (auto simp: in_children)
    then show "visit_map project path k m \<noteq> None"
      by (auto simp: visit_map_def split: option.splits gvalue.splits sum.splits)
  qed
qed

lemma run_visits_return:
  assumes "list_all2 (\<lambda>v k. keeps_at (\<lambda>c. True) v k \<and> returns_at project v k) vs ks" "distinct ks"
    "\<forall>k \<in> set ks. \<forall>c \<in> set (children_at k m). \<forall>path. project path c \<noteq> None"
  shows "run_visits vs m \<noteq> None"
  using assms
proof (induction vs ks arbitrary: m rule: list_all2_induct)
  case (Cons v vs k ks)
  then obtain r where r: "v m = Some r" by (fastforce simp: returns_at_def)
  show ?case
  proof (cases r)
    case (Inr m1)
    then have "\<forall>j. j \<noteq> k \<longrightarrow> map_of m1 j = map_of m j" using Cons.hyps(1) r by (simp add: keeps_at_def)
    then have "children_at j m1 = children_at j m" if "j \<in> set ks" for j
      using that Cons.prems(1) by (intro children_cong) auto
    then show ?thesis using Cons.IH [of m1] Cons.prems r Inr by simp
  qed (use r in simp)
qed simp

lemma project_returns:
  assumes "\<And>h. project_here path node = Inr h \<Longrightarrow> \<forall>k \<in> set child_keywords. \<forall>c \<in> set (children_at k h). \<forall>path. projectStrictNode n path c \<noteq> None"
  shows "projectStrictNode (Suc n) path node \<noteq> None"
proof (cases "project_here path node")
  case (Inr h)
  let ?vs = "visit_items (projectStrictNode n) path # map (visit_list (projectStrictNode n) path) list_keywords @
       map (visit_map (projectStrictNode n) path) map_keywords"
  have "list_all2 (\<lambda>v k. keeps_at (\<lambda>c. True) v k \<and> returns_at (projectStrictNode n) v k) ?vs child_keywords"
    unfolding child_keywords_def using keeps_items keeps_list keeps_map returns_visits
    by (auto simp: list_all2_map1 intro!: list_all2_appendI list.rel_refl_strong)
  moreover have "distinct child_keywords" by (simp add: child_keywords_def list_keywords_def map_keywords_def)
  ultimately have "run_visits ?vs h \<noteq> None" using assms [OF Inr] by (rule run_visits_return)
  then show ?thesis by (simp only: projectStrictNode.simps Inr sum.case not_False_eq_True)
qed simp

lemma tiny_returns: "tiny m \<Longrightarrow> projectStrictNode (Suc n) path m \<noteq> None"
  by (rule project_returns)
    (auto simp: tiny_def project_here_def Let_def drop_keywords_def unsupported_keywords_def projectStrictFormat_def projectStrictUnion_def
      includesSchemaType_def in_children child_keywords_def list_keywords_def map_keywords_def)

lemma fits_returns: "fits n m \<Longrightarrow> projectStrictNode (n + 2) path m \<noteq> None"
proof (induction n arbitrary: m path)
  case 0
  have "projectStrictNode (Suc (Suc 0)) path m \<noteq> None"
  proof (rule project_returns)
    fix h assume "project_here path m = Inr h"
    then have "fits 0 h" using fits_here 0 by blast
    then show "\<forall>k \<in> set child_keywords. \<forall>c \<in> set (children_at k h). \<forall>path. projectStrictNode (Suc 0) path c \<noteq> None"
      using tiny_returns by simp
  qed
  then show ?case by (simp add: numeral_2_eq_2)
next
  case (Suc n)
  have "projectStrictNode (Suc (n + 2)) path m \<noteq> None"
  proof (rule project_returns)
    fix h assume "project_here path m = Inr h"
    then have "fits (Suc n) h" using fits_here Suc.prems by blast
    then show "\<forall>k \<in> set child_keywords. \<forall>c \<in> set (children_at k h). \<forall>path. projectStrictNode (n + 2) path c \<noteq> None"
      using tiny_returns [of _ "n + 1"] Suc.IH by fastforce
  qed
  then show ?case by simp
qed

lemma entry_size: "(k, v) \<in> set m \<Longrightarrow> size v < size (GMap m)"
  by (induction m) auto

lemma elem_size: "v \<in> set vs \<Longrightarrow> size v < size (GSlice vs)"
  by (induction vs) auto

lemma child_size: "c \<in> set (children_at k m) \<Longrightarrow> size (GMap c) < size (GMap m)"
proof -
  assume "c \<in> set (children_at k m)"
  then consider "map_of m k = Some (GMap c)" | kvs j where "map_of m k = Some (GMap kvs)" "(j, GMap c) \<in> set kvs"
    | vs where "map_of m k = Some (GSlice vs)" "GMap c \<in> set vs"
    by (auto simp: in_children)
  then show ?thesis
    by cases (meson entry_size elem_size map_of_SomeD less_trans)+
qed

lemma size_fits: "size (GMap m) \<le> n \<Longrightarrow> fits n m"
proof (induction n arbitrary: m)
  case (Suc n)
  have "fits n c" if "c \<in> set (children_at k m)" for k c
    using child_size [OF that] Suc.prems by (intro Suc.IH) linarith
  then show ?case by simp
qed simp

text \<open>
  Property C38. The projection of a schema ends, with an error or with an object schema that keeps to the strict
  subset wherever items, branch lists, properties and definitions lead: no unsupported keyword and no list of
  \<open>oneOf\<close> branches is left, a format is a supported one and on a string, and every object is closed and
  requires all its properties.
\<close>

theorem projected_schema_is_strict:
  "\<exists>r. projectStrictSchema schema = Some r \<and>
     (\<forall>doc. r = Inr doc \<longrightarrow> includesSchemaType doc ''object'' \<and> (\<forall>node \<in> schema_nodes doc. strict_node node))"
proof -
  have "projectStrictSchema schema \<noteq> None"
    using fits_returns [OF size_fits [OF order_refl]] by (auto simp: projectStrictSchema_def Let_def split: sum.split option.split)
  then obtain r where r: "projectStrictSchema schema = Some r" by blast
  have "includesSchemaType doc ''object'' \<and> strict_schema doc" if made: "r = Inr doc" for doc
  proof (cases "trim_space schema = []")
    case True
    then have doc: "doc = [(''type'', GString ''object''), (''additionalProperties'', GBool False)]"
      using r made by (simp add: projectStrictSchema_def)
    have "strict_node doc"
      by (simp add: doc strict_node_def unsupported_keywords_def includesSchemaType_def closed_object_def)
    moreover have "children doc = []"
      by (simp add: doc children_def children_at_def child_keywords_def list_keywords_def map_keywords_def)
    ultimately show ?thesis using strict_schemaI [of doc] by (simp add: doc includesSchemaType_def)
  next
    case False
    then obtain root where root: "includesSchemaType root ''object''" "projectStrictNode (size (GMap root) + 2) [] root = Some (Inr doc)"
      using r made False by (auto simp: projectStrictSchema_def Let_def simp del: projectStrictNode.simps split: if_splits sum.splits option.splits)
    have d: "map_of (drop_keywords root) ''type'' = map_of root ''type''" by (simp add: dropped unsupported_keywords_def)
    show ?thesis using projected_strict [OF root(2)] includes_cong [of doc root] root(1) d by simp
  qed
  then show ?thesis using r unfolding strict_schema_def by blast
qed

subsection \<open>Canonical payloads\<close>































subsection \<open>What canonicalization removes\<close>





text \<open>A value up to what is inside it.\<close>

fun outline :: "gvalue \<Rightarrow> gvalue" where
  "outline (GMap m) = GMap []"
| "outline (GSlice vs) = GSlice (replicate (length vs) GNil)"
| "outline v = v"







lemma outline_null: "outline v = GNil \<longleftrightarrow> v = GNil"
  by (cases v) simp_all








subsection \<open>Examples\<close>


lemma example_projected:
  "projectStrictSchema ''{\"type\":\"object\",\"properties\":{\"a\":{\"type\":\"string\"}}}'' =
   Some (Inr [(''properties'', GMap [(''a'', GMap [(''type'', GSlice [GString ''string'', GString ''null''])])]), (''type'', GString ''object''),
     (''additionalProperties'', GBool False), (''required'', GSlice [GString ''a''])])"
  by code_simp


theorem projected_schema_is_strict_witness:
  "\<exists>doc. projectStrictSchema ''{\"type\":\"object\",\"properties\":{\"a\":{\"type\":\"string\"}}}'' = Some (Inr doc) \<and>
     map_of doc ''required'' = Some (GSlice [GString ''a'']) \<and> strict_node doc"
  using projected_schema_is_strict [of "''{\"type\":\"object\",\"properties\":{\"a\":{\"type\":\"string\"}}}''"] example_projected
  by (auto intro: root_node)


end
