(* ===== verification/Spec2Isabelle.thy ===== *)
theory Spec2Isabelle
  imports History Session_Store Run_Log Call_Safety Loop_Answers Record_Activity Invocation_Journal Provider_Names Anthropic_Stream Bedrock_Response Strict_Schema
begin

text \<open>
  A verification library for the runtime of goa-ai.

  The program. An agent run is a workflow. Its loop asks a planner for a result, applies policy to the tool
  calls of the result, executes the admitted ones, records one result per call and asks the planner again,
  until the planner answers, a limit ends the run, or the run is suspended into a checkpoint that a later
  continuation restores. A planner calls language models through provider adapters that turn SDK events into
  chunks and responses; what it returns is matched against the responses it received, and the matching one
  becomes part of the transcript. Transcripts are encoded, appended to a run log and replayed from it; run
  metadata and suspensions live in a session store. Reminders and history policies edit the transcript before
  a planner call. Tools may live behind a registry, whose replicas share an admission catalog and one record
  per routed call in Redis.

  Theories and sources.

    \<open>Go_Prelude\<close>: results, maps, time and decimals of Go, loops that stop at an error, and the locales
    \<open>kept_invariant\<close> and \<open>stable_fact\<close> for sequences of operations.

    \<open>Json_Text\<close>, \<open>Json_Members\<close>: what the sources use of \<open>unicode/utf8\<close>, \<open>encoding/base64\<close> and
    \<open>encoding/json\<close>. The lemmas show that printed documents parse back.

    \<open>Model_Messages\<close>, \<open>Transcript\<close>: roles, parts, messages and their copies (\<open>runtime/agent/model/model.go\<close>,
    \<open>clone.go\<close>) and the two transcript validators, with \<open>well_formed\<close> as their declarative counterpart.

    \<open>Message_Json\<close>: encoding of messages and transcript deltas (\<open>model/json.go\<close>, \<open>rawjson\<close>,
    \<open>transcript/runlog_delta.go\<close>); the main result is the round trip of canonical messages.

    \<open>Response_Contract\<close>: validation of responses and chunks, tool input contracts, the token estimator
    (\<open>model/validation.go\<close>, \<open>model.go\<close>).

    \<open>Invocation_Journal\<close>: the candidate responses of a planner activity and the selection of one of them
    (\<open>runtime/model_invocation_journal.go\<close>, \<open>model_wrapper.go\<close>).

    \<open>Model_Streams\<close>, \<open>Anthropic_Stream\<close>, \<open>Bedrock_Stream\<close>, \<open>Bedrock_Response\<close>: the event processors of two
    provider adapters (\<open>features/model/anthropic/stream.go\<close>, \<open>bedrock/stream.go\<close>) under the contract of the
    locale \<open>chunk_processor\<close>.

    \<open>Strict_Schema\<close>: projection of schemas into the strict subset of OpenAI and its inverse on payloads
    (\<open>features/model/openai/strict_schema.go\<close>). \<open>Provider_Names\<close>: provider tool names and tool-use
    identifiers (\<open>features/model/toolname\<close>, \<open>vertex\<close>, \<open>internal/tooluseid\<close>).

    \<open>Reminder\<close>, \<open>History\<close>: the reminder engine and its injection (\<open>runtime/agent/reminder\<close>) and the two
    history policies (\<open>runtime/agent/runtime/history.go\<close>).

    \<open>Session_Store\<close>, \<open>Run_Log\<close>, \<open>Record_Activity\<close>: the in-memory session store with prompt attribution, the
    in-memory run log with paging, and the activity that writes both, with transcript replay
    (\<open>session/inmem\<close>, \<open>runlog/inmem\<close>, \<open>runtime/hook_activity.go\<close>, \<open>transcript/runlog_replay.go\<close>).

    \<open>Tool_Policy\<close>, \<open>Workflow_Step\<close>, \<open>Step_Contract\<close>, \<open>Workflow_Loop\<close>: policy and caps, the preparation and
    pairing of calls and results, and the loop with suspension and continuation
    (\<open>features/policy/basic\<close>, \<open>runtime/workflow_policy.go\<close>, \<open>workflow_step.go\<close>, \<open>workflow_loop.go\<close>,
    \<open>workflow_suspension.go\<close>, \<open>workflow_await_queue.go\<close>). \<open>Loop_Budget\<close>, \<open>Loop_Answers\<close> and
    \<open>Loop_Clarification\<close> hold the invariants of the loop.

    \<open>Registry_Catalog\<close>, \<open>Call_Record\<close>, \<open>Call_Example\<close>, \<open>Call_Safety\<close>: the admission catalog with health
    tracking, and the Lua scripts on the record of a routed call (\<open>registry/catalog.go\<close>,
    \<open>health_tracker.go\<close>, \<open>call_decision.go\<close>, \<open>call_admission.go\<close>, \<open>bounded_publish.go\<close>).

  Conventions. A function that returns a value and an error is a sum, a nil pointer an option, a Go string a
  list of bytes; state is passed explicitly and a method that holds its mutex is one operation. Operations are
  data types (\<open>store_op\<close>, \<open>call_op\<close>, \<open>client_op\<close>, \<open>log_op\<close>), and an invariant is proved over every list of
  them by an interpretation of \<open>kept_invariant\<close> or \<open>stable_fact\<close>. Other locales are \<open>pager\<close> (a paged read
  returns the contents; both listings of the run log), \<open>run_reader\<close> and \<open>linked_run_reader\<close> (prompt
  attribution over a store; the in-memory store), \<open>policy_engine\<close> (the basic engine) and \<open>chunk_processor\<close>.
  Records of arguments (\<open>history_env\<close>, \<open>catalog_env\<close>, \<open>policy_env\<close>, \<open>record_env\<close>, \<open>loop_env\<close>) hold what is not
  under \<open>src/\<close> or not translated: models, planners, tools, hashes, JSON Schema, clocks, subscribers, storage of
  payloads. Provider events are data types with the fields the code reads, and \<open>live\<close> says how long the context
  of a stream lasts.
\<close>

text \<open>
  Bounds, fuel and termination. The JSON parser takes fuel, for which the length of the text is enough because
  every nested call consumes a byte. The projection of a schema takes fuel, for which the size of the document
  and two is enough; that it returns is part of its property. Expansion of schema references ends because a
  reference is followed once on a path. Prompt attribution, paging and replay are partial functions that are
  proved to return. A run of the loop is driven by lists of inputs, one per iteration or continuation. Limits
  and cursors of the run log and stream counters with a width in the code are kept at it; token counts, health
  epochs, sequence numbers and turn counters are unbounded.

  Side conditions. They are stated with each property; those worth knowing are: the cap of a reminder holds
  until it is removed or its run is cleared, and not for safety reminders; trimming and compression keep a
  transcript valid only for responses of one message and answers that stand alone; prompt attribution is
  complete only when links lead to stored runs, which an upsert that moves a run to another session can
  violate; the stream contracts allow tool payloads that are JSON but not objects; the answer to a
  missing-fields question leads back to the question while the limit on consecutive failures leaves another
  failure.

  Simplifications. The nesting limit of 10000 of \<open>encoding/json\<close> is left out. Values of type \<open>any\<close> are trees
  without byte slices. The JSON text of a catalog entry is the entry itself, so that invalid UTF-8, omitted
  members and unknown fields of stored entries are not seen. In the loop, publication of events, appending to
  the durable transcript and their errors are left out, among them the transcript entry of a clarification
  answer and the events of denied calls. Members of Go maps are visited in the order of a list where only the
  choice among errors depends on it.

  Not modelled. Engine adapters, activities, timers and cancellation (goroutines and the Temporal SDK);
  registration tables and clients; prompts of nested agents; hook codecs and subscribers; telemetry; the
  memory and prompt stores; structured completions; the request side of the provider adapters and the OpenAI,
  Vertex and gateway streams; the MongoDB and Pulse stores; the registry service and its transport; the MCP
  runtime; the code generators and the design language. \<open>PROJECT.json\<close> lists each with the reason.
\<close>

end
